(* ===== verification/Prelude.thy ===== *)
theory Prelude
  imports Main "HOL-Library.Multiset" "HOL-Library.Word" "HOL-Library.Char_ord" "HOL-Library.List_Lexorder"
begin

text \<open>
  Shared layer of the development: the Go strings, integers, slices and maps
  that the components use, the comparator sorts (\<open>sort.Slice\<close>,
  \<open>sort.SliceStable\<close>, \<open>sort.Ints\<close>, \<open>sort.Strings\<close>), the collections of
  facts the proofs are driven by, and the lemmas more than one component needs.

  A Go string is a list of bytes (\<open>string\<close>); the white-space and case
  functions below follow the ASCII part of the \<open>strings\<close> package.  A Go \<open>int\<close>
  is an \<open>int\<close> where the code keeps it in a small range, and a word where the
  width matters.  A Go map whose iteration order is visible is iterated along
  a list of its keys that the model takes as an argument: Go leaves that order
  unspecified, and the properties hold for every order.
\<close>

named_theorems go_string \<open>laws of the Go string operations\<close>
named_theorems slice_laws \<open>laws of slices, deduplication and sorting\<close>

type_synonym byte = "8 word"
type_synonym bytes = "byte list"
type_synonym u64 = "64 word"
type_synonym u32 = "32 word"
type_synonym u16 = "16 word"
type_synonym go_int = int

subsection \<open>Integers and their decimal text\<close>

definition is_digit :: "char \<Rightarrow> bool" where
  "is_digit c = (CHR ''0'' \<le> c \<and> c \<le> CHR ''9'')"

definition char_between :: "char \<Rightarrow> char \<Rightarrow> char \<Rightarrow> bool" where
  "char_between lo hi c = (lo \<le> c \<and> c \<le> hi)"

definition is_letter :: "char \<Rightarrow> bool" where
  "is_letter c = (char_between (CHR ''a'') (CHR ''z'') c \<or> char_between (CHR ''A'') (CHR ''Z'') c)"

definition digit_val :: "char \<Rightarrow> nat" where
  "digit_val c = of_char c - 48"

definition digit_char :: "nat \<Rightarrow> char" where
  "digit_char d = char_of (48 + d)"

fun digits_val :: "nat \<Rightarrow> string \<Rightarrow> nat option" where
  "digits_val acc [] = Some acc"
| "digits_val acc (c # cs) =
     (if is_digit c then digits_val (10 * acc + digit_val c) cs else None)"

definition max_int64 :: int where "max_int64 = 9223372036854775807"
definition min_int64 :: int where "min_int64 = - 9223372036854775808"

text \<open>Integer division and remainder, truncated toward zero.\<close>

definition go_div :: "int \<Rightarrow> int \<Rightarrow> int" where
  "go_div a b = sgn a * sgn b * (\<bar>a\<bar> div \<bar>b\<bar>)"

definition go_mod :: "int \<Rightarrow> int \<Rightarrow> int" where
  "go_mod a b = a - b * go_div a b"

text \<open>\<open>strconv.Atoi\<close>: an optional sign, then at least one decimal digit, in int64 range.\<close>

definition atoi :: "string \<Rightarrow> int option" where
  "atoi s =
     (let (neg, ds) = (case s of
             [] \<Rightarrow> (False, [])
           | c # cs \<Rightarrow> if c = CHR ''-'' then (True, cs)
                       else if c = CHR ''+'' then (False, cs) else (False, s))
      in if ds = [] then None
         else (case digits_val 0 ds of
                 None \<Rightarrow> None
               | Some n \<Rightarrow>
                   (let v = (if neg then - int n else int n)
                    in if min_int64 \<le> v \<and> v \<le> max_int64 then Some v else None)))"

fun nat_digits :: "nat \<Rightarrow> string" where
  "nat_digits n = (if n < 10 then [digit_char n] else nat_digits (n div 10) @ [digit_char (n mod 10)])"

declare nat_digits.simps [simp del]

definition itoa :: "int \<Rightarrow> string" where
  "itoa i = (if i < 0 then CHR ''-'' # nat_digits (nat (- i)) else nat_digits (nat i))"

subsection \<open>The strings package\<close>

definition has_prefix :: "string \<Rightarrow> string \<Rightarrow> bool" where
  "has_prefix s p = (take (length p) s = p)"

definition has_suffix :: "string \<Rightarrow> string \<Rightarrow> bool" where
  "has_suffix s p = has_prefix (rev s) (rev p)"

definition trim_prefix :: "string \<Rightarrow> string \<Rightarrow> string" where
  "trim_prefix s p = (if has_prefix s p then drop (length p) s else s)"

definition trim_suffix :: "string \<Rightarrow> string \<Rightarrow> string" where
  "trim_suffix s p = (if has_suffix s p then take (length s - length p) s else s)"

text \<open>\<open>strings.Index\<close> (\<open>None\<close> for -1) and \<open>strings.Contains\<close>.\<close>

fun index_str :: "string \<Rightarrow> string \<Rightarrow> nat option" where
  "index_str [] p = (if p = [] then Some 0 else None)"
| "index_str (c # cs) p =
     (if has_prefix (c # cs) p then Some 0 else map_option Suc (index_str cs p))"

definition contains_str :: "string \<Rightarrow> string \<Rightarrow> bool" where
  "contains_str s p = (index_str s p \<noteq> None)"

definition contains_char :: "string \<Rightarrow> char \<Rightarrow> bool" where
  "contains_char s c = (c \<in> set s)"

text \<open>\<open>strings.Split\<close> on a one-byte separator: always at least one piece.\<close>

fun split_on :: "char \<Rightarrow> string \<Rightarrow> string list" where
  "split_on sep [] = [[]]"
| "split_on sep (c # cs) =
     (if c = sep then [] # split_on sep cs
      else (case split_on sep cs of [] \<Rightarrow> [[c]] | p # ps \<Rightarrow> (c # p) # ps))"

text \<open>\<open>strings.Cut\<close> at the first occurrence of a byte or of a string.\<close>

definition cut_char :: "char \<Rightarrow> string \<Rightarrow> string \<times> string \<times> bool" where
  "cut_char sep s =
     (let a = takeWhile (\<lambda>c. c \<noteq> sep) s
      in if length a < length s then (a, drop (Suc (length a)) s, True) else (s, [], False))"

definition cut_str :: "string \<Rightarrow> string \<Rightarrow> string \<times> string \<times> bool" where
  "cut_str sep s = (case index_str s sep of
     Some i \<Rightarrow> (take i s, drop (i + length sep) s, True)
   | None \<Rightarrow> (s, [], False))"

fun join_str :: "string \<Rightarrow> string list \<Rightarrow> string" where
  "join_str sep [] = []"
| "join_str sep [s] = s"
| "join_str sep (s # t # ts) = s @ sep @ join_str sep (t # ts)"

definition is_space :: "char \<Rightarrow> bool" where
  "is_space c = (c \<in> {CHR '' '', CHR 0x09, CHR 0x0A, CHR 0x0B, CHR 0x0C, CHR 0x0D})"

definition trim_right_by :: "(char \<Rightarrow> bool) \<Rightarrow> string \<Rightarrow> string" where
  "trim_right_by p s = rev (dropWhile p (rev s))"

definition trim_space :: "string \<Rightarrow> string" where
  "trim_space s = trim_right_by is_space (dropWhile is_space s)"

text \<open>\<open>strings.FieldsFunc\<close>: the maximal runs of bytes that are no separator.\<close>

fun fields_acc :: "(char \<Rightarrow> bool) \<Rightarrow> string \<Rightarrow> string \<Rightarrow> string list" where
  "fields_acc sep cur [] = (if cur = [] then [] else [rev cur])"
| "fields_acc sep cur (c # cs) =
     (if sep c then (if cur = [] then fields_acc sep [] cs else rev cur # fields_acc sep [] cs)
      else fields_acc sep (c # cur) cs)"

definition fields_by :: "(char \<Rightarrow> bool) \<Rightarrow> string \<Rightarrow> string list" where
  "fields_by sep s = fields_acc sep [] s"

definition split_fields :: "string \<Rightarrow> string list" where
  "split_fields = fields_by is_space"

definition lower_char :: "char \<Rightarrow> char" where
  "lower_char c = (if CHR ''A'' \<le> c \<and> c \<le> CHR ''Z'' then char_of (of_char c + 32 :: nat) else c)"

definition upper_char :: "char \<Rightarrow> char" where
  "upper_char c = (if CHR ''a'' \<le> c \<and> c \<le> CHR ''z'' then char_of (of_char c - 32 :: nat) else c)"

definition to_lower :: "string \<Rightarrow> string" where
  "to_lower = map lower_char"

definition to_upper :: "string \<Rightarrow> string" where
  "to_upper = map upper_char"

definition equal_fold :: "string \<Rightarrow> string \<Rightarrow> bool" where
  "equal_fold a b = (to_lower a = to_lower b)"

subsection \<open>Slices\<close>

text \<open>A slice read: \<open>None\<close> is the index-out-of-range panic.\<close>

definition get_at :: "'a list \<Rightarrow> nat \<Rightarrow> 'a option" where
  "get_at xs i = (if i < length xs then Some (xs ! i) else None)"

text \<open>The slice expression \<open>xs[i:j]\<close>: \<open>None\<close> is the slice-bounds panic.\<close>

definition slice :: "'a list \<Rightarrow> nat \<Rightarrow> nat \<Rightarrow> 'a list option" where
  "slice xs i j = (if i \<le> j \<and> j \<le> length xs then Some (take (j - i) (drop i xs)) else None)"

text \<open>\<open>copy(dst[off:], src)\<close> inside a slice that has room for it.\<close>

definition put :: "nat \<Rightarrow> 'a list \<Rightarrow> 'a list \<Rightarrow> 'a list" where
  "put off src dst = take off dst @ take (length dst - off) src @ drop (off + length src) dst"

text \<open>The \<open>seen\<close>-map idiom: keep the first occurrence of every value.\<close>

fun dedup_from :: "'a list \<Rightarrow> 'a list \<Rightarrow> 'a list" where
  "dedup_from seen [] = []"
| "dedup_from seen (x # xs) =
     (if List.member seen x then dedup_from seen xs else x # dedup_from (x # seen) xs)"

definition dedup :: "'a list \<Rightarrow> 'a list" where
  "dedup = dedup_from []"

subsection \<open>Comparator sorts\<close>

text \<open>
  \<open>sort.SliceStable\<close> is determined by its comparator; \<open>sort.Slice\<close> is so wherever
  elements the comparator does not separate are equal, and otherwise may return
  any ordering of them: the model returns the stable one.
\<close>

fun insert_by :: "('a \<Rightarrow> 'a \<Rightarrow> bool) \<Rightarrow> 'a \<Rightarrow> 'a list \<Rightarrow> 'a list" where
  "insert_by lt x [] = [x]"
| "insert_by lt x (y # ys) = (if lt y x then y # insert_by lt x ys else x # y # ys)"

fun sort_by :: "('a \<Rightarrow> 'a \<Rightarrow> bool) \<Rightarrow> 'a list \<Rightarrow> 'a list" where
  "sort_by lt [] = []"
| "sort_by lt (x # xs) = insert_by lt x (sort_by lt xs)"

subsection \<open>Laws of truncated division\<close>

lemma go_div_nonneg: "0 \<le> a \<Longrightarrow> 0 < b \<Longrightarrow> go_div a b = a div b"
  by (cases "a = 0") (simp_all add: go_div_def)

lemma go_div_neg: "0 < b \<Longrightarrow> go_div (- a) b = - go_div a b"
  by (simp add: go_div_def sgn_minus)

lemma go_div_bounds_nonneg: "0 \<le> a \<Longrightarrow> 0 < b \<Longrightarrow> 0 \<le> go_div a b \<and> go_div a b \<le> a"
  using zdiv_mono2 [of a 1 b] by (simp add: go_div_nonneg pos_imp_zdiv_nonneg_iff)

lemma go_div_between: "0 < b \<Longrightarrow> min 0 a \<le> go_div a b \<and> go_div a b \<le> max 0 a"
  using go_div_bounds_nonneg [of a b] go_div_bounds_nonneg [of "- a" b] go_div_neg [of b a]
  by (cases "0 \<le> a") auto

lemma go_mod_nonneg: "0 \<le> a \<Longrightarrow> 0 < b \<Longrightarrow> go_mod a b = a mod b"
  by (simp add: go_mod_def go_div_nonneg minus_mult_div_eq_mod)

subsection \<open>Laws of slices and of the \<open>seen\<close> idiom\<close>

lemma length_put [slice_laws, simp]: "length (put off src dst) = length dst"
  by (simp add: put_def min_def)

lemma dedup_from_set [slice_laws]: "set (dedup_from seen xs) = set xs - set seen"
  by (induction seen xs rule: dedup_from.induct) auto

lemma dedup_from_distinct [slice_laws]: "distinct (dedup_from seen xs)"
  by (induction seen xs rule: dedup_from.induct) (auto simp: dedup_from_set)

lemma set_dedup [slice_laws, simp]: "set (dedup xs) = set xs"
  by (simp add: dedup_def dedup_from_set)

lemma distinct_dedup [slice_laws, simp]: "distinct (dedup xs)"
  by (simp add: dedup_def dedup_from_distinct)

lemma dedup_from_id: "distinct xs \<Longrightarrow> set xs \<inter> set seen = {} \<Longrightarrow> dedup_from seen xs = xs"
  by (induction seen xs rule: dedup_from.induct) auto

lemma dedup_id [slice_laws]: "distinct xs \<Longrightarrow> dedup xs = xs"
  by (simp add: dedup_def dedup_from_id)

lemma slice_Some_iff [slice_laws]:
  "slice xs i j = Some ys \<longleftrightarrow> i \<le> j \<and> j \<le> length xs \<and> ys = take (j - i) (drop i xs)"
  by (auto simp: slice_def)

lemma slice_length [slice_laws]: "slice xs i j = Some ys \<Longrightarrow> length ys = j - i"
  by (auto simp: slice_def split: if_splits)

lemma get_at_Some_iff [slice_laws]: "get_at xs i = Some x \<longleftrightarrow> i < length xs \<and> x = xs ! i"
  by (auto simp: get_at_def)

subsection \<open>Laws of the string operations\<close>

lemma split_on_not_Nil [go_string, simp]: "split_on sep s \<noteq> []"
  by (induction s) (auto split: list.splits)

lemma split_on_no_sep: "p \<in> set (split_on sep s) \<Longrightarrow> sep \<notin> set p"
proof (induction s arbitrary: p)
  case (Cons c cs)
  then show ?case
    by (cases "split_on sep cs") (auto split: if_splits)
qed simp

lemma join_split_on [go_string]: "join_str [sep] (split_on sep s) = s"
proof (induction s)
  case (Cons c cs)
  then show ?case
    by (cases "split_on sep cs"; cases "tl (split_on sep cs)") auto
qed simp

lemma split_on_absent: "sep \<notin> set p \<Longrightarrow> split_on sep p = [p]"
  by (induction p) auto

lemma split_on_append_sep: "sep \<notin> set p \<Longrightarrow> split_on sep (p @ sep # r) = p # split_on sep r"
  by (induction p) auto

lemma split_on_join [go_string]:
  "ps \<noteq> [] \<Longrightarrow> (\<And>p. p \<in> set ps \<Longrightarrow> sep \<notin> set p) \<Longrightarrow> split_on sep (join_str [sep] ps) = ps"
proof (induction ps rule: list_nonempty_induct)
  case (single p)
  then show ?case by (simp add: split_on_absent)
next
  case (cons p ps)
  then obtain q qs where "ps = q # qs" by (cases ps) auto
  with cons show ?case by (simp add: split_on_append_sep)
qed

lemma cut_char_found [go_string]: "cut_char sep s = (a, b, True) \<Longrightarrow> s = a @ [sep] @ b \<and> sep \<notin> set a"
proof -
  assume *: "cut_char sep s = (a, b, True)"
  then have a: "a = takeWhile (\<lambda>c. c \<noteq> sep) s" and len: "length a < length s"
    and b: "b = drop (Suc (length a)) s"
    by (auto simp: cut_char_def Let_def split: if_splits)
  have "s ! length a = sep"
    using a len nth_length_takeWhile [of "\<lambda>c. c \<noteq> sep" s] by simp
  moreover have "s = take (length a) s @ s ! length a # drop (Suc (length a)) s"
    using len by (simp add: id_take_nth_drop)
  moreover have "take (length a) s = a"
    by (simp add: a takeWhile_eq_take [symmetric])
  moreover have "sep \<notin> set a"
    using a by (auto dest: set_takeWhileD)
  ultimately show ?thesis using b by simp
qed

lemma cut_char_absent [go_string]: "cut_char sep s = (a, b, False) \<Longrightarrow> a = s \<and> b = [] \<and> sep \<notin> set s"
proof -
  assume *: "cut_char sep s = (a, b, False)"
  then have ab: "a = s" "b = []" and len: "\<not> length (takeWhile (\<lambda>c. c \<noteq> sep) s) < length s"
    by (auto simp: cut_char_def Let_def split: if_splits)
  have "takeWhile (\<lambda>c. c \<noteq> sep) s = s"
    using len length_takeWhile_le [of "\<lambda>c. c \<noteq> sep" s]
    by (metis linorder_not_less nat_less_le takeWhile_eq_take take_all)
  then have "\<forall>c \<in> set s. c \<noteq> sep" by (simp add: takeWhile_eq_all_conv)
  with ab show ?thesis by auto
qed

lemma has_prefix_iff [go_string]: "has_prefix s p \<longleftrightarrow> (\<exists>r. s = p @ r)"
  unfolding has_prefix_def by (metis append_eq_conv_conj append_take_drop_id)

lemma index_str_Some [go_string]: "index_str s p = Some i \<Longrightarrow> \<exists>a b. s = a @ p @ b \<and> length a = i"
proof (induction s arbitrary: i)
  case Nil
  then show ?case by (auto split: if_splits)
next
  case (Cons c cs)
  show ?case
  proof (cases "has_prefix (c # cs) p")
    case True
    with Cons.prems have "i = 0" by simp
    with True show ?thesis by (auto simp: has_prefix_iff)
  next
    case False
    with Cons.prems obtain j where "index_str cs p = Some j" "i = Suc j" by auto
    with Cons.IH obtain a b where "cs = a @ p @ b" "length a = j" by blast
    then have "c # cs = (c # a) @ p @ b" "length (c # a) = i" using \<open>i = Suc j\<close> by auto
    then show ?thesis by blast
  qed
qed

subsection \<open>Decimal text\<close>

lemma of_char_digit_char: "d < 10 \<Longrightarrow> of_char (digit_char d) = (48 + d :: nat)"
  by (simp add: digit_char_def)

lemma is_digit_digit_char [simp]: "d < 10 \<Longrightarrow> is_digit (digit_char d)"
  by (simp add: is_digit_def less_eq_char_def of_char_digit_char)

lemma digit_val_digit_char [simp]: "d < 10 \<Longrightarrow> digit_val (digit_char d) = d"
  by (simp add: digit_val_def of_char_digit_char)

lemma nat_digits_not_Nil [simp]: "nat_digits n \<noteq> []"
  by (subst nat_digits.simps) simp

lemma nat_digits_is_digit: "c \<in> set (nat_digits n) \<Longrightarrow> is_digit c"
proof (induction n rule: nat_digits.induct)
  case (1 n)
  then show ?case by (subst (asm) nat_digits.simps) (auto split: if_splits)
qed

lemma digits_val_append:
  "digits_val acc (a @ b) = (case digits_val acc a of None \<Rightarrow> None | Some v \<Rightarrow> digits_val v b)"
  by (induction acc a rule: digits_val.induct) auto

lemma digits_val_nat_digits [go_string]: "digits_val 0 (nat_digits n) = Some n"
proof (induction n rule: nat_digits.induct)
  case (1 n)
  show ?case
  proof (cases "n < 10")
    case True
    then show ?thesis by (subst nat_digits.simps) simp
  next
    case False
    then show ?thesis using "1.IH" by (subst nat_digits.simps) (simp add: digits_val_append)
  qed
qed

lemma nat_digits_inj [go_string]: "nat_digits m = nat_digits n \<Longrightarrow> m = n"
  by (metis digits_val_nat_digits option.inject)

lemma hd_nat_digits: "is_digit (hd (nat_digits n))"
  using nat_digits_is_digit [of "hd (nat_digits n)" n] by simp

lemma minus_no_digit: "\<not> is_digit (CHR ''-'')" "\<not> is_digit (CHR ''+'')" "\<not> is_digit (CHR ''.'')"
  "\<not> is_digit (CHR '':'')" "\<not> is_digit (CHR ''/'')" "\<not> is_digit (CHR ''%'')" "\<not> is_digit (CHR '','')"
  by (simp_all add: is_digit_def less_eq_char_def)

text \<open>\<open>strconv.Itoa\<close> then \<open>strconv.Atoi\<close> is the identity on int64.\<close>

lemma atoi_itoa [go_string]: "min_int64 \<le> i \<Longrightarrow> i \<le> max_int64 \<Longrightarrow> atoi (itoa i) = Some i"
proof (cases "i < 0")
  case True
  assume "min_int64 \<le> i" "i \<le> max_int64"
  then show ?thesis using True
    by (simp add: atoi_def itoa_def digits_val_nat_digits)
next
  case False
  assume *: "min_int64 \<le> i" "i \<le> max_int64"
  obtain c cs where c: "nat_digits (nat i) = c # cs" by (cases "nat_digits (nat i)") auto
  then have "is_digit c" using hd_nat_digits [of "nat i"] by simp
  then have "c \<noteq> CHR ''-''" "c \<noteq> CHR ''+''" using minus_no_digit by auto
  then show ?thesis using * False c digits_val_nat_digits [of "nat i"]
    by (simp add: atoi_def itoa_def)
qed

lemma itoa_inj [go_string]: "itoa i = itoa j \<Longrightarrow> i = j"
proof -
  assume eq: "itoa i = itoa j"
  have hd: "hd (nat_digits n) \<noteq> CHR ''-''" for n
    using hd_nat_digits [of n] minus_no_digit by auto
  show ?thesis
  proof (cases "i < 0"; cases "j < 0")
    assume "i < 0" "j < 0"
    then show ?thesis using eq by (auto simp: itoa_def dest!: nat_digits_inj)
  next
    assume "i < 0" "\<not> j < 0"
    then show ?thesis using eq hd [of "nat j"] unfolding itoa_def by (metis list.sel(1))
  next
    assume "\<not> i < 0" "j < 0"
    then show ?thesis using eq hd [of "nat i"] unfolding itoa_def by (metis list.sel(1))
  next
    assume "\<not> i < 0" "\<not> j < 0"
    then show ?thesis using eq by (auto simp: itoa_def dest!: nat_digits_inj)
  qed
qed

lemma itoa_chars: "c \<in> set (itoa i) \<Longrightarrow> is_digit c \<or> c = CHR ''-''"
  by (auto simp: itoa_def nat_digits_is_digit split: if_splits)

text \<open>A key made of a text, a separator and a number is read in one way only.\<close>

lemma text_number_inj [go_string]:
  assumes "\<not> is_digit sep" and "sep \<noteq> CHR ''-''"
  shows "a @ [sep] @ itoa i = b @ [sep] @ itoa j \<longleftrightarrow> a = b \<and> i = j"
proof
  assume "a @ [sep] @ itoa i = b @ [sep] @ itoa j"
  then have eq: "rev (itoa i) @ sep # rev a = rev (itoa j) @ sep # rev b"
    by (metis append.assoc append_Cons append_Nil rev.simps rev_append)
  have "sep \<notin> set (itoa k)" for k using itoa_chars [of sep k] assms by blast
  then have tw: "takeWhile (\<lambda>c. c \<noteq> sep) (rev (itoa k) @ sep # s) = rev (itoa k)" for k s
    by (subst takeWhile_append2) auto
  have "rev (itoa i) = rev (itoa j)" using arg_cong [OF eq, of "takeWhile (\<lambda>c. c \<noteq> sep)"] tw by simp
  then show "a = b \<and> i = j" using eq itoa_inj by simp
qed simp

end
