(* ===== verification/Lcg.thy ===== *)
theory Lcg
  imports Prelude
begin

text \<open>
  The linear congruential step that \<open>internal/scan/permute.go\<close> and
  \<open>internal/target/generator.go\<close> share, on \<open>uint64\<close> with its wrap-around, and
  the number theory behind both: modulo a power of two, a multiplier that is 1
  modulo 4 and an odd increment give full period.
\<close>

definition lcg_next :: "u64 \<Rightarrow> u64 \<Rightarrow> u64 \<Rightarrow> u64 \<Rightarrow> u64" where
  "lcg_next a c m x = (a * x + c) mod m"

fun lcg_orbit :: "u64 \<Rightarrow> u64 \<Rightarrow> u64 \<Rightarrow> u64 \<Rightarrow> nat \<Rightarrow> u64 list" where
  "lcg_orbit a c m x 0 = []"
| "lcg_orbit a c m x (Suc n) = x # lcg_orbit a c m (lcg_next a c m x) n"

subsection \<open>The sum of powers and its 2-adic valuation\<close>

fun geo :: "nat \<Rightarrow> nat \<Rightarrow> nat" where
  "geo a 0 = 0"
| "geo a (Suc n) = 1 + a * geo a n"

lemma geo_add: "geo a (m + n) = geo a m + a ^ m * geo a n"
  by (induction m) (simp_all add: algebra_simps)

lemma geo_odd: "odd a \<Longrightarrow> odd (geo a n) = odd n"
  by (induction n) auto

lemma pow_mod4: "a mod 4 = (1::nat) \<Longrightarrow> a ^ n mod 4 = 1"
proof (induction n)
  case (Suc n)
  have "a ^ Suc n mod 4 = ((a mod 4) * (a ^ n mod 4)) mod 4" by (simp add: mod_mult_eq)
  with Suc show ?case by simp
qed simp

lemma pow2_dvd_geo:
  assumes "a mod 4 = (1::nat)"
  shows "2 ^ k dvd geo a n \<longleftrightarrow> 2 ^ k dvd n"
proof (induction k arbitrary: n)
  case (Suc k)
  have odd_a: "odd a" using assms by presburger
  show ?case
  proof (cases "even n")
    case False
    then have "odd (geo a n)" using geo_odd [OF odd_a] by simp
    then show ?thesis using False by (metis dvd_mult_left power_Suc)
  next
    case True
    then obtain h where n: "n = 2 * h" by (rule evenE)
    have "a ^ h mod 4 = 1" using assms by (rule pow_mod4)
    then have q2: "(1 + a ^ h) mod 4 = 2" by presburger
    define q where "q = (1 + a ^ h) div 2"
    have q: "1 + a ^ h = 2 * q" "odd q"
      using q2 unfolding q_def by presburger+
    have "geo a n = (1 + a ^ h) * geo a h"
      using geo_add [of a h h] unfolding n mult_2 by (simp add: algebra_simps)
    then have "geo a n = 2 * (q * geo a h)" unfolding q(1) by simp
    then have "2 ^ Suc k dvd geo a n \<longleftrightarrow> 2 ^ k dvd q * geo a h" by simp
    also have "\<dots> \<longleftrightarrow> 2 ^ k dvd geo a h"
      using q(2) by (simp add: coprime_dvd_mult_right_iff)
    also have "\<dots> \<longleftrightarrow> 2 ^ Suc k dvd n" using Suc.IH n by simp
    finally show ?thesis .
  qed
qed simp

subsection \<open>The orbit over the naturals\<close>

fun lcg_iter :: "nat \<Rightarrow> nat \<Rightarrow> nat \<Rightarrow> nat \<Rightarrow> nat" where
  "lcg_iter a c 0 x = x"
| "lcg_iter a c (Suc n) x = lcg_iter a c n (a * x + c)"

lemma lcg_iter_add: "lcg_iter a c (m + n) x = lcg_iter a c n (lcg_iter a c m x)"
  by (induction m arbitrary: x) auto

lemma lcg_iter_step: "lcg_iter a c (Suc n) x = a * lcg_iter a c n x + c"
  by (induction n arbitrary: x) auto

text \<open>\<open>n\<close> steps move \<open>x\<close> by the sum of powers times an odd number.\<close>

lemma lcg_iter_diff: "lcg_iter (Suc b) c n x = x + geo (Suc b) n * (b * x + c)"
proof (induction n arbitrary: x)
  case (Suc n)
  show ?case unfolding lcg_iter.simps Suc.IH by (simp add: algebra_simps)
qed simp

lemma lcg_iter_period:
  assumes "a mod 4 = 1" and "odd c" and "lcg_iter a c n x mod 2 ^ k = x mod 2 ^ k"
  shows "2 ^ k dvd n"
proof -
  obtain b where a: "a = Suc b" using assms(1) by (cases a) auto
  then have "4 dvd b" using assms(1) by presburger
  then have odd: "odd (b * x + c)" using assms(2) by auto
  have "(x + geo a n * (b * x + c)) mod 2 ^ k = x mod 2 ^ k"
    using assms(3) lcg_iter_diff [of b c n x] a by simp
  then have "2 ^ k dvd geo a n * (b * x + c)"
    by (metis add_diff_cancel_left' dvd_minus_self le_add1 mod_eq_dvd_iff_nat)
  then have "2 ^ k dvd geo a n"
    using odd by (simp add: coprime_dvd_mult_left_iff)
  then show ?thesis using pow2_dvd_geo [OF assms(1)] by simp
qed

lemma lcg_iter_mod: "lcg_iter a c n (x mod m) mod m = lcg_iter a c n x mod m"
proof (induction n)
  case (Suc n)
  show ?case unfolding lcg_iter_step
    by (metis Suc.IH mod_add_left_eq mod_mult_right_eq)
qed simp

lemma lcg_iter_inj:
  assumes "a mod 4 = 1" and "odd c"
  shows "inj_on (\<lambda>i. lcg_iter a c i x mod 2 ^ k) {..<2 ^ k}"
proof (rule linorder_inj_onI)
  fix i j :: nat
  assume ij: "i < j" "i \<in> {..<2 ^ k}" "j \<in> {..<2 ^ k}"
  show "lcg_iter a c i x mod 2 ^ k \<noteq> lcg_iter a c j x mod 2 ^ k"
  proof
    assume eq: "lcg_iter a c i x mod 2 ^ k = lcg_iter a c j x mod 2 ^ k"
    have "lcg_iter a c (j - i) (lcg_iter a c i x) = lcg_iter a c j x"
      using lcg_iter_add [of a c i "j - i" x] ij(1) by simp
    with eq have "2 ^ k dvd j - i"
      using lcg_iter_period [OF assms, of "j - i" "lcg_iter a c i x" k] by simp
    then have "2 ^ k \<le> j - i" using ij(1) by (simp add: dvd_imp_le)
    then show False using ij(1,3) by simp
  qed
qed auto

lemma lcg_iter_all:
  assumes "a mod 4 = 1" and "odd c"
  shows "mset (map (\<lambda>i. lcg_iter a c i x mod 2 ^ k) [0..<2 ^ k]) = mset [0..<2 ^ k]"
proof -
  let ?f = "\<lambda>i. lcg_iter a c i x mod 2 ^ k"
  have inj: "inj_on ?f {..<2 ^ k}" by (rule lcg_iter_inj [OF assms])
  have "?f ` {..<2 ^ k} \<subseteq> {..<2 ^ k}" by auto
  then have "?f ` {..<2 ^ k} = {..<2 ^ k}"
    using inj by (intro endo_inj_surj) auto
  moreover have "distinct (map ?f [0..<2 ^ k])"
    using inj by (simp add: distinct_map atLeast0LessThan)
  ultimately show ?thesis
    by (intro iffD1 [OF set_eq_iff_mset_eq_distinct]) (auto simp: atLeast0LessThan)
qed

subsection \<open>The orbit on machine words\<close>

lemma unat_lcg_next:
  assumes "unat m = 2 ^ k"
  shows "unat (lcg_next a c m x) = (unat a * unat x + unat c) mod 2 ^ k"
proof -
  have "(2::nat) ^ k < 2 ^ 64" using unsigned_less [of m, where ?'a = nat] assms by simp
  then have "k < 64" by (rule power_less_imp_less_exp [rotated]) simp
  then have dvd: "(2::nat) ^ k dvd 2 ^ 64" by (intro le_imp_power_dvd) simp
  have "unat (a * x + c) = (unat a * unat x + unat c) mod 2 ^ 64"
    by (simp add: unat_word_ariths mod_simps)
  then show ?thesis
    using assms dvd by (simp add: lcg_next_def unat_mod_distrib mod_mod_cancel)
qed

lemma lcg_orbit_iter:
  assumes "unat m = 2 ^ k" and "unat x < 2 ^ k"
  shows "map unat (lcg_orbit a c m x n) = map (\<lambda>i. lcg_iter (unat a) (unat c) i (unat x) mod 2 ^ k) [0..<n]"
  using assms(2)
proof (induction n arbitrary: x)
  case (Suc n)
  let ?y = "lcg_next a c m x"
  have y: "unat ?y = (unat a * unat x + unat c) mod 2 ^ k" by (rule unat_lcg_next [OF assms(1)])
  then have "unat ?y < 2 ^ k" by simp
  then have "map unat (lcg_orbit a c m ?y n)
      = map (\<lambda>i. lcg_iter (unat a) (unat c) i (unat ?y) mod 2 ^ k) [0..<n]" by (rule Suc.IH)
  also have "\<dots> = map (\<lambda>i. lcg_iter (unat a) (unat c) (Suc i) (unat x) mod 2 ^ k) [0..<n]"
    by (simp add: y lcg_iter_mod)
  also have "\<dots> = map (\<lambda>i. lcg_iter (unat a) (unat c) i (unat x) mod 2 ^ k) (map Suc [0..<n])"
    by (simp add: comp_def)
  finally show ?case
    using Suc.prems by (simp add: upt_conv_Cons map_Suc_upt del: upt_Suc lcg_iter.simps(2))
qed simp

lemma lcg_orbit_full:
  assumes "unat m = 2 ^ k" and "unat x < 2 ^ k" and "unat a mod 4 = 1" and "odd (unat c)"
  shows "mset (map unat (lcg_orbit a c m x (2 ^ k))) = mset [0..<2 ^ k]"
  unfolding lcg_orbit_iter [OF assms(1,2)] by (rule lcg_iter_all [OF assms(3,4)])

lemma length_lcg_orbit [simp]: "length (lcg_orbit a c m x n) = n"
  by (induction n arbitrary: x) auto

subsection \<open>The multiplier and the increment the constructors choose\<close>

lemma mult4_mod4: "unat (4 * (k :: u64) + 1) mod 4 = 1"
proof -
  have "unat (4 * k + 1) = (4 * unat k + 1) mod 2 ^ 64"
    by (simp add: unat_word_ariths mod_simps)
  also have "\<dots> mod 4 = (4 * unat k + 1) mod 4"
    by (rule mod_mod_cancel) simp
  finally show ?thesis by simp
qed

lemma odd_or_1: "odd (unat (or c 1 :: u64))"
  by (simp add: unsigned_or_eq even_or_iff)

end
