(* ===== verification/Sources.thy ===== *)
theory Sources
  imports Prelude
begin

text \<open>
  The contract of a generator that is called until it says it is exhausted: the
  scan order of \<open>scan/permute.go\<close>, the address stream of \<open>target/generator.go\<close>
  and the in-order walk of the dispatcher all provide it, and the dispatcher of
  \<open>scan/engine.go\<close> is its client.
\<close>

text \<open>
  The loop \<open>for { x, ok := next(); if !ok { break }; ... }\<close>, with fuel: \<open>None\<close> if
  the generator is still producing after \<open>fuel\<close> calls.
\<close>

fun drain :: "('s \<Rightarrow> 'i option \<times> 's) \<Rightarrow> nat \<Rightarrow> 's \<Rightarrow> 'i list option" where
  "drain nxt 0 s = None"
| "drain nxt (Suc fuel) s =
     (case nxt s of
        (None, _) \<Rightarrow> Some []
      | (Some i, s') \<Rightarrow> map_option ((#) i) (drain nxt fuel s'))"

locale exhaustive_source =
  fixes nxt :: "'s \<Rightarrow> 'i option \<times> 's"
    and inv :: "'s \<Rightarrow> bool"
    and remaining :: "'s \<Rightarrow> 'i multiset"
  assumes nxt_Some: "inv s \<Longrightarrow> nxt s = (Some i, s') \<Longrightarrow> inv s' \<and> remaining s = add_mset i (remaining s')"
    and nxt_None: "inv s \<Longrightarrow> nxt s = (None, s') \<Longrightarrow> remaining s = {#}"
begin

lemma drain_remaining:
  "inv s \<Longrightarrow> size (remaining s) < fuel \<Longrightarrow> \<exists>is. drain nxt fuel s = Some is \<and> mset is = remaining s"
proof (induction fuel arbitrary: s)
  case (Suc fuel)
  show ?case
  proof (cases "nxt s")
    case (Pair o' s')
    show ?thesis
    proof (cases o')
      case None
      then show ?thesis using Pair Suc.prems nxt_None by auto
    next
      case (Some i)
      then have s': "inv s'" "remaining s = add_mset i (remaining s')"
        using nxt_Some Suc.prems(1) Pair by auto
      then obtain "is" where "drain nxt fuel s' = Some is" "mset is = remaining s'"
        using Suc.IH [of s'] Suc.prems(2) by auto
      then show ?thesis using Pair Some s'(2) by auto
    qed
  qed
qed simp

lemma drain_result: "inv s \<Longrightarrow> drain nxt fuel s = Some is \<Longrightarrow> mset is = remaining s"
proof (induction fuel arbitrary: s "is")
  case (Suc fuel)
  show ?case
  proof (cases "nxt s")
    case (Pair o' s')
    then show ?thesis
      using Suc nxt_None nxt_Some by (cases o') fastforce+
  qed
qed simp

lemma drain_length: "inv s \<Longrightarrow> drain nxt fuel s = Some is \<Longrightarrow> length is = size (remaining s)"
  using drain_result [of s fuel "is"] by (metis size_mset)

end

text \<open>A list walked from its head is such a source.\<close>

fun list_next :: "'i list \<Rightarrow> 'i option \<times> 'i list" where
  "list_next [] = (None, [])"
| "list_next (x # xs) = (Some x, xs)"

interpretation list_source: exhaustive_source list_next "\<lambda>_. True" mset
proof unfold_locales
  fix s s' :: "'a list" and i
  show "list_next s = (Some i, s') \<Longrightarrow> True \<and> mset s = add_mset i (mset s')" by (cases s) auto
  show "list_next s = (None, s') \<Longrightarrow> mset s = {#}" by (cases s) auto
qed

lemma drain_list_next: "length xs < fuel \<Longrightarrow> drain list_next fuel xs = Some xs"
proof (induction xs arbitrary: fuel)
  case Nil
  then show ?case by (cases fuel) auto
next
  case (Cons x xs)
  then show ?case by (cases fuel) auto
qed

end
