(* ===== verification/Permute.thy ===== *)
theory Permute
  imports Lcg Sources
begin

text \<open>
  \<open>internal/scan/permute.go\<close>: the random dispatch order of a scan.  The state is
  the struct \<open>jobPermutation\<close>, field by field, on \<open>uint64\<close>; the three random draws
  of the constructor (\<open>r.Int63()\<close>, \<open>r.Int63n(m/4)\<close>, \<open>r.Int63n(m)\<close>) are arguments.
\<close>

record jobPermutation =
  jp_n :: u64
  jp_m :: u64
  jp_a :: u64
  jp_c :: u64
  jp_currentX :: u64
  jp_steps :: u64
  jp_emitted :: u64

text \<open>
  \<open>for m < n { m <<= 1 }\<close>.  \<open>None\<close>: still looping when the fuel is spent; 64
  shifts are enough for every \<open>n\<close> up to \<open>2^63\<close> (\<open>pow2_at_least_enough\<close>), and
  beyond that the shift reaches 0 and the loop never ends.
\<close>

fun pow2_at_least :: "nat \<Rightarrow> u64 \<Rightarrow> u64 \<Rightarrow> u64 option" where
  "pow2_at_least 0 m n = None"
| "pow2_at_least (Suc fuel) m n = (if m < n then pow2_at_least fuel (push_bit 1 m) n else Some m)"

definition newJobPermutation :: "u64 \<Rightarrow> u64 \<Rightarrow> u64 \<Rightarrow> u64 \<Rightarrow> jobPermutation option" where
  "newJobPermutation n rc rk rx =
     (if n = 0 then Some \<lparr>jp_n = 0, jp_m = 1, jp_a = 0, jp_c = 0, jp_currentX = 0, jp_steps = 0, jp_emitted = 0\<rparr>
      else case pow2_at_least 65 1 n of
        None \<Rightarrow> None
      | Some m \<Rightarrow>
          Some \<lparr>jp_n = n, jp_m = m, jp_a = (if m < 4 then 1 else 4 * rk + 1), jp_c = or rc 1,
                jp_currentX = rx, jp_steps = 0, jp_emitted = 0\<rparr>)"

text \<open>The loop of \<open>next\<close>: step the generator until it lands inside \<open>[0, n)\<close>.\<close>

function jp_walk :: "jobPermutation \<Rightarrow> u64 option \<times> jobPermutation" where
  "jp_walk p =
     (if jp_steps p < jp_m p then
        (let x = jp_currentX p;
             p1 = p\<lparr>jp_currentX := (jp_a p * jp_currentX p + jp_c p) mod jp_m p, jp_steps := jp_steps p + 1\<rparr>
         in if x < jp_n p then (Some x, p1\<lparr>jp_emitted := jp_emitted p1 + 1\<rparr>) else jp_walk p1)
      else (None, p))"
  by pat_completeness auto
termination
proof (relation "measure (\<lambda>p. unat (jp_m p) - unat (jp_steps p))", goal_cases)
  case (2 p x p1)
  then have lt: "unat (jp_steps p) < unat (jp_m p)" by (simp add: word_less_nat_alt)
  have "unat (jp_m p) < 2 ^ 64" using unsigned_less [of "jp_m p", where ?'a = nat] by simp
  then have "unat (jp_steps p + 1) = unat (jp_steps p) + 1"
    using lt by (simp add: unat_word_ariths)
  then show ?case using lt 2 by simp
qed simp

declare jp_walk.simps [simp del]

definition jobPermutation_next :: "jobPermutation \<Rightarrow> u64 option \<times> jobPermutation" where
  "jobPermutation_next p = (if jp_emitted p \<ge> jp_n p then (None, p) else jp_walk p)"

subsection \<open>The indices still to come\<close>

definition jp_orbit :: "jobPermutation \<Rightarrow> u64 list" where
  "jp_orbit p = lcg_orbit (jp_a p) (jp_c p) (jp_m p) (jp_currentX p) (unat (jp_m p) - unat (jp_steps p))"

definition jp_remaining :: "jobPermutation \<Rightarrow> u64 multiset" where
  "jp_remaining p = mset (filter (\<lambda>x. x < jp_n p) (jp_orbit p))"

definition jp_inv :: "jobPermutation \<Rightarrow> bool" where
  "jp_inv p \<longleftrightarrow> unat (jp_emitted p) + size (jp_remaining p) = unat (jp_n p)"

lemma jp_orbit_step:
  assumes "jp_steps p < jp_m p"
  shows "jp_orbit p = jp_currentX p #
    jp_orbit (p\<lparr>jp_currentX := (jp_a p * jp_currentX p + jp_c p) mod jp_m p, jp_steps := jp_steps p + 1\<rparr>)"
proof -
  have lt: "unat (jp_steps p) < unat (jp_m p)" using assms by (simp add: word_less_nat_alt)
  have "unat (jp_m p) < 2 ^ 64" using unsigned_less [of "jp_m p", where ?'a = nat] by simp
  then have "unat (jp_steps p + 1) = Suc (unat (jp_steps p))"
    using lt by (simp add: unat_word_ariths)
  moreover have "unat (jp_m p) - unat (jp_steps p) = Suc (unat (jp_m p) - Suc (unat (jp_steps p)))"
    using lt by simp
  ultimately show ?thesis by (simp add: jp_orbit_def lcg_next_def)
qed

lemma jp_orbit_end: "\<not> jp_steps p < jp_m p \<Longrightarrow> jp_orbit p = []"
  by (simp add: jp_orbit_def word_less_nat_alt)

text \<open>The walk skips the values outside \<open>[0, n)\<close> and returns the first one inside.\<close>

lemma jp_walk_remaining:
  "case jp_walk p of
     (None, p') \<Rightarrow> jp_remaining p = {#}
   | (Some x, p') \<Rightarrow> jp_remaining p = add_mset x (jp_remaining p') \<and>
        jp_emitted p' = jp_emitted p + 1 \<and> jp_n p' = jp_n p"
proof (induction p rule: jp_walk.induct)
  case (1 p)
  let ?p1 = "p\<lparr>jp_currentX := (jp_a p * jp_currentX p + jp_c p) mod jp_m p, jp_steps := jp_steps p + 1\<rparr>"
  show ?case
  proof (cases "jp_steps p < jp_m p")
    case False
    then show ?thesis by (simp add: jp_walk.simps [of p] jp_remaining_def jp_orbit_end)
  next
    case True
    note step = jp_orbit_step [OF True]
    show ?thesis
    proof (cases "jp_currentX p < jp_n p")
      case True': True
      have "jp_orbit (?p1\<lparr>jp_emitted := jp_emitted ?p1 + 1\<rparr>) = jp_orbit ?p1" by (simp add: jp_orbit_def)
      then show ?thesis
        using True True' step by (simp add: jp_walk.simps [of p] jp_remaining_def Let_def)
    next
      case False
      have "jp_remaining p = jp_remaining ?p1"
        using False step by (simp add: jp_remaining_def)
      moreover have "jp_walk p = jp_walk ?p1"
        using True False by (simp add: jp_walk.simps [of p] Let_def)
      moreover have "case jp_walk ?p1 of
          (None, p') \<Rightarrow> jp_remaining ?p1 = {#}
        | (Some x, p') \<Rightarrow> jp_remaining ?p1 = add_mset x (jp_remaining p') \<and>
            jp_emitted p' = jp_emitted ?p1 + 1 \<and> jp_n p' = jp_n ?p1"
        using "1.IH" [OF True refl refl] False by simp
      ultimately show ?thesis by (simp split: prod.splits option.splits)
    qed
  qed
qed

lemma jp_emitted_step:
  assumes "unat (jp_emitted p) + size (jp_remaining p) = unat (jp_n p)" and "jp_remaining p \<noteq> {#}"
  shows "unat (jp_emitted p + 1) = unat (jp_emitted p) + 1"
proof -
  have "unat (jp_emitted p) < unat (jp_n p)" using assms by (cases "jp_remaining p") auto
  moreover have "unat (jp_n p) < 2 ^ 64" using unsigned_less [of "jp_n p", where ?'a = nat] by simp
  ultimately show ?thesis by (simp add: unat_word_ariths)
qed

interpretation jp_source: exhaustive_source jobPermutation_next jp_inv jp_remaining
proof unfold_locales
  fix s s' :: jobPermutation and i
  assume inv: "jp_inv s"
  note walk = jp_walk_remaining [of s]
  {
    assume "jobPermutation_next s = (Some i, s')"
    then have "jp_walk s = (Some i, s')"
      by (simp add: jobPermutation_next_def split: if_splits)
    with walk have r: "jp_remaining s = add_mset i (jp_remaining s')"
      "jp_emitted s' = jp_emitted s + 1" "jp_n s' = jp_n s" by simp_all
    with inv jp_emitted_step [of s] show "jp_inv s' \<and> jp_remaining s = add_mset i (jp_remaining s')"
      by (simp add: jp_inv_def)
  next
    assume none: "jobPermutation_next s = (None, s')"
    show "jp_remaining s = {#}"
    proof (cases "jp_emitted s \<ge> jp_n s")
      case True
      then have "size (jp_remaining s) \<le> 0"
        using inv unfolding jp_inv_def word_le_nat_alt by linarith
      then show ?thesis by simp
    next
      case False
      then have "jp_walk s = (None, s')" using none by (simp add: jobPermutation_next_def)
      with walk show ?thesis by simp
    qed
  }
qed

subsection \<open>The constructor\<close>

lemma unat_shift1:
  assumes "unat (m :: u64) = 2 ^ i" and "i < 63"
  shows "unat (push_bit 1 m) = 2 ^ Suc i"
proof -
  have "(2::nat) ^ Suc i < 2 ^ 64" using assms(2) by (intro power_strict_increasing) auto
  then show ?thesis using assms(1)
    by (simp add: push_bit_eq_mult unat_word_ariths)
qed

lemma pow2_at_least_some:
  assumes "unat m = 2 ^ i" and "i \<le> 63" and "unat n \<le> 2 ^ 63" and "63 - i < fuel"
  shows "\<exists>m' k. pow2_at_least fuel m n = Some m' \<and> unat m' = 2 ^ k \<and> i \<le> k \<and> n \<le> m' \<and>
           (i < k \<longrightarrow> unat m' < 2 * unat n)"
  using assms
proof (induction fuel arbitrary: m i)
  case (Suc fuel)
  show ?case
  proof (cases "m < n")
    case False
    then show ?thesis using Suc.prems by auto
  next
    case True
    then have lt: "2 ^ i < unat n" using Suc.prems(1) by (simp add: word_less_nat_alt)
    then have i: "i < 63" using Suc.prems(3) by (metis power_less_imp_less_exp le_less_trans linorder_not_less
        Suc.prems(2) le_neq_implies_less less_irrefl one_less_numeral_iff semiring_norm(76))
    then have m: "unat (push_bit 1 m) = 2 ^ Suc i" using Suc.prems(1) by (rule unat_shift1 [rotated])
    then obtain m' k where r: "pow2_at_least fuel (push_bit 1 m) n = Some m'" "unat m' = 2 ^ k" "Suc i \<le> k"
        "n \<le> m'" "Suc i < k \<longrightarrow> unat m' < 2 * unat n"
      using Suc.IH [OF m] Suc.prems i by fastforce
    moreover have "unat m' < 2 * unat n"
    proof (cases "Suc i = k")
      case True
      then show ?thesis using r(2) lt by auto
    qed (use r in simp)
    ultimately show ?thesis using True by auto
  qed
qed simp

lemmas pow2_at_least_enough = pow2_at_least_some [where m = 1 and i = 0, simplified]

text \<open>Above \<open>2^63\<close> the loop does not end: the shift leaves every candidate below \<open>n\<close>.\<close>

lemma pow2_at_least_diverges:
  assumes "2 ^ 63 < unat n" and "m = 0 \<or> (\<exists>i\<le>63. unat m = 2 ^ i)"
  shows "pow2_at_least fuel m n = None"
  using assms(2)
proof (induction fuel arbitrary: m)
  case (Suc fuel)
  have "unat m \<le> 2 ^ 63" using Suc.prems power_increasing [of _ 63 "2::nat"] by fastforce
  then have "m < n" using assms(1) by (simp add: word_less_nat_alt)
  moreover have "push_bit 1 m = 0 \<or> (\<exists>i\<le>63. unat (push_bit 1 m) = 2 ^ i)"
  proof (cases "\<exists>i<63. unat m = 2 ^ i")
    case True
    then show ?thesis using unat_shift1 [of m] by (metis Suc_leI)
  next
    case False
    then have "m = 0 \<or> unat m = 2 ^ 63" using Suc.prems by (metis le_neq_implies_less)
    moreover have "m = 2 ^ 63" if "unat m = 2 ^ 63"
      using that by (intro word_unat_eq_iff [THEN iffD2]) simp
    ultimately have "m = 0 \<or> m = 2 ^ 63" by blast
    then have "push_bit 1 m = 0" by auto
    then show ?thesis by simp
  qed
  ultimately show ?case using Suc.IH by simp
qed simp

text \<open>
  The draws a constructor call can see: \<open>Int63n(b)\<close> is below \<open>b\<close> (its
  documented range); \<open>n\<close> is at most \<open>2^62\<close>, beyond which \<open>int64(m)\<close> is negative
  and \<open>Int63n\<close> panics.
\<close>

definition jp_draws :: "u64 \<Rightarrow> u64 \<Rightarrow> bool" where
  "jp_draws n rx \<longleftrightarrow> unat n \<le> 2 ^ 62 \<and> (\<forall>m. pow2_at_least 65 1 n = Some m \<longrightarrow> rx < m)"

lemma newJobPermutation_inv:
  assumes "jp_draws n rx"
  shows "\<exists>p. newJobPermutation n rc rk rx = Some p \<and> jp_inv p \<and>
           image_mset unat (jp_remaining p) = mset [0..<unat n]"
proof (cases "n = 0")
  case True
  let ?p = "\<lparr>jp_n = 0, jp_m = 1, jp_a = 0, jp_c = 0, jp_currentX = 0, jp_steps = 0, jp_emitted = 0\<rparr>"
  have "newJobPermutation n rc rk rx = Some ?p" using True by (simp add: newJobPermutation_def)
  moreover have "jp_remaining ?p = {#}" by (simp add: jp_remaining_def)
  ultimately show ?thesis using True by (auto simp: jp_inv_def)
next
  case False
  have "unat n \<le> 2 ^ 63" using assms by (simp add: jp_draws_def)
  then obtain m k where m: "pow2_at_least 65 1 n = Some m" "unat m = 2 ^ k" "n \<le> m"
    using pow2_at_least_enough [of n 65] by auto
  define a where "a = (if m < 4 then 1 else 4 * rk + 1)"
  define p where "p = \<lparr>jp_n = n, jp_m = m, jp_a = a, jp_c = or rc 1,
                jp_currentX = rx, jp_steps = 0, jp_emitted = 0\<rparr>"
  have new: "newJobPermutation n rc rk rx = Some p"
    using False m(1) by (simp add: newJobPermutation_def p_def a_def)
  have a: "unat a mod 4 = 1" using mult4_mod4 [of rk] by (simp add: a_def)
  have "rx < m" using assms m(1) by (simp add: jp_draws_def)
  then have rx: "unat rx < 2 ^ k" using m(2) by (simp add: word_less_nat_alt)
  have full: "mset (map unat (jp_orbit p)) = mset [0..<2 ^ k]"
    using lcg_orbit_full [OF m(2) rx a odd_or_1] by (simp add: jp_orbit_def p_def m(2))
  have "image_mset unat (jp_remaining p) = mset (map unat (filter (\<lambda>x. x < n) (jp_orbit p)))"
    by (simp add: jp_remaining_def p_def)
  also have "\<dots> = filter_mset (\<lambda>x. x < unat n) (mset (map unat (jp_orbit p)))"
    by (simp add: filter_map comp_def word_less_nat_alt flip: mset_map mset_filter)
  also have "\<dots> = mset (filter (\<lambda>x. x < unat n) [0..<2 ^ k])" by (simp only: full mset_filter)
  also have "filter (\<lambda>x. x < unat n) [0..<2 ^ k] = [0..<unat n]"
  proof -
    have "unat n \<le> 2 ^ k" using m(2,3) by (simp add: word_le_nat_alt)
    then have "[0..<2 ^ k] = [0..<unat n] @ [unat n..<2 ^ k]" by (metis le0 upt_add_eq_append le_add_diff_inverse)
    then show ?thesis by simp
  qed
  finally have rem: "image_mset unat (jp_remaining p) = mset [0..<unat n]" .
  then have "size (jp_remaining p) = unat n" by (metis size_image_mset size_mset length_upt diff_zero)
  then have "jp_inv p" by (simp add: jp_inv_def p_def)
  with new rem show ?thesis by blast
qed

subsection \<open>Properties\<close>

lemma permutation_drained:
  assumes "jp_draws n rx"
  shows "\<exists>p is. newJobPermutation n rc rk rx = Some p
    \<and> drain jobPermutation_next (Suc (unat n)) p = Some is
    \<and> mset (map unat is) = mset [0..<unat n]"
proof -
  obtain p where p: "newJobPermutation n rc rk rx = Some p" "jp_inv p"
      "image_mset unat (jp_remaining p) = mset [0..<unat n]"
    using newJobPermutation_inv [OF assms] by blast
  then have "size (jp_remaining p) < Suc (unat n)"
    by (metis size_image_mset size_mset length_upt diff_zero lessI)
  with p jp_source.drain_remaining [OF p(2)] show ?thesis by fastforce
qed

text \<open>C1: a fresh \<open>jobPermutation\<close> over \<open>n\<close> jobs produces every index of \<open>[0, n)\<close>
  exactly once and then stops, whatever the random draws were: drained by its
  caller's loop, it yields a permutation of \<open>0, ..., n - 1\<close> within \<open>n + 1\<close> calls.\<close>

theorem permute_each_once:
  assumes "jp_draws n rx"
  shows "\<exists>p is. newJobPermutation n rc rk rx = Some p
    \<and> drain jobPermutation_next (Suc (unat n)) p = Some is
    \<and> mset (map unat is) = mset [0..<unat n]"
  using assms by (rule permutation_drained)

theorem permute_each_once_witness:
  "\<exists>p is. newJobPermutation 5 77 1 6 = Some p
    \<and> drain jobPermutation_next (Suc (unat (5 :: u64))) p = Some is
    \<and> mset (map unat is) = mset [0..<unat (5 :: u64)]"
proof (rule permute_each_once)
  have "pow2_at_least 65 1 5 = Some 8" by code_simp
  then show "jp_draws 5 6" by (simp add: jp_draws_def)
qed

text \<open>The modulus the constructor searches for is a power of two at least \<open>n\<close> and
  less than twice as large, found within 64 shifts, for every \<open>n\<close> up to \<open>2^63\<close>;
  for a larger \<open>n\<close> the shift overflows to 0 and the search never ends.\<close>

theorem permute_modulus_search:
  "(unat n \<le> 2 ^ 63 \<longrightarrow> (\<exists>m k. pow2_at_least 65 1 n = Some m \<and> unat m = 2 ^ k \<and> n \<le> m \<and>
       (m = 1 \<or> unat m < 2 * unat n))) \<and>
   (2 ^ 63 < unat n \<longrightarrow> (\<forall>fuel. pow2_at_least fuel 1 n = None))"
proof (intro conjI impI allI)
  assume "unat n \<le> 2 ^ 63"
  then obtain m k where m: "pow2_at_least 65 1 n = Some m" "unat m = 2 ^ k" "n \<le> m"
      "0 < k \<longrightarrow> unat m < 2 * unat n"
    using pow2_at_least_enough [of n 65] by auto
  moreover have "m = 1" if "k = 0"
    using that m(2) by (simp add: word_unat_eq_iff)
  ultimately show "\<exists>m k. pow2_at_least 65 1 n = Some m \<and> unat m = 2 ^ k \<and> n \<le> m \<and>
      (m = 1 \<or> unat m < 2 * unat n)" by blast
next
  fix fuel
  assume "2 ^ 63 < unat n"
  moreover have "\<exists>i\<le>63. unat (1 :: u64) = 2 ^ i" by (intro exI [of _ 0]) simp
  ultimately show "pow2_at_least fuel 1 n = None" by (intro pow2_at_least_diverges) blast+
qed

theorem permute_modulus_search_witness:
  "(\<exists>m k. pow2_at_least 65 1 1000 = Some m \<and> unat m = 2 ^ k \<and> (1000 :: u64) \<le> m \<and>
       (m = 1 \<or> unat m < 2 * unat (1000 :: u64))) \<and>
   pow2_at_least 7 1 (2 ^ 63 + 1) = None"
  using permute_modulus_search [of 1000] permute_modulus_search [of "2 ^ 63 + 1"] by simp

end
