(* ===== verification/Ordering.thy ===== *)
theory Ordering
  imports Prelude
begin

text \<open>
  The contract of a comparator handed to \<open>sort.Slice\<close> or \<open>sort.SliceStable\<close>, and
  what the sort then guarantees.  Every component that orders a report
  (policy violations, drift changes, evidence findings, dual-stack gaps,
  explain entries, exploit priorities, scan results) interprets one of these
  locales on its own comparator.
\<close>

lemma mset_insert_by [slice_laws, simp]: "mset (insert_by lt x xs) = add_mset x (mset xs)"
  by (induction xs) auto

lemma mset_sort_by [slice_laws, simp]: "mset (sort_by lt xs) = mset xs"
  by (induction xs) auto

lemma set_sort_by [slice_laws, simp]: "set (sort_by lt xs) = set xs"
  by (metis mset_sort_by set_mset_mset)

lemma length_sort_by [slice_laws, simp]: "length (sort_by lt xs) = length xs"
  by (metis mset_sort_by size_mset)

lemma distinct_sort_by [slice_laws, simp]: "distinct (sort_by lt xs) = distinct xs"
  by (metis mset_sort_by mset_eq_imp_distinct_iff)

locale weak_order =
  fixes lt :: "'a \<Rightarrow> 'a \<Rightarrow> bool"
  assumes lt_asym: "lt x y \<Longrightarrow> \<not> lt y x"
    and not_lt_trans: "\<not> lt y x \<Longrightarrow> \<not> lt z y \<Longrightarrow> \<not> lt z x"
begin

text \<open>\<open>ordered\<close>: no element is followed by one that belongs before it.\<close>

abbreviation ordered :: "'a list \<Rightarrow> bool" where
  "ordered \<equiv> sorted_wrt (\<lambda>x y. \<not> lt y x)"

lemma ordered_insert_by: "ordered xs \<Longrightarrow> ordered (insert_by lt x xs)"
proof (induction xs)
  case (Cons y ys)
  show ?case
  proof (cases "lt y x")
    case True
    then have "\<not> lt x y" by (rule lt_asym)
    have "set (insert_by lt x ys) = insert x (set ys)"
      by (metis mset_insert_by set_mset_add_mset_insert set_mset_mset)
    then show ?thesis using True Cons \<open>\<not> lt x y\<close> by auto
  next
    case False
    then show ?thesis using Cons.prems by (auto dest: not_lt_trans [of y x])
  qed
qed simp

lemma ordered_sort: "ordered (sort_by lt xs)"
  by (induction xs) (auto intro: ordered_insert_by)

lemma insert_by_front: "(\<And>y. y \<in> set ys \<Longrightarrow> \<not> lt y x) \<Longrightarrow> insert_by lt x ys = x # ys"
  by (cases ys) auto

text \<open>A sorted slice is left alone, so sorting twice is sorting once.\<close>

lemma sort_ordered: "ordered xs \<Longrightarrow> sort_by lt xs = xs"
  by (induction xs) (auto intro: insert_by_front)

lemma sort_idem: "sort_by lt (sort_by lt xs) = sort_by lt xs"
  by (rule sort_ordered [OF ordered_sort])

text \<open>Stability: elements the comparator does not separate keep their order.\<close>

lemma filter_insert_equiv:
  "filter (\<lambda>y. \<not> lt y k \<and> \<not> lt k y) (insert_by lt x ys)
     = filter (\<lambda>y. \<not> lt y k \<and> \<not> lt k y) (x # ys)"
proof (induction ys)
  case (Cons y ys)
  show ?case
  proof (cases "lt y x")
    case True
    have "\<not> (\<not> lt y k \<and> \<not> lt k y \<and> \<not> lt x k \<and> \<not> lt k x)"
      using True not_lt_trans [of k x y] by blast
    then show ?thesis using True Cons.IH by auto
  qed simp
qed simp

lemma sort_stable:
  "filter (\<lambda>y. \<not> lt y k \<and> \<not> lt k y) (sort_by lt xs) = filter (\<lambda>y. \<not> lt y k \<and> \<not> lt k y) xs"
proof (induction xs)
  case (Cons x xs)
  then show ?case by (simp add: filter_insert_equiv)
qed simp

lemma ordered_hd: "ordered (x # xs) \<Longrightarrow> y \<in> set xs \<Longrightarrow> \<not> lt y x"
  by simp

end

text \<open>A comparator that separates any two distinct elements: the result is unique.\<close>

locale total_comparator = weak_order +
  assumes separates: "\<not> lt x y \<Longrightarrow> \<not> lt y x \<Longrightarrow> x = y"
begin

lemma ordered_unique: "ordered xs \<Longrightarrow> ordered ys \<Longrightarrow> mset xs = mset ys \<Longrightarrow> xs = ys"
proof (induction xs arbitrary: ys)
  case (Cons x xs)
  then obtain y ys' where ys: "ys = y # ys'"
    by (cases ys) auto
  have "x = y"
  proof (rule ccontr)
    assume "x \<noteq> y"
    have "set (x # xs) = set ys" using Cons.prems(3) by (metis set_mset_mset)
    then have "y \<in> set xs" "x \<in> set ys'" using ys \<open>x \<noteq> y\<close> by auto
    then have "\<not> lt y x" "\<not> lt x y" using Cons.prems ys by auto
    then show False using separates \<open>x \<noteq> y\<close> by blast
  qed
  moreover have "xs = ys'"
    using Cons.IH [of ys'] Cons.prems ys \<open>x = y\<close> by auto
  ultimately show ?case by (simp add: ys)
qed simp

text \<open>Whatever order the elements were collected in, the sorted slice is the same.\<close>

lemma sort_order_irrelevant: "mset xs = mset ys \<Longrightarrow> sort_by lt xs = sort_by lt ys"
  by (rule ordered_unique) (auto intro: ordered_sort)

end

text \<open>The same, when only the elements present need to be separated.\<close>

context weak_order
begin

lemma ordered_unique_on:
  "ordered xs \<Longrightarrow> ordered ys \<Longrightarrow> mset xs = mset ys \<Longrightarrow>
   (\<And>x y. x \<in> set xs \<Longrightarrow> y \<in> set xs \<Longrightarrow> \<not> lt x y \<Longrightarrow> \<not> lt y x \<Longrightarrow> x = y) \<Longrightarrow> xs = ys"
proof (induction xs arbitrary: ys)
  case (Cons x xs)
  then obtain y ys' where ys: "ys = y # ys'"
    by (cases ys) auto
  have set_eq: "set (x # xs) = set ys" using Cons.prems(3) by (metis set_mset_mset)
  have "x = y"
  proof (rule ccontr)
    assume "x \<noteq> y"
    then have "y \<in> set xs" "x \<in> set ys'" using ys set_eq by auto
    then have "\<not> lt y x" "\<not> lt x y" using Cons.prems ys by auto
    then show False using Cons.prems(4) [of x y] \<open>y \<in> set xs\<close> \<open>x \<noteq> y\<close> by simp
  qed
  moreover have "xs = ys'"
  proof (rule Cons.IH)
    show "mset xs = mset ys'" using Cons.prems(3) ys \<open>x = y\<close> by simp
    show "\<And>u v. u \<in> set xs \<Longrightarrow> v \<in> set xs \<Longrightarrow> \<not> lt u v \<Longrightarrow> \<not> lt v u \<Longrightarrow> u = v"
      using Cons.prems(4) by simp
  qed (use Cons.prems ys in auto)
  ultimately show ?case by (simp add: ys)
qed simp

lemma sort_order_irrelevant_on:
  "mset xs = mset ys \<Longrightarrow>
   (\<And>x y. x \<in> set xs \<Longrightarrow> y \<in> set xs \<Longrightarrow> \<not> lt x y \<Longrightarrow> \<not> lt y x \<Longrightarrow> x = y) \<Longrightarrow>
   sort_by lt xs = sort_by lt ys"
  by (rule ordered_unique_on) (auto intro: ordered_sort)

end

subsection \<open>The library comparators\<close>

text \<open>\<open>sort.Ints\<close> and \<open>sort.Strings\<close>.\<close>

definition sort_ints :: "int list \<Rightarrow> int list" where
  "sort_ints = sort_by (<)"

definition sort_strings :: "string list \<Rightarrow> string list" where
  "sort_strings = sort_by (<)"

interpretation int_order: total_comparator "(<) :: int \<Rightarrow> int \<Rightarrow> bool"
  by unfold_locales auto

interpretation string_order: total_comparator "(<) :: string \<Rightarrow> string \<Rightarrow> bool"
  by unfold_locales auto

text \<open>Two elements compared by a sequence of keys: the first key that differs decides.\<close>

definition then_by :: "('a \<Rightarrow> 'a \<Rightarrow> bool) \<Rightarrow> ('a \<Rightarrow> 'a \<Rightarrow> bool) \<Rightarrow> 'a \<Rightarrow> 'a \<Rightarrow> bool" where
  "then_by lt1 lt2 x y = (lt1 x y \<or> (\<not> lt1 y x \<and> lt2 x y))"

lemma weak_order_by_key: "weak_order (\<lambda>x y. key x < (key y :: 'k :: linorder))"
  by unfold_locales auto

lemma weak_order_by_key_desc: "weak_order (\<lambda>x y. key x > (key y :: 'k :: linorder))"
  by unfold_locales auto

lemma weak_order_then_by:
  assumes "weak_order lt1" and "weak_order lt2"
  shows "weak_order (then_by lt1 lt2)"
  using assms unfolding weak_order_def then_by_def by metis

lemma sort_ints_sorted [slice_laws]: "sorted (sort_ints xs)"
  unfolding sort_ints_def using int_order.ordered_sort [of xs]
  by (simp add: linorder_not_less)

lemma sort_ints_set [slice_laws, simp]: "set (sort_ints xs) = set xs"
  by (simp add: sort_ints_def)

lemma sort_ints_distinct [slice_laws, simp]: "distinct (sort_ints xs) = distinct xs"
  by (simp add: sort_ints_def)

lemma sort_ints_eq_sorted_list [slice_laws]:
  "distinct xs \<Longrightarrow> sort_ints xs = sorted_list_of_set (set xs)"
  by (intro sorted_distinct_set_unique) (simp_all add: sort_ints_sorted)

lemma sort_strings_set [slice_laws, simp]: "set (sort_strings xs) = set xs"
  by (simp add: sort_strings_def)

lemma sort_strings_distinct [slice_laws, simp]: "distinct (sort_strings xs) = distinct xs"
  by (simp add: sort_strings_def)

lemma sort_strings_sorted [slice_laws]: "sorted (sort_strings xs)"
  unfolding sort_strings_def using string_order.ordered_sort [of xs]
  by (simp add: linorder_not_less)

end
