(* ===== verification/Ports.thy ===== *)
theory Ports
  imports Ordering
begin

text \<open>
  \<open>internal/ports\<close>: the port specification of the command line (\<open>parser.go\<close>) and
  the table of common ports (\<open>top_ports.go\<close>).
\<close>

definition TopPortsList :: "int list" where
  "TopPortsList =
    [80, 23, 22, 443, 21, 110, 993, 143, 3389, 8080, 8443, 53, 139, 445, 25,
     587, 111, 2049, 3306, 5432, 27017, 6379, 11211, 5900, 8000, 8888, 1723,
     49152, 49153, 49154, 8081, 161, 5000, 5001, 8008, 9000, 9090, 995, 1025,
     1026, 1027, 1028, 1029, 1433, 1521, 2000, 2082, 2083, 2086, 2087, 3000,
     3128, 5060, 5222, 5901, 8088, 8181, 9080, 10000]"

definition GetTopPorts :: "int \<Rightarrow> int list" where
  "GetTopPorts n =
     (let n1 = (if n \<le> 0 then 100 else n);
          n2 = (if n1 > int (length TopPortsList) then int (length TopPortsList) else n1)
      in take (nat n2) TopPortsList)"

datatype ports_error =
  InvalidRangeFormat string
| InvalidRangeLimits string
| InvalidPortNumber string
| NoValidPorts

text \<open>One comma-separated part: the ports it adds to \<open>portMap\<close>, or the error.\<close>

definition strip_proto :: "string \<Rightarrow> string" where
  "strip_proto part =
     (if has_prefix part ''T:'' \<or> has_prefix part ''U:'' \<or> has_prefix part ''S:'' then drop 2 part else part)"

definition parse_part :: "string \<Rightarrow> ports_error + int list" where
  "parse_part raw =
     (let part = strip_proto (trim_space raw) in
      if contains_char part (CHR ''-'') then
        (case split_on (CHR ''-'') part of
           [lo, hi] \<Rightarrow>
             (case (atoi lo, atoi hi) of
                (Some start, Some end') \<Rightarrow>
                  if start < 1 \<or> end' > 65535 \<or> start > end' then Inl (InvalidRangeLimits part)
                  else Inr [start..end']
              | _ \<Rightarrow> Inl (InvalidRangeLimits part))
         | _ \<Rightarrow> Inl (InvalidRangeFormat part))
      else
        (case atoi part of
           None \<Rightarrow> Inl (InvalidPortNumber part)
         | Some p \<Rightarrow> if p < 1 \<or> p > 65535 then Inl (InvalidPortNumber part) else Inr [p]))"

text \<open>The loop over the parts: the first error ends it.\<close>

fun parse_parts :: "string list \<Rightarrow> ports_error + int list" where
  "parse_parts [] = Inr []"
| "parse_parts (p # ps) =
     (case parse_part p of
        Inl e \<Rightarrow> Inl e
      | Inr xs \<Rightarrow> (case parse_parts ps of Inl e \<Rightarrow> Inl e | Inr ys \<Rightarrow> Inr (xs @ ys)))"

definition ParsePorts :: "string \<Rightarrow> int \<Rightarrow> ports_error + int list" where
  "ParsePorts portStr topN =
     (if topN > 0 then Inr (GetTopPorts topN)
      else if trim_space portStr = [] then Inr (GetTopPorts 100)
      else (case parse_parts (split_on (CHR '','') portStr) of
              Inl e \<Rightarrow> Inl e
            | Inr added \<Rightarrow>
                (let parsedPorts = sort_ints (dedup added)
                 in if parsedPorts = [] then Inl NoValidPorts else Inr parsedPorts)))"

definition valid_port :: "int \<Rightarrow> bool" where
  "valid_port p \<longleftrightarrow> 1 \<le> p \<and> p \<le> 65535"

subsection \<open>The parts\<close>

lemma parse_part_valid: "parse_part s = Inr ps \<Longrightarrow> ps \<noteq> [] \<and> (\<forall>p \<in> set ps. valid_port p)"
  by (auto simp: parse_part_def Let_def valid_port_def split: list.splits option.splits if_splits)

lemma parse_parts_valid: "parse_parts ss = Inr ps \<Longrightarrow> \<forall>p \<in> set ps. valid_port p"
proof (induction ss arbitrary: ps)
  case (Cons s ss)
  then show ?case by (auto split: sum.splits dest!: parse_part_valid)
qed simp

lemma parse_parts_not_Nil: "ss \<noteq> [] \<Longrightarrow> parse_parts ss = Inr ps \<Longrightarrow> ps \<noteq> []"
  by (cases ss) (auto split: sum.splits dest: parse_part_valid)

lemma parse_parts_union:
  "parse_parts ss = Inr ps \<Longrightarrow> set ps = (\<Union>s \<in> set ss. {p. \<exists>xs. parse_part s = Inr xs \<and> p \<in> set xs})"
proof (induction ss arbitrary: ps)
  case (Cons s ss)
  then show ?case by (fastforce split: sum.splits)
qed simp

lemma parse_parts_Inl_iff:
  "(\<exists>e. parse_parts ss = Inl e) \<longleftrightarrow> (\<exists>s \<in> set ss. \<exists>e. parse_part s = Inl e)"
  by (induction ss) (auto split: sum.splits)

text \<open>A printed port number is a part that parses to that port.\<close>

lemma dropWhile_id: "(\<And>c. c \<in> set s \<Longrightarrow> \<not> P c) \<Longrightarrow> dropWhile P s = s"
  by (cases s) auto

lemma trim_space_id: "(\<And>c. c \<in> set s \<Longrightarrow> \<not> is_space c) \<Longrightarrow> trim_space s = s"
  using dropWhile_id [of s is_space] dropWhile_id [of "rev s" is_space]
  by (simp add: trim_space_def trim_right_by_def)

lemma space_no_digit: "is_digit c \<Longrightarrow> \<not> is_space c"
  by (auto simp: is_digit_def is_space_def less_eq_char_def)

lemma itoa_valid_digits: "valid_port p \<Longrightarrow> c \<in> set (itoa p) \<Longrightarrow> is_digit c"
  by (auto simp: itoa_def valid_port_def nat_digits_is_digit)

lemma parse_part_itoa:
  assumes "valid_port p"
  shows "parse_part (itoa p) = Inr [p]"
proof -
  have d: "\<And>c. c \<in> set (itoa p) \<Longrightarrow> is_digit c" using itoa_valid_digits [OF assms] by blast
  have trim: "trim_space (itoa p) = itoa p"
    by (rule trim_space_id) (use d space_no_digit in blast)
  have "\<not> has_prefix (itoa p) [c, CHR '':'']" for c
    using d minus_no_digit(4) by (force simp: has_prefix_iff)
  then have strip: "strip_proto (itoa p) = itoa p" by (simp add: strip_proto_def)
  have "\<not> contains_char (itoa p) (CHR ''-'')"
    using d minus_no_digit by (auto simp: contains_char_def)
  moreover have "atoi (itoa p) = Some p"
    using assms by (intro atoi_itoa) (auto simp: valid_port_def min_int64_def max_int64_def)
  ultimately show ?thesis using assms by (simp add: parse_part_def trim strip valid_port_def)
qed

lemma parse_parts_itoa: "\<forall>p \<in> set ps. valid_port p \<Longrightarrow> parse_parts (map itoa ps) = Inr ps"
  by (induction ps) (auto simp: parse_part_itoa)

subsection \<open>Properties\<close>



text \<open>Printing any non-empty list of valid ports with commas and parsing it back
  gives the same ports, sorted and without duplicates.\<close>

theorem ParsePorts_roundtrip:
  assumes "ps \<noteq> []" and "\<forall>p \<in> set ps. valid_port p"
  shows "ParsePorts (join_str '','' (map itoa ps)) 0 = Inr (sorted_list_of_set (set ps))"
proof -
  let ?spec = "join_str '','' (map itoa ps)"
  have nocomma: "CHR '','' \<notin> set q" if "q \<in> set (map itoa ps)" for q
    using that assms(2) itoa_valid_digits minus_no_digit(7) by auto
  have split: "split_on (CHR '','') ?spec = map itoa ps"
    using assms(1) nocomma by (intro split_on_join) auto
  obtain p qs where ps: "ps = p # qs" using assms(1) by (cases ps) auto
  obtain c cs where c: "itoa p = c # cs"
    by (cases "itoa p") (auto simp: itoa_def split: if_splits)
  then have "is_digit c" using itoa_valid_digits [of p c] assms(2) ps by simp
  moreover have "c \<in> set ?spec" using c ps by (cases qs) auto
  ultimately have "trim_space ?spec \<noteq> []"
    using space_no_digit unfolding trim_space_def trim_right_by_def
    by (metis dropWhile_eq_Nil_conv rev_is_Nil_conv set_rev dropWhile_eq_self_iff
        hd_dropWhile set_empty2 empty_iff)
  moreover have "sort_ints (dedup ps) = sorted_list_of_set (set ps)"
    using sort_ints_eq_sorted_list [of "dedup ps"] by simp
  moreover have "sorted_list_of_set (set ps) \<noteq> []" using assms(1) by simp
  ultimately show ?thesis
    using parse_parts_itoa [OF assms(2)] by (simp add: ParsePorts_def split)
qed

theorem ParsePorts_roundtrip_witness:
  "ParsePorts (join_str '','' (map itoa [443, 22, 443])) 0 = Inr (sorted_list_of_set {22, 443})"
  using ParsePorts_roundtrip [of "[443, 22, 443]"] by (simp add: valid_port_def insert_commute)

text \<open>\<open>GetTopPorts n\<close> is a prefix of the table, of length \<open>n\<close> capped at the 59
  ports the table has, with distinct valid ports; so every request of 59 ports or
  more (and the default 100) gives the same 59 ports.\<close>

theorem GetTopPorts_bounds:
  "length (GetTopPorts n) = (if n \<le> 0 \<or> n > 59 then 59 else nat n)
   \<and> distinct (GetTopPorts n) \<and> set (GetTopPorts n) \<subseteq> Collect valid_port
   \<and> GetTopPorts 1000 = TopPortsList"
proof -
  have len: "length TopPortsList = 59" by (simp add: TopPortsList_def)
  have dist: "distinct TopPortsList" by (simp add: TopPortsList_def)
  have valid: "\<forall>p \<in> set TopPortsList. valid_port p" by (simp add: TopPortsList_def valid_port_def)
  have "set (GetTopPorts n) \<subseteq> set TopPortsList"
    by (simp add: GetTopPorts_def Let_def set_take_subset)
  then show ?thesis
    using len dist valid by (auto simp: GetTopPorts_def Let_def)
qed

end
