(* ===== verification/NetAddr.thy ===== *)
theory NetAddr
  imports Prelude
begin

text \<open>
  What the program uses of Go's \<open>net\<close> package: addresses as byte slices of
  length 4 or 16, \<open>net.ParseIP\<close>, \<open>IP.String\<close>, \<open>IP.To4\<close>, \<open>IP.Equal\<close>,
  \<open>net.ParseCIDR\<close>, \<open>net.CIDRMask\<close>, \<open>IPNet.Contains\<close>, \<open>IP.IsLoopback\<close>,
  \<open>net.JoinHostPort\<close>; together with \<open>incIP\<close> of \<open>internal/target/parser.go\<close>,
  the one operation of the repository on raw addresses.
\<close>

unbundle bit_operations_syntax

type_synonym ip = bytes

record ipnet =
  net_ip :: ip
  net_mask :: bytes

subsection \<open>Parsing IPv4\<close>

text \<open>
  \<open>netip.parseIPv4Fields\<close>: the value and digit count of the field being read and
  the fields read so far.  A leading zero, a value over 255, an empty field, a
  fifth field or any other byte is an error.
\<close>

fun parse_v4_fields :: "nat \<Rightarrow> nat \<Rightarrow> byte list \<Rightarrow> string \<Rightarrow> ip option" where
  "parse_v4_fields val digLen fs [] =
     (if digLen = 0 \<or> length fs \<noteq> 3 then None else Some (fs @ [of_nat val]))"
| "parse_v4_fields val digLen fs (c # cs) =
     (if is_digit c then
        (if digLen = 1 \<and> val = 0 then None
         else if 10 * val + digit_val c > 255 then None
         else parse_v4_fields (10 * val + digit_val c) (Suc digLen) fs cs)
      else if c = CHR ''.'' then
        (if digLen = 0 \<or> length fs = 3 then None else parse_v4_fields 0 0 (fs @ [of_nat val]) cs)
      else None)"

definition parse_v4 :: "string \<Rightarrow> ip option" where
  "parse_v4 s = parse_v4_fields 0 0 [] s"

definition v4_prefix :: bytes where
  "v4_prefix = [0, 0, 0, 0, 0, 0, 0, 0, 0, 0, 0xff, 0xff]"

subsection \<open>Parsing IPv6\<close>

definition hex_val :: "char \<Rightarrow> nat option" where
  "hex_val c = (if is_digit c then Some (digit_val c)
     else if CHR ''a'' \<le> c \<and> c \<le> CHR ''f'' then Some (of_char c - 87)
     else if CHR ''A'' \<le> c \<and> c \<le> CHR ''F'' then Some (of_char c - 55)
     else None)"

text \<open>One group: the hex digits at the front (at most four), their value, the rest.\<close>

fun hex_group :: "nat \<Rightarrow> nat \<Rightarrow> string \<Rightarrow> (nat \<times> nat \<times> string) option" where
  "hex_group off acc [] = Some (off, acc, [])"
| "hex_group off acc (c # cs) =
     (case hex_val c of
        None \<Rightarrow> Some (off, acc, c # cs)
      | Some v \<Rightarrow> if off > 3 then None else hex_group (Suc off) (16 * acc + v) cs)"

text \<open>
  The group loop of \<open>netip.parseIPv6\<close>: the bytes read so far, the position of the
  ellipsis, the rest of the text.  \<open>fuel\<close> is the number of groups still allowed;
  eight are enough, as every turn but the last adds two bytes.
\<close>

fun parse_v6_groups :: "nat \<Rightarrow> bytes \<Rightarrow> nat option \<Rightarrow> string \<Rightarrow> (bytes \<times> nat option \<times> string) option" where
  "parse_v6_groups 0 bs ell s = Some (bs, ell, s)"
| "parse_v6_groups (Suc fuel) bs ell s =
     (case hex_group 0 0 s of
        None \<Rightarrow> None
      | Some (off, acc, rest) \<Rightarrow>
          if off = 0 then None
          else if rest \<noteq> [] \<and> hd rest = CHR ''.'' then
            (if (ell = None \<and> length bs \<noteq> 12) \<or> length bs + 4 > 16 then None
             else (case parse_v4 s of None \<Rightarrow> None | Some v4 \<Rightarrow> Some (bs @ v4, ell, [])))
          else
            (let bs' = bs @ [of_nat (acc div 256), of_nat acc] in
             case rest of
               [] \<Rightarrow> Some (bs', ell, [])
             | c # s1 \<Rightarrow>
                 if c \<noteq> CHR '':'' \<or> s1 = [] then None
                 else if hd s1 = CHR '':'' then
                   (if ell \<noteq> None then None
                    else if tl s1 = [] then Some (bs', Some (length bs'), [])
                    else parse_v6_groups fuel bs' (Some (length bs')) (tl s1))
                 else parse_v6_groups fuel bs' ell s1))"

definition v6_expand :: "bytes \<Rightarrow> nat option \<Rightarrow> string \<Rightarrow> ip option" where
  "v6_expand bs ell s =
     (if s \<noteq> [] then None
      else if length bs < 16 then
        (case ell of None \<Rightarrow> None
         | Some e \<Rightarrow> Some (take e bs @ replicate (16 - length bs) 0 @ drop e bs))
      else if ell \<noteq> None then None else Some bs)"

definition parse_v6 :: "string \<Rightarrow> ip option" where
  "parse_v6 s =
     (if has_prefix s ''::'' then
        (if drop 2 s = [] then Some (replicate 16 0)
         else (case parse_v6_groups 8 [] (Some 0) (drop 2 s) of
                 None \<Rightarrow> None | Some (bs, ell, r) \<Rightarrow> v6_expand bs ell r))
      else (case parse_v6_groups 8 [] None s of
              None \<Rightarrow> None | Some (bs, ell, r) \<Rightarrow> v6_expand bs ell r))"

text \<open>
  \<open>netip.ParseAddr\<close>: the first of \<open>.\<close>, \<open>:\<close>, \<open>%\<close> decides.  The flag tells an
  IPv4 text (32 bits) from an IPv6 one.  A zone is rejected by every caller here.
\<close>

definition parse_addr :: "string \<Rightarrow> (bool \<times> ip) option" where
  "parse_addr s =
     (case filter (\<lambda>c. c = CHR ''.'' \<or> c = CHR '':'' \<or> c = CHR ''%'') s of
        [] \<Rightarrow> None
      | c # _ \<Rightarrow>
          if c = CHR ''.'' then map_option (Pair True) (parse_v4 s)
          else if c = CHR ''%'' \<or> contains_char s (CHR ''%'') then None
          else map_option (Pair False) (parse_v6 s))"

text \<open>\<open>net.ParseIP\<close>: always the 16-byte form; \<open>None\<close> is \<open>nil\<close>.\<close>

definition parse_ip :: "string \<Rightarrow> ip option" where
  "parse_ip s = (case parse_addr s of
     None \<Rightarrow> None | Some (v4, b) \<Rightarrow> Some (if v4 then v4_prefix @ b else b))"

definition to4 :: "ip \<Rightarrow> ip option" where
  "to4 b = (if length b = 4 then Some b
            else if length b = 16 \<and> take 12 b = v4_prefix then Some (drop 12 b) else None)"

definition ip_equal :: "ip \<Rightarrow> ip \<Rightarrow> bool" where
  "ip_equal a b =
     (if length a = length b then a = b
      else if length a = 4 \<and> length b = 16 then take 12 b = v4_prefix \<and> a = drop 12 b
      else if length a = 16 \<and> length b = 4 then take 12 a = v4_prefix \<and> drop 12 a = b
      else False)"

subsection \<open>Printing\<close>

definition v4_string :: "ip \<Rightarrow> string" where
  "v4_string b = join_str ''.'' (map (\<lambda>x. nat_digits (unat x)) b)"

definition hex_char :: "nat \<Rightarrow> char" where
  "hex_char d = (if d < 10 then digit_char d else char_of (87 + d))"

fun nat_hex :: "nat \<Rightarrow> string" where
  "nat_hex n = (if n < 16 then [hex_char n] else nat_hex (n div 16) @ [hex_char (n mod 16)])"

declare nat_hex.simps [simp del]

fun groups16 :: "bytes \<Rightarrow> nat list" where
  "groups16 (a # b # bs) = (256 * unat a + unat b) # groups16 bs"
| "groups16 _ = []"

text \<open>The longest run of zero groups, the first one of equals, of length two at least.\<close>

definition zero_run :: "nat list \<Rightarrow> nat \<Rightarrow> nat" where
  "zero_run gs i = length (takeWhile (\<lambda>g. g = 0) (drop i gs))"

definition best_run :: "nat list \<Rightarrow> (nat \<times> nat) option" where
  "best_run gs = fold (\<lambda>i best.
     (let l = zero_run gs i in
      if l \<ge> 2 \<and> (case best of None \<Rightarrow> True | Some (s, e) \<Rightarrow> l > e - s) then Some (i, i + l) else best))
     [0..<length gs] None"

definition v6_string :: "ip \<Rightarrow> string" where
  "v6_string b =
     (let gs = groups16 b; hx = (\<lambda>gs. join_str '':'' (map nat_hex gs)) in
      case best_run gs of
        None \<Rightarrow> hx gs
      | Some (s, e) \<Rightarrow> hx (take s gs) @ ''::'' @ hx (drop e gs))"

definition ip_string :: "ip \<Rightarrow> string" where
  "ip_string b = (case to4 b of Some v4 \<Rightarrow> v4_string v4 | None \<Rightarrow> v6_string b)"

subsection \<open>Networks\<close>

fun cidr_mask :: "nat \<Rightarrow> nat \<Rightarrow> bytes" where
  "cidr_mask ones 0 = []"
| "cidr_mask ones (Suc l) =
     (if ones \<ge> 8 then 0xff # cidr_mask (ones - 8) l
      else NOT (drop_bit ones 0xff) # cidr_mask 0 l)"

definition mask_ip :: "ip \<Rightarrow> bytes \<Rightarrow> ip" where
  "mask_ip b m = map2 (AND) b m"

text \<open>
  \<open>net.ParseCIDR\<close>: an address, a slash, a decimal prefix length (digits only)
  within the width of the address.
\<close>

definition parse_cidr :: "string \<Rightarrow> ipnet option" where
  "parse_cidr s =
     (case cut_char (CHR ''/'') s of
        (a, m, found) \<Rightarrow>
          if \<not> found then None
          else (case parse_addr a of
            None \<Rightarrow> None
          | Some (v4, b) \<Rightarrow>
              if m = [] then None
              else (case digits_val 0 m of
                None \<Rightarrow> None
              | Some n \<Rightarrow>
                  if n > (if v4 then 32 else 128) then None
                  else (let mk = cidr_mask n (if v4 then 4 else 16)
                        in Some \<lparr>net_ip = mask_ip b mk, net_mask = mk\<rparr>))))"

text \<open>\<open>IPMask.Size\<close> of the masks \<open>ParseCIDR\<close> builds: leading ones, width in bits.\<close>

definition mask_ones :: "bytes \<Rightarrow> nat" where
  "mask_ones m = length (filter id (concat (map (\<lambda>b. map (bit b) [0..<8]) m)))"

definition mask_bits :: "bytes \<Rightarrow> nat" where
  "mask_bits m = 8 * length m"

definition net_contains :: "ipnet \<Rightarrow> ip \<Rightarrow> bool" where
  "net_contains n b =
     (let nn = (case to4 (net_ip n) of Some v4 \<Rightarrow> v4 | None \<Rightarrow> net_ip n);
          m = (if length (net_mask n) = 16 \<and> length nn = 4 then drop 12 (net_mask n) else net_mask n);
          x = (case to4 b of Some v4 \<Rightarrow> v4 | None \<Rightarrow> b)
      in length m = length nn \<and> length x = length nn \<and> mask_ip nn m = mask_ip x m)"

definition is_loopback :: "ip \<Rightarrow> bool" where
  "is_loopback b = (case to4 b of Some v4 \<Rightarrow> v4 ! 0 = 127 | None \<Rightarrow> b = replicate 15 0 @ [1])"

definition join_host_port :: "string \<Rightarrow> string \<Rightarrow> string" where
  "join_host_port h p = (if contains_char h (CHR '':'') then ''['' @ h @ '']:'' @ p else h @ '':'' @ p)"

subsection \<open>incIP\<close>

text \<open>Big-endian increment in place, from the last byte, with a carry out of the top lost.\<close>

fun inc_rev :: "bytes \<Rightarrow> bytes" where
  "inc_rev [] = []"
| "inc_rev (b # bs) = (if b + 1 > 0 then (b + 1) # bs else (b + 1) # inc_rev bs)"

definition incIP :: "ip \<Rightarrow> ip" where
  "incIP b = rev (inc_rev (rev b))"

subsection \<open>Addresses as big-endian numbers\<close>

named_theorems addr_laws \<open>addresses read as big-endian numbers\<close>

fun le_val :: "bytes \<Rightarrow> nat" where
  "le_val [] = 0"
| "le_val (b # bs) = unat b + 256 * le_val bs"

definition be_val :: "bytes \<Rightarrow> nat" where
  "be_val bs = le_val (rev bs)"

lemma unat_byte_less [simp]: "unat (b :: byte) < 256"
  using unsigned_less [of b, where ?'a = nat] by simp

lemma le_val_less: "le_val bs < 256 ^ length bs"
proof (induction bs)
  case (Cons b bs)
  then have "unat b + 256 * le_val bs < 256 + 256 * (256 ^ length bs - 1)"
    using unat_byte_less [of b] by (intro add_less_le_mono) auto
  also have "\<dots> = 256 * 256 ^ length bs" by (simp add: algebra_simps)
  finally show ?case by simp
qed simp

lemma be_val_less [addr_laws]: "be_val bs < 256 ^ length bs"
  using le_val_less [of "rev bs"] by (simp add: be_val_def)

lemma le_val_inj: "length a = length b \<Longrightarrow> le_val a = le_val b \<Longrightarrow> a = b"
proof (induction a b rule: list_induct2)
  case (Cons x xs y ys)
  have "unat x = le_val (x # xs) mod 256" "unat y = le_val (y # ys) mod 256"
    using unat_byte_less [of x] unat_byte_less [of y] by auto
  then have "unat x = unat y" using Cons.prems by metis
  with Cons show ?case by (simp add: word_unat_eq_iff)
qed simp

lemma be_val_inj: "length a = length b \<Longrightarrow> be_val a = be_val b \<Longrightarrow> a = b"
  using le_val_inj [of "rev a" "rev b"] by (simp add: be_val_def)

lemma le_val_append: "le_val (a @ b) = le_val a + 256 ^ length a * le_val b"
  by (induction a) (simp_all add: algebra_simps)

lemma be_val_Cons: "be_val (b # bs) = unat b * 256 ^ length bs + be_val bs"
  by (simp add: be_val_def le_val_append)

lemma be_val_Nil [simp]: "be_val [] = 0"
  by (simp add: be_val_def)

lemma length_inc_rev [simp]: "length (inc_rev bs) = length bs"
  by (induction bs) auto

lemma length_incIP [addr_laws, simp]: "length (incIP b) = length b"
  by (simp add: incIP_def)

lemma le_val_inc_rev: "le_val (inc_rev bs) = (le_val bs + 1) mod 256 ^ length bs"
proof (induction bs)
  case (Cons b bs)
  show ?case
  proof (cases "b + 1 > 0")
    case True
    then have "b + 1 \<noteq> 0" by simp
    then have "unat (b + 1) = unat b + 1" using unatSuc [of b] by (simp add: add.commute)
    moreover have "le_val ((b + 1) # bs) < 256 ^ length (b # bs)" using le_val_less [of "(b + 1) # bs"] by simp
    ultimately show ?thesis using True by (simp add: ac_simps)
  next
    case False
    then have b: "b + 1 = 0" using word_neq_0_conv by blast
    then have "b = - 1" by (simp add: eq_neg_iff_add_eq_0)
    then have "unat b = 255" by (simp add: unsigned_minus_1_eq_mask mask_eq_exp_minus_1)
    then have "le_val (b # bs) + 1 = 256 * (le_val bs + 1)" by simp
    moreover have "le_val (inc_rev (b # bs)) = 256 * ((le_val bs + 1) mod 256 ^ length bs)"
      using False b Cons by simp
    ultimately show ?thesis by (simp add: mult_mod_right)
  qed
qed simp

lemma be_val_incIP [addr_laws]: "be_val (incIP b) = (be_val b + 1) mod 256 ^ length b"
  by (simp add: be_val_def incIP_def le_val_inc_rev)

subsection \<open>Masks\<close>

lemma byte_ff: "(0xff :: byte) = - 1"
  by (simp add: word_unat_eq_iff unsigned_minus_1_eq_mask mask_eq_exp_minus_1)

lemma byte_mask_eq:
  assumes "n < 8"
  shows "(a :: byte) AND NOT (drop_bit n 0xff) = b AND NOT (drop_bit n 0xff)
     \<longleftrightarrow> unat a div 2 ^ (8 - n) = unat b div 2 ^ (8 - n)"
proof -
  have m: "drop_bit n (0xff :: byte) = mask (8 - n)"
    unfolding byte_ff using assms by (intro bit_word_eqI) (auto simp: bit_simps)
  define k where "k = 8 - n"
  have bits: "bit (c AND NOT (mask k)) j \<longleftrightarrow> bit c j \<and> \<not> j < k" if "j < 8" for c :: byte and j
    using that by (simp add: bit_simps)
  have "a AND NOT (mask (8 - n)) = b AND NOT (mask (8 - n)) \<longleftrightarrow> drop_bit (8 - n) a = drop_bit (8 - n) b"
    unfolding k_def [symmetric]
  proof
    assume *: "a AND NOT (mask k) = b AND NOT (mask k)"
    show "drop_bit k a = drop_bit k b"
    proof (rule bit_word_eqI)
      fix j
      show "bit (drop_bit k a) j = bit (drop_bit k b) j"
      proof (cases "k + j < 8")
        case True
        then show ?thesis using bits [OF True, of a] bits [OF True, of b] *
          by (simp add: bit_drop_bit_eq)
      next
        case False
        then show ?thesis by (auto simp: bit_drop_bit_eq dest: bit_imp_le_length)
      qed
    qed
  next
    assume *: "drop_bit k a = drop_bit k b"
    have eq: "bit a j = bit b j" if "\<not> j < k" for j
    proof -
      have "bit (drop_bit k a) (j - k) = bit (drop_bit k b) (j - k)" using * by simp
      then show ?thesis using that by (simp add: bit_drop_bit_eq)
    qed
    show "a AND NOT (mask k) = b AND NOT (mask k)"
    proof (rule bit_word_eqI)
      fix j
      assume "j < LENGTH(8)"
      then have j: "j < 8" by simp
      show "bit (a AND NOT (mask k)) j = bit (b AND NOT (mask k)) j"
        unfolding bits [OF j] using eq by blast
    qed
  qed
  also have "\<dots> \<longleftrightarrow> unat a div 2 ^ (8 - n) = unat b div 2 ^ (8 - n)"
    unfolding word_unat_eq_iff unat_drop_bit_eq by (simp only: drop_bit_eq_div)
  finally show ?thesis by (simp add: m)
qed

lemma length_cidr_mask [simp]: "length (cidr_mask n l) = l"
  by (induction n l rule: cidr_mask.induct) auto

lemma length_mask_ip [simp]: "length (mask_ip b m) = min (length b) (length m)"
  by (simp add: mask_ip_def)

lemma mask_ip_zero: "length b = l \<Longrightarrow> mask_ip b (cidr_mask 0 l) = replicate l 0"
proof (induction l arbitrary: b)
  case (Suc l)
  then obtain x xs where "b = x # xs" "length xs = l" by (cases b) auto
  moreover have "NOT (drop_bit 0 (0xff :: byte)) = 0" by (simp only: byte_ff) simp
  ultimately show ?case using Suc.IH [of xs] by (simp add: mask_ip_def del: drop_bit_0)
qed (simp add: mask_ip_def)

lemma div_split_high:
  fixes r :: nat
  assumes "r < 2 ^ w" and "h \<le> w"
  shows "(q * 2 ^ w + r) div 2 ^ h = q * 2 ^ (w - h) + r div 2 ^ h" and "r div 2 ^ h < 2 ^ (w - h)"
proof -
  have w: "(2::nat) ^ w = 2 ^ h * 2 ^ (w - h)" using assms(2) by (simp add: power_add [symmetric])
  show "(q * 2 ^ w + r) div 2 ^ h = q * 2 ^ (w - h) + r div 2 ^ h"
    unfolding w by (metis div_mult_self4 add.commute mult.left_commute power_not_zero zero_neq_numeral)
  show "r div 2 ^ h < 2 ^ (w - h)"
    using assms(1) w by (simp add: less_mult_imp_div_less mult.commute)
qed

lemma high_digit_eq:
  fixes q q' r r' M :: nat
  assumes "r < M" and "r' < M"
  shows "q * M + r = q' * M + r' \<longleftrightarrow> q = q' \<and> r = r'"
proof
  assume *: "q * M + r = q' * M + r'"
  have "(q * M + r) div M = q" "(q' * M + r') div M = q'" using assms by simp_all
  with * show "q = q' \<and> r = r'" by auto
qed simp

lemma masked_eq_iff:
  assumes "length a = l" and "length b = l" and "n \<le> 8 * l"
  shows "mask_ip a (cidr_mask n l) = mask_ip b (cidr_mask n l)
    \<longleftrightarrow> be_val a div 2 ^ (8 * l - n) = be_val b div 2 ^ (8 * l - n)"
  using assms
proof (induction l arbitrary: a b n)
  case (Suc l)
  then obtain x xs y ys where ab: "a = x # xs" "b = y # ys" "length xs = l" "length ys = l"
    by (metis length_Suc_conv)
  have p: "(256::nat) ^ l = 2 ^ (8 * l)" by (simp add: power_mult)
  have xs: "be_val xs < 2 ^ (8 * l)" and ys: "be_val ys < 2 ^ (8 * l)"
    using be_val_less [of xs] be_val_less [of ys] ab p by auto
  show ?case
  proof (cases "n \<ge> 8")
    case True
    let ?h = "8 * Suc l - n"
    have h: "?h = 8 * l - (n - 8)" "?h \<le> 8 * l" using True by auto
    have ff: "x AND 255 = x" "y AND 255 = y"
      by (simp_all only: byte_ff) simp_all
    have "mask_ip a (cidr_mask n (Suc l)) = mask_ip b (cidr_mask n (Suc l)) \<longleftrightarrow>
        x = y \<and> mask_ip xs (cidr_mask (n - 8) l) = mask_ip ys (cidr_mask (n - 8) l)"
      using True ab ff by (simp add: mask_ip_def)
    also have "\<dots> \<longleftrightarrow> unat x = unat y \<and> be_val xs div 2 ^ ?h = be_val ys div 2 ^ ?h"
      using Suc.IH [of xs ys "n - 8"] Suc.prems ab True h by (simp add: word_unat_eq_iff)
    also have "\<dots> \<longleftrightarrow> be_val a div 2 ^ ?h = be_val b div 2 ^ ?h"
      using div_split_high [OF xs h(2)] div_split_high [OF ys h(2)] high_digit_eq
      by (simp add: ab be_val_Cons p)
    finally show ?thesis .
  next
    case False
    let ?h = "8 * Suc l - n"
    have "mask_ip a (cidr_mask n (Suc l)) = mask_ip b (cidr_mask n (Suc l)) \<longleftrightarrow>
        unat x div 2 ^ (8 - n) = unat y div 2 ^ (8 - n)"
      using False ab byte_mask_eq [of n x y] mask_ip_zero [of xs l] mask_ip_zero [of ys l]
      by (simp add: mask_ip_def)
    moreover have h: "(2::nat) ^ ?h = 2 ^ (8 * l) * 2 ^ (8 - n)"
      using False by (simp flip: power_add)
    moreover have "be_val a div 2 ^ ?h = unat x div 2 ^ (8 - n)"
      unfolding h div_mult2_eq using xs by (simp add: ab be_val_Cons p)
    moreover have "be_val b div 2 ^ ?h = unat y div 2 ^ (8 - n)"
      unfolding h div_mult2_eq using ys by (simp add: ab be_val_Cons p)
    ultimately show ?thesis by simp
  qed
qed (simp add: mask_ip_def)

lemma mask_ip_idem: "length b = length m \<Longrightarrow> mask_ip (mask_ip b m) m = mask_ip b m"
  by (induction b m rule: list_induct2) (simp_all add: mask_ip_def and.assoc)

lemma unat_clear_low:
  assumes "k \<le> 8"
  shows "unat ((x :: byte) AND NOT (mask k)) = unat x div 2 ^ k * 2 ^ k"
proof -
  have "x AND NOT (mask k) = push_bit k (drop_bit k x)"
    by (rule bit_word_eqI) (auto simp: bit_simps)
  moreover have "unat (push_bit k (drop_bit k x)) = take_bit 8 (push_bit k (drop_bit k (unat x)))"
    by (simp add: unsigned_push_bit_eq unat_drop_bit_eq)
  moreover have "push_bit k (drop_bit k (unat x)) = unat x div 2 ^ k * 2 ^ k"
    by (simp only: push_bit_eq_mult drop_bit_eq_div)
  moreover have "unat x div 2 ^ k * 2 ^ k < 2 ^ 8"
    by (rule le_less_trans [OF div_times_less_eq_dividend]) simp
  ultimately show ?thesis by (simp add: take_bit_nat_eq_self)
qed

lemma byte_mask_neg: "n < 8 \<Longrightarrow> NOT (drop_bit n (0xff :: byte)) = NOT (mask (8 - n))"
  unfolding byte_ff by (intro bit_word_eqI) (auto simp: bit_simps)

lemma be_val_mask_ip [addr_laws]:
  assumes "length b = l" and "n \<le> 8 * l"
  shows "be_val (mask_ip b (cidr_mask n l)) = be_val b div 2 ^ (8 * l - n) * 2 ^ (8 * l - n)"
  using assms
proof (induction l arbitrary: b n)
  case (Suc l)
  then obtain x xs where b: "b = x # xs" "length xs = l" by (metis length_Suc_conv)
  have p: "(256::nat) ^ l = 2 ^ (8 * l)" by (simp add: power_mult)
  have xs: "be_val xs < 2 ^ (8 * l)" using be_val_less [of xs] b p by auto
  let ?h = "8 * Suc l - n"
  show ?case
  proof (cases "n \<ge> 8")
    case True
    have h: "?h = 8 * l - (n - 8)" "?h \<le> 8 * l" using True by auto
    have ff: "x AND 255 = x" by (simp only: byte_ff) simp
    have w: "(2::nat) ^ (8 * l) = 2 ^ (8 * l - ?h) * 2 ^ ?h" using h(2) by (simp flip: power_add)
    have "be_val (mask_ip b (cidr_mask n (Suc l))) = unat x * 2 ^ (8 * l) + be_val xs div 2 ^ ?h * 2 ^ ?h"
      using Suc.IH [of xs "n - 8"] Suc.prems b True h ff by (simp add: mask_ip_def be_val_Cons p)
    also have "\<dots> = be_val b div 2 ^ ?h * 2 ^ ?h"
      using div_split_high(1) [OF xs h(2), of "unat x"] w by (simp add: b be_val_Cons p algebra_simps)
    finally show ?thesis .
  next
    case False
    have z: "be_val (replicate l 0) = 0" by (induction l) (simp_all add: be_val_Cons)
    have h: "(2::nat) ^ ?h = 2 ^ (8 * l) * 2 ^ (8 - n)" using False by (simp flip: power_add)
    have "be_val (mask_ip b (cidr_mask n (Suc l))) = unat x div 2 ^ (8 - n) * 2 ^ (8 - n) * 2 ^ (8 * l)"
      using False b mask_ip_zero [of xs l] unat_clear_low [of "8 - n" x] byte_mask_neg [of n]
      by (simp add: mask_ip_def be_val_Cons p z)
    moreover have "be_val b div 2 ^ ?h = unat x div 2 ^ (8 - n)"
      unfolding h div_mult2_eq using xs by (simp add: b be_val_Cons p)
    ultimately show ?thesis using h by simp
  qed
qed (simp add: mask_ip_def)

text \<open>What \<open>ParseCIDR\<close> returns for an IPv4 text, and membership in it.\<close>

definition v4_net :: "ip \<Rightarrow> nat \<Rightarrow> ipnet" where
  "v4_net b n = \<lparr>net_ip = mask_ip b (cidr_mask n 4), net_mask = cidr_mask n 4\<rparr>"

lemma net_contains_v4 [addr_laws]:
  assumes "length b = 4" and "length x = 4" and "n \<le> 32"
  shows "net_contains (v4_net b n) x \<longleftrightarrow> be_val x div 2 ^ (32 - n) = be_val b div 2 ^ (32 - n)"
proof -
  have "net_contains (v4_net b n) x \<longleftrightarrow> mask_ip b (cidr_mask n 4) = mask_ip x (cidr_mask n 4)"
    using assms by (simp add: net_contains_def v4_net_def to4_def mask_ip_idem Let_def)
  then show ?thesis using masked_eq_iff [of b 4 x n] assms by auto
qed

subsection \<open>Dotted quads\<close>

text \<open>Reading one printed field.\<close>

lemma parse_v4_field:
  assumes "n < 256"
  shows "parse_v4_fields 0 0 fs (nat_digits n @ rest)
    = parse_v4_fields n (length (nat_digits n)) fs rest"
proof -
  consider "n < 10" | "10 \<le> n" "n < 100" | "100 \<le> n" by linarith
  then show ?thesis
  proof cases
    case 1
    then show ?thesis by (simp add: nat_digits.simps)
  next
    case 2
    then have "n div 10 < 10" "n div 10 \<noteq> 0" by auto
    then show ?thesis using 2 by (simp add: nat_digits.simps [of n] nat_digits.simps [of "n div 10"])
  next
    case 3
    then have d: "\<not> n div 10 < 10" "n div 10 div 10 < 10" "n div 10 div 10 \<noteq> 0" "\<not> n < 10"
      and small: "\<not> 255 < n div 10" "\<not> 255 < n div 10 div 10"
      using assms by auto
    have e: "nat_digits n = [digit_char (n div 10 div 10), digit_char (n div 10 mod 10), digit_char (n mod 10)]"
      using d by (simp add: nat_digits.simps [of n] nat_digits.simps [of "n div 10"]
          nat_digits.simps [of "n div 10 div 10"])
    have f: "10 * (n div 10 div 10) + n div 10 mod 10 = n div 10" by simp
    have g: "10 * (n div 10) + n mod 10 = n" by simp
    show ?thesis unfolding e using d assms f g small
      by (simp del: div_mult2_eq mult_div_mod_eq add: Let_def)
  qed
qed

lemma parse_v4_string:
  assumes "length b = 4"
  shows "parse_v4 (v4_string b) = Some b"
proof -
  obtain w x y z where b: "b = [w, x, y, z]"
    using assms by (auto simp: length_Suc_conv numeral_eq_Suc)
  have nz: "length (nat_digits n) \<noteq> 0" for n by simp
  show ?thesis
    unfolding parse_v4_def v4_string_def b
    using parse_v4_field [of "unat w"] parse_v4_field [of "unat x"] parse_v4_field [of "unat y"]
      parse_v4_field [of "unat z" _ "[]"]
    by (simp add: minus_no_digit)
qed

lemma v4_string_chars: "c \<in> set (v4_string b) \<Longrightarrow> is_digit c \<or> c = CHR ''.''"
proof (induction b)
  case (Cons x xs)
  then show ?case by (cases xs) (auto simp: v4_string_def dest: nat_digits_is_digit)
qed (simp add: v4_string_def)

lemma v4_string_has_dot: "length b = 4 \<Longrightarrow> CHR ''.'' \<in> set (v4_string b)"
  by (auto simp: v4_string_def length_Suc_conv numeral_eq_Suc)

lemma parse_addr_v4_string [go_string]:
  assumes "length b = 4"
  shows "parse_addr (v4_string b) = Some (True, b)"
proof -
  let ?p = "\<lambda>c. c = CHR ''.'' \<or> c = CHR '':'' \<or> c = CHR ''%''"
  have all: "\<forall>c \<in> set (filter ?p (v4_string b)). c = CHR ''.''"
    using v4_string_chars [of _ b] minus_no_digit by auto
  have ne: "filter ?p (v4_string b) \<noteq> []"
    using v4_string_has_dot [OF assms] by (auto simp: filter_empty_conv)
  then obtain cs where "filter ?p (v4_string b) = CHR ''.'' # cs"
    using all by (cases "filter ?p (v4_string b)") auto
  then show ?thesis by (simp add: parse_addr_def parse_v4_string [OF assms])
qed

lemma parse_ip_v4_string [go_string]: "length b = 4 \<Longrightarrow> parse_ip (v4_string b) = Some (v4_prefix @ b)"
  by (simp add: parse_ip_def parse_addr_v4_string)

lemma v4_string_inj: "length a = 4 \<Longrightarrow> length b = 4 \<Longrightarrow> v4_string a = v4_string b \<Longrightarrow> a = b"
  by (metis parse_v4_string option.inject)

lemma length_v4_prefix [simp]: "length v4_prefix = 12"
  by (simp add: v4_prefix_def)

lemma to4_v4 [addr_laws, simp]: "length b = 4 \<Longrightarrow> to4 b = Some b"
  "length b = 4 \<Longrightarrow> to4 (v4_prefix @ b) = Some b"
  by (simp_all add: to4_def)

lemma ip_string_v4 [addr_laws]: "length b = 4 \<Longrightarrow> ip_string b = v4_string b"
  by (simp add: ip_string_def)

end
