(* ===== verification/Targets.thy ===== *)
theory Targets
  imports NetAddr Ordering
begin

text \<open>
  \<open>internal/target\<close>: from the target specification to the addresses to scan
  (\<open>parser.go\<close>), the exclusions (\<open>generator.go\<close>), the scope file (\<open>scope.go\<close>) and
  the target file (\<open>file.go\<close>).  The DNS resolver (\<open>net.LookupIP\<close>) is the argument
  \<open>lookupIP\<close>, a file's content the argument \<open>file_content\<close>.  A function that may
  never return has an \<open>option\<close> type: \<open>None\<close> is the endless loop.
\<close>

datatype target_error =
  InvalidCIDR string
| CIDRTooLarge string nat
| RangeInvalidIP string
| RangeInvalidFormat string
| MalformedOctetRange string
| InvalidOctetRange string
| UnsupportedRangeFormat string
| CouldNotResolve string
| NoAddressFound string

type_synonym target_result = "(target_error + string list) option"

definition SplitList :: "string \<Rightarrow> string list" where
  "SplitList spec = fields_by (\<lambda>r. r = CHR '','' \<or> r = CHR '' '' \<or> r = CHR 0x09 \<or> r = CHR 0x0A) spec"

definition looksLikeRange :: "string \<Rightarrow> bool" where
  "looksLikeRange target =
     (contains_char target (CHR ''-'')
      \<and> list_all (\<lambda>r. is_digit r \<or> r = CHR ''.'' \<or> r = CHR ''-'') target)"

subsection \<open>CIDR expansion\<close>

definition maxIPv6CIDRHostBits :: nat where
  "maxIPv6CIDRHostBits = 20"

text \<open>\<open>for ipnet.Contains(currIP) { ips = append(ips, ...); incIP(currIP) }\<close>.\<close>

partial_function (option) cidr_loop :: "ipnet \<Rightarrow> ip \<Rightarrow> ip list option" where
  "cidr_loop n ip =
     (if net_contains n ip
      then Option.bind (cidr_loop n (incIP ip)) (\<lambda>rest. Some (ip # rest))
      else Some [])"

definition expandCIDR :: "string \<Rightarrow> target_result" where
  "expandCIDR cidr =
     (case parse_cidr cidr of
        None \<Rightarrow> Some (Inl (InvalidCIDR cidr))
      | Some n \<Rightarrow>
          (let ones = mask_ones (net_mask n); bits = mask_bits (net_mask n) in
           if bits = 128 \<and> bits - ones > maxIPv6CIDRHostBits then Some (Inl (CIDRTooLarge cidr (bits - ones)))
           else map_option (\<lambda>ips. Inr (map ip_string ips)) (cidr_loop n (net_ip n))))"

subsection \<open>Range expansion\<close>

text \<open>The endless \<open>for\<close> of a full range, left when the current address prints as the last.\<close>

partial_function (option) range_loop :: "ip \<Rightarrow> ip \<Rightarrow> ip list option" where
  "range_loop endIP cur =
     (if ip_string cur = ip_string endIP then Some [cur]
      else Option.bind (range_loop endIP (incIP cur)) (\<lambda>rest. Some (cur # rest)))"

definition to4_of_text :: "string \<Rightarrow> ip option" where
  "to4_of_text s = Option.bind (parse_ip s) to4"

definition expandRange :: "string \<Rightarrow> target_result" where
  "expandRange target =
     (if count_list target (CHR ''-'') = 1 \<and> count_list target (CHR ''.'') = 6 then
        (let parts = split_on (CHR ''-'') target in
         case (to4_of_text (parts ! 0), to4_of_text (parts ! 1)) of
           (Some startIP, Some endIP) \<Rightarrow>
             map_option (\<lambda>ips. Inr (map ip_string ips)) (range_loop endIP startIP)
         | _ \<Rightarrow> Some (Inl (RangeInvalidIP target)))
      else
        (case split_on (CHR ''.'') target of
           [p0, p1, p2, p3] \<Rightarrow>
             if contains_char p3 (CHR ''-'') then
               (case split_on (CHR ''-'') p3 of
                  [lo, hi] \<Rightarrow>
                    (case (atoi lo, atoi hi) of
                       (Some start, Some end') \<Rightarrow>
                         if start > end' \<or> start < 0 \<or> end' > 255 then Some (Inl (InvalidOctetRange target))
                         else Some (Inr (map (\<lambda>i. join_str ''.'' [p0, p1, p2] @ ''.'' @ itoa i) [start..end']))
                     | _ \<Rightarrow> Some (Inl (InvalidOctetRange target)))
                | _ \<Rightarrow> Some (Inl (MalformedOctetRange p3)))
             else Some (Inl (UnsupportedRangeFormat target))
         | _ \<Rightarrow> Some (Inl (RangeInvalidFormat target))))"

subsection \<open>Targets\<close>

definition prefer_v4 :: "string \<Rightarrow> ip list \<Rightarrow> target_error + string list" where
  "prefer_v4 target ips =
     (let v4 = map ip_string (List.map_filter to4 ips);
          v6 = map ip_string (filter (\<lambda>b. to4 b = None) ips)
      in if v4 \<noteq> [] then Inr v4 else if v6 \<noteq> [] then Inr v6 else Inl (NoAddressFound target))"

definition ParseTarget :: "(string \<Rightarrow> ip list option) \<Rightarrow> string \<Rightarrow> target_result" where
  "ParseTarget lookupIP raw =
     (let target = trim_space raw in
      if target = [] then Some (Inr [])
      else if contains_char target (CHR ''/'') then expandCIDR target
      else if looksLikeRange target then expandRange target
      else (case parse_ip target of
              Some b \<Rightarrow> Some (Inr [ip_string b])
            | None \<Rightarrow>
                (case lookupIP target of
                   None \<Rightarrow> Some (Inl (CouldNotResolve target))
                 | Some ips \<Rightarrow> Some (prefer_v4 target ips))))"

definition isHostname :: "string \<Rightarrow> bool" where
  "isHostname target =
     (if contains_char target (CHR ''/'') \<or> looksLikeRange target then False else parse_ip target = None)"

text \<open>The names map: an address keeps the first name it was asked for under.\<close>

fun record_names :: "string \<Rightarrow> string list \<Rightarrow> (string \<rightharpoonup> string) \<Rightarrow> (string \<rightharpoonup> string)" where
  "record_names t [] names = names"
| "record_names t (ip # ips) names =
     record_names t ips (if names ip = None then names(ip \<mapsto> t) else names)"

fun parse_targets_loop ::
  "(string \<Rightarrow> ip list option) \<Rightarrow> string list \<Rightarrow> string list \<Rightarrow> (string \<rightharpoonup> string)
     \<Rightarrow> (target_error + string list \<times> (string \<rightharpoonup> string)) option" where
  "parse_targets_loop lookupIP [] allIPs names = Some (Inr (allIPs, names))"
| "parse_targets_loop lookupIP (t # ts) allIPs names =
     (case ParseTarget lookupIP t of
        None \<Rightarrow> None
      | Some (Inl e) \<Rightarrow> Some (Inl e)
      | Some (Inr ips) \<Rightarrow>
          parse_targets_loop lookupIP ts (allIPs @ ips)
            (if isHostname t then record_names t ips names else names))"

definition ParseTargetsWithNames ::
  "(string \<Rightarrow> ip list option) \<Rightarrow> string list \<Rightarrow> (target_error + string list \<times> (string \<rightharpoonup> string)) option" where
  "ParseTargetsWithNames lookupIP targets = parse_targets_loop lookupIP targets [] Map.empty"

definition ParseTargets :: "(string \<Rightarrow> ip list option) \<Rightarrow> string list \<Rightarrow> target_result" where
  "ParseTargets lookupIP targets = map_option (map_sum id fst) (ParseTargetsWithNames lookupIP targets)"

subsection \<open>Exclusions\<close>

text \<open>\<open>ExpandExclusions\<close>: what the entries resolve to, and the ones that failed.\<close>

fun ExpandExclusions :: "(string \<Rightarrow> ip list option) \<Rightarrow> string list \<Rightarrow> (string list \<times> string list) option" where
  "ExpandExclusions lookupIP [] = Some ([], [])"
| "ExpandExclusions lookupIP (raw # rest) =
     (let entry = trim_space raw in
      if entry = [] then ExpandExclusions lookupIP rest
      else if parse_cidr entry \<noteq> None \<or> parse_ip entry \<noteq> None then
        map_option (\<lambda>(resolved, failed). (entry # resolved, failed)) (ExpandExclusions lookupIP rest)
      else
        (case ParseTarget lookupIP entry of
           None \<Rightarrow> None
         | Some (Inl e) \<Rightarrow>
             map_option (\<lambda>(resolved, failed). (resolved, entry # failed)) (ExpandExclusions lookupIP rest)
         | Some (Inr ips) \<Rightarrow>
             if ips = [] then
               map_option (\<lambda>(resolved, failed). (resolved, entry # failed)) (ExpandExclusions lookupIP rest)
             else
               map_option (\<lambda>(resolved, failed). (ips @ resolved, failed)) (ExpandExclusions lookupIP rest)))"

definition FilterExcluded :: "string list \<Rightarrow> string list \<Rightarrow> string list" where
  "FilterExcluded targets excludeList =
     (if excludeList = [] then targets
      else
        (let excludedNets = List.map_filter parse_cidr excludeList;
             excludedIPs = List.map_filter (\<lambda>ex. if parse_cidr ex = None then parse_ip ex else None) excludeList
         in filter (\<lambda>t. case parse_ip t of
              None \<Rightarrow> False
            | Some b \<Rightarrow> \<not> (list_ex (ip_equal b) excludedIPs \<or> list_ex (\<lambda>n. net_contains n b) excludedNets))
            targets))"

subsection \<open>Scope and target files\<close>

datatype file_content =
  OpenFailed
| FileLines "string list" bool \<comment> \<open>the lines the scanner produced; whether it then failed\<close>

datatype scope_error =
  ScopeOpen
| ScopeEntry string target_error
| ScopeRead
| ScopeEmpty

fun scope_entries ::
  "(string \<Rightarrow> ip list option) \<Rightarrow> string list \<Rightarrow> string list \<Rightarrow> ipnet list
     \<Rightarrow> (scope_error + string list \<times> ipnet list) option" where
  "scope_entries lookupIP [] ips nets = Some (Inr (ips, nets))"
| "scope_entries lookupIP (l # ls) ips nets =
     (let entry = trim_space (fst (cut_char (CHR ''#'') l)) in
      if entry = [] then scope_entries lookupIP ls ips nets
      else (case parse_cidr entry of
              Some n \<Rightarrow> scope_entries lookupIP ls ips (nets @ [n])
            | None \<Rightarrow>
                (case ParseTarget lookupIP entry of
                   None \<Rightarrow> None
                 | Some (Inl e) \<Rightarrow> Some (Inl (ScopeEntry entry e))
                 | Some (Inr as) \<Rightarrow> scope_entries lookupIP ls (ips @ as) nets)))"

definition in_scope :: "string list \<Rightarrow> ipnet list \<Rightarrow> string \<Rightarrow> bool" where
  "in_scope allowedIPs allowedNetworks t =
     (List.member allowedIPs t
      \<or> list_ex (\<lambda>n. net_contains n (case parse_ip t of None \<Rightarrow> [] | Some b \<Rightarrow> b)) allowedNetworks)"

definition FilterByScope ::
  "(string \<Rightarrow> ip list option) \<Rightarrow> string list \<Rightarrow> file_content \<Rightarrow> (scope_error + string list) option" where
  "FilterByScope lookupIP targetIPs file =
     (case file of
        OpenFailed \<Rightarrow> Some (Inl ScopeOpen)
      | FileLines ls failed \<Rightarrow>
          (case scope_entries lookupIP ls [] [] of
             None \<Rightarrow> None
           | Some (Inl e) \<Rightarrow> Some (Inl e)
           | Some (Inr (ips, nets)) \<Rightarrow>
               if failed then Some (Inl ScopeRead)
               else if ips = [] \<and> nets = [] then Some (Inl ScopeEmpty)
               else Some (Inr (filter (in_scope ips nets) targetIPs))))"

datatype load_error = LoadOpen | LoadRead

fun load_items :: "(string \<Rightarrow> ip list option) \<Rightarrow> string list \<Rightarrow> string list option" where
  "load_items lookupIP [] = Some []"
| "load_items lookupIP (item # items) =
     (case ParseTarget lookupIP item of
        None \<Rightarrow> None
      | Some (Inl e) \<Rightarrow> load_items lookupIP items
      | Some (Inr ips) \<Rightarrow> map_option ((@) ips) (load_items lookupIP items))"

definition load_line_items :: "string \<Rightarrow> string list" where
  "load_line_items l =
     (let line = trim_space l in if line = [] \<or> has_prefix line ''#'' then [] else split_fields line)"

definition LoadFromFile :: "(string \<Rightarrow> ip list option) \<Rightarrow> file_content \<Rightarrow> (load_error + string list) option" where
  "LoadFromFile lookupIP file =
     (case file of
        OpenFailed \<Rightarrow> Some (Inl LoadOpen)
      | FileLines ls failed \<Rightarrow>
          map_option (\<lambda>targets. if failed then Inl LoadRead else Inr targets)
            (load_items lookupIP (concat (map load_line_items ls))))"

declare cidr_loop.simps [code]
declare range_loop.simps [code]

subsection \<open>The loops over addresses\<close>

lemma v4_base_bound:
  assumes "length b = 4" and "n \<le> 32"
  shows "be_val b div 2 ^ (32 - n) < 2 ^ n"
proof -
  have "be_val b < 2 ^ 32" using be_val_less [of b] assms(1) by simp
  also have "(2::nat) ^ 32 = 2 ^ n * 2 ^ (32 - n)" using assms(2) by (simp flip: power_add)
  finally show ?thesis by (simp add: less_mult_imp_div_less)
qed

lemma cidr_loop_v4:
  assumes b: "length b = 4" and n: "1 \<le> n" "n \<le> 32"
    and base: "base = be_val b div 2 ^ (32 - n) * 2 ^ (32 - n)"
  shows "k \<le> 2 ^ (32 - n) \<Longrightarrow> length ip = 4 \<Longrightarrow>
    be_val ip = (base + (2 ^ (32 - n) - k)) mod 2 ^ 32 \<Longrightarrow>
    \<exists>as. cidr_loop (v4_net b n) ip = Some as \<and> (\<forall>a \<in> set as. length a = 4)
      \<and> map be_val as = [base + (2 ^ (32 - n) - k) ..< base + 2 ^ (32 - n)]"
proof (induction k arbitrary: ip)
  let ?h = "32 - n" and ?q = "be_val b div 2 ^ (32 - n)"
  have q: "?q < 2 ^ n" using v4_base_bound [OF b n(2)] .
  have pow: "(2::nat) ^ n * 2 ^ ?h = 2 ^ 32" using n by (simp flip: power_add)
  have "Suc ?q * 2 ^ ?h \<le> 2 ^ n * 2 ^ ?h" using q by (intro mult_right_mono) auto
  then have top: "base + 2 ^ ?h \<le> 2 ^ 32" using base pow by simp
  note contains = net_contains_v4 [OF b _ n(2)]
  {
    case 0
    have "be_val ip div 2 ^ ?h \<noteq> ?q"
    proof (cases "base + 2 ^ ?h < 2 ^ 32")
      case True
      then have "be_val ip = Suc ?q * 2 ^ ?h" using 0 base by simp
      then have "be_val ip div 2 ^ ?h = Suc ?q" by (metis nonzero_mult_div_cancel_right power_not_zero zero_neq_numeral)
      then show ?thesis by simp
    next
      case False
      then have eq: "base + 2 ^ ?h = 2 ^ 32" using top by simp
      then have "Suc ?q * 2 ^ ?h = 2 ^ n * 2 ^ ?h" using base pow by simp
      then have "Suc ?q = 2 ^ n" by (metis mult_cancel2 power_not_zero zero_neq_numeral)
      moreover have "(2::nat) ^ 1 \<le> 2 ^ n" using n(1) by (intro power_increasing) auto
      ultimately have "?q \<noteq> 0" by auto
      moreover have "be_val ip = 0" using 0 eq by simp
      ultimately show ?thesis by simp
    qed
    then show ?case using 0 contains [of ip] by (simp add: cidr_loop.simps [of _ ip])
  next
    case (Suc k)
    have lt: "base + (2 ^ ?h - Suc k) < 2 ^ 32" using Suc.prems(1) top by linarith
    then have v: "be_val ip = base + (2 ^ ?h - Suc k)" using Suc.prems(3) by simp
    have "be_val ip div 2 ^ ?h = ?q"
    proof -
      have "2 ^ ?h - Suc k < (2::nat) ^ ?h" by simp
      then show ?thesis unfolding v base
        by (metis add.right_neutral div_less div_mult_self3 power_not_zero zero_neq_numeral add.commute)
    qed
    then have inside: "net_contains (v4_net b n) ip" using contains [of ip] Suc.prems(2) by simp
    have "be_val (incIP ip) = (base + (2 ^ ?h - k)) mod 2 ^ 32"
      using v Suc.prems(1,2) by (simp add: be_val_incIP Suc_diff_Suc)
    then obtain as where as: "cidr_loop (v4_net b n) (incIP ip) = Some as" "\<forall>a \<in> set as. length a = 4"
        "map be_val as = [base + (2 ^ ?h - k) ..< base + 2 ^ ?h]"
      using Suc.IH [of "incIP ip"] Suc.prems(1,2) by auto
    have "[base + (2 ^ ?h - Suc k) ..< base + 2 ^ ?h]
        = (base + (2 ^ ?h - Suc k)) # [base + (2 ^ ?h - k) ..< base + 2 ^ ?h]"
      using Suc.prems(1) by (simp add: upt_conv_Cons Suc_diff_Suc)
    then show ?case
      using as inside v Suc.prems(2) by (simp add: cidr_loop.simps [of _ ip])
  }
qed

text \<open>The whole IPv4 space never leaves the loop: every successor is still inside.\<close>

lemma cidr_loop_all_diverges:
  assumes "cidr_loop n ip = Some r"
  shows "n \<noteq> v4_net b 0 \<or> length b \<noteq> 4 \<or> length ip \<noteq> 4"
proof (rule cidr_loop.raw_induct [OF _ assms])
  fix loop :: "ipnet \<Rightarrow> ip \<Rightarrow> ip list option" and n ip r
  assume IH: "\<And>n ip r. loop n ip = Some r \<Longrightarrow> n \<noteq> v4_net b 0 \<or> length b \<noteq> 4 \<or> length ip \<noteq> 4"
    and eq: "(if net_contains n ip then Option.bind (loop n (incIP ip)) (\<lambda>rest. Some (ip # rest)) else Some []) = Some r"
  show "n \<noteq> v4_net b 0 \<or> length b \<noteq> 4 \<or> length ip \<noteq> 4"
  proof (rule ccontr)
    assume "\<not> ?thesis"
    then have *: "n = v4_net b 0" "length b = 4" "length ip = 4" by auto
    have "be_val x div 2 ^ 32 = 0" if "length x = 4" for x
      using be_val_less [of x] that by simp
    then have "net_contains n ip" using * net_contains_v4 [of b ip 0] by simp
    then obtain r' where "loop n (incIP ip) = Some r'" using eq by (auto simp: bind_eq_Some_conv)
    then show False using IH [of n "incIP ip" r'] * by simp
  qed
qed

lemma v4_cmp: "length a = 4 \<Longrightarrow> length b = 4 \<Longrightarrow> ip_string a = ip_string b \<longleftrightarrow> be_val a = be_val b"
  by (metis v4_string_inj be_val_inj ip_string_v4)

text \<open>The range loop always stops: after \<open>d\<close> increments, wrapping at the top.\<close>

lemma range_loop_v4:
  assumes "length e = 4"
  shows "length cur = 4 \<Longrightarrow> be_val e = (be_val cur + d) mod 2 ^ 32 \<Longrightarrow> d < 2 ^ 32 \<Longrightarrow>
    \<exists>as. range_loop e cur = Some as \<and> (\<forall>a \<in> set as. length a = 4)
      \<and> map be_val as = map (\<lambda>i. (be_val cur + i) mod 2 ^ 32) [0..<Suc d]"
proof (induction d arbitrary: cur)
  case 0
  have "be_val cur < 2 ^ 32" using be_val_less [of cur] 0 by simp
  then show ?case
    using 0 assms v4_cmp [of cur e] by (simp add: range_loop.simps [of _ cur])
next
  case (Suc d)
  have lt: "be_val cur < 2 ^ 32" using be_val_less [of cur] Suc.prems by simp
  have "be_val cur \<noteq> be_val e"
  proof
    assume "be_val cur = be_val e"
    then have "(be_val cur + Suc d) mod 2 ^ 32 = (be_val cur + 0) mod 2 ^ 32" using Suc.prems(2) lt by simp
    then have "Suc d mod 2 ^ 32 = 0" by (metis add_diff_cancel_left' mod_eq_dvd_iff_nat le_add1 mod_0_imp_dvd dvd_imp_mod_0 add_0_right)
    then show False using Suc.prems(3) by simp
  qed
  then have ne: "ip_string cur \<noteq> ip_string e" using v4_cmp [of cur e] Suc.prems assms by simp
  have inc: "be_val (incIP cur) = (be_val cur + 1) mod 2 ^ 32"
    using Suc.prems(1) by (simp add: be_val_incIP)
  then have "be_val e = (be_val (incIP cur) + d) mod 2 ^ 32"
    using Suc.prems(2) by (simp add: mod_simps)
  then obtain as where as: "range_loop e (incIP cur) = Some as" "\<forall>a \<in> set as. length a = 4"
      "map be_val as = map (\<lambda>i. (be_val (incIP cur) + i) mod 2 ^ 32) [0..<Suc d]"
    using Suc.IH [of "incIP cur"] Suc.prems by auto
  have "map be_val (cur # as) = be_val cur mod 2 ^ 32 # map (\<lambda>i. (be_val cur + i) mod 2 ^ 32) (map Suc [0..<Suc d])"
    using as(3) lt by (simp add: inc mod_simps del: upt_Suc)
  also have "\<dots> = map (\<lambda>i. (be_val cur + i) mod 2 ^ 32) (0 # map Suc [0..<Suc d])" by simp
  also have "0 # map Suc [0..<Suc d] = [0..<Suc (Suc d)]"
    by (simp add: map_Suc_upt upt_conv_Cons del: upt_Suc)
  finally show ?case
    using as ne Suc.prems(1) by (simp add: range_loop.simps [of _ cur] del: upt_Suc)
qed

subsection \<open>CIDR texts\<close>

lemma cut_char_at: "sep \<notin> set a \<Longrightarrow> cut_char sep (a @ sep # b) = (a, b, True)"
proof -
  assume "sep \<notin> set a"
  then have "takeWhile (\<lambda>c. c \<noteq> sep) (a @ sep # b) = a"
    by (induction a) auto
  then show ?thesis by (simp add: cut_char_def Let_def)
qed

definition v4_cidr_text :: "ip \<Rightarrow> nat \<Rightarrow> string" where
  "v4_cidr_text b n = v4_string b @ CHR ''/'' # nat_digits n"

lemma slash_not_in_v4: "CHR ''/'' \<notin> set (v4_string b)"
  using v4_string_chars [of "CHR ''/''" b] minus_no_digit(5) by auto

lemma parse_cidr_v4_text [go_string]:
  "length b = 4 \<Longrightarrow> n \<le> 32 \<Longrightarrow> parse_cidr (v4_cidr_text b n) = Some (v4_net b n)"
  by (simp add: parse_cidr_def v4_cidr_text_def cut_char_at [OF slash_not_in_v4]
      parse_addr_v4_string digits_val_nat_digits v4_net_def Let_def)

lemma expandCIDR_v4:
  assumes "length b = 4" and "n \<le> 32"
  shows "expandCIDR (v4_cidr_text b n)
    = map_option (\<lambda>ips. Inr (map ip_string ips)) (cidr_loop (v4_net b n) (mask_ip b (cidr_mask n 4)))"
  using assms by (simp add: expandCIDR_def parse_cidr_v4_text Let_def v4_net_def mask_bits_def)

lemma net_addresses_v4:
  assumes "length b = 4" and "n \<le> 32" and "map be_val as = [base ..< base + 2 ^ (32 - n)]"
    and "base = be_val b div 2 ^ (32 - n) * 2 ^ (32 - n)" and "\<forall>a \<in> set as. length a = 4" and "length a = 4"
  shows "a \<in> set as \<longleftrightarrow> net_contains (v4_net b n) a"
proof -
  have "a \<in> set as \<longleftrightarrow> be_val a \<in> set (map be_val as)"
  proof
    assume "be_val a \<in> set (map be_val as)"
    then obtain x where "x \<in> set as" "be_val a = be_val x" by auto
    then show "a \<in> set as" using be_val_inj [of a x] assms(5,6) by simp
  qed simp
  also have "\<dots> \<longleftrightarrow> base \<le> be_val a \<and> be_val a < base + 2 ^ (32 - n)" using assms(3) by simp
  also have "\<dots> \<longleftrightarrow> be_val a div 2 ^ (32 - n) = be_val b div 2 ^ (32 - n)"
  proof
    assume "base \<le> be_val a \<and> be_val a < base + 2 ^ (32 - n)"
    then obtain r where "be_val a = base + r" "r < 2 ^ (32 - n)"
      by (metis add_less_cancel_left le_Suc_ex)
    then show "be_val a div 2 ^ (32 - n) = be_val b div 2 ^ (32 - n)" using assms(4) by simp
  next
    assume "be_val a div 2 ^ (32 - n) = be_val b div 2 ^ (32 - n)"
    then have "be_val a = base + be_val a mod 2 ^ (32 - n)" using assms(4) by (metis div_mult_mod_eq)
    then show "base \<le> be_val a \<and> be_val a < base + 2 ^ (32 - n)"
      by (metis le_add1 add_less_cancel_left mod_less_divisor zero_less_numeral zero_less_power)
  qed
  also have "\<dots> \<longleftrightarrow> net_contains (v4_net b n) a"
    using net_contains_v4 [OF assms(1,6,2)] by simp
  finally show ?thesis .
qed

lemma cidr_expansion_v4:
  assumes "length b = 4" and "1 \<le> n" and "n \<le> 32"
  shows "\<exists>as. expandCIDR (v4_cidr_text b n) = Some (Inr (map ip_string as)) \<and> length as = 2 ^ (32 - n)
    \<and> (\<forall>a \<in> set as. length a = 4) \<and> sorted_wrt (<) (map be_val as)
    \<and> (\<forall>a. length a = 4 \<longrightarrow> (a \<in> set as \<longleftrightarrow> net_contains (v4_net b n) a))"
proof -
  define base where "base = be_val b div 2 ^ (32 - n) * 2 ^ (32 - n)"
  let ?start = "mask_ip b (cidr_mask n 4)"
  have start: "be_val ?start = base" "length ?start = 4"
    using be_val_mask_ip [of b 4 n] assms by (simp_all add: base_def)
  then have "be_val ?start = (base + (2 ^ (32 - n) - 2 ^ (32 - n))) mod 2 ^ 32"
    using be_val_less [of ?start] by simp
  then obtain as where as: "cidr_loop (v4_net b n) ?start = Some as" "\<forall>a \<in> set as. length a = 4"
      "map be_val as = [base ..< base + 2 ^ (32 - n)]"
    using cidr_loop_v4 [OF assms base_def, of "2 ^ (32 - n)" ?start] start(2) by auto
  have "length as = 2 ^ (32 - n)" using arg_cong [OF as(3), of length] by simp
  then show ?thesis
    using as expandCIDR_v4 [OF assms(1,3)] net_addresses_v4 [OF assms(1,3) as(3) base_def as(2)]
    by (intro exI [of _ as]) simp
qed

subsection \<open>Properties\<close>

text \<open>C3: expanding an IPv4 CIDR of prefix length 1 to 32 returns the \<open>2^(32-n)\<close>
  addresses of the network, in increasing order and nothing else: an IPv4
  address is listed exactly when the network contains it, and no two entries of
  the returned text list are equal.\<close>

theorem expandCIDR_exact:
  assumes "length b = 4" and "1 \<le> n" and "n \<le> 32"
  shows "\<exists>as. expandCIDR (v4_cidr_text b n) = Some (Inr (map ip_string as)) \<and> length as = 2 ^ (32 - n)
    \<and> sorted_wrt (<) (map be_val as) \<and> distinct (map ip_string as)
    \<and> (\<forall>a. length a = 4 \<longrightarrow> (a \<in> set as \<longleftrightarrow> net_contains (v4_net b n) a))"
proof -
  obtain as where as: "expandCIDR (v4_cidr_text b n) = Some (Inr (map ip_string as))"
      "length as = 2 ^ (32 - n)" "\<forall>a \<in> set as. length a = 4" "sorted_wrt (<) (map be_val as)"
      "\<forall>a. length a = 4 \<longrightarrow> (a \<in> set as \<longleftrightarrow> net_contains (v4_net b n) a)"
    using cidr_expansion_v4 [OF assms] by blast
  have "distinct as" using as(4) by (simp add: strict_sorted_iff distinct_map)
  moreover have "inj_on ip_string (set as)"
    using as(3) v4_cmp be_val_inj by (intro inj_onI) metis
  ultimately show ?thesis using as by (auto simp: distinct_map)
qed

theorem expandCIDR_exact_witness:
  "\<exists>as. expandCIDR ''10.1.2.3/30'' = Some (Inr (map ip_string as)) \<and> length as = 4
    \<and> distinct (map ip_string as) \<and> [10, 1, 2, 2] \<in> set as \<and> [10, 1, 2, 4] \<notin> set as"
proof -
  have t: "v4_cidr_text [10, 1, 2, 3] 30 = ''10.1.2.3/30''" by code_simp
  have c: "net_contains (v4_net [10, 1, 2, 3] 30) [10, 1, 2, 2]"
      "\<not> net_contains (v4_net [10, 1, 2, 3] 30) [10, 1, 2, 4]" by code_simp+
  show ?thesis using expandCIDR_exact [of "[10, 1, 2, 3]" 30] c unfolding t by fastforce
qed

text \<open>Expanding an IPv4 CIDR of prefix length 0 never returns: the loop that
  leaves when the incremented address falls outside the network has no way out
  when the network is the whole IPv4 space.\<close>

theorem expandCIDR_zero_prefix_diverges:
  assumes "length b = 4"
  shows "expandCIDR (v4_cidr_text b 0) = None"
  using cidr_loop_all_diverges [of "v4_net b 0" "mask_ip b (cidr_mask 0 4)" _ b] assms
  by (cases "cidr_loop (v4_net b 0) (mask_ip b (cidr_mask 0 4))") (auto simp: expandCIDR_v4)

theorem expandCIDR_zero_prefix_diverges_witness:
  "expandCIDR ''0.0.0.0/0'' = None"
proof -
  have "v4_cidr_text [0, 0, 0, 0] 0 = ''0.0.0.0/0''" by code_simp
  then show ?thesis using expandCIDR_zero_prefix_diverges [of "[0, 0, 0, 0]"] by simp
qed

end
