(* ===== verification/Endian.thy ===== *)
theory Endian
  imports NetAddr
begin

unbundle bit_operations_syntax

text \<open>
  \<open>encoding/binary.BigEndian\<close> on 16- and 32-bit words: what \<open>PutUint16\<close> and
  \<open>PutUint32\<close> write and \<open>Uint16\<close>, \<open>Uint32\<close> read back.
\<close>

definition put16 :: "u16 \<Rightarrow> bytes" where
  "put16 w = [ucast (drop_bit 8 w), ucast w]"

definition put32 :: "u32 \<Rightarrow> bytes" where
  "put32 w = [ucast (drop_bit 24 w), ucast (drop_bit 16 w), ucast (drop_bit 8 w), ucast w]"

definition get16 :: "bytes \<Rightarrow> u16" where
  "get16 b = (case b of hi # lo # _ \<Rightarrow> push_bit 8 (ucast hi) OR ucast lo | _ \<Rightarrow> 0)"

definition get32 :: "bytes \<Rightarrow> u32" where
  "get32 b = (case b of b0 # b1 # b2 # b3 # _ \<Rightarrow>
      push_bit 24 (ucast b0) OR push_bit 16 (ucast b1) OR push_bit 8 (ucast b2) OR ucast b3 | _ \<Rightarrow> 0)"

named_theorems endian \<open>reading back what was written\<close>

lemma length_put16 [endian, simp]: "length (put16 w) = 2"
  by (simp add: put16_def)

lemma length_put32 [endian, simp]: "length (put32 w) = 4"
  by (simp add: put32_def)

lemma get16_put16 [endian, simp]: "get16 (put16 w @ rest) = w"
  by (rule bit_word_eqI) (auto simp: get16_def put16_def bit_simps)

lemma get32_put32 [endian, simp]: "get32 (put32 w @ rest) = w"
proof (rule bit_word_eqI)
  fix n
  assume "n < LENGTH(32)"
  then consider "n < 8" | "8 \<le> n" "n < 16" | "16 \<le> n" "n < 24" | "24 \<le> n" "n < 32" by fastforce
  then show "bit (get32 (put32 w @ rest)) n \<longleftrightarrow> bit w n"
    by cases (auto simp: get32_def put32_def bit_simps)
qed

lemma get16_put16_Nil [simp]: "get16 (put16 w) = w"
  using get16_put16 [of w "[]"] by simp

lemma get32_put32_Nil [simp]: "get32 (put32 w) = w"
  using get32_put32 [of w "[]"] by simp

lemma unat_byte_at: "unat (ucast (drop_bit n (w :: 'a::len word)) :: byte) = unat w div 2 ^ n mod 256"
  by (simp only: unsigned_ucast_eq unsigned_drop_bit_eq) (simp add: drop_bit_eq_div take_bit_eq_mod)

lemma unat_byte_0: "unat (ucast (w :: 'a::len word) :: byte) = unat w mod 256"
  using unat_byte_at [of 0 w] by simp

lemma be_val_put16 [endian]: "be_val (put16 w) = unat w"
proof -
  define v where "v = unat w"
  have "v < 2 ^ 16" using unsigned_less [of w, where ?'a = nat] by (simp add: v_def)
  then have "v div 256 mod 256 * 256 + v mod 256 = v" by simp
  then show ?thesis
    by (simp only: put16_def be_val_Cons unat_byte_at unat_byte_0 [of w] flip: v_def) simp
qed

lemma byte_digits:
  "(v::nat) = a * 256 + r0 \<Longrightarrow> a = b * 256 + r1 \<Longrightarrow> b = c * 256 + r2
   \<Longrightarrow> v = c * 16777216 + r2 * 65536 + r1 * 256 + r0"
  by simp

lemma be_val_put32 [endian]: "be_val (put32 w) = unat w"
proof -
  define v where "v = unat w"
  have "v < 2 ^ 32" using unsigned_less [of w, where ?'a = nat] by (simp add: v_def)
  then have "v div 16777216 mod 256 = v div 16777216" by simp
  moreover have "v = v div 16777216 * 16777216 + v div 65536 mod 256 * 65536 + v div 256 mod 256 * 256 + v mod 256"
  proof (rule byte_digits)
    show "v = v div 256 * 256 + v mod 256" by (simp only: div_mult_mod_eq)
    have "v div 65536 = v div 256 div 256" using div_mult2_eq [of v 256 256] by simp
    then show "v div 256 = v div 65536 * 256 + v div 256 mod 256" by (simp only: div_mult_mod_eq)
    have "v div 16777216 = v div 65536 div 256" using div_mult2_eq [of v 65536 256] by simp
    then show "v div 65536 = v div 16777216 * 256 + v div 65536 mod 256" by (simp only: div_mult_mod_eq)
  qed
  ultimately show ?thesis
    by (simp only: put32_def be_val_Cons unat_byte_at unat_byte_0 [of w] flip: v_def) simp
qed

lemma put32_inj: "put32 v = put32 w \<Longrightarrow> v = w"
  by (metis get32_put32_Nil)

lemma put32_be_val:
  assumes "length a = 4"
  shows "put32 (of_nat (be_val a)) = a"
proof (rule be_val_inj)
  show "length (put32 (of_nat (be_val a))) = length a" using assms by simp
  have "be_val a < 2 ^ 32" using be_val_less [of a] assms by simp
  then show "be_val (put32 (of_nat (be_val a))) = be_val a"
    by (simp add: be_val_put32 unsigned_of_nat take_bit_eq_mod)
qed

subsection \<open>Bytes and text\<close>

definition bytes_of :: "string \<Rightarrow> bytes" where
  "bytes_of s = map of_char s"

text \<open>The conversion \<open>string(b)\<close> of a byte slice.\<close>

definition text_of :: "bytes \<Rightarrow> string" where
  "text_of b = map (\<lambda>x. char_of (unat x)) b"

lemma char_of_byte_of_char [simp]: "char_of (unat (of_char c :: byte)) = c"
proof -
  have "(of_char c :: nat) < 256" by (metis of_char_mod_256 mod_less_divisor zero_less_numeral)
  then have "unat (of_nat (of_char c) :: byte) = of_char c" by (simp add: unat_of_nat)
  then have "unat (of_char c :: byte) = of_char c" by (simp only: of_nat_of_char)
  then show ?thesis by (simp only: char_of_char)
qed

lemma text_of_bytes_of [endian, simp]: "text_of (bytes_of s) = s"
  by (induction s) (simp_all add: text_of_def bytes_of_def)

lemma length_text_of [simp]: "length (text_of b) = length b"
  by (simp add: text_of_def)

lemma length_bytes_of [simp]: "length (bytes_of s) = length s"
  by (simp add: bytes_of_def)

end
