(* ===== verification/RandomGen.thy ===== *)
theory RandomGen
  imports Targets Endian Lcg Sources
begin

text \<open>
  \<open>internal/target/generator.go\<close>: the random stream over an IPv4 CIDR, a second
  user of the full-period generator, and the generator of random public
  addresses.  The draws of \<open>math/rand\<close> are arguments.
\<close>

record RandomCIDRGenerator =
  rg_baseIP :: u32
  rg_m :: u64
  rg_a :: u64
  rg_c :: u64
  rg_currentX :: u64
  rg_count :: u64

datatype generator_error = GenInvalidCIDR string | GenOnlyIPv4

definition NewRandomCIDRGenerator ::
  "u64 \<Rightarrow> u64 \<Rightarrow> u64 \<Rightarrow> string \<Rightarrow> generator_error + RandomCIDRGenerator" where
  "NewRandomCIDRGenerator rc rk rx cidr =
     (case parse_cidr cidr of
        None \<Rightarrow> Inl (GenInvalidCIDR cidr)
      | Some n \<Rightarrow>
          (let ones = mask_ones (net_mask n); bits = mask_bits (net_mask n) in
           if bits \<noteq> 32 then Inl GenOnlyIPv4
           else
             (let m = push_bit (bits - ones) 1 in
              Inr \<lparr>rg_baseIP = get32 (case to4 (net_ip n) of Some b \<Rightarrow> b | None \<Rightarrow> []),
                   rg_m = m, rg_a = (if m < 4 then 1 else 4 * rk + 1), rg_c = rc OR 1,
                   rg_currentX = rx, rg_count = 0\<rparr>)))"

text \<open>\<open>NextIP\<close>; \<open>None\<close> is \<open>io.EOF\<close>.\<close>

definition NextIP :: "RandomCIDRGenerator \<Rightarrow> string option \<times> RandomCIDRGenerator" where
  "NextIP g =
     (if rg_count g \<ge> rg_m g then (None, g)
      else
        (let ipAsUint32 = rg_baseIP g + ucast (rg_currentX g);
             ipBytes = put32 ipAsUint32
         in (Some (ip_string ipBytes),
             g\<lparr>rg_currentX := (rg_a g * rg_currentX g + rg_c g) mod rg_m g, rg_count := rg_count g + 1\<rparr>)))"

text \<open>
  \<open>GenerateRandomIPs\<close> on the stream of its draws, four octets an iteration;
  \<open>None\<close>: more draws are needed.
\<close>

definition reserved_octets :: "nat \<Rightarrow> nat \<Rightarrow> bool" where
  "reserved_octets o1 o2 \<longleftrightarrow> o1 = 0 \<or> o1 = 10 \<or> o1 = 127 \<or> (o1 = 169 \<and> o2 = 254)
     \<or> (o1 = 172 \<and> o2 \<ge> 16 \<and> o2 \<le> 31) \<or> (o1 = 192 \<and> o2 = 168) \<or> o1 \<ge> 224"

fun random_ips_loop :: "int \<Rightarrow> (nat \<times> nat \<times> nat \<times> nat) list \<Rightarrow> string list \<Rightarrow> string list option" where
  "random_ips_loop cnt draws ips =
     (if int (length ips) < cnt then
        (case draws of
           [] \<Rightarrow> None
         | (o1, o2, o3, o4) # draws' \<Rightarrow>
             if reserved_octets o1 o2 then random_ips_loop cnt draws' ips
             else random_ips_loop cnt draws'
                    (ips @ [join_str ''.'' (map nat_digits [o1, o2, o3, o4])]))
      else Some ips)"

definition GenerateRandomIPs :: "int \<Rightarrow> (nat \<times> nat \<times> nat \<times> nat) list \<Rightarrow> string list option" where
  "GenerateRandomIPs cnt draws = random_ips_loop cnt draws []"

declare random_ips_loop.simps [simp del]

subsection \<open>The addresses still to come\<close>

definition rg_orbit :: "RandomCIDRGenerator \<Rightarrow> u64 list" where
  "rg_orbit g = lcg_orbit (rg_a g) (rg_c g) (rg_m g) (rg_currentX g) (unat (rg_m g) - unat (rg_count g))"

definition rg_text :: "u32 \<Rightarrow> u64 \<Rightarrow> string" where
  "rg_text base x = ip_string (put32 (base + ucast x))"

definition rg_remaining :: "RandomCIDRGenerator \<Rightarrow> string multiset" where
  "rg_remaining g = mset (map (rg_text (rg_baseIP g)) (rg_orbit g))"

lemma rg_orbit_step:
  assumes "rg_count g < rg_m g"
  shows "rg_orbit g = rg_currentX g #
    rg_orbit (g\<lparr>rg_currentX := (rg_a g * rg_currentX g + rg_c g) mod rg_m g, rg_count := rg_count g + 1\<rparr>)"
proof -
  have lt: "unat (rg_count g) < unat (rg_m g)" using assms by (simp add: word_less_nat_alt)
  moreover have "unat (rg_m g) < 2 ^ 64" using unsigned_less [of "rg_m g", where ?'a = nat] by simp
  ultimately have "unat (rg_count g + 1) = Suc (unat (rg_count g))" by (simp add: unat_word_ariths)
  moreover have "unat (rg_m g) - unat (rg_count g) = Suc (unat (rg_m g) - Suc (unat (rg_count g)))"
    using lt by simp
  ultimately show ?thesis by (simp add: rg_orbit_def lcg_next_def)
qed

interpretation rg_source: exhaustive_source NextIP "\<lambda>_. True" rg_remaining
proof unfold_locales
  fix g g' :: RandomCIDRGenerator and i
  {
    assume n: "NextIP g = (Some i, g')"
    then have "rg_count g < rg_m g" by (auto simp: NextIP_def Let_def split: if_splits)
    then have "i = rg_text (rg_baseIP g) (rg_currentX g)" "rg_orbit g = rg_currentX g # rg_orbit g'"
        "rg_baseIP g' = rg_baseIP g"
      using n rg_orbit_step [of g] by (auto simp: NextIP_def Let_def rg_text_def split: if_splits)
    then show "True \<and> rg_remaining g = add_mset i (rg_remaining g')"
      by (simp add: rg_remaining_def)
  next
    assume "NextIP g = (None, g')"
    then have "rg_m g \<le> rg_count g" by (auto simp: NextIP_def Let_def split: if_splits)
    then show "rg_remaining g = {#}" by (simp add: rg_remaining_def rg_orbit_def word_le_nat_alt)
  }
qed

subsection \<open>The constructor on an IPv4 CIDR\<close>

lemma be_val_network:
  assumes "length b = 4" and "n \<le> 32"
  shows "be_val (mask_ip b (cidr_mask n 4)) = be_val b div 2 ^ (32 - n) * 2 ^ (32 - n)"
    and "length (mask_ip b (cidr_mask n 4)) = 4"
  using be_val_mask_ip [of b 4 n] assms by simp_all

lemma network_room:
  assumes "length b = 4" and "n \<le> 32"
  shows "be_val b div 2 ^ (32 - n) * 2 ^ (32 - n) + 2 ^ (32 - n) \<le> 2 ^ 32"
proof -
  have "be_val b div 2 ^ (32 - n) * 2 ^ (32 - n) + 2 ^ (32 - n) = (be_val b div 2 ^ (32 - n) + 1) * 2 ^ (32 - n)"
    by simp
  also have "\<dots> \<le> 2 ^ n * 2 ^ (32 - n)" using v4_base_bound [OF assms] by (intro mult_right_mono) auto
  also have "\<dots> = 2 ^ 32" using assms(2) by (simp flip: power_add)
  finally show ?thesis .
qed

text \<open>The printed form of the generator's i-th value is the i-th address of the network.\<close>

definition net_addr :: "ip \<Rightarrow> nat \<Rightarrow> nat \<Rightarrow> ip" where
  "net_addr b n i = put32 (get32 (mask_ip b (cidr_mask n 4)) + of_nat i)"

lemma get32_be_val: "length a = 4 \<Longrightarrow> get32 a = of_nat (be_val a)"
  by (metis put32_be_val get32_put32_Nil)

lemma be_val_net_addr:
  assumes "length b = 4" and "n \<le> 32" and "i < 2 ^ (32 - n)"
  shows "be_val (net_addr b n i) = be_val b div 2 ^ (32 - n) * 2 ^ (32 - n) + i"
proof -
  have "be_val b div 2 ^ (32 - n) * 2 ^ (32 - n) + i < 2 ^ 32"
    using network_room [OF assms(1,2)] assms(3) by linarith
  moreover have "net_addr b n i = put32 (of_nat (be_val b div 2 ^ (32 - n) * 2 ^ (32 - n) + i))"
    using be_val_network [OF assms(1,2)] by (simp add: net_addr_def get32_be_val)
  ultimately show ?thesis by (simp only: be_val_put32 unsigned_of_nat) (simp add: take_bit_eq_mod)
qed

lemma map_net_addr:
  assumes "length b = 4" and "n \<le> 32"
  shows "map be_val (map (net_addr b n) [0..<2 ^ (32 - n)])
    = [be_val b div 2 ^ (32 - n) * 2 ^ (32 - n) ..< be_val b div 2 ^ (32 - n) * 2 ^ (32 - n) + 2 ^ (32 - n)]"
  using be_val_net_addr [OF assms] by (intro nth_equalityI) auto

lemma mask_ones_byte: "n < 8 \<Longrightarrow> length (filter id (map (bit (NOT (drop_bit n (0xff :: byte)))) [0..<8])) = n"
proof -
  assume "n < 8"
  then have "n \<in> {0, 1, 2, 3, 4, 5, 6, 7}" by auto
  then show ?thesis by (elim insertE emptyE) (simp_all add: upt_rec bit_simps)
qed

lemma mask_ones_Cons: "mask_ones (b # m) = length (filter id (map (bit b) [0..<8])) + mask_ones m"
  by (simp add: mask_ones_def)

lemma mask_ones_cidr_mask: "n \<le> 8 * l \<Longrightarrow> mask_ones (cidr_mask n l) = n"
proof (induction n l rule: cidr_mask.induct)
  case (1 ones)
  then show ?case by (simp add: mask_ones_def)
next
  case (2 ones l)
  show ?case
  proof (cases "ones \<ge> 8")
    case True
    then have "mask_ones (cidr_mask (ones - 8) l) = ones - 8" using 2 by simp
    moreover have "length (filter id (map (bit (0xff :: byte)) [0..<8])) = 8"
      by (simp add: upt_rec)
    ultimately show ?thesis using True by (simp add: mask_ones_Cons del: filter_map)
  next
    case False
    then show ?thesis using 2 mask_ones_byte [of ones] by (simp add: mask_ones_Cons)
  qed
qed

lemma shift_one_unat:
  assumes "k \<le> 32"
  shows "unat (push_bit k 1 :: u64) = 2 ^ k"
proof -
  have "(2::nat) ^ k < 2 ^ 64" using assms by (intro power_strict_increasing) auto
  moreover have "(push_bit k 1 :: u64) = of_nat (2 ^ k)" by (simp add: push_bit_eq_mult)
  ultimately show ?thesis by (simp only: unsigned_of_nat) (simp add: take_bit_eq_mod)
qed

lemma NewRandomCIDRGenerator_v4:
  assumes b: "length b = 4" and n: "n \<le> 32" and rx: "unat rx < 2 ^ (32 - n)"
  shows "\<exists>g. NewRandomCIDRGenerator rc rk rx (v4_cidr_text b n) = Inr g
    \<and> rg_remaining g = image_mset (\<lambda>i. ip_string (net_addr b n i)) (mset [0..<2 ^ (32 - n)])"
proof -
  let ?k = "32 - n"
  define m :: u64 where "m = push_bit ?k 1"
  define a where "a = (if m < 4 then 1 else 4 * rk + 1)"
  define base where "base = get32 (mask_ip b (cidr_mask n 4))"
  define g where "g = \<lparr>rg_baseIP = base, rg_m = m, rg_a = a, rg_c = rc OR 1, rg_currentX = rx, rg_count = 0\<rparr>"
  have new: "NewRandomCIDRGenerator rc rk rx (v4_cidr_text b n) = Inr g"
    using b n by (simp add: NewRandomCIDRGenerator_def parse_cidr_v4_text v4_net_def mask_bits_def
        to4_def be_val_network mask_ones_cidr_mask Let_def g_def m_def a_def base_def)
  have m: "unat m = 2 ^ ?k" unfolding m_def using n by (intro shift_one_unat) simp
  have amod: "unat a mod 4 = 1" using mult4_mod4 [of rk] by (simp add: a_def)
  have full: "mset (map unat (rg_orbit g)) = mset [0..<2 ^ ?k]"
    using lcg_orbit_full [OF m rx amod odd_or_1] by (simp add: rg_orbit_def g_def m)
  have "rg_remaining g = image_mset (\<lambda>i. ip_string (net_addr b n i)) (mset (map unat (rg_orbit g)))"
    by (simp add: rg_remaining_def rg_text_def [abs_def] net_addr_def g_def base_def multiset.map_comp comp_def)
  with new full show ?thesis by auto
qed


subsection \<open>Properties\<close>

lemma ip_string_inj_v4: "length a = 4 \<Longrightarrow> length b = 4 \<Longrightarrow> ip_string a = ip_string b \<longleftrightarrow> a = b"
  by (metis v4_cmp be_val_inj)

text \<open>The addresses the generator goes through are the addresses of the network.\<close>

lemma net_addr_all:
  assumes "length b = 4" and "n \<le> 32" and "length a = 4"
  shows "a \<in> set (map (net_addr b n) [0..<2 ^ (32 - n)]) \<longleftrightarrow> net_contains (v4_net b n) a"
  by (rule net_addresses_v4 [OF assms(1,2) map_net_addr [OF assms(1,2)] refl _ assms(3)])
    (simp add: net_addr_def)

lemma cidr_expansion_net_addr:
  assumes "length b = 4" and "1 \<le> n" and "n \<le> 32"
  shows "expandCIDR (v4_cidr_text b n) = Some (Inr (map (\<lambda>i. ip_string (net_addr b n i)) [0..<2 ^ (32 - n)]))"
proof -
  obtain as where as: "expandCIDR (v4_cidr_text b n) = Some (Inr (map ip_string as))"
      "\<forall>a \<in> set as. length a = 4" "sorted_wrt (<) (map be_val as)"
      "\<forall>a. length a = 4 \<longrightarrow> (a \<in> set as \<longleftrightarrow> net_contains (v4_net b n) a)"
    using cidr_expansion_v4 [OF assms] by blast
  let ?bs = "map (net_addr b n) [0..<2 ^ (32 - n)]"
  have len: "\<forall>a \<in> set ?bs. length a = 4" by (simp add: net_addr_def)
  have "set as = set ?bs" using as(2,4) len net_addr_all [OF assms(1,3)] by blast
  moreover have "sorted_wrt (<) (map be_val ?bs)" by (simp only: map_net_addr [OF assms(1,3)] sorted_wrt_upt)
  ultimately have vals: "map be_val as = map be_val ?bs"
    using as(3) by (intro strict_sorted_equal) (simp_all add: image_image)
  have "as = ?bs"
  proof (rule nth_equalityI)
    show l: "length as = length ?bs" using arg_cong [OF vals, of length] by simp
    fix i assume i: "i < length as"
    then have "be_val (as ! i) = be_val (?bs ! i)" using vals l by (metis nth_map)
    then show "as ! i = ?bs ! i" using i l as(2) len by (metis be_val_inj nth_mem)
  qed
  then show ?thesis using as(1) by (simp add: comp_def)
qed

text \<open>C4: for every IPv4 CIDR (prefix length 0 included) and every random draw the
  generator produces each address of the network exactly once and then reports
  the end: its output is a permutation of the network's addresses, and for
  lengths 1 to 32 a permutation of what \<open>expandCIDR\<close> lists.\<close>

theorem NextIP_permutes_network:
  assumes "length b = 4" and "n \<le> 32" and "unat rx < 2 ^ (32 - n)"
  shows "\<exists>g ips. NewRandomCIDRGenerator rc rk rx (v4_cidr_text b n) = Inr g
    \<and> drain NextIP (Suc (2 ^ (32 - n))) g = Some ips \<and> length ips = 2 ^ (32 - n) \<and> distinct ips
    \<and> (\<forall>a. length a = 4 \<longrightarrow> (ip_string a \<in> set ips \<longleftrightarrow> net_contains (v4_net b n) a))
    \<and> (1 \<le> n \<longrightarrow> (\<exists>xs. expandCIDR (v4_cidr_text b n) = Some (Inr xs) \<and> mset ips = mset xs))"
proof -
  let ?as = "map (net_addr b n) [0..<2 ^ (32 - n)]"
  obtain g where g: "NewRandomCIDRGenerator rc rk rx (v4_cidr_text b n) = Inr g"
      "rg_remaining g = mset (map ip_string ?as)"
    using NewRandomCIDRGenerator_v4 [OF assms, of rc rk] by (auto simp: multiset.map_comp comp_def)
  then have "size (rg_remaining g) < Suc (2 ^ (32 - n))" by simp
  then obtain ips where ips: "drain NextIP (Suc (2 ^ (32 - n))) g = Some ips" "mset ips = mset (map ip_string ?as)"
    using rg_source.drain_remaining g(2) by fastforce
  have len: "\<forall>a \<in> set ?as. length a = 4" by (simp add: net_addr_def)
  have "distinct (map be_val ?as)" by (simp only: map_net_addr [OF assms(1,2)] distinct_upt)
  then have "distinct ?as" using distinct_map [of be_val ?as] by blast
  then have "distinct (map ip_string ?as)"
    unfolding distinct_map [of ip_string] using len ip_string_inj_v4 by (auto intro!: inj_onI)
  then have "distinct ips" using ips(2) by (metis mset_eq_imp_distinct_iff)
  moreover have "length ips = 2 ^ (32 - n)" using arg_cong [OF ips(2), of size] by simp
  moreover have "ip_string a \<in> set ips \<longleftrightarrow> net_contains (v4_net b n) a" if "length a = 4" for a
  proof -
    have "set ips = ip_string ` set ?as" using arg_cong [OF ips(2), of set_mset] by (simp add: image_image)
    then have "ip_string a \<in> set ips \<longleftrightarrow> a \<in> set ?as" using len ip_string_inj_v4 [OF that] by auto
    then show ?thesis using net_addr_all [OF assms(1,2) that] by simp
  qed
  moreover have "\<exists>xs. expandCIDR (v4_cidr_text b n) = Some (Inr xs) \<and> mset ips = mset xs" if "1 \<le> n"
    using cidr_expansion_net_addr [OF assms(1) that assms(2)] ips(2) by (simp add: comp_def)
  ultimately show ?thesis using g(1) ips(1) by blast
qed

theorem NextIP_permutes_network_witness:
  "\<exists>g ips. NewRandomCIDRGenerator 12345 99 2 ''10.1.2.3/30'' = Inr g
    \<and> drain NextIP 5 g = Some ips \<and> length ips = 4 \<and> distinct ips
    \<and> (\<exists>xs. expandCIDR ''10.1.2.3/30'' = Some (Inr xs) \<and> mset ips = mset xs)"
proof -
  have t: "v4_cidr_text [10, 1, 2, 3] 30 = ''10.1.2.3/30''" by code_simp
  show ?thesis using NextIP_permutes_network [of "[10, 1, 2, 3]" 30 2 12345 99] unfolding t by simp blast
qed

text \<open>The random public addresses: \<open>count\<close> of them, none in a reserved block.\<close>

definition public_text :: "string \<Rightarrow> bool" where
  "public_text s \<longleftrightarrow> (\<exists>o1 o2 o3 o4. s = join_str ''.'' (map nat_digits [o1, o2, o3, o4]) \<and> \<not> reserved_octets o1 o2)"

lemma random_ips_loop_public:
  assumes "random_ips_loop cnt draws ips = Some out" and "int (length ips) \<le> cnt"
    and "\<forall>s \<in> set ips. public_text s"
  shows "int (length out) = cnt \<and>
    (\<forall>s \<in> set out. public_text s)"
  using assms
proof (induction draws arbitrary: ips)
  case Nil
  then show ?case by (auto simp: random_ips_loop.simps [of cnt "[]"] split: if_splits)
next
  case (Cons d ds)
  obtain o1 o2 o3 o4 where d: "d = (o1, o2, o3, o4)" by (cases d)
  show ?case
  proof (cases "int (length ips) < cnt")
    case False
    then show ?thesis using Cons.prems by (auto simp: random_ips_loop.simps [of cnt "d # ds"])
  next
    case True
    show ?thesis
    proof (cases "reserved_octets o1 o2")
      case r: True
      then have "random_ips_loop cnt ds ips = Some out"
        using Cons.prems(1) True by (simp add: random_ips_loop.simps [of cnt "(o1, o2, o3, o4) # ds"] d)
      then show ?thesis using Cons.IH Cons.prems(2,3) by blast
    next
      case False
      let ?s = "join_str ''.'' (map nat_digits [o1, o2, o3, o4])"
      have "random_ips_loop cnt ds (ips @ [?s]) = Some out"
        using Cons.prems(1) True False by (simp only: random_ips_loop.simps [of cnt "(o1, o2, o3, o4) # ds"] d) simp
      moreover have "\<forall>s \<in> set (ips @ [?s]). public_text s"
        using Cons.prems(3) False by (auto simp: public_text_def simp del: list.map)
      moreover have "int (length (ips @ [?s])) \<le> cnt" using True by simp
      ultimately show ?thesis using Cons.IH [of "ips @ [?s]"] by blast
    qed
  qed
qed

lemma GenerateRandomIPs_public:
  assumes "GenerateRandomIPs cnt draws = Some out" and "0 \<le> cnt"
  shows "int (length out) = cnt \<and> (\<forall>s \<in> set out. public_text s)"
  using random_ips_loop_public [of cnt draws "[]" out] assms by (simp add: GenerateRandomIPs_def)

end
