(* ===== verification/Config.thy ===== *)
theory Config
  imports NetAddr Complex_Main
begin

text \<open>
  \<open>config/options.go\<close>: the options of a run, their validation, the profiles that
  override them, and the flag defaults read from a configuration file.  The record
  has the fields the modelled code reads or writes, under the names of the struct.
  A \<open>float64\<close> option is a rational: the code only stores and compares it.
\<close>

record Options =
  Ports :: string
  TopPorts :: int
  SynScan :: bool
  ConnectScan :: bool
  AckScan :: bool
  WindowScan :: bool
  NullScan :: bool
  FinScan :: bool
  XmasScan :: bool
  UdpScan :: bool
  UseXDP :: bool
  ZombieHost :: string
  OnlyOpen :: bool
  ShowClosed :: bool
  Quiet :: bool
  ServiceDetect :: bool
  OsDetect :: bool
  MPTCP :: bool
  SkipDiscovery :: bool
  SourcePort :: int
  TTL :: int
  DataString :: string
  DataHex :: string
  Interface :: string
  UdpPing :: int
  Fragment :: bool
  TTLJitter :: bool
  SpoofedSrcIP :: "ip option"
  DecoyIPs :: string
  RelayServer :: string
  Jitter :: rat
  EvasionMode :: string
  TTLMode :: string
  WindowSize :: int
  SourcePortMode :: string
  ProbeTTL :: int
  DeepInspect :: bool
  OSIVerbosity :: int
  HexDump :: bool
  TimingAnalysis :: bool
  ProtocolTracing :: bool
  Timing :: int
  RateLimit :: int
  AdaptiveRate :: bool
  MaxRetries :: int
  NoRandomize :: bool
  MaxWorkers :: int
  ConnPoolSize :: int
  BatchSize :: int
  UnsafeNoLimits :: bool
  Resume :: string
  ScopeFile :: string
  Profile :: string
  BaselineFile :: string
  ChangesOutput :: string
  NotifyWebhook :: string
  FingerprintOut :: string
  EvidenceOutput :: string
  EvidenceKey :: string
  SmartBypass :: bool

text \<open>The zero value of the struct, \<open>&Options{}\<close>.\<close>

definition zero_options :: Options where
  "zero_options = \<lparr>Ports = [], TopPorts = 0, SynScan = False, ConnectScan = False, AckScan = False,
     WindowScan = False, NullScan = False, FinScan = False, XmasScan = False, UdpScan = False,
     UseXDP = False, ZombieHost = [], OnlyOpen = False, ShowClosed = False, Quiet = False,
     ServiceDetect = False, OsDetect = False, MPTCP = False, SkipDiscovery = False, SourcePort = 0,
     TTL = 0, DataString = [], DataHex = [], Interface = [], UdpPing = 0, Fragment = False,
     TTLJitter = False, SpoofedSrcIP = None, DecoyIPs = [], RelayServer = [], Jitter = 0,
     EvasionMode = [], TTLMode = [], WindowSize = 0, SourcePortMode = [], ProbeTTL = 0,
     DeepInspect = False, OSIVerbosity = 0, HexDump = False, TimingAnalysis = False,
     ProtocolTracing = False, Timing = 0, RateLimit = 0, AdaptiveRate = False, MaxRetries = 0,
     NoRandomize = False, MaxWorkers = 0, ConnPoolSize = 0, BatchSize = 0, UnsafeNoLimits = False, Resume = [],
     ScopeFile = [], Profile = [], BaselineFile = [], ChangesOutput = [], NotifyWebhook = [],
     FingerprintOut = [], EvidenceOutput = [], EvidenceKey = [], SmartBypass = False\<rparr>"

text \<open>What \<open>ParseFlags\<close> starts from: the defaults its flags are declared with.\<close>

definition default_options :: Options where
  "default_options = zero_options\<lparr>EvasionMode := ''off'', TTLMode := ''fixed'', SourcePortMode := ''fixed'',
     ProbeTTL := 64, OSIVerbosity := 4, Timing := 3, RateLimit := 500, MaxRetries := 2, BatchSize := 1000,
     MaxWorkers := 256, ConnPoolSize := 64\<rparr>"

subsection \<open>Validation\<close>

datatype option_error =
  RateNegative | TopPortsNegative | PortsAndTopPorts | ChangesNeedBaseline | WebhookNeedsBaseline
| FingerprintsNeedServiceDetect | EvidenceKeyNeedsEvidence | BadProfile | BadUdpPing | BadSourcePort
| BadTTL | BadJitter | BadEvasionMode | BadTTLMode | BadSourcePortMode | BadProbeTTL | BadWindowSize
| BadOSIVerbosity | ScanTypesExclusive

definition scan_types :: "Options \<Rightarrow> nat" where
  "scan_types o' = length (filter id [SynScan o', ConnectScan o', AckScan o', WindowScan o',
     NullScan o', FinScan o', XmasScan o', UdpScan o'])"

text \<open>The guards of \<open>validateOptions\<close>, in the order of its early returns.\<close>

fun first_error :: "(bool \<times> 'e) list \<Rightarrow> 'e option" where
  "first_error [] = None"
| "first_error ((c, e) # cs) = (if c then Some e else first_error cs)"

definition option_guards :: "Options \<Rightarrow> (bool \<times> option_error) list" where
  "option_guards o' =
     [
      (RateLimit o' < 0, RateNegative),
      (TopPorts o' < 0, TopPortsNegative),
      (TopPorts o' > 0 \<and> trim_space (Ports o') \<noteq> [], PortsAndTopPorts),
      (ChangesOutput o' \<noteq> [] \<and> BaselineFile o' = [], ChangesNeedBaseline),
      (NotifyWebhook o' \<noteq> [] \<and> BaselineFile o' = [], WebhookNeedsBaseline),
      (FingerprintOut o' \<noteq> [] \<and> \<not> ServiceDetect o', FingerprintsNeedServiceDetect),
      (EvidenceKey o' \<noteq> [] \<and> EvidenceOutput o' = [], EvidenceKeyNeedsEvidence),
      (Profile o' \<noteq> [] \<and> Profile o' \<noteq> ''safe-production'' \<and> Profile o' \<noteq> ''ot'', BadProfile),
      (UdpPing o' < 0 \<or> UdpPing o' > 65535, BadUdpPing),
      (SourcePort o' < 0 \<or> SourcePort o' > 65535, BadSourcePort),
      (TTL o' < 0 \<or> TTL o' > 255, BadTTL),
      (Jitter o' < 0 \<or> Jitter o' > 1, BadJitter),
      (\<not> List.member [''off'', ''light'', ''moderate'', ''aggressive'', ''stealthy''] (EvasionMode o'), BadEvasionMode),
      (\<not> List.member [''fixed'', ''random'', ''probe''] (TTLMode o'), BadTTLMode),
      (\<not> List.member [''fixed'', ''random''] (SourcePortMode o'), BadSourcePortMode),
      (ProbeTTL o' < 1 \<or> ProbeTTL o' > 255, BadProbeTTL),
      (WindowSize o' < 0 \<or> WindowSize o' > 65535, BadWindowSize),
      (OSIVerbosity o' < 1 \<or> OSIVerbosity o' > 7, BadOSIVerbosity)]"

definition validateOptions :: "Options \<Rightarrow> option_error + Options" where
  "validateOptions o' =
     (case first_error (option_guards o') of
        Some e \<Rightarrow> Inl e
      | None \<Rightarrow>
          (let o1 = (if DeepInspect o'
                     then o'\<lparr>HexDump := True, TimingAnalysis := True, ProtocolTracing := True\<rparr> else o')
           in if scan_types o1 > 1 then Inl ScanTypesExclusive else Inr o1))"

subsection \<open>Profiles\<close>

definition OTDefaultPorts :: string where
  "OTDefaultPorts = ''102,502,789,1089,1091,1911,1962,2222,2404,2455,4840,4911,9600,20000,20547,34962,34964,44818,47808''"

definition ApplyProfile :: "Options \<Rightarrow> Options" where
  "ApplyProfile o' =
     (if Profile o' = ''safe-production'' then
        o'\<lparr>Timing := 2, RateLimit := 300, UnsafeNoLimits := False, EvasionMode := ''off'', Jitter := 0,
           TTLJitter := False, Fragment := False, DecoyIPs := [], SmartBypass := False, ServiceDetect := True\<rparr>
      else if Profile o' = ''ot'' then
        (let o1 = o'\<lparr>ConnectScan := True, SynScan := False, UdpScan := False, AckScan := False,
                     WindowScan := False, NullScan := False, FinScan := False, XmasScan := False,
                     UseXDP := False, MaxWorkers := 1, BatchSize := 1, Timing := 1, RateLimit := 5,
                     MaxRetries := 1, UnsafeNoLimits := False, EvasionMode := ''off'', Jitter := 0,
                     TTLJitter := False, Fragment := False, DecoyIPs := [], SmartBypass := False,
                     DeepInspect := False, ServiceDetect := True\<rparr>
         in if trim_space (Ports o1) = [] \<and> TopPorts o1 = 0 then o1\<lparr>Ports := OTDefaultPorts\<rparr> else o1)
      else o')"

text \<open>\<open>ValidateScanCompatibility\<close>: the warnings it prints, and the options it leaves.\<close>

definition connect_incompatible :: "Options \<Rightarrow> string list" where
  "connect_incompatible o' =
     (if ConnectScan o' then
        (if Fragment o' then [''fragment''] else []) @ (if TTLJitter o' then [''ttl-jitter''] else [])
        @ (if SmartBypass o' then [''smart-bypass/spoof-agent''] else []) @ (if DecoyIPs o' \<noteq> [] then [''decoy''] else [])
      else [])"

definition ValidateScanCompatibility :: "Options \<Rightarrow> string list \<times> Options" where
  "ValidateScanCompatibility o' =
     (connect_incompatible o', if SmartBypass o' \<and> ConnectScan o' then o'\<lparr>SmartBypass := False\<rparr> else o')"

subsection \<open>Arguments and the configuration file\<close>

text \<open>\<open>looksLikeFlagValue\<close>; whether \<open>strconv.ParseFloat\<close> accepts a text is an argument.\<close>

definition looksLikeFlagValue :: "(string \<Rightarrow> bool) \<Rightarrow> string \<Rightarrow> bool" where
  "looksLikeFlagValue is_float s = (if \<not> has_prefix s ''-'' then True else is_float s)"

text \<open>The path named by the first \<open>--config\<close>; the empty path means there is none.\<close>

fun config_path :: "string list \<Rightarrow> string" where
  "config_path [] = []"
| "config_path (a # rest) =
     (if a = ''--config'' \<or> a = ''-config'' then (case rest of [] \<Rightarrow> [] | p # _ \<Rightarrow> p)
      else if has_prefix a ''--config='' then trim_prefix a ''--config=''
      else if has_prefix a ''-config='' then trim_prefix a ''-config=''
      else config_path rest)"

datatype config_error = ExpectedKeyValue nat string | EmptyKey nat | ReadConfig string

definition index_any2 :: "char \<Rightarrow> char \<Rightarrow> string \<Rightarrow> (string \<times> string) option" where
  "index_any2 a b s =
     (let h = takeWhile (\<lambda>c. c \<noteq> a \<and> c \<noteq> b) s
      in if length h < length s then Some (h, drop (Suc (length h)) s) else None)"

definition strip_quotes :: "string \<Rightarrow> string" where
  "strip_quotes v =
     (if length v \<ge> 2 \<and> (hd v = CHR 0x22 \<and> last v = CHR 0x22 \<or> hd v = CHR 0x27 \<and> last v = CHR 0x27)
      then butlast (tl v) else v)"

text \<open>One line of the file: nothing, a token, or an error.\<close>

definition config_line :: "nat \<Rightarrow> string \<Rightarrow> config_error + string option" where
  "config_line n raw =
     (let line = trim_space raw in
      if line = [] \<or> has_prefix line ''#'' then Inr None
      else
        (let line1 = (case index_str line '' #'' of Some i \<Rightarrow> trim_space (take i line) | None \<Rightarrow> line) in
         case index_any2 (CHR '':'') (CHR ''='') line1 of
           None \<Rightarrow> Inl (ExpectedKeyValue (n + 1) line1)
         | Some (k, v) \<Rightarrow>
             (let key = dropWhile (\<lambda>c. c = CHR ''-'') (trim_space k);
                  val = strip_quotes (trim_space v)
              in if key = [] then Inl (EmptyKey (n + 1))
                 else if val = [] then Inr None
                 else Inr (Some (''--'' @ key @ ''='' @ val)))))"

fun config_lines :: "nat \<Rightarrow> string list \<Rightarrow> config_error + string list" where
  "config_lines n [] = Inr []"
| "config_lines n (l # ls) =
     (case config_line n l of
        Inl e \<Rightarrow> Inl e
      | Inr t \<Rightarrow> (case config_lines (Suc n) ls of
          Inl e \<Rightarrow> Inl e
        | Inr ts \<Rightarrow> Inr ((case t of None \<Rightarrow> [] | Some t' \<Rightarrow> [t']) @ ts)))"

text \<open>\<open>parseConfigFile\<close> on what \<open>os.ReadFile\<close> returns.\<close>

definition parseConfigFile :: "(string \<Rightarrow> string option) \<Rightarrow> string \<Rightarrow> config_error + string list" where
  "parseConfigFile readFile path =
     (case readFile path of
        None \<Rightarrow> Inl (ReadConfig path)
      | Some data \<Rightarrow> config_lines 0 (split_on (CHR 0x0A) data))"

definition configArgsFromArgs :: "(string \<Rightarrow> string option) \<Rightarrow> string list \<Rightarrow> config_error + string list" where
  "configArgsFromArgs readFile args =
     (let path = config_path args in if path = [] then Inr [] else parseConfigFile readFile path)"

text \<open>The flags that take a value, and the split of the arguments \<open>ParseFlags\<close> makes.\<close>

definition valueFlags :: "string list" where
  "valueFlags =
    [''-p'', ''-i'', ''--interface'', ''-iL'', ''-j'', ''-w'', ''--workers'', ''-g'', ''--ttl'', ''--data-string'',
     ''--data'', ''--top-ports'', ''--decoy'', ''-sI'', ''--scripts'', ''-T'', ''--vulners-apikey'', ''--rate'',
     ''--max-retries'', ''--aws-region'', ''--aws-tags'', ''--web-addr'', ''--batch-size'', ''--conn-pool'',
     ''--relay-server'', ''-PU'', ''--max-hops'', ''--discovery-timeout'', ''--scope-file'', ''--resume'',
     ''--profile'', ''--audit-log'', ''--baseline'', ''--changes'', ''--notify-webhook'', ''--config'', ''--sarif'',
     ''--evidence'', ''--evidence-key'', ''--fingerprints-out'', ''--exclude'', ''-oX'', ''-oH'', ''-oG'', ''-oN'',
     ''-oS'', ''--jitter'', ''--evasion'', ''--ttl-mode'', ''--window-size'', ''--source-port-mode'', ''--probe-ttl'',
     ''--osi-verbosity'']"

fun split_args :: "(string \<Rightarrow> bool) \<Rightarrow> string list \<Rightarrow> string list \<times> string list" where
  "split_args is_float [] = ([], [])"
| "split_args is_float (arg # rest) =
     (if has_prefix arg ''-'' then
        (if arg = ''--decoy'' then
           (case rest of
              v # rest' \<Rightarrow>
                if looksLikeFlagValue is_float v
                then (let (f, p) = split_args is_float rest' in (arg # v # f, p))
                else (let (f, p) = split_args is_float rest in (arg # ''auto'' # f, p))
            | [] \<Rightarrow> ([arg, ''auto''], []))
         else if List.member valueFlags arg then
           (case rest of
              v # rest' \<Rightarrow>
                if looksLikeFlagValue is_float v
                then (let (f, p) = split_args is_float rest' in (arg # v # f, p))
                else split_args is_float rest
            | [] \<Rightarrow> ([], []))
         else (let (f, p) = split_args is_float rest in (arg # f, p)))
      else (let (f, p) = split_args is_float rest in (f, arg # p)))"

subsection \<open>Valid options\<close>

definition options_ok :: "Options \<Rightarrow> bool" where
  "options_ok o' \<longleftrightarrow> first_error (option_guards o') = None
     \<and> (DeepInspect o' \<longrightarrow> HexDump o' \<and> TimingAnalysis o' \<and> ProtocolTracing o') \<and> scan_types o' \<le> 1"

lemma guard_off: "first_error gs = None \<Longrightarrow> (c, e) \<in> set gs \<Longrightarrow> \<not> c"
  by (induction gs rule: first_error.induct) (auto split: if_splits)

lemma guards_weaker:
  "list_all2 (\<lambda>x y. fst x \<longrightarrow> fst y) gs hs \<Longrightarrow> first_error hs = None \<Longrightarrow> first_error gs = None"
  by (induction gs hs rule: list_all2_induct) (auto split: if_splits)

lemma options_ok_ranges:
  assumes "options_ok o'"
  shows "0 \<le> RateLimit o'" "0 \<le> SourcePort o' \<and> SourcePort o' \<le> 65535" "0 \<le> TTL o' \<and> TTL o' \<le> 255"
    "0 \<le> WindowSize o' \<and> WindowSize o' \<le> 65535"
proof -
  note off = guard_off [OF assms [unfolded options_ok_def, THEN conjunct1]]
  show "0 \<le> RateLimit o'" using off [of "RateLimit o' < 0" RateNegative] by (simp add: option_guards_def)
  show "0 \<le> SourcePort o' \<and> SourcePort o' \<le> 65535"
    using off [of "SourcePort o' < 0 \<or> SourcePort o' > 65535" BadSourcePort] by (simp add: option_guards_def)
  show "0 \<le> TTL o' \<and> TTL o' \<le> 255"
    using off [of "TTL o' < 0 \<or> TTL o' > 255" BadTTL] by (simp add: option_guards_def)
  show "0 \<le> WindowSize o' \<and> WindowSize o' \<le> 65535"
    using off [of "WindowSize o' < 0 \<or> WindowSize o' > 65535" BadWindowSize] by (simp add: option_guards_def)
qed

text \<open>The derived flags are no part of any guard.\<close>

lemma guards_deep: "option_guards (o'\<lparr>HexDump := a, TimingAnalysis := b, ProtocolTracing := c\<rparr>) = option_guards o'"
  "scan_types (o'\<lparr>HexDump := a, TimingAnalysis := b, ProtocolTracing := c\<rparr>) = scan_types o'"
  by (simp_all add: option_guards_def scan_types_def)

lemma validateOptions_ok: "validateOptions o' = Inr o1 \<Longrightarrow> options_ok o1"
  by (auto simp: options_ok_def validateOptions_def guards_deep Let_def not_less split: option.splits if_splits)

lemma guards_accept: "first_error (option_guards o') = None \<Longrightarrow> scan_types o' = 1 \<Longrightarrow> \<exists>o1. validateOptions o' = Inr o1"
  by (simp add: validateOptions_def guards_deep Let_def)

lemma options_ok_validates:
  assumes "options_ok o'"
  shows "validateOptions o' = Inr o'"
proof -
  have "o'\<lparr>HexDump := True, TimingAnalysis := True, ProtocolTracing := True\<rparr> = o'" if "DeepInspect o'"
    using assms that by (simp add: options_ok_def)
  then show ?thesis using assms by (simp add: options_ok_def validateOptions_def guards_deep Let_def)
qed

text \<open>A profile only switches guards off.\<close>

lemma ApplyProfile_guards:
  "list_all2 (\<lambda>x y. fst x \<longrightarrow> fst y) (option_guards (ApplyProfile o')) (option_guards o')"
  by (simp add: option_guards_def ApplyProfile_def Let_def)

lemma ApplyProfile_ot:
  assumes "Profile o' = ''ot''"
  shows "scan_types (ApplyProfile o') = 1" "\<not> DeepInspect (ApplyProfile o')"
  using assms by (simp_all add: scan_types_def ApplyProfile_def Let_def)

lemma ApplyProfile_safe:
  assumes "Profile o' = ''safe-production''"
  shows "ApplyProfile o' = o'\<lparr>Timing := 2, RateLimit := 300, UnsafeNoLimits := False, EvasionMode := ''off'',
     Jitter := 0, TTLJitter := False, Fragment := False, DecoyIPs := [], SmartBypass := False, ServiceDetect := True\<rparr>"
  using assms by (simp add: ApplyProfile_def)

lemma ApplyProfile_none:
  "Profile o' \<noteq> ''ot'' \<Longrightarrow> Profile o' \<noteq> ''safe-production'' \<Longrightarrow> ApplyProfile o' = o'"
  by (simp add: ApplyProfile_def)

lemma ApplyProfile_other:
  assumes "Profile o' \<noteq> ''ot''"
  shows "scan_types (ApplyProfile o') = scan_types o'" "DeepInspect (ApplyProfile o') = DeepInspect o'"
    "HexDump (ApplyProfile o') = HexDump o'" "TimingAnalysis (ApplyProfile o') = TimingAnalysis o'"
    "ProtocolTracing (ApplyProfile o') = ProtocolTracing o'"
proof -
  consider (safe) "Profile o' = ''safe-production''" | (none) "ApplyProfile o' = o'"
    using ApplyProfile_none assms by blast
  note c = this
  show "scan_types (ApplyProfile o') = scan_types o'"
    using c by cases (simp_all add: ApplyProfile_safe scan_types_def del: filter.simps)
  show "DeepInspect (ApplyProfile o') = DeepInspect o'"
    using c by cases (simp_all add: ApplyProfile_safe)
  show "HexDump (ApplyProfile o') = HexDump o'"
    using c by cases (simp_all add: ApplyProfile_safe)
  show "TimingAnalysis (ApplyProfile o') = TimingAnalysis o'"
    using c by cases (simp_all add: ApplyProfile_safe)
  show "ProtocolTracing (ApplyProfile o') = ProtocolTracing o'"
    using c by cases (simp_all add: ApplyProfile_safe)
qed

lemma options_ok_ApplyProfile:
  assumes "options_ok o'"
  shows "options_ok (ApplyProfile o')"
proof -
  have "first_error (option_guards (ApplyProfile o')) = None"
    using assms guards_weaker [OF ApplyProfile_guards] by (simp add: options_ok_def)
  moreover have "scan_types (ApplyProfile o') \<le> 1"
    using assms ApplyProfile_ot(1) ApplyProfile_other(1) unfolding options_ok_def by (metis order_refl)
  moreover have "DeepInspect (ApplyProfile o') \<longrightarrow>
      HexDump (ApplyProfile o') \<and> TimingAnalysis (ApplyProfile o') \<and> ProtocolTracing (ApplyProfile o')"
    using assms ApplyProfile_ot(2) ApplyProfile_other(2-5) unfolding options_ok_def by metis
  ultimately show ?thesis unfolding options_ok_def by blast
qed

lemma guards_bypass: "option_guards (o'\<lparr>SmartBypass := b\<rparr>) = option_guards o'"
  "scan_types (o'\<lparr>SmartBypass := b\<rparr>) = scan_types o'"
  by (simp_all add: option_guards_def scan_types_def del: filter.simps)

lemma options_ok_Compatibility: "options_ok o' \<Longrightarrow> options_ok (snd (ValidateScanCompatibility o'))"
  by (simp add: ValidateScanCompatibility_def options_ok_def guards_bypass)

subsection \<open>Pairing of flags and values\<close>

text \<open>Every value flag is followed by a value that belongs to it.\<close>

fun paired :: "(string \<Rightarrow> bool) \<Rightarrow> string list \<Rightarrow> bool" where
  "paired is_float [] = True"
| "paired is_float (f # rest) =
     (if List.member valueFlags f
      then (case rest of [] \<Rightarrow> False | v # rest' \<Rightarrow> looksLikeFlagValue is_float v \<and> paired is_float rest')
      else paired is_float rest)"

lemma decoy_value_flag: "''--decoy'' \<in> set valueFlags"
  by (simp add: valueFlags_def)

lemma auto_is_value: "looksLikeFlagValue is_float ''auto''"
  by (simp add: looksLikeFlagValue_def has_prefix_def)

lemma split_args_Cons:
  "split_args is_float (arg # rest) =
     (let (f, p) = split_args is_float rest in
      if \<not> has_prefix arg ''-'' then (f, arg # p)
      else if arg = ''--decoy'' \<or> List.member valueFlags arg then
        (case rest of
           v # rest' \<Rightarrow>
             if looksLikeFlagValue is_float v
             then (let (f', p') = split_args is_float rest' in (arg # v # f', p'))
             else if arg = ''--decoy'' then (arg # ''auto'' # f, p) else (f, p)
         | [] \<Rightarrow> (if arg = ''--decoy'' then [arg, ''auto''] else [], []))
      else (arg # f, p))"
  by (cases rest) (simp_all add: split_beta Let_def)

declare split_args.simps(2) [simp del]

lemma split_args_paired:
  "paired is_float (fst (split_args is_float args))
   \<and> set (snd (split_args is_float args)) \<subseteq> {a \<in> set args. \<not> has_prefix a ''-''}"
proof (induction args rule: length_induct)
  case (1 args)
  show ?case
  proof (cases args)
    case (Cons arg rest)
    obtain f p where fp: "split_args is_float rest = (f, p)" by (cases "split_args is_float rest")
    have ih: "paired is_float f" "set p \<subseteq> {a \<in> set rest. \<not> has_prefix a ''-''}"
      using 1 Cons fp by (metis fst_conv snd_conv length_Cons lessI)+
    show ?thesis
    proof (cases rest)
      case Nil
      then show ?thesis using ih fp Cons
        by (auto simp: split_args_Cons decoy_value_flag auto_is_value)
    next
      case rest: (Cons v rest')
      obtain f' p' where fp': "split_args is_float rest' = (f', p')" by (cases "split_args is_float rest'")
      have "length rest' < length args" using Cons rest by simp
      then have ih': "paired is_float f'" "set p' \<subseteq> {a \<in> set rest'. \<not> has_prefix a ''-''}"
        using 1 fp' by (metis fst_conv snd_conv)+
      have "split_args is_float args =
          (if \<not> has_prefix arg ''-'' then (f, arg # p)
           else if arg = ''--decoy'' \<or> List.member valueFlags arg then
             (if looksLikeFlagValue is_float v then (arg # v # f', p')
              else if arg = ''--decoy'' then (arg # ''auto'' # f, p) else (f, p))
           else (arg # f, p))"
        unfolding Cons split_args_Cons [of is_float arg rest] fp by (simp add: rest fp')
      then show ?thesis using ih ih' Cons rest by (auto simp: decoy_value_flag auto_is_value)
    qed
  qed simp
qed

subsection \<open>Rendering a configuration file\<close>

definition plain_char :: "char \<Rightarrow> bool" where
  "plain_char c \<longleftrightarrow> \<not> is_space c \<and> c \<notin> {CHR '':'', CHR ''='', CHR ''#'', CHR 0x22, CHR 0x27}"

definition config_entry_ok :: "string \<times> string \<Rightarrow> bool" where
  "config_entry_ok = (\<lambda>(k, v). k \<noteq> [] \<and> v \<noteq> [] \<and> hd k \<noteq> CHR ''-'' \<and> list_all plain_char k \<and> list_all plain_char v)"

definition render_entry :: "string \<times> string \<Rightarrow> string" where
  "render_entry = (\<lambda>(k, v). k @ '': '' @ v)"

definition entry_token :: "string \<times> string \<Rightarrow> string" where
  "entry_token = (\<lambda>(k, v). ''--'' @ k @ ''='' @ v)"

lemma plain_not: "list_all plain_char s \<Longrightarrow> c \<in> set s \<Longrightarrow> \<not> is_space c \<and> c \<noteq> CHR '':'' \<and> c \<noteq> CHR ''='' \<and> c \<noteq> CHR ''#''
    \<and> c \<noteq> CHR 0x22 \<and> c \<noteq> CHR 0x27"
  by (auto simp: list_all_iff plain_char_def)

lemma dropWhile_hd: "s \<noteq> [] \<Longrightarrow> \<not> p (hd s) \<Longrightarrow> dropWhile p s = s"
  by (cases s) auto

lemma trim_space_edges: "s \<noteq> [] \<Longrightarrow> \<not> is_space (hd s) \<Longrightarrow> \<not> is_space (last s) \<Longrightarrow> trim_space s = s"
  by (simp add: trim_space_def trim_right_by_def dropWhile_hd hd_rev)

lemma trim_space_plain: "list_all plain_char s \<Longrightarrow> trim_space s = s"
proof (cases "s = []")
  case False
  assume "list_all plain_char s"
  then show ?thesis using False plain_not hd_in_set last_in_set by (intro trim_space_edges) blast+
qed (simp add: trim_space_def trim_right_by_def)

lemma trim_space_blank: "list_all plain_char s \<Longrightarrow> trim_space (CHR '' '' # s) = s"
  using trim_space_plain [of s] by (simp add: trim_space_def is_space_def)

lemma no_comment:
  assumes "CHR ''#'' \<notin> set s"
  shows "index_str s '' #'' = None"
proof (cases "index_str s '' #''")
  case (Some i)
  then obtain a b where "s = a @ '' #'' @ b" using index_str_Some by blast
  then show ?thesis using assms by simp
qed simp

lemma config_line_render:
  assumes "config_entry_ok e"
  shows "config_line n (render_entry e) = Inr (Some (entry_token e))"
proof -
  obtain k v where e: "e = (k, v)" by (cases e)
  have k: "k \<noteq> []" "hd k \<noteq> CHR ''-''" "list_all plain_char k" and v: "v \<noteq> []" "list_all plain_char v"
    using assms by (auto simp: config_entry_ok_def e)
  let ?l = "k @ '': '' @ v"
  have hdk: "hd k \<in> set k" "last v \<in> set v" "hd v \<in> set v" using k v by auto
  have ht: "hd ?l = hd k" "last ?l = last v" using k v by auto
  have trim: "trim_space ?l = ?l"
    using ht plain_not [OF k(3) hdk(1)] plain_not [OF v(2) hdk(2)] by (intro trim_space_edges) simp_all
  have nohash: "CHR ''#'' \<notin> set ?l" using plain_not [OF k(3)] plain_not [OF v(2)] by auto
  have npre: "\<not> has_prefix ?l ''#''"
    using plain_not [OF k(3) hdk(1)] k(1) by (cases k) (simp_all add: has_prefix_def)
  have tw: "takeWhile (\<lambda>c. c \<noteq> CHR '':'' \<and> c \<noteq> CHR ''='') ?l = k"
    using plain_not [OF k(3)] by (subst takeWhile_append2) auto
  have cut: "index_any2 (CHR '':'') (CHR ''='') ?l = Some (k, '' '' @ v)"
    unfolding index_any2_def Let_def tw by simp
  have q: "strip_quotes v = v"
    using plain_not [OF v(2) hdk(3)] by (simp add: strip_quotes_def)
  have ex: "\<exists>x\<in>set k. x \<noteq> CHR ''-''" using hdk(1) k(2) by blast
  have dash: "dropWhile (\<lambda>c. c = CHR ''-'') k = k" using k by (intro dropWhile_hd) auto
  show ?thesis
    using trim nohash npre cut q dash ex k v trim_space_plain [OF k(3)] trim_space_blank [OF v(2)]
    by (simp add: config_line_def render_entry_def entry_token_def e no_comment Let_def)
qed

lemma config_lines_render:
  "list_all config_entry_ok es \<Longrightarrow> config_lines n (map render_entry es) = Inr (map entry_token es)"
  by (induction es arbitrary: n) (simp_all add: config_line_render)

subsection \<open>Properties\<close>

text \<open>C8: options that pass validation are in range and name at most one scan type, and
  stay so: applying a profile and the compatibility pass leave them valid, so
  validating again accepts them unchanged.\<close>

theorem validated_options_stay_valid:
  assumes "validateOptions o0 = Inr o1"
  shows "let o2 = ApplyProfile (snd (ValidateScanCompatibility o1))
         in options_ok o1 \<and> options_ok o2 \<and> scan_types o2 \<le> 1 \<and> validateOptions o2 = Inr o2"
proof -
  define o2 where "o2 = ApplyProfile (snd (ValidateScanCompatibility o1))"
  have ok: "options_ok o1" using assms by (rule validateOptions_ok)
  then have "options_ok o2" unfolding o2_def by (intro options_ok_ApplyProfile options_ok_Compatibility)
  then have "options_ok o2 \<and> scan_types o2 \<le> 1 \<and> validateOptions o2 = Inr o2"
    using options_ok_validates unfolding options_ok_def by blast
  with ok show ?thesis unfolding o2_def Let_def by blast
qed

theorem validated_options_stay_valid_witness:
  "\<exists>o1. validateOptions (default_options\<lparr>SynScan := True, Profile := ''ot''\<rparr>) = Inr o1
    \<and> validateOptions (ApplyProfile (snd (ValidateScanCompatibility o1)))
        = Inr (ApplyProfile (snd (ValidateScanCompatibility o1)))"
proof -
  define o0 where "o0 = default_options\<lparr>SynScan := True, Profile := ''ot''\<rparr>"
  have "first_error (option_guards o0) = None" unfolding o0_def by code_simp
  moreover have "scan_types o0 = 1" unfolding o0_def by code_simp
  ultimately have "\<exists>o1. validateOptions o0 = Inr o1" by (rule guards_accept)
  then obtain o1 where o1: "validateOptions o0 = Inr o1" by (rule exE)
  note r = validated_options_stay_valid [OF o1, unfolded Let_def, THEN conjunct2, THEN conjunct2, THEN conjunct2]
  show ?thesis unfolding o0_def [symmetric] by (rule exI, rule conjI, rule o1, rule r)
qed

text \<open>A configuration file of plain \<open>key: value\<close> lines is read back entry by entry:
  each becomes the flag token \<open>--key=value\<close>, in the order of the file.\<close>

theorem parseConfigFile_roundtrip:
  assumes "es \<noteq> []" and "list_all config_entry_ok es"
    and "readFile path = Some (join_str [CHR 0x0A] (map render_entry es))"
  shows "parseConfigFile readFile path = Inr (map entry_token es)"
proof -
  have nl: "CHR 0x0A \<notin> set l" if "l \<in> set (map render_entry es)" for l
  proof -
    from that have "l \<in> render_entry ` set es" by (simp only: set_map)
    then obtain e where e: "e \<in> set es" "l = render_entry e" by blast
    obtain k v where "e = (k, v)" by (cases e)
    with e have kv: "(k, v) \<in> set es" "l = k @ '': '' @ v" by (simp_all add: render_entry_def)
    then have "list_all plain_char k" "list_all plain_char v"
      using assms(2) by (auto simp: list_all_iff config_entry_ok_def)
    moreover have "is_space (CHR 0x0A)" by (simp add: is_space_def)
    ultimately show ?thesis using kv(2) plain_not by fastforce
  qed
  have "split_on (CHR 0x0A) (join_str [CHR 0x0A] (map render_entry es)) = map render_entry es"
    using assms(1) nl by (intro split_on_join) auto
  then show ?thesis using assms by (simp add: parseConfigFile_def config_lines_render)
qed

theorem parseConfigFile_roundtrip_witness:
  "parseConfigFile (\<lambda>p. if p = ''a.yml'' then Some (''rate: 5'' @ [CHR 0x0A] @ ''sS: true'') else None) ''a.yml''
    = Inr [''--rate=5'', ''--sS=true'']"
  using parseConfigFile_roundtrip [of "[(''rate'', ''5''), (''sS'', ''true'')]"
      "\<lambda>p. if p = ''a.yml'' then Some (''rate: 5'' @ [CHR 0x0A] @ ''sS: true'') else None" "''a.yml''"]
  by (simp add: config_entry_ok_def plain_char_def is_space_def render_entry_def entry_token_def)

text \<open>Splitting the command line never lets one flag take another one for its
  value: in the flags handed to the flag package every flag that needs a value is
  directly followed by one, and every positional argument is one that does not
  start with a dash.\<close>

theorem split_args_never_swallows:
  "paired is_float (fst (split_args is_float args))
   \<and> set (snd (split_args is_float args)) \<subseteq> {a \<in> set args. \<not> has_prefix a ''-''}"
  by (rule split_args_paired)

end
