(* ===== verification/RateControl.thy ===== *)
theory RateControl
  imports Config
begin

text \<open>
  \<open>internal/scan/adaptive_rate.go\<close> and \<open>internal/scan/retry.go\<close>: the round-trip
  estimator, the packet pacer with its AIMD controller, and the retry policy.
  Durations are nanoseconds; \<open>int64\<close> values are integers (a rate is bounded by its
  options and an instant by the clock, so nothing wraps).  The clock readings are
  arguments.  This part is the sequential meaning of each operation; \<open>Pacer\<close> runs
  the lock-free loops under every interleaving.
\<close>

type_synonym duration = int

subsection \<open>RTTEstimator\<close>

record RTTEstimator =
  srtt :: int
  rttvar :: int
  inited :: bool

definition NewRTTEstimator :: RTTEstimator where
  "NewRTTEstimator = \<lparr>srtt = 0, rttvar = 0, inited = False\<rparr>"

definition Sample :: "duration \<Rightarrow> RTTEstimator \<Rightarrow> RTTEstimator" where
  "Sample rtt r =
     (let sample = rtt in
      if sample \<le> 0 then r
      else if \<not> inited r then r\<lparr>inited := True, srtt := sample, rttvar := go_div sample 2\<rparr>
      else
        (let delta = sample - srtt r;
             newSRTT = srtt r + go_div delta 8;
             absDelta = (if delta < 0 then - delta else delta);
             newVar = rttvar r + go_div (absDelta - rttvar r) 4
         in r\<lparr>srtt := newSRTT, rttvar := newVar\<rparr>))"

definition HasSamples :: "RTTEstimator \<Rightarrow> bool" where
  "HasSamples r = inited r"

definition RTO :: "RTTEstimator \<Rightarrow> duration \<Rightarrow> duration" where
  "RTO r mn = (let rto = srtt r + 4 * rttvar r in if rto < mn then mn else rto)"

definition probeAttempts :: "Options option \<Rightarrow> int" where
  "probeAttempts opts =
     (let retries = (case opts of Some o' \<Rightarrow> if MaxRetries o' \<ge> 0 then MaxRetries o' else 2 | None \<Rightarrow> 2)
      in retries + 1)"

definition probeTimeout :: "RTTEstimator option \<Rightarrow> duration \<Rightarrow> duration" where
  "probeTimeout rtt fallback =
     (case rtt of
        None \<Rightarrow> fallback
      | Some r \<Rightarrow> if \<not> HasSamples r then fallback else RTO r (go_div fallback 4))"

subsection \<open>AdaptiveRateLimiter\<close>

record AdaptiveRateLimiter =
  ratePPS :: int
  minPPS :: int
  maxPPS :: int
  sent :: nat
  lost :: nat
  lastTick :: int
  batchRemaining :: int

definition pacerBatchSize :: int where "pacerBatchSize = 64"
definition windowSize :: nat where "windowSize = 64"

definition NewAdaptiveRateLimiter :: "int \<Rightarrow> int \<Rightarrow> int \<Rightarrow> int \<Rightarrow> AdaptiveRateLimiter" where
  "NewAdaptiveRateLimiter initialPPS mn mx now =
     (let mn1 = (if mn < 1 then 1 else mn);
          mx1 = (if mx < mn1 then mn1 else mx);
          i1 = (if initialPPS < mn1 then mn1 else initialPPS);
          i2 = (if i1 > mx1 then mx1 else i1)
      in \<lparr>ratePPS = i2, minPPS = mn1, maxPPS = mx1, sent = 0, lost = 0, lastTick = now, batchRemaining = 0\<rparr>)"

definition NewLimiterFromOptions :: "Options option \<Rightarrow> int \<Rightarrow> AdaptiveRateLimiter option" where
  "NewLimiterFromOptions opts now =
     (case opts of
        None \<Rightarrow> None
      | Some o' \<Rightarrow>
          if UnsafeNoLimits o' \<or> RateLimit o' \<le> 0 then None
          else
            (let initial = RateLimit o' in
             if AdaptiveRate o' then Some (NewAdaptiveRateLimiter initial (go_div initial 10) (initial * 4) now)
             else Some (NewAdaptiveRateLimiter initial initial initial now)))"

text \<open>
  The interval between two slots at a rate (\<open>None\<close>: division by zero), the start
  of a window reserved at \<open>now\<close>, and \<open>WaitN\<close>: the new state and the time slept.
\<close>

definition wait_interval :: "int \<Rightarrow> int option" where
  "wait_interval rate =
     (if rate = 0 then None
      else (let interval = go_div 1000000000 rate in Some (if interval < 1 then 1 else interval)))"

definition wait_start :: "int \<Rightarrow> int \<Rightarrow> int" where
  "wait_start lst now = (if now > lst then now else lst)"

definition WaitN :: "int \<Rightarrow> int \<Rightarrow> AdaptiveRateLimiter \<Rightarrow> (AdaptiveRateLimiter \<times> duration) option" where
  "WaitN n now rl =
     (if n \<le> 0 then Some (rl, 0)
      else (case wait_interval (ratePPS rl) of
              None \<Rightarrow> None
            | Some interval \<Rightarrow>
                (let span = interval * n;
                     start = wait_start (lastTick rl) now;
                     wait = start - now
                 in Some (rl\<lparr>lastTick := start + span\<rparr>, if wait > 0 then wait else 0))))"

definition acquireBatched :: "int \<Rightarrow> AdaptiveRateLimiter \<Rightarrow> (AdaptiveRateLimiter \<times> duration) option" where
  "acquireBatched now rl =
     (let rem = batchRemaining rl in
      if rem > 0 then Some (rl\<lparr>batchRemaining := rem - 1\<rparr>, 0)
      else WaitN pacerBatchSize now (rl\<lparr>batchRemaining := pacerBatchSize - 1\<rparr>))"

definition pacedWait :: "int \<Rightarrow> AdaptiveRateLimiter option \<Rightarrow> (AdaptiveRateLimiter option \<times> duration) option" where
  "pacedWait now limiter =
     (case limiter of
        None \<Rightarrow> Some (None, 0)
      | Some rl \<Rightarrow> map_option (\<lambda>(rl', d). (Some rl', d)) (acquireBatched now rl))"

text \<open>
  \<open>Report\<close>.  A window closes at \<open>windowSize\<close> samples, so the percentage
  \<open>lost / 64 * 100\<close> is a dyadic number that float64 computes exactly; the
  comparisons with 0.5 and 3.0 are written on integers.
\<close>

definition clamp_rate :: "AdaptiveRateLimiter \<Rightarrow> int \<Rightarrow> int" where
  "clamp_rate rl next =
     (let n1 = (if next < minPPS rl then minPPS rl else next)
      in if n1 > maxPPS rl then maxPPS rl else n1)"

definition Report :: "bool \<Rightarrow> AdaptiveRateLimiter \<Rightarrow> AdaptiveRateLimiter" where
  "Report was_lost rl =
     (let sent1 = sent rl + 1;
          lost1 = (if was_lost then lost rl + 1 else lost rl);
          rl1 = rl\<lparr>sent := sent1, lost := lost1\<rparr>
      in if sent1 < windowSize then rl1
         else
           (let rl2 = rl1\<lparr>sent := 0, lost := 0\<rparr>; cur = ratePPS rl in
            if 1000 * lost1 < 5 * sent1 then rl2\<lparr>ratePPS := clamp_rate rl2 (cur + go_div cur 20)\<rparr>
            else if 100 * lost1 > 3 * sent1 then rl2\<lparr>ratePPS := clamp_rate rl2 (go_div cur 2)\<rparr>
            else rl2))"

definition CurrentRate :: "AdaptiveRateLimiter \<Rightarrow> int" where
  "CurrentRate rl = ratePPS rl"

subsection \<open>The estimator stays within its samples\<close>

definition rtt_inv :: "int \<Rightarrow> int \<Rightarrow> RTTEstimator \<Rightarrow> bool" where
  "rtt_inv lo hi r \<longleftrightarrow> (inited r \<longrightarrow> lo \<le> srtt r \<and> srtt r \<le> hi \<and> 0 \<le> rttvar r
     \<and> rttvar r \<le> max (hi div 2) (hi - lo))"

lemma rtt_inv_Sample:
  assumes "rtt_inv lo hi r" and "0 < lo" and "0 < s \<Longrightarrow> lo \<le> s" and "s \<le> hi"
  shows "rtt_inv lo hi (Sample s r)"
proof (cases "s \<le> 0 \<or> \<not> inited r")
  case True
  have "0 \<le> hi div 2" if "0 < s" using that assms(4) by simp
  moreover have "s div 2 \<le> hi div 2" using assms(4) by (rule zdiv_mono1) simp
  ultimately show ?thesis
    using assms True by (auto simp: Sample_def rtt_inv_def go_div_nonneg max_def Let_def)
next
  case False
  then have inv: "lo \<le> srtt r" "srtt r \<le> hi" "0 \<le> rttvar r" "rttvar r \<le> max (hi div 2) (hi - lo)"
    and s: "0 < s" "lo \<le> s" using assms by (auto simp: rtt_inv_def)
  let ?d = "s - srtt r" and ?v = "rttvar r"
  have d: "min 0 ?d \<le> go_div ?d 8" "go_div ?d 8 \<le> max 0 ?d" using go_div_between [of 8 ?d] by auto
  have v: "min 0 (\<bar>?d\<bar> - ?v) \<le> go_div (\<bar>?d\<bar> - ?v) 4" "go_div (\<bar>?d\<bar> - ?v) 4 \<le> max 0 (\<bar>?d\<bar> - ?v)"
    using go_div_between [of 4 "\<bar>?d\<bar> - ?v"] by auto
  have "Sample s r = r\<lparr>srtt := srtt r + go_div ?d 8, rttvar := ?v + go_div (\<bar>?d\<bar> - ?v) 4\<rparr>"
    using False by (simp add: Sample_def Let_def abs_if)
  moreover have "lo \<le> srtt r + go_div ?d 8" "srtt r + go_div ?d 8 \<le> hi" using d inv s assms(4) by linarith+
  moreover have "0 \<le> ?v + go_div (\<bar>?d\<bar> - ?v) 4" using v inv by linarith
  moreover have "\<bar>?d\<bar> \<le> hi - lo" using inv s assms(4) by linarith
  then have "?v + go_div (\<bar>?d\<bar> - ?v) 4 \<le> max (hi div 2) (hi - lo)" using v inv by linarith
  ultimately show ?thesis using False by (simp add: rtt_inv_def)
qed

lemma rtt_inv_fold:
  assumes "0 < lo" and "\<forall>s \<in> set ss. (0 < s \<longrightarrow> lo \<le> s) \<and> s \<le> hi" and "rtt_inv lo hi r"
  shows "rtt_inv lo hi (fold Sample ss r)"
  using assms(2,3)
proof (induction ss arbitrary: r)
  case (Cons s ss)
  then show ?case using rtt_inv_Sample [OF Cons.prems(2) assms(1), of s] by simp
qed simp

lemma inited_fold: "inited (fold Sample ss r) \<longleftrightarrow> inited r \<or> (\<exists>s \<in> set ss. 0 < s)"
proof (induction ss arbitrary: r)
  case (Cons s ss)
  have "inited (Sample s r) \<longleftrightarrow> inited r \<or> 0 < s" by (auto simp: Sample_def Let_def)
  with Cons show ?case by auto
qed simp

subsection \<open>The controller\<close>

definition limiter_inv :: "AdaptiveRateLimiter \<Rightarrow> bool" where
  "limiter_inv rl \<longleftrightarrow> 1 \<le> minPPS rl \<and> minPPS rl \<le> ratePPS rl \<and> ratePPS rl \<le> maxPPS rl
     \<and> sent rl < windowSize \<and> lost rl \<le> sent rl \<and> 0 \<le> batchRemaining rl \<and> batchRemaining rl < pacerBatchSize"

named_theorems limiter_simps \<open>the fields each limiter operation leaves alone\<close>

lemma NewAdaptiveRateLimiter_inv: "limiter_inv (NewAdaptiveRateLimiter i mn mx now)"
  by (simp add: NewAdaptiveRateLimiter_def limiter_inv_def Let_def windowSize_def pacerBatchSize_def)

lemma clamp_rate_bounds: "minPPS rl \<le> maxPPS rl \<Longrightarrow> minPPS rl \<le> clamp_rate rl x \<and> clamp_rate rl x \<le> maxPPS rl"
  by (simp add: clamp_rate_def Let_def)

lemma Report_inv: "limiter_inv rl \<Longrightarrow> limiter_inv (Report b rl)"
  using clamp_rate_bounds [of "rl\<lparr>sent := 0, lost := 0\<rparr>"]
  by (auto simp: Report_def limiter_inv_def Let_def windowSize_def clamp_rate_def)

lemma Report_fields [limiter_simps]:
  "minPPS (Report b rl) = minPPS rl" "maxPPS (Report b rl) = maxPPS rl"
  "lastTick (Report b rl) = lastTick rl" "batchRemaining (Report b rl) = batchRemaining rl"
  by (simp_all add: Report_def Let_def)

lemma fold_Report_inv: "limiter_inv rl \<Longrightarrow> limiter_inv (fold Report bs rl)"
  by (induction bs arbitrary: rl) (simp_all add: Report_inv)

lemma fold_Report_fields [limiter_simps]:
  "minPPS (fold Report bs rl) = minPPS rl" "maxPPS (fold Report bs rl) = maxPPS rl"
  by (induction bs arbitrary: rl) (simp_all add: limiter_simps)

text \<open>Inside a window only the counters move.\<close>

lemma fold_Report_partial:
  "sent rl + length bs < windowSize \<Longrightarrow>
   fold Report bs rl = rl\<lparr>sent := sent rl + length bs, lost := lost rl + count_list bs True\<rparr>"
proof (induction bs arbitrary: rl)
  case (Cons b bs)
  let ?rl = "rl\<lparr>sent := sent rl + 1, lost := (if b then lost rl + 1 else lost rl)\<rparr>"
  have "Report b rl = ?rl" using Cons.prems by (simp add: Report_def Let_def)
  moreover have "sent ?rl + length bs < windowSize" using Cons.prems by simp
  ultimately show ?case using Cons.IH [of ?rl] by simp
qed simp

lemma Report_closes:
  assumes "sent rl + 1 = windowSize"
  shows "Report b rl = (let l = (if b then lost rl + 1 else lost rl) in
    rl\<lparr>sent := 0, lost := 0,
       ratePPS := (if l = 0 then clamp_rate rl (ratePPS rl + go_div (ratePPS rl) 20)
                   else if l = 1 then ratePPS rl
                   else clamp_rate rl (go_div (ratePPS rl) 2))\<rparr>)"
  using assms by (simp add: Report_def Let_def windowSize_def clamp_rate_def)

lemma Report_never_up:
  assumes "ratePPS rl < 20" and "limiter_inv rl"
  shows "ratePPS (Report b rl) \<le> ratePPS rl"
proof -
  have "ratePPS rl div 2 \<le> ratePPS rl" using assms(2) unfolding limiter_inv_def by linarith
  then show ?thesis
    using assms by (auto simp: Report_def Let_def limiter_inv_def clamp_rate_def go_div_nonneg)
qed

lemma wait_interval_pos:
  assumes "1 \<le> rate"
  shows "\<exists>iv. wait_interval rate = Some iv \<and> 1 \<le> iv \<and> iv \<le> 1000000000 \<and> (rate \<le> 1000000000 \<longrightarrow> iv * rate \<le> 1000000000)"
proof -
  let ?q = "1000000000 div rate"
  have "rate * ?q + 1000000000 mod rate = 1000000000" by (rule mult_div_mod_eq)
  then have q: "?q * rate \<le> 1000000000"
    using pos_mod_sign [of rate 1000000000] assms by (simp only: mult.commute) linarith
  have "?q \<le> 1000000000" using assms zdiv_mono2 [of 1000000000 1 rate] by simp
  moreover have "1 \<le> ?q" if "rate \<le> 1000000000"
    using that assms zdiv_mono2 [of 1000000000 rate 1000000000] by simp
  ultimately show ?thesis using assms q by (auto simp: wait_interval_def go_div_nonneg Let_def)
qed

lemma WaitN_returns: "limiter_inv rl \<Longrightarrow> \<exists>rl' d. WaitN n now rl = Some (rl', d) \<and> limiter_inv rl' \<and> 0 \<le> d"
  using wait_interval_pos [of "ratePPS rl"]
  by (auto simp: WaitN_def limiter_inv_def Let_def)

lemma acquireBatched_returns:
  assumes "limiter_inv rl"
  shows "\<exists>rl' d. acquireBatched now rl = Some (rl', d) \<and> limiter_inv rl' \<and> 0 \<le> d"
proof (cases "batchRemaining rl > 0")
  case True
  then show ?thesis using assms by (simp add: acquireBatched_def limiter_inv_def Let_def)
next
  case False
  have "limiter_inv (rl\<lparr>batchRemaining := pacerBatchSize - 1\<rparr>)"
    using assms by (simp add: limiter_inv_def pacerBatchSize_def)
  then show ?thesis using False WaitN_returns by (simp add: acquireBatched_def Let_def)
qed

subsection \<open>Properties\<close>

text \<open>The timeout of one attempt.  Without samples it is the configured timeout;
  with samples that all lie between \<open>lo\<close> and \<open>hi\<close> it is at least a quarter of the
  configured timeout and at most the larger of that quarter and
  \<open>hi + 4 * max (hi / 2) (hi - lo)\<close>, however many samples were folded in.\<close>

theorem probeTimeout_bounds:
  assumes "0 < lo" and "\<forall>s \<in> set ss. (0 < s \<longrightarrow> lo \<le> s) \<and> s \<le> hi" and "0 \<le> fallback"
  shows "let t = probeTimeout (Some (fold Sample ss NewRTTEstimator)) fallback in
    (if \<exists>s \<in> set ss. 0 < s
     then fallback div 4 \<le> t \<and> t \<le> max (fallback div 4) (hi + 4 * max (hi div 2) (hi - lo))
     else t = fallback)"
proof -
  let ?r = "fold Sample ss NewRTTEstimator"
  have "rtt_inv lo hi ?r"
    by (rule rtt_inv_fold [OF assms(1,2)]) (simp add: rtt_inv_def NewRTTEstimator_def)
  moreover have "inited ?r \<longleftrightarrow> (\<exists>s \<in> set ss. 0 < s)"
    by (simp add: inited_fold NewRTTEstimator_def)
  ultimately show ?thesis
    using assms(3) by (auto simp: probeTimeout_def HasSamples_def RTO_def rtt_inv_def go_div_nonneg Let_def)
qed

theorem probeTimeout_bounds_witness:
  "probeTimeout (Some (fold Sample [40, 56, 0, 48] NewRTTEstimator)) 400 \<le> 56 + 4 * 28"
  using probeTimeout_bounds [of 40 "[40, 56, 0, 48]" 56 400] by (simp add: Let_def)

text \<open>C5: one full window of 64 reports changes the rate exactly as the controller
  promises: no loss raises it by a twentieth, one loss keeps it, two or more halve
  it, each clamped to the configured range, and the window counters restart.\<close>

theorem Report_window_exact:
  assumes "sent rl = 0" and "lost rl = 0" and "length bs = 64"
  shows "fold Report bs rl = rl\<lparr>ratePPS :=
    (if count_list bs True = 0 then clamp_rate rl (ratePPS rl + go_div (ratePPS rl) 20)
     else if count_list bs True = 1 then ratePPS rl
     else clamp_rate rl (go_div (ratePPS rl) 2))\<rparr>"
proof -
  obtain cs b where bs: "bs = cs @ [b]" using assms(3) by (cases bs rule: rev_cases) auto
  let ?rl = "rl\<lparr>sent := 63, lost := count_list cs True\<rparr>"
  have "fold Report cs rl = ?rl"
    using fold_Report_partial [of rl cs] assms bs by (simp add: windowSize_def)
  moreover have "Report b ?rl = rl\<lparr>ratePPS :=
    (if count_list bs True = 0 then clamp_rate rl (ratePPS rl + go_div (ratePPS rl) 20)
     else if count_list bs True = 1 then ratePPS rl
     else clamp_rate rl (go_div (ratePPS rl) 2))\<rparr>"
    using Report_closes [of ?rl b] assms(1,2) bs by (simp add: windowSize_def clamp_rate_def Let_def)
  ultimately show ?thesis by (simp add: bs)
qed

theorem Report_window_exact_witness:
  "ratePPS (fold Report (replicate 64 False) (NewAdaptiveRateLimiter 1000 100 4000 0)) = 1050
   \<and> ratePPS (fold Report (True # False # True # replicate 61 False) (NewAdaptiveRateLimiter 1000 100 4000 0)) = 500"
proof -
  let ?rl = "NewAdaptiveRateLimiter 1000 100 4000 0"
  have rl: "sent ?rl = 0" "lost ?rl = 0" "ratePPS ?rl = 1000" "minPPS ?rl = 100" "maxPPS ?rl = 4000"
    by (simp_all add: NewAdaptiveRateLimiter_def)
  have d: "go_div 1000 20 = 50" "go_div 1000 2 = 500" by (simp_all add: go_div_nonneg)
  have "count_list (replicate 64 False) True = 0" "count_list (True # False # True # replicate 61 False) True = 2"
    by (simp_all add: count_list_0_iff)
  then show ?thesis
    using Report_window_exact [OF rl(1,2), of "replicate 64 False"]
      Report_window_exact [OF rl(1,2), of "True # False # True # replicate 61 False"]
    by (simp add: rl d clamp_rate_def)
qed

text \<open>The limiter a scan builds from its options stays inside its range under any
  sequence of reports: the rate is between the minimum and the maximum, both at
  least 1, so computing the interval never divides by zero and a wait always
  returns, with a slot spacing between 1 ns and 1 s.\<close>

theorem limiter_always_paces:
  assumes "NewLimiterFromOptions opts t0 = Some rl0"
  shows "let rl = fold Report bs rl0 in
    1 \<le> minPPS rl0 \<and> minPPS rl0 \<le> CurrentRate rl \<and> CurrentRate rl \<le> maxPPS rl0
    \<and> (\<exists>rl' d. acquireBatched now rl = Some (rl', d) \<and> 0 \<le> d)
    \<and> (\<exists>iv. wait_interval (CurrentRate rl) = Some iv \<and> 1 \<le> iv \<and> iv \<le> 1000000000)"
proof -
  have "limiter_inv rl0"
    using assms NewAdaptiveRateLimiter_inv
    by (auto simp: NewLimiterFromOptions_def Let_def split: option.splits if_splits)
  then have inv: "limiter_inv (fold Report bs rl0)" by (rule fold_Report_inv)
  then have "1 \<le> ratePPS (fold Report bs rl0)" by (simp add: limiter_inv_def)
  then show ?thesis
    using inv acquireBatched_returns [OF inv, of now] wait_interval_pos [of "ratePPS (fold Report bs rl0)"]
    by (auto simp: CurrentRate_def limiter_inv_def limiter_simps Let_def)
qed

theorem limiter_always_paces_witness:
  "CurrentRate (fold Report (replicate 640 True)
     (NewAdaptiveRateLimiter 100 (go_div 100 10) (100 * 4) 0)) \<ge> 10"
proof -
  let ?rl = "NewAdaptiveRateLimiter 100 (go_div 100 10) (100 * 4) 0"
  have "NewLimiterFromOptions (Some (default_options\<lparr>RateLimit := 100, AdaptiveRate := True\<rparr>)) 0 = Some ?rl"
    by (simp add: NewLimiterFromOptions_def default_options_def zero_options_def Let_def)
  from limiter_always_paces [OF this, of "replicate 640 True" 0] show ?thesis
    by (simp add: NewAdaptiveRateLimiter_def go_div_nonneg Let_def)
qed

text \<open>Once the rate is below 20 packets per second the additive increase adds
  nothing: whatever is reported afterwards, a loss-free network included, the rate
  never rises again.\<close>

theorem adaptive_rate_never_recovers:
  assumes "limiter_inv rl" and "ratePPS rl < 20"
  shows "ratePPS (fold Report bs rl) \<le> ratePPS rl"
  using assms
proof (induction bs arbitrary: rl)
  case (Cons b bs)
  have up: "ratePPS (Report b rl) \<le> ratePPS rl" by (rule Report_never_up [OF Cons.prems(2,1)])
  then have "ratePPS (fold Report bs (Report b rl)) \<le> ratePPS (Report b rl)"
    using Cons by (intro Cons.IH Report_inv) auto
  with up show ?case by simp
qed simp

theorem adaptive_rate_never_recovers_witness:
  "ratePPS (fold Report (replicate 6400 False) (NewAdaptiveRateLimiter 19 1 1000 0)) \<le> 19"
  using adaptive_rate_never_recovers [OF NewAdaptiveRateLimiter_inv, of 19 1 1000 0 "replicate 6400 False"]
  by (simp add: NewAdaptiveRateLimiter_def)

end
