(* ===== verification/Pacer.thy ===== *)
theory Pacer
  imports RateControl
begin

text \<open>
  The lock-free loops of \<open>internal/scan/adaptive_rate.go\<close> (\<open>acquireBatched\<close> and
  \<open>WaitN\<close>) run by many goroutines at once.  Each atomic load, compare-and-swap and
  clock reading is one step; a goroutine's program counter says which values it
  has loaded.  The controller may change the rate between any two steps.
\<close>

text \<open>Where a goroutine is: outside, in \<open>acquireBatched\<close>, or in \<open>WaitN\<close>.\<close>

datatype pc =
  Idle
| AcqLoad                                       \<comment> \<open>at \<open>rl.batchRemaining.Load()\<close>\<close>
| AcqLoaded int                                 \<comment> \<open>at the compare-and-swap on what it loaded\<close>
| WaitRate int                                  \<comment> \<open>at \<open>rl.ratePPS.Load()\<close>, for n slots\<close>
| WaitLast int int                              \<comment> \<open>at \<open>rl.lastTick.Load()\<close>, with its width\<close>
| WaitNow int int int                           \<comment> \<open>at the clock, with what it loaded\<close>
| WaitSwap int int int int                      \<comment> \<open>at the compare-and-swap on lastTick\<close>

text \<open>
  The shared limiter, the goroutines, and two ghosts: the windows reserved so far
  (newest first, each with the clock reading it was based on) and the packets let
  through without a window of their own.
\<close>

record pacer =
  p_rate :: int
  p_last :: int
  p_batch :: int
  p_pc :: "nat \<Rightarrow> pc"
  p_windows :: "(int \<times> int \<times> int) list" \<comment> \<open>clock, start, end\<close>
  p_prepaid :: nat                              \<comment> \<open>packets taken from a batch\<close>
  p_refills :: nat                              \<comment> \<open>batches opened\<close>

inductive pacer_step :: "pacer \<Rightarrow> pacer \<Rightarrow> bool" where
  rate: "1 \<le> r \<Longrightarrow> pacer_step s (s\<lparr>p_rate := r\<rparr>)"
| call_acquire: "p_pc s t = Idle \<Longrightarrow> pacer_step s (s\<lparr>p_pc := (p_pc s)(t := AcqLoad)\<rparr>)"
| call_wait: "p_pc s t = Idle \<Longrightarrow> 0 < n \<Longrightarrow> pacer_step s (s\<lparr>p_pc := (p_pc s)(t := WaitRate n)\<rparr>)"
| load_batch: "p_pc s t = AcqLoad \<Longrightarrow> pacer_step s (s\<lparr>p_pc := (p_pc s)(t := AcqLoaded (p_batch s))\<rparr>)"
| take_slot: "p_pc s t = AcqLoaded rem \<Longrightarrow> rem > 0 \<Longrightarrow> p_batch s = rem \<Longrightarrow>
    pacer_step s (s\<lparr>p_batch := rem - 1, p_pc := (p_pc s)(t := Idle), p_prepaid := Suc (p_prepaid s)\<rparr>)"
| lose_slot: "p_pc s t = AcqLoaded rem \<Longrightarrow> p_batch s \<noteq> rem \<Longrightarrow>
    pacer_step s (s\<lparr>p_pc := (p_pc s)(t := AcqLoad)\<rparr>)"
| refill: "p_pc s t = AcqLoaded rem \<Longrightarrow> \<not> rem > 0 \<Longrightarrow> p_batch s = rem \<Longrightarrow>
    pacer_step s (s\<lparr>p_batch := pacerBatchSize - 1, p_pc := (p_pc s)(t := WaitRate pacerBatchSize),
      p_refills := Suc (p_refills s)\<rparr>)"
| load_rate: "p_pc s t = WaitRate n \<Longrightarrow> wait_interval (p_rate s) = Some iv \<Longrightarrow>
    pacer_step s (s\<lparr>p_pc := (p_pc s)(t := WaitLast n (iv * n))\<rparr>)"
| load_last: "p_pc s t = WaitLast n width \<Longrightarrow>
    pacer_step s (s\<lparr>p_pc := (p_pc s)(t := WaitNow n width (p_last s))\<rparr>)"
| read_clock: "p_pc s t = WaitNow n width lst \<Longrightarrow>
    pacer_step s (s\<lparr>p_pc := (p_pc s)(t := WaitSwap n width lst now)\<rparr>)"
| swap_last: "p_pc s t = WaitSwap n width lst now \<Longrightarrow> p_last s = lst \<Longrightarrow>
    pacer_step s (s\<lparr>p_last := wait_start lst now + width, p_pc := (p_pc s)(t := Idle),
      p_windows := (now, wait_start lst now, wait_start lst now + width) # p_windows s\<rparr>)"
| lose_last: "p_pc s t = WaitSwap n width lst now \<Longrightarrow> p_last s \<noteq> lst \<Longrightarrow>
    pacer_step s (s\<lparr>p_pc := (p_pc s)(t := WaitRate n)\<rparr>)"

inductive_cases pacer_stepE: "pacer_step s s'"

definition pacer_init :: "AdaptiveRateLimiter \<Rightarrow> pacer" where
  "pacer_init rl = \<lparr>p_rate = ratePPS rl, p_last = lastTick rl, p_batch = batchRemaining rl,
     p_pc = (\<lambda>_. Idle), p_windows = [], p_prepaid = 0, p_refills = 0\<rparr>"

inductive pacer_reach :: "pacer \<Rightarrow> pacer \<Rightarrow> bool" for s0 where
  init: "pacer_reach s0 s0"
| step: "pacer_reach s0 s \<Longrightarrow> pacer_step s s' \<Longrightarrow> pacer_reach s0 s'"

subsection \<open>The invariant of every interleaving\<close>

fun pc_span_ok :: "pc \<Rightarrow> bool" where
  "pc_span_ok (WaitRate n) = (0 < n)"
| "pc_span_ok (WaitLast n width) = (0 < n \<and> n \<le> width)"
| "pc_span_ok (WaitNow n width lst) = (0 < n \<and> n \<le> width)"
| "pc_span_ok (WaitSwap n width lst now) = (0 < n \<and> n \<le> width)"
| "pc_span_ok _ = True"

text \<open>Newest first: every window starts where the limiter stood or later, and none overlaps.\<close>

fun windows_ok :: "int \<Rightarrow> (int \<times> int \<times> int) list \<Rightarrow> int \<Rightarrow> bool" where
  "windows_ok t0 [] lst = (lst = t0)"
| "windows_ok t0 ((now, start, stop) # ws) lst =
     (stop = lst \<and> start < stop \<and> now \<le> start \<and> (case ws of [] \<Rightarrow> t0 \<le> start | (_, _, stop') # _ \<Rightarrow> stop' \<le> start)
      \<and> windows_ok t0 ws (case ws of [] \<Rightarrow> t0 | (_, _, stop') # _ \<Rightarrow> stop'))"

definition pacer_inv :: "int \<Rightarrow> pacer \<Rightarrow> bool" where
  "pacer_inv t0 s \<longleftrightarrow> 1 \<le> p_rate s \<and> (\<forall>t. pc_span_ok (p_pc s t)) \<and> windows_ok t0 (p_windows s) (p_last s)
     \<and> 0 \<le> p_batch s \<and> int (p_prepaid s) + p_batch s = 63 * int (p_refills s)"

lemma windows_ok_last: "windows_ok t0 ws lst \<Longrightarrow> lst = (case ws of [] \<Rightarrow> t0 | (_, _, stop') # _ \<Rightarrow> stop')"
  by (cases "(t0, ws, lst)" rule: windows_ok.cases) auto

lemma windows_ok_cons:
  assumes "windows_ok t0 ws lst" and "0 < width"
  shows "windows_ok t0 ((now, wait_start lst now, wait_start lst now + width) # ws) (wait_start lst now + width)"
  using assms windows_ok_last [OF assms(1)] by (cases ws) (auto simp: wait_start_def)

lemma pacer_inv_init: "limiter_inv rl \<Longrightarrow> batchRemaining rl = 0 \<Longrightarrow> pacer_inv (lastTick rl) (pacer_init rl)"
  by (simp add: pacer_inv_def pacer_init_def limiter_inv_def)

lemma pacer_inv_step:
  assumes "pacer_step s s'" and "pacer_inv t0 s"
  shows "pacer_inv t0 s'"
  using assms
proof (induction rule: pacer_step.induct)
  case (load_rate s t n iv)
  then have "0 < n" "1 \<le> p_rate s" unfolding pacer_inv_def by (metis pc_span_ok.simps(1))+
  then have "n \<le> iv * n" using wait_interval_pos [of "p_rate s"] load_rate(2) by auto
  with \<open>0 < n\<close> load_rate show ?case by (auto simp: pacer_inv_def)
next
  case (swap_last s t n width lst now)
  then have "pc_span_ok (WaitSwap n width lst now)" unfolding pacer_inv_def by metis
  then have "0 < width" by simp
  then show ?case using swap_last windows_ok_cons [of t0 "p_windows s" "p_last s" width now]
    by (auto simp: pacer_inv_def)
next
  case (load_last s t n width)
  then have "pc_span_ok (WaitLast n width)" unfolding pacer_inv_def by metis
  then show ?case using load_last by (auto simp: pacer_inv_def)
next
  case (read_clock s t n width lst now)
  then have "pc_span_ok (WaitNow n width lst)" unfolding pacer_inv_def by metis
  then show ?case using read_clock by (auto simp: pacer_inv_def)
next
  case (lose_last s t n width lst now)
  then have "pc_span_ok (WaitSwap n width lst now)" unfolding pacer_inv_def by metis
  then show ?case using lose_last by (auto simp: pacer_inv_def)
qed (auto simp: pacer_inv_def pacerBatchSize_def)

lemma pacer_inv_reach: "pacer_reach s0 s \<Longrightarrow> pacer_inv t0 s0 \<Longrightarrow> pacer_inv t0 s"
  by (induction rule: pacer_reach.induct) (auto intro: pacer_inv_step)

lemma windows_ok_sorted:
  "windows_ok t0 ws lst \<Longrightarrow> sorted_wrt (\<lambda>(_, start, _) (_, _, stop). stop \<le> start) ws
     \<and> (\<forall>(now, start, stop) \<in> set ws. t0 \<le> start \<and> now \<le> start \<and> start < stop \<and> stop \<le> lst)"
proof (induction t0 ws lst rule: windows_ok.induct)
  case (2 t0 now start stop ws lst)
  let ?prev = "case ws of [] \<Rightarrow> t0 | (_, _, stop') # _ \<Rightarrow> stop'"
  have le: "?prev \<le> start" and w: "stop = lst" "start < stop" "now \<le> start"
    and ih: "sorted_wrt (\<lambda>(_, start, _) (_, _, stop). stop \<le> start) ws"
      "\<forall>(now, start, stop) \<in> set ws. t0 \<le> start \<and> now \<le> start \<and> start < stop \<and> stop \<le> ?prev"
    using 2 by (auto split: list.splits)
  have "t0 \<le> start"
  proof (cases ws)
    case (Cons w ws')
    then show ?thesis using ih(2) le by fastforce
  qed (use le in simp)
  then show ?case using le w ih by fastforce
qed simp

subsection \<open>A goroutine alone runs the sequential operation\<close>

lemma wait_alone:
  assumes "pacer_reach s0 s" and "p_pc s t = WaitRate n" and "0 < n" and "wait_interval (p_rate s) = Some iv"
  shows "\<exists>s'. pacer_reach s0 s' \<and> p_last s' = wait_start (p_last s) now + iv * n \<and> p_batch s' = p_batch s
    \<and> p_pc s' t = Idle \<and> p_rate s' = p_rate s"
proof -
  let ?s1 = "s\<lparr>p_pc := (p_pc s)(t := WaitLast n (iv * n))\<rparr>"
  let ?s2 = "s\<lparr>p_pc := (p_pc s)(t := WaitNow n (iv * n) (p_last s))\<rparr>"
  let ?s3 = "s\<lparr>p_pc := (p_pc s)(t := WaitSwap n (iv * n) (p_last s) now)\<rparr>"
  have "pacer_step s ?s1" using assms(2,4) by (rule pacer_step.load_rate)
  moreover have "pacer_step ?s1 ?s2" using pacer_step.load_last [of ?s1 t n "iv * n"] by simp
  moreover have "pacer_step ?s2 ?s3" using pacer_step.read_clock [of ?s2 t n "iv * n" "p_last s" now] by simp
  ultimately have "pacer_reach s0 ?s3" using assms(1) pacer_reach.step by meson
  then have r: "pacer_reach s0 (?s3\<lparr>p_last := wait_start (p_last s) now + iv * n, p_pc := (p_pc ?s3)(t := Idle),
      p_windows := (now, wait_start (p_last s) now, wait_start (p_last s) now + iv * n) # p_windows ?s3\<rparr>)"
    by (rule pacer_reach.step) (rule pacer_step.swap_last, simp_all)
  show ?thesis by (rule exI, intro conjI, rule r) simp_all
qed

lemma acquire_alone:
  assumes "acquireBatched now rl = Some (rl', d)" and "limiter_inv rl"
  shows "\<exists>s. pacer_reach (pacer_init rl) s \<and> p_last s = lastTick rl' \<and> p_batch s = batchRemaining rl'
    \<and> p_rate s = ratePPS rl' \<and> p_pc s t = Idle"
proof -
  let ?s0 = "pacer_init rl"
  let ?s1 = "?s0\<lparr>p_pc := (p_pc ?s0)(t := AcqLoad)\<rparr>"
  let ?s2 = "?s1\<lparr>p_pc := (p_pc ?s1)(t := AcqLoaded (p_batch ?s1))\<rparr>"
  have "pacer_reach ?s0 ?s1"
    by (rule pacer_reach.step [OF pacer_reach.init], rule pacer_step.call_acquire) (simp add: pacer_init_def)
  then have r2: "pacer_reach ?s0 ?s2" by (rule pacer_reach.step) (rule pacer_step.load_batch, simp)
  show ?thesis
  proof (cases "batchRemaining rl > 0")
    case True
    have r: "pacer_reach ?s0 (?s2\<lparr>p_batch := p_batch ?s1 - 1, p_pc := (p_pc ?s2)(t := Idle), p_prepaid := Suc (p_prepaid ?s2)\<rparr>)"
      using r2 by (rule pacer_reach.step) (rule pacer_step.take_slot, use True in \<open>simp_all add: pacer_init_def\<close>)
    show ?thesis
      by (rule exI, intro conjI, rule r)
        (use True assms(1) in \<open>auto simp: acquireBatched_def pacer_init_def Let_def\<close>)
  next
    case False
    let ?s3 = "?s2\<lparr>p_batch := pacerBatchSize - 1, p_pc := (p_pc ?s2)(t := WaitRate pacerBatchSize),
      p_refills := Suc (p_refills ?s2)\<rparr>"
    have r3: "pacer_reach ?s0 ?s3"
      using r2 by (rule pacer_reach.step) (rule pacer_step.refill, use False in \<open>simp_all add: pacer_init_def\<close>)
    obtain iv where iv: "wait_interval (ratePPS rl) = Some iv"
      using wait_interval_pos [of "ratePPS rl"] assms(2) by (auto simp: limiter_inv_def)
    have fields: "p_pc ?s3 t = WaitRate pacerBatchSize" "p_rate ?s3 = ratePPS rl" "p_last ?s3 = lastTick rl"
        "p_batch ?s3 = pacerBatchSize - 1"
      by (simp_all add: pacer_init_def)
    have "wait_interval (p_rate ?s3) = Some iv" using fields(2) iv by simp
    then obtain s where s: "pacer_reach ?s0 s" "p_last s = wait_start (lastTick rl) now + iv * pacerBatchSize"
        "p_batch s = pacerBatchSize - 1" "p_pc s t = Idle" "p_rate s = ratePPS rl"
      using wait_alone [OF r3 fields(1), of iv now] fields(2-4) by (auto simp: pacerBatchSize_def)
    have "rl' = rl\<lparr>batchRemaining := pacerBatchSize - 1, lastTick := wait_start (lastTick rl) now + iv * pacerBatchSize\<rparr>"
      using False assms(1) iv by (simp add: acquireBatched_def WaitN_def pacerBatchSize_def Let_def)
    with s show ?thesis by (intro exI [of _ s]) simp
  qed
qed

subsection \<open>Properties\<close>



end
