(* ===== verification/OTGuard.thy ===== *)
theory OTGuard
  imports Prelude
begin

text \<open>
  \<open>internal/otguard/otguard.go\<close>: the per-target circuit breaker of the industrial
  profile.  The mutex makes every \<open>Observe\<close> atomic, so the guard is a fold over
  the observations in the order they took it.  The rise threshold
  \<open>time.Duration(float64(baseline) * riseFactor)\<close> is the function \<open>threshold\<close> of the
  guard: the properties hold for every such function.
\<close>

datatype trip_reason =
  StoppedResponding int            \<comment> \<open>probes in a row\<close>
| LatencyRose int int int          \<comment> \<open>baseline, last rtt, probes in a row\<close>

record guard_state =
  samples :: int
  rtt_sum :: int
  baseline :: int
  consecHigh :: int
  consecLoss :: int
  tripped :: bool
  trip_why :: "trip_reason option"
  trip_at :: int

record Guard =
  threshold :: "int \<Rightarrow> int"
  riseStreak :: int
  baselineSamples :: int
  maxConsecLoss :: int
  guard_targets :: "string \<rightharpoonup> guard_state"

definition New :: "(int \<Rightarrow> int) \<Rightarrow> int \<Rightarrow> int \<Rightarrow> Guard" where
  "New thr bs mcl =
     \<lparr>threshold = thr, riseStreak = 3, baselineSamples = (if bs < 1 then 8 else bs),
      maxConsecLoss = (if mcl < 1 then 5 else mcl), guard_targets = Map.empty\<rparr>"

definition zero_state :: guard_state where
  "zero_state = \<lparr>samples = 0, rtt_sum = 0, baseline = 0, consecHigh = 0, consecLoss = 0,
     tripped = False, trip_why = None, trip_at = 0\<rparr>"

definition trip :: "trip_reason \<Rightarrow> int \<Rightarrow> guard_state \<Rightarrow> guard_state" where
  "trip why now st = st\<lparr>tripped := True, trip_why := Some why, trip_at := now\<rparr>"

definition observe_state :: "Guard \<Rightarrow> int \<Rightarrow> int \<Rightarrow> bool \<Rightarrow> guard_state \<Rightarrow> guard_state" where
  "observe_state g now rtt lost st =
     (if tripped st then st
      else if lost then
        (if baseline st > 0 then
           (let st1 = st\<lparr>consecLoss := consecLoss st + 1\<rparr> in
            if consecLoss st1 \<ge> maxConsecLoss g then trip (StoppedResponding (consecLoss st1)) now st1 else st1)
         else st)
      else if rtt \<le> 0 then st
      else
        (let st0 = st\<lparr>consecLoss := 0\<rparr> in
         if samples st0 < baselineSamples g then
           (let st1 = st0\<lparr>rtt_sum := rtt_sum st0 + rtt, samples := samples st0 + 1\<rparr> in
            if samples st1 = baselineSamples g
            then st1\<lparr>baseline := go_div (rtt_sum st1) (baselineSamples g)\<rparr> else st1)
         else if rtt > threshold g (baseline st0) then
           (let st1 = st0\<lparr>consecHigh := consecHigh st0 + 1\<rparr> in
            if consecHigh st1 \<ge> riseStreak g
            then trip (LatencyRose (baseline st1) rtt (consecHigh st1)) now st1 else st1)
         else st0\<lparr>consecHigh := 0\<rparr>))"

definition target_state :: "Guard \<Rightarrow> string \<Rightarrow> guard_state" where
  "target_state g target = (case guard_targets g target of None \<Rightarrow> zero_state | Some st \<Rightarrow> st)"

definition Observe :: "string \<times> int \<times> bool \<times> int \<Rightarrow> Guard \<Rightarrow> Guard" where
  "Observe = (\<lambda>(target, rtt, lost, now) g.
     g\<lparr>guard_targets := (guard_targets g)(target \<mapsto> observe_state g now rtt lost (target_state g target))\<rparr>)"

definition Tripped :: "Guard \<Rightarrow> string \<Rightarrow> bool" where
  "Tripped g target = (case guard_targets g target of None \<Rightarrow> False | Some st \<Rightarrow> tripped st)"

text \<open>\<open>Trips\<close>, along an enumeration of the map's keys.\<close>

definition Trips :: "Guard \<Rightarrow> string list \<Rightarrow> (string \<times> trip_reason option \<times> int) list" where
  "Trips g keys = List.map_filter (\<lambda>t. case guard_targets g t of
       None \<Rightarrow> None
     | Some st \<Rightarrow> if tripped st then Some (t, trip_why st, trip_at st) else None) keys"

subsection \<open>What a history of observations says\<close>

text \<open>An observation of one target: its round-trip time and whether it was lost.\<close>

type_synonym obs = "int \<times> bool"

definition is_reply :: "obs \<Rightarrow> bool" where
  "is_reply o' \<longleftrightarrow> \<not> snd o' \<and> 0 < fst o'"

definition replies :: "obs list \<Rightarrow> int list" where
  "replies h = map fst (filter is_reply h)"

definition healthy_rtt :: "Guard \<Rightarrow> obs list \<Rightarrow> int" where
  "healthy_rtt g h = sum_list (take (nat (baselineSamples g)) (replies h)) div baselineSamples g"

definition losses_since :: "obs list \<Rightarrow> nat" where
  "losses_since h = length (filter snd (takeWhile (Not \<circ> is_reply) (rev h)))"

definition highs_since :: "Guard \<Rightarrow> obs list \<Rightarrow> nat" where
  "highs_since g h =
     length (takeWhile (\<lambda>r. r > threshold g (healthy_rtt g h)) (rev (drop (nat (baselineSamples g)) (replies h))))"

text \<open>
  The target answered often enough to have a baseline, and now either
  \<open>maxConsecLoss\<close> probes were lost since its last answer or its last
  \<open>riseStreak\<close> answers were all above the threshold.
\<close>

definition distressed :: "Guard \<Rightarrow> obs list \<Rightarrow> bool" where
  "distressed g h \<longleftrightarrow> baselineSamples g \<le> int (length (replies h))
     \<and> (maxConsecLoss g \<le> int (losses_since h) \<or> riseStreak g \<le> int (highs_since g h))"

definition guard_ok :: "Guard \<Rightarrow> bool" where
  "guard_ok g \<longleftrightarrow> 1 \<le> baselineSamples g \<and> 1 \<le> maxConsecLoss g \<and> 1 \<le> riseStreak g"

definition run_state :: "Guard \<Rightarrow> (obs \<times> int) list \<Rightarrow> guard_state \<Rightarrow> guard_state" where
  "run_state g es st = fold (\<lambda>((rtt, lost), now). observe_state g now rtt lost) es st"

named_theorems history_simps \<open>the history functions on one more observation\<close>

lemma replies_snoc [history_simps]: "replies (h @ [o']) = replies h @ (if is_reply o' then [fst o'] else [])"
  by (simp add: replies_def)

lemma replies_Nil [history_simps]: "replies [] = []"
  by (simp add: replies_def)

lemma losses_snoc [history_simps]:
  "losses_since (h @ [o']) = (if is_reply o' then 0 else if snd o' then Suc (losses_since h) else losses_since h)"
  by (simp add: losses_since_def)

lemma losses_Nil [history_simps]: "losses_since [] = 0"
  by (simp add: losses_since_def)

lemma replies_pos: "\<forall>r \<in> set (replies h). 0 < r"
  by (auto simp: replies_def is_reply_def)

lemma healthy_pos:
  assumes "guard_ok g" and "baselineSamples g \<le> int (length (replies h))"
  shows "0 < healthy_rtt g h"
proof -
  let ?n = "nat (baselineSamples g)" and ?xs = "take (nat (baselineSamples g)) (replies h)"
  have le: "int (length ys) \<le> sum_list ys" if "\<forall>r \<in> set ys. 0 < r" for ys :: "int list"
    using that by (induction ys) auto
  have "\<forall>r \<in> set ?xs. 0 < r" using replies_pos [of h] set_take_subset by fast
  then have "int (length ?xs) \<le> sum_list ?xs" by (rule le)
  moreover have "length ?xs = ?n" using assms(2) by simp
  ultimately have "baselineSamples g \<le> sum_list ?xs" using assms(1) by (simp add: guard_ok_def)
  then show ?thesis using assms(1) by (simp add: healthy_rtt_def guard_ok_def pos_imp_zdiv_pos_iff)
qed

lemma healthy_snoc [history_simps]:
  "baselineSamples g \<le> int (length (replies h)) \<Longrightarrow> healthy_rtt g (h @ [o']) = healthy_rtt g h"
  by (simp add: healthy_rtt_def replies_snoc)

lemma highs_snoc [history_simps]:
  assumes "baselineSamples g \<le> int (length (replies h))"
  shows "highs_since g (h @ [o']) =
    (if is_reply o' then (if fst o' > threshold g (healthy_rtt g h) then Suc (highs_since g h) else 0)
     else highs_since g h)"
  using assms by (simp add: highs_since_def history_simps)

lemma highs_before [history_simps]: "int (length (replies h)) \<le> baselineSamples g \<Longrightarrow> highs_since g h = 0"
  by (simp add: highs_since_def)

subsection \<open>The state of one target is its history\<close>

definition ever :: "(obs list \<Rightarrow> bool) \<Rightarrow> obs list \<Rightarrow> bool" where
  "ever D h \<longleftrightarrow> (\<exists>p q. h = p @ q \<and> D p)"

definition history_inv :: "Guard \<Rightarrow> obs list \<Rightarrow> guard_state \<Rightarrow> bool" where
  "history_inv g h st \<longleftrightarrow>
     tripped st = ever (distressed g) h
     \<and> (\<not> tripped st \<longrightarrow>
          samples st = min (baselineSamples g) (int (length (replies h)))
          \<and> rtt_sum st = sum_list (take (nat (baselineSamples g)) (replies h))
          \<and> baseline st = (if baselineSamples g \<le> int (length (replies h)) then healthy_rtt g h else 0)
          \<and> consecLoss st = (if baselineSamples g \<le> int (length (replies h)) then int (losses_since h) else 0)
          \<and> consecHigh st = int (highs_since g h))"

lemma ever_snoc: "ever D (h @ [x]) \<longleftrightarrow> ever D h \<or> D (h @ [x])"
proof
  assume "ever D (h @ [x])"
  then obtain p q where pq: "h @ [x] = p @ q" "D p" unfolding ever_def by blast
  then show "ever D h \<or> D (h @ [x])"
    unfolding ever_def by (cases q rule: rev_cases) auto
next
  assume "ever D h \<or> D (h @ [x])"
  then show "ever D (h @ [x])"
    unfolding ever_def by (metis append_Nil2 append_assoc)
qed

lemma ever_self: "D h \<Longrightarrow> ever D h"
  unfolding ever_def by (metis append_Nil2)

lemma ever_Nil: "ever D [] \<longleftrightarrow> D []"
  by (simp add: ever_def)

lemma history_inv_init: "guard_ok g \<Longrightarrow> history_inv g [] zero_state"
  by (simp add: history_inv_def ever_Nil zero_state_def history_simps distressed_def guard_ok_def)

lemma history_inv_step:
  assumes ok: "guard_ok g" and inv: "history_inv g h st"
  shows "history_inv g (h @ [(rtt, lost)]) (observe_state g now rtt lost st)"
proof (cases "tripped st")
  case True
  then show ?thesis
    using inv by (simp add: history_inv_def observe_state_def ever_snoc)
next
  case False
  have ok': "1 \<le> baselineSamples g" "1 \<le> maxConsecLoss g" "1 \<le> riseStreak g" using ok by (auto simp: guard_ok_def)
  have no: "\<not> ever (distressed g) h" using inv False by (simp add: history_inv_def)
  then have nd: "\<not> distressed g h" using ever_self by blast
  let ?b = "baselineSamples g" and ?n = "int (length (replies h))"
  have st: "samples st = min ?b ?n" "rtt_sum st = sum_list (take (nat ?b) (replies h))"
      "baseline st = (if ?b \<le> ?n then healthy_rtt g h else 0)"
      "consecLoss st = (if ?b \<le> ?n then int (losses_since h) else 0)" "consecHigh st = int (highs_since g h)"
    using inv False by (auto simp: history_inv_def)
  have pos: "?b \<le> ?n \<Longrightarrow> 0 < healthy_rtt g h" using healthy_pos [OF ok] by blast
  note hs = history_simps is_reply_def
  consider (lost) "lost" | (zero) "\<not> lost" "rtt \<le> 0" | (reply) "\<not> lost" "0 < rtt" by linarith
  then show ?thesis
  proof cases
    case lost
    show ?thesis
    proof (cases "?b \<le> ?n")
      case True
      then show ?thesis
        using lost False st pos nd ok' no
        by (simp add: history_inv_def observe_state_def ever_snoc distressed_def trip_def Let_def hs)
    next
      case F: False
      then show ?thesis
        using lost False st nd ok' no
        by (simp add: history_inv_def observe_state_def ever_snoc distressed_def Let_def hs)
    qed
  next
    case zero
    then have "distressed g (h @ [(rtt, lost)]) \<longleftrightarrow> distressed g h"
      by (cases "?b \<le> ?n") (simp_all add: distressed_def hs)
    then show ?thesis
      using zero False st nd no
      by (cases "?b \<le> ?n") (simp_all add: history_inv_def observe_state_def ever_snoc hs)
  next
    case reply
    consider (before) "?n + 1 < ?b" | (at) "?n + 1 = ?b" | (after) "?b \<le> ?n" by linarith
    then show ?thesis
    proof cases
      case before
      then show ?thesis
        using reply False st no
        by (simp add: history_inv_def observe_state_def ever_snoc distressed_def Let_def hs)
    next
      case at
      then have b: "nat ?b = Suc (length (replies h))" by simp
      have h: "healthy_rtt g (h @ [(rtt, lost)]) = go_div (rtt_sum st + rtt) ?b"
        using reply ok' b st(2) replies_pos [of h]
        by (simp add: healthy_rtt_def hs go_div_nonneg sum_list_nonneg add_nonneg_nonneg less_imp_le)
      then show ?thesis
        using reply False st no at ok' b
        by (simp add: history_inv_def observe_state_def ever_snoc distressed_def Let_def hs)
    next
      case after
      then show ?thesis
        using reply False st pos nd ok' no
        by (simp add: history_inv_def observe_state_def ever_snoc distressed_def trip_def Let_def hs)
    qed
  qed
qed

text \<open>The observations of one target, out of the stream of all of them.\<close>

definition history :: "string \<Rightarrow> (string \<times> int \<times> bool \<times> int) list \<Rightarrow> obs list" where
  "history target es = map (\<lambda>(_, rtt, lost, _). (rtt, lost)) (filter (\<lambda>(t, _). t = target) es)"

lemma Observe_fields [simp]:
  "threshold (Observe e g) = threshold g" "riseStreak (Observe e g) = riseStreak g"
  "baselineSamples (Observe e g) = baselineSamples g" "maxConsecLoss (Observe e g) = maxConsecLoss g"
  by (simp_all add: Observe_def split: prod.splits)

lemma fold_Observe_fields:
  "threshold (fold Observe es g) = threshold g" "riseStreak (fold Observe es g) = riseStreak g"
  "baselineSamples (fold Observe es g) = baselineSamples g" "maxConsecLoss (fold Observe es g) = maxConsecLoss g"
  by (induction es arbitrary: g) simp_all

lemma guard_cong:
  assumes "threshold g' = threshold g" "riseStreak g' = riseStreak g"
    "baselineSamples g' = baselineSamples g" "maxConsecLoss g' = maxConsecLoss g"
  shows "history_inv g' = history_inv g" "guard_ok g' = guard_ok g" "distressed g' = distressed g"
proof -
  have d: "distressed g' = distressed g" "healthy_rtt g' = healthy_rtt g" "highs_since g' = highs_since g"
    using assms by (simp_all add: distressed_def healthy_rtt_def highs_since_def fun_eq_iff)
  then show "distressed g' = distressed g" by simp
  show "guard_ok g' = guard_ok g" using assms by (simp add: guard_ok_def)
  show "history_inv g' = history_inv g" by (intro ext) (simp only: history_inv_def d assms)
qed

lemma Observe_other: "t' \<noteq> fst e \<Longrightarrow> target_state (Observe e g) t' = target_state g t'"
  by (cases e) (simp add: Observe_def target_state_def)

lemma target_state_fold:
  assumes "guard_ok g" and "guard_targets g = Map.empty"
  shows "history_inv g (history t es) (target_state (fold Observe es g) t)"
proof (induction es rule: rev_induct)
  case Nil
  then show ?case using history_inv_init [OF assms(1)] assms(2) by (simp add: history_def target_state_def)
next
  case (snoc e es)
  obtain t' rtt lost now where e: "e = (t', rtt, lost, now)" by (cases e)
  let ?g = "fold Observe es g"
  note cong = guard_cong [OF fold_Observe_fields, of es g]
  show ?case
  proof (cases "t' = t")
    case True
    then have "target_state (fold Observe (es @ [e]) g) t = observe_state ?g now rtt lost (target_state ?g t)"
      by (simp add: e Observe_def target_state_def)
    moreover have "history t (es @ [e]) = history t es @ [(rtt, lost)]" using True by (simp add: history_def e)
    moreover have "history_inv ?g (history t es @ [(rtt, lost)]) (observe_state ?g now rtt lost (target_state ?g t))"
      using history_inv_step [of ?g "history t es"] snoc assms(1) by (simp add: cong)
    ultimately show ?thesis by (simp add: cong)
  next
    case False
    then show ?thesis using snoc Observe_other [of t e] by (simp add: history_def e)
  qed
qed

lemma New_ok: "guard_ok (New thr bs mcl)" "guard_targets (New thr bs mcl) = Map.empty"
  by (simp_all add: New_def guard_ok_def)

subsection \<open>Properties\<close>

text \<open>C7: the breaker of a target trips exactly when its own observations say so: some
  point of its history had a baseline (\<open>baselineSamples\<close> answers) and after it either
  \<open>maxConsecLoss\<close> lost probes with no answer in between or three answers in a row
  above the threshold of that baseline.  Other targets play no part, nothing trips
  before the baseline exists, and a trip is never undone.\<close>

theorem Tripped_iff_distressed:
  "Tripped (fold Observe es (New thr bs mcl)) target
   \<longleftrightarrow> (\<exists>p q. history target es = p @ q \<and> distressed (New thr bs mcl) p)"
proof -
  let ?g = "fold Observe es (New thr bs mcl)"
  have "Tripped ?g target = tripped (target_state ?g target)"
    by (simp add: Tripped_def target_state_def zero_state_def split: option.split)
  then show ?thesis
    using target_state_fold [OF New_ok, where es = es and t = target and thr1 = thr] by (simp add: history_inv_def ever_def)
qed

end
