(* ===== verification/Results.thy ===== *)
theory Results
  imports Ordering Complex_Main
begin

text \<open>
  \<open>internal/scan/result.go\<close>: the result of one probe job, the states it can have,
  and \<open>internal/scan/severity_summary.go\<close>: the vulnerabilities of a scan by tier.
  The record has the fields the modelled code reads; a \<open>float64\<close> that is only
  stored and compared (a CVSS score, an EPSS probability) is a rational.
\<close>

definition StateOpen :: string where "StateOpen = ''OPEN''"
definition StateClosed :: string where "StateClosed = ''CLOSED''"
definition StateFiltered :: string where "StateFiltered = ''FILTERED''"
definition StateUnfiltered :: string where "StateUnfiltered = ''UNFILTERED''"
definition StateOpenFiltered :: string where "StateOpenFiltered = ''OPEN|FILTERED''"

lemmas state_defs = StateOpen_def StateClosed_def StateFiltered_def StateUnfiltered_def StateOpenFiltered_def

record Vulnerability =
  vuln_ID :: string
  vuln_Title :: string
  vuln_CVSS :: rat
  vuln_Severity :: string
  vuln_Remediation :: string
  vuln_Confidence :: string
  vuln_Applicability :: string
  vuln_KnownExploited :: bool
  vuln_EPSS :: rat
  vuln_EPSSPercentile :: rat

record TargetResult =
  res_IP :: string
  res_Port :: int
  res_State :: string
  res_Service :: string
  res_Version :: string
  res_Banner :: string
  res_OS :: string
  res_OSConfidence :: rat
  res_MPTCP :: bool
  res_Latency :: int
  res_Reason :: string
  res_RiskSeverity :: string
  res_Vulnerabilities :: "Vulnerability list"

text \<open>\<open>TargetResult{IP: ip, Port: port}\<close>: everything else is the zero value.\<close>

definition new_result :: "string \<Rightarrow> int \<Rightarrow> TargetResult" where
  "new_result ip port =
     \<lparr>res_IP = ip, res_Port = port, res_State = [], res_Service = [], res_Version = [], res_Banner = [],
      res_OS = [], res_OSConfidence = 0, res_MPTCP = False, res_Latency = 0, res_Reason = [],
      res_RiskSeverity = [], res_Vulnerabilities = []\<rparr>"

definition res_key :: "TargetResult \<Rightarrow> string \<times> int" where
  "res_key r = (res_IP r, res_Port r)"

lemma new_result_simps [simp]:
  "res_IP (new_result ip port) = ip" "res_Port (new_result ip port) = port" "res_State (new_result ip port) = []"
  "res_key (new_result ip port) = (ip, port)"
  by (simp_all add: new_result_def res_key_def)

subsection \<open>The severity summary\<close>

record SeveritySummaryEntry =
  sse_Severity :: string
  sse_Count :: nat
  sse_Hosts :: "string list"

definition severityOrder :: "string list" where
  "severityOrder = [''critical'', ''high'', ''medium'', ''low'', ''info'']"

text \<open>The (host, severity) pairs counted: a vulnerability without a severity is skipped.\<close>

definition severity_hits :: "TargetResult list \<Rightarrow> (string \<times> string) list" where
  "severity_hits results =
     concat (map (\<lambda>r. map (\<lambda>v. (res_IP r, vuln_Severity v))
       (filter (\<lambda>v. vuln_Severity v \<noteq> []) (res_Vulnerabilities r))) results)"

definition countBySeverity :: "TargetResult list \<Rightarrow> string \<Rightarrow> nat" where
  "countBySeverity results sev = length (filter (\<lambda>h. snd h = sev) (severity_hits results))"

definition hostsBySeverity :: "TargetResult list \<Rightarrow> string \<Rightarrow> string list" where
  "hostsBySeverity results sev = dedup (map fst (filter (\<lambda>h. snd h = sev) (severity_hits results)))"

definition SummarizeSeverity :: "TargetResult list \<Rightarrow> SeveritySummaryEntry list" where
  "SummarizeSeverity results =
     List.map_filter (\<lambda>sev.
       if countBySeverity results sev = 0 then None
       else Some \<lparr>sse_Severity = sev, sse_Count = countBySeverity results sev,
                  sse_Hosts = sort_strings (hostsBySeverity results sev)\<rparr>) severityOrder"

lemma severity_hits_iff:
  "(ip, sev) \<in> set (severity_hits results) \<longleftrightarrow>
     sev \<noteq> [] \<and> (\<exists>r \<in> set results. res_IP r = ip \<and> (\<exists>v \<in> set (res_Vulnerabilities r). vuln_Severity v = sev))"
  by (auto simp: severity_hits_def)

lemma hostsBySeverity_set:
  "set (hostsBySeverity results sev) = {ip. (ip, sev) \<in> set (severity_hits results)}"
  by (force simp: hostsBySeverity_def)

lemma SummarizeSeverity_entry:
  "e \<in> set (SummarizeSeverity results) \<longleftrightarrow>
     (\<exists>sev \<in> set severityOrder. countBySeverity results sev \<noteq> 0 \<and>
        e = \<lparr>sse_Severity = sev, sse_Count = countBySeverity results sev,
             sse_Hosts = sort_strings (hostsBySeverity results sev)\<rparr>)"
  by (auto simp: SummarizeSeverity_def map_filter_def split: if_splits)

text \<open>Nothing but the order of the results can change between two collections of the same results.\<close>

lemma severity_hits_mset: "mset xs = mset ys \<Longrightarrow> mset (severity_hits xs) = mset (severity_hits ys)"
proof -
  have "mset (severity_hits zs) = (\<Sum>r \<in># mset zs. mset (map (\<lambda>v. (res_IP r, vuln_Severity v))
       (filter (\<lambda>v. vuln_Severity v \<noteq> []) (res_Vulnerabilities r))))" for zs
    by (induction zs) (simp_all add: severity_hits_def)
  then show "mset xs = mset ys \<Longrightarrow> mset (severity_hits xs) = mset (severity_hits ys)" by simp
qed

lemma countBySeverity_mset: "mset xs = mset ys \<Longrightarrow> countBySeverity xs sev = countBySeverity ys sev"
  unfolding countBySeverity_def by (metis severity_hits_mset mset_filter size_mset)

lemma hostsBySeverity_mset:
  assumes "mset xs = mset ys"
  shows "sort_strings (hostsBySeverity xs sev) = sort_strings (hostsBySeverity ys sev)"
proof -
  have "set (hostsBySeverity xs sev) = set (hostsBySeverity ys sev)"
    using severity_hits_mset [OF assms] by (auto simp: hostsBySeverity_set dest: mset_eq_setD)
  moreover have "distinct (hostsBySeverity zs sev)" for zs by (simp add: hostsBySeverity_def)
  ultimately have "mset (hostsBySeverity xs sev) = mset (hostsBySeverity ys sev)"
    by (metis set_eq_iff_mset_eq_distinct)
  then show ?thesis unfolding sort_strings_def by (rule string_order.sort_order_irrelevant)
qed

lemma map_filter_keys:
  assumes "\<And>x. P x \<Longrightarrow> \<exists>y. g x = Some y \<and> f y = x" and "\<And>x. \<not> P x \<Longrightarrow> g x = None"
  shows "map f (List.map_filter g xs) = filter P xs"
proof (induction xs)
  case (Cons x xs)
  then show ?case using assms [of x] by (cases "P x") (auto simp: map_filter_simps)
qed (simp add: map_filter_simps)

text \<open>The severity summary lists each tier that has findings once, in triage order,
  with the number of vulnerabilities of that tier and the sorted, distinct hosts that
  have one; a tier without findings is absent, and the order in which the results
  were collected does not matter.\<close>

theorem SummarizeSeverity_correct:
  "map sse_Severity (SummarizeSeverity results)
     = filter (\<lambda>sev. \<exists>ip. (ip, sev) \<in> set (severity_hits results)) severityOrder
   \<and> set (SummarizeSeverity results) \<subseteq>
       {e. sse_Count e = countBySeverity results (sse_Severity e) \<and> sorted (sse_Hosts e) \<and> distinct (sse_Hosts e)
         \<and> set (sse_Hosts e) = {res_IP r | r v. r \<in> set results \<and> v \<in> set (res_Vulnerabilities r)
               \<and> vuln_Severity v = sse_Severity e}}
   \<and> SummarizeSeverity (rev results) = SummarizeSeverity results"
proof (intro conjI)
  have "countBySeverity results sev \<noteq> 0 \<longleftrightarrow> (\<exists>ip. (ip, sev) \<in> set (severity_hits results))" for sev
    by (force simp: countBySeverity_def filter_empty_conv)
  then have eq: "(countBySeverity results sev = 0) = (\<nexists>ip. (ip, sev) \<in> set (severity_hits results))" for sev by blast
  show "map sse_Severity (SummarizeSeverity results)
     = filter (\<lambda>sev. \<exists>ip. (ip, sev) \<in> set (severity_hits results)) severityOrder"
    unfolding SummarizeSeverity_def eq by (rule map_filter_keys) auto
  have "[] \<notin> set severityOrder" by (simp add: severityOrder_def)
  then have hosts: "{ip. (ip, sev) \<in> set (severity_hits results)} =
      {res_IP r | r v. r \<in> set results \<and> v \<in> set (res_Vulnerabilities r) \<and> vuln_Severity v = sev}"
    if "sev \<in> set severityOrder" for sev
    using that by (auto simp: severity_hits_iff)
  show "set (SummarizeSeverity results) \<subseteq>
       {e. sse_Count e = countBySeverity results (sse_Severity e) \<and> sorted (sse_Hosts e) \<and> distinct (sse_Hosts e)
         \<and> set (sse_Hosts e) = {res_IP r | r v. r \<in> set results \<and> v \<in> set (res_Vulnerabilities r)
               \<and> vuln_Severity v = sse_Severity e}}"
  proof (intro subsetI CollectI)
    fix e
    assume "e \<in> set (SummarizeSeverity results)"
    then obtain sev where sev: "sev \<in> set severityOrder"
        and e: "e = \<lparr>sse_Severity = sev, sse_Count = countBySeverity results sev,
             sse_Hosts = sort_strings (hostsBySeverity results sev)\<rparr>"
      unfolding SummarizeSeverity_entry by blast
    have "set (hostsBySeverity results sev) =
        {res_IP r | r v. r \<in> set results \<and> v \<in> set (res_Vulnerabilities r) \<and> vuln_Severity v = sev}"
      unfolding hostsBySeverity_set by (rule hosts [OF sev])
    then show "sse_Count e = countBySeverity results (sse_Severity e) \<and> sorted (sse_Hosts e) \<and> distinct (sse_Hosts e)
         \<and> set (sse_Hosts e) = {res_IP r | r v. r \<in> set results \<and> v \<in> set (res_Vulnerabilities r)
               \<and> vuln_Severity v = sse_Severity e}"
      by (simp add: e sort_strings_sorted) (simp add: hostsBySeverity_def)
  qed
  show "SummarizeSeverity (rev results) = SummarizeSeverity results"
    unfolding SummarizeSeverity_def
    by (simp only: countBySeverity_mset [OF mset_rev] hostsBySeverity_mset [OF mset_rev])
qed

end
