(* ===== verification/Checkpoint.thy ===== *)
theory Checkpoint
  imports Results
begin

text \<open>
  \<open>internal/scan/checkpoint.go\<close>: the resume file.  The JSON encoder and decoder are
  the arguments \<open>marshal\<close> and \<open>unmarshal\<close>; the file is the bytes the operating
  system has, \<open>cp_buf\<close> what is still in the \<open>bufio.Writer\<close> (4096 bytes, the
  package's default size), so that a run that is killed leaves exactly \<open>cp_file\<close>.
\<close>

record checkpoint =
  cp_file :: string
  cp_buf :: string
  cp_done :: "string list"
  cp_results :: "TargetResult list"

datatype resume_file = ResumeMissing | ResumeUnreadable | ResumeContent string

datatype checkpoint_error = CorruptLine nat | ReadingFailed | OpeningFailed

definition checkpointKey :: "string \<Rightarrow> int \<Rightarrow> string" where
  "checkpointKey ip port = ip @ '':'' @ itoa port"

text \<open>
  \<open>bufio.ScanLines\<close> with the 1 MB limit set on the scanner: the lines without their
  end (a last empty one is not a line, a carriage return before the end is dropped).
\<close>

definition max_line :: nat where "max_line = 1048576"

definition drop_cr :: "string \<Rightarrow> string" where
  "drop_cr s = (if s \<noteq> [] \<and> last s = CHR 0x0D then butlast s else s)"

definition scan_lines :: "string \<Rightarrow> string list" where
  "scan_lines s =
     (let ls = split_on (CHR 0x0A) s in if last ls = [] then butlast ls else ls)"

fun load_lines :: "(string \<Rightarrow> TargetResult option) \<Rightarrow> nat \<Rightarrow> string list \<Rightarrow> checkpoint_error + TargetResult list" where
  "load_lines unmarshal n [] = Inr []"
| "load_lines unmarshal n (l # ls) =
     (if length l \<ge> max_line then Inl ReadingFailed
      else if drop_cr l = [] then load_lines unmarshal (Suc n) ls
      else (case unmarshal (drop_cr l) of
              None \<Rightarrow> Inl (CorruptLine (Suc n))
            | Some r \<Rightarrow> (case load_lines unmarshal (Suc n) ls of
                Inl e \<Rightarrow> Inl e | Inr rs \<Rightarrow> Inr (r # rs))))"

text \<open>\<open>openCheckpoint\<close>; \<open>can_append\<close>: whether the file then opens for appending.\<close>

definition openCheckpoint ::
  "(string \<Rightarrow> TargetResult option) \<Rightarrow> bool \<Rightarrow> resume_file \<Rightarrow> checkpoint_error + checkpoint" where
  "openCheckpoint unmarshal can_append file =
     (let opened = (\<lambda>content rs.
            if can_append
            then Inr \<lparr>cp_file = content, cp_buf = [],
                      cp_done = map (\<lambda>r. checkpointKey (res_IP r) (res_Port r)) rs, cp_results = rs\<rparr>
            else Inl OpeningFailed)
      in case file of
           ResumeMissing \<Rightarrow> opened [] []
         | ResumeUnreadable \<Rightarrow> Inl OpeningFailed
         | ResumeContent content \<Rightarrow>
             (case load_lines unmarshal 0 (scan_lines content) of
                Inl e \<Rightarrow> Inl e
              | Inr rs \<Rightarrow> opened content rs))"

text \<open>A nil checkpoint (no \<open>--resume\<close>) is \<open>None\<close>.\<close>

definition isDone :: "checkpoint option \<Rightarrow> string \<Rightarrow> int \<Rightarrow> bool" where
  "isDone c ip port = (case c of None \<Rightarrow> False | Some cp \<Rightarrow> List.member (cp_done cp) (checkpointKey ip port))"

definition priorResults :: "checkpoint option \<Rightarrow> TargetResult list" where
  "priorResults c = (case c of None \<Rightarrow> [] | Some cp \<Rightarrow> cp_results cp)"

text \<open>\<open>bufio.Writer.Write\<close> and \<open>WriteByte\<close> on the file and the buffer.\<close>

definition buf_size :: nat where "buf_size = 4096"

function buf_write :: "string \<Rightarrow> string \<times> string \<Rightarrow> string \<times> string" where
  "buf_write p (file, buf) =
     (if length p > buf_size - length buf then
        (if buf = [] then (file @ p, [])
         else (let n = buf_size - length buf in buf_write (drop n p) (file @ buf @ take n p, [])))
      else (file, buf @ p))"
  by pat_completeness auto
termination
  by (relation "measure (\<lambda>(p, file, buf). 2 * length p + (if buf = [] then 0 else 1))") auto

declare buf_write.simps [simp del]

definition buf_write_byte :: "char \<Rightarrow> string \<times> string \<Rightarrow> string \<times> string" where
  "buf_write_byte c = (\<lambda>(file, buf).
     if buf_size - length buf = 0 then (file @ buf, [c]) else (file, buf @ [c]))"

definition cp_record :: "(TargetResult \<Rightarrow> string option) \<Rightarrow> TargetResult \<Rightarrow> checkpoint \<Rightarrow> checkpoint" where
  "cp_record marshal r c =
     (case marshal r of
        None \<Rightarrow> c
      | Some data \<Rightarrow>
          (let (file, buf) = buf_write_byte (CHR 0x0A) (buf_write data (cp_file c, cp_buf c))
           in c\<lparr>cp_file := file, cp_buf := buf\<rparr>))"

definition record_opt :: "(TargetResult \<Rightarrow> string option) \<Rightarrow> TargetResult \<Rightarrow> checkpoint option \<Rightarrow> checkpoint option" where
  "record_opt marshal r c = map_option (cp_record marshal r) c"

text \<open>\<open>close\<close>: what the file holds once the buffer is flushed.\<close>

definition cp_close :: "checkpoint \<Rightarrow> string" where
  "cp_close c = cp_file c @ cp_buf c"

subsection \<open>The log\<close>

text \<open>The bytes a list of results is recorded as.\<close>

definition log_of :: "(TargetResult \<Rightarrow> string option) \<Rightarrow> TargetResult list \<Rightarrow> string" where
  "log_of marshal rs = concat (map (\<lambda>r. case marshal r of None \<Rightarrow> [] | Some d \<Rightarrow> d @ [CHR 0x0A]) rs)"

text \<open>Small writes fill the buffer to 4096 bytes before anything reaches the file.\<close>

lemma buf_write_small:
  assumes "length p \<le> buf_size" and "length buf \<le> buf_size"
  shows "buf_write p (file, buf) =
    (if length p + length buf \<le> buf_size then (file, buf @ p)
     else (file @ buf @ take (buf_size - length buf) p, drop (buf_size - length buf) p))"
proof (cases "length p + length buf \<le> buf_size")
  case True
  then have "\<not> length p > buf_size - length buf" using assms(2) by simp
  then show ?thesis using True by (simp add: buf_write.simps [of p])
next
  case False
  then have "buf \<noteq> []" and "buf_size - length buf < length p" using assms by auto
  moreover have "length (drop (buf_size - length buf) p) \<le> buf_size" using assms(1) by simp
  ultimately show ?thesis using False
    by (simp add: buf_write.simps [of p] buf_write.simps [of "drop (buf_size - length buf) p"] Let_def)
qed

text \<open>Whatever the sizes, the file and the buffer together hold every byte written.\<close>

lemma buf_write_all: "fst (buf_write p fb) @ snd (buf_write p fb) = fst fb @ snd fb @ p"
proof (induction p fb rule: buf_write.induct)
  case (1 p f buf)
  show ?case
  proof (cases "length p > buf_size - length buf \<and> buf \<noteq> []")
    case True
    let ?n = "buf_size - length buf"
    have eq: "buf_write p (f, buf) = buf_write (drop ?n p) (f @ buf @ take ?n p, [])"
      using True by (simp add: buf_write.simps [of p] Let_def)
    have "fst (buf_write (drop ?n p) (f @ buf @ take ?n p, [])) @ snd (buf_write (drop ?n p) (f @ buf @ take ?n p, []))
        = (f @ buf @ take ?n p) @ [] @ drop ?n p"
      using 1 True by auto
    then show ?thesis unfolding eq by simp
  next
    case False
    then show ?thesis by (auto simp: buf_write.simps [of p])
  qed
qed

lemma cp_record_all:
  "cp_close (cp_record marshal r c) = cp_close c @ log_of marshal [r]"
  "cp_done (cp_record marshal r c) = cp_done c" "cp_results (cp_record marshal r c) = cp_results c"
  using buf_write_all [of "the (marshal r)" "(cp_file c, cp_buf c)"]
  by (auto simp: cp_record_def cp_close_def log_of_def buf_write_byte_def split: option.splits prod.splits)

lemma log_of_Cons: "log_of marshal (r # rs) = log_of marshal [r] @ log_of marshal rs"
  by (simp add: log_of_def)

lemma cp_fold_all:
  "cp_close (fold (cp_record marshal) rs c) = cp_close c @ log_of marshal rs"
proof (induction rs arbitrary: c)
  case (Cons r rs)
  then show ?case by (simp add: cp_record_all log_of_Cons [of marshal r rs])
qed (simp add: log_of_def)

text \<open>The invariant of small records: the file holds whole buffers only.\<close>

definition cp_small_inv :: "nat \<Rightarrow> checkpoint \<Rightarrow> bool" where
  "cp_small_inv n0 c \<longleftrightarrow> length (cp_buf c) \<le> buf_size
     \<and> (\<exists>k. length (cp_file c) = n0 + buf_size * k \<and> (k = 0 \<or> cp_buf c \<noteq> []))"

lemma cp_small_record:
  assumes "cp_small_inv n0 c" and "case marshal r of None \<Rightarrow> True | Some d \<Rightarrow> Suc (length d) \<le> buf_size"
  shows "cp_small_inv n0 (cp_record marshal r c)"
proof (cases "marshal r")
  case None
  then show ?thesis using assms(1) by (simp add: cp_record_def)
next
  case (Some d)
  obtain k where k: "length (cp_file c) = n0 + buf_size * k" "k = 0 \<or> cp_buf c \<noteq> []" "length (cp_buf c) \<le> buf_size"
    using assms(1) by (auto simp: cp_small_inv_def)
  have d: "length d < buf_size" using assms(2) Some by simp
  let ?b = "length (cp_buf c)"
  have w: "buf_write d (cp_file c, cp_buf c) =
    (if length d + ?b \<le> buf_size then (cp_file c, cp_buf c @ d)
     else (cp_file c @ cp_buf c @ take (buf_size - ?b) d, drop (buf_size - ?b) d))"
    using d k(3) by (intro buf_write_small) auto
  consider (fits) "length d + ?b < buf_size" | (full) "length d + ?b = buf_size" | (over) "length d + ?b > buf_size"
    by linarith
  then show ?thesis
  proof cases
    case fits
    then have "cp_record marshal r c = c\<lparr>cp_buf := cp_buf c @ d @ [CHR 0x0A]\<rparr>"
      by (simp add: cp_record_def Some w buf_write_byte_def)
    then show ?thesis using fits k by (auto simp: cp_small_inv_def)
  next
    case full
    then have "cp_record marshal r c = c\<lparr>cp_file := cp_file c @ cp_buf c @ d, cp_buf := [CHR 0x0A]\<rparr>"
      by (simp add: cp_record_def Some w buf_write_byte_def add.commute)
    moreover have "length (cp_file c @ cp_buf c @ d) = n0 + buf_size * Suc k" using full k(1) by simp
    ultimately show ?thesis unfolding cp_small_inv_def using d by (intro conjI exI [of _ "Suc k"]) auto
  next
    case over
    then have "cp_record marshal r c = c\<lparr>cp_file := cp_file c @ cp_buf c @ take (buf_size - ?b) d,
        cp_buf := drop (buf_size - ?b) d @ [CHR 0x0A]\<rparr>"
      using d k(3) by (simp add: cp_record_def Some w buf_write_byte_def)
    moreover have "length (cp_file c @ cp_buf c @ take (buf_size - ?b) d) = n0 + buf_size * Suc k"
      using over k(1,3) by simp
    ultimately show ?thesis unfolding cp_small_inv_def using d k(3) by (intro conjI exI [of _ "Suc k"]) auto
  qed
qed

lemma cp_small_fold:
  "cp_small_inv n0 c \<Longrightarrow> \<forall>r \<in> set rs. case marshal r of None \<Rightarrow> True | Some d \<Rightarrow> Suc (length d) \<le> buf_size
   \<Longrightarrow> cp_small_inv n0 (fold (cp_record marshal) rs c)"
  by (induction rs arbitrary: c) (simp_all add: cp_small_record)

text \<open>So the killed run's file is the log cut at the last multiple of the buffer size.\<close>

lemma cp_killed:
  assumes "cp_buf c = []" and "\<forall>r \<in> set rs. case marshal r of None \<Rightarrow> True | Some d \<Rightarrow> Suc (length d) \<le> buf_size"
  shows "cp_file (fold (cp_record marshal) rs c)
     = cp_file c @ take (buf_size * ((length (log_of marshal rs) - 1) div buf_size)) (log_of marshal rs)"
proof -
  let ?c = "fold (cp_record marshal) rs c" and ?lg = "log_of marshal rs"
  have "cp_small_inv (length (cp_file c)) c" using assms(1) by (auto simp: cp_small_inv_def)
  then have "cp_small_inv (length (cp_file c)) ?c" using assms(2) by (rule cp_small_fold)
  then obtain k where k: "length (cp_file ?c) = length (cp_file c) + buf_size * k" "k = 0 \<or> cp_buf ?c \<noteq> []"
      "length (cp_buf ?c) \<le> buf_size"
    by (auto simp: cp_small_inv_def)
  have all: "cp_file ?c @ cp_buf ?c = cp_file c @ ?lg"
    using cp_fold_all [of marshal rs c] assms(1) by (simp add: cp_close_def)
  then have f: "cp_file ?c = cp_file c @ take (buf_size * k) ?lg"
    using k(1) by (metis append_eq_conv_conj take_append take_all le_add1 diff_add_inverse append_take_drop_id)
  have len: "length ?lg = buf_size * k + length (cp_buf ?c)"
    using arg_cong [OF all, of length] k(1) by simp
  have "(length ?lg - 1) div buf_size = k"
  proof (cases "cp_buf ?c = []")
    case True
    then show ?thesis using k(2) len by simp
  next
    case False
    then have "length ?lg - 1 = buf_size * k + (length (cp_buf ?c) - 1)" using len by (cases "cp_buf ?c") auto
    moreover have "length (cp_buf ?c) - 1 < buf_size" using k(3) False by (cases "cp_buf ?c") auto
    ultimately show ?thesis by (simp add: buf_size_def)
  qed
  with f show ?thesis by simp
qed

subsection \<open>Reading the log back\<close>

text \<open>What the code relies on of the encoder and decoder, for one result.\<close>

definition codec_ok :: "(TargetResult \<Rightarrow> string option) \<Rightarrow> (string \<Rightarrow> TargetResult option) \<Rightarrow> TargetResult \<Rightarrow> bool" where
  "codec_ok marshal unmarshal r \<longleftrightarrow>
     (case marshal r of
        None \<Rightarrow> False
      | Some d \<Rightarrow> d \<noteq> [] \<and> CHR 0x0A \<notin> set d \<and> last d \<noteq> CHR 0x0D \<and> length d < max_line \<and> unmarshal d = Some r)"

lemma split_log:
  assumes "list_all (codec_ok marshal unmarshal) rs"
  shows "split_on (CHR 0x0A) (log_of marshal rs @ t) = map (the \<circ> marshal) rs @ split_on (CHR 0x0A) t"
  using assms
proof (induction rs)
  case (Cons r rs)
  then obtain d where d: "marshal r = Some d" "CHR 0x0A \<notin> set d"
    by (auto simp: codec_ok_def split: option.splits)
  then have "log_of marshal (r # rs) @ t = d @ CHR 0x0A # (log_of marshal rs @ t)"
    by (simp add: log_of_def)
  then show ?case using Cons d by (simp add: split_on_append_sep)
qed (simp add: log_of_def)

lemma load_lines_ok:
  assumes "list_all (codec_ok marshal unmarshal) rs"
  shows "load_lines unmarshal n (map (the \<circ> marshal) rs @ ls) =
    (case load_lines unmarshal (n + length rs) ls of Inl e \<Rightarrow> Inl e | Inr rs' \<Rightarrow> Inr (rs @ rs'))"
  using assms
proof (induction rs arbitrary: n)
  case Nil
  then show ?case by (simp split: sum.split)
next
  case (Cons r rs)
  then obtain d where d: "marshal r = Some d" "d \<noteq> []" "last d \<noteq> CHR 0x0D" "length d < max_line" "unmarshal d = Some r"
    by (auto simp: codec_ok_def split: option.splits)
  then show ?case using Cons by (simp add: drop_cr_def split: sum.split)
qed

lemma open_log:
  assumes "list_all (codec_ok marshal unmarshal) rs"
  shows "openCheckpoint unmarshal True (ResumeContent (log_of marshal rs)) =
    Inr \<lparr>cp_file = log_of marshal rs, cp_buf = [],
         cp_done = map (\<lambda>r. checkpointKey (res_IP r) (res_Port r)) rs, cp_results = rs\<rparr>"
proof -
  have "scan_lines (log_of marshal rs) = map (the \<circ> marshal) rs"
    using split_log [OF assms, of "[]"] by (simp add: scan_lines_def Let_def)
  then show ?thesis
    using load_lines_ok [OF assms, of 0 "[]"] by (simp add: openCheckpoint_def Let_def)
qed

lemma checkpointKey_inj: "checkpointKey ip port = checkpointKey ip' port' \<longleftrightarrow> ip = ip' \<and> port = port'"
  using text_number_inj [of "CHR '':''" ip port ip' port'] by (simp add: checkpointKey_def minus_no_digit)

lemma isDone_open:
  "isDone (Some \<lparr>cp_file = f, cp_buf = b, cp_done = map (\<lambda>r. checkpointKey (res_IP r) (res_Port r)) rs, cp_results = rs'\<rparr>) ip port
    \<longleftrightarrow> (ip, port) \<in> res_key ` set rs"
  by (auto simp: isDone_def checkpointKey_inj res_key_def)

subsection \<open>Properties\<close>

text \<open>C9: a scan that ends normally can be resumed: reopening the file it closed gives
  back the results it started from followed by those it recorded, in that order, and
  marks as done exactly the target/port pairs of these results.\<close>

theorem checkpoint_resume:
  assumes "list_all (codec_ok marshal unmarshal) (old @ rs)"
  shows "\<exists>c0 c1. openCheckpoint unmarshal True (ResumeContent (log_of marshal old)) = Inr c0
    \<and> openCheckpoint unmarshal True (ResumeContent (cp_close (fold (cp_record marshal) rs c0))) = Inr c1
    \<and> priorResults (Some c1) = old @ rs
    \<and> (\<forall>ip port. isDone (Some c1) ip port \<longleftrightarrow> (ip, port) \<in> res_key ` set (old @ rs))"
proof -
  let ?c0 = "\<lparr>cp_file = log_of marshal old, cp_buf = [],
         cp_done = map (\<lambda>r. checkpointKey (res_IP r) (res_Port r)) old, cp_results = old\<rparr>"
  have o0: "openCheckpoint unmarshal True (ResumeContent (log_of marshal old)) = Inr ?c0"
    using assms by (intro open_log) simp
  have "cp_close (fold (cp_record marshal) rs ?c0) = log_of marshal (old @ rs)"
    by (simp add: cp_fold_all) (simp add: cp_close_def log_of_def)
  then have o1: "openCheckpoint unmarshal True (ResumeContent (cp_close (fold (cp_record marshal) rs ?c0)))
      = Inr \<lparr>cp_file = log_of marshal (old @ rs), cp_buf = [],
         cp_done = map (\<lambda>r. checkpointKey (res_IP r) (res_Port r)) (old @ rs), cp_results = old @ rs\<rparr>"
    using open_log [OF assms] by simp
  show ?thesis
    by (rule exI, rule exI, rule conjI, rule o0, rule conjI, rule o1) (simp only: isDone_open, simp add: priorResults_def)
qed

theorem checkpoint_resume_witness:
  "\<exists>c0 c1. openCheckpoint (\<lambda>s. if s = ''a'' then Some (new_result ''::1'' 80) else None) True (ResumeContent []) = Inr c0
    \<and> openCheckpoint (\<lambda>s. if s = ''a'' then Some (new_result ''::1'' 80) else None) True
        (ResumeContent (cp_close (fold (cp_record (\<lambda>_. Some ''a'')) [new_result ''::1'' 80] c0))) = Inr c1
    \<and> isDone (Some c1) ''::1'' 80 \<and> \<not> isDone (Some c1) ''::1'' 443"
proof -
  have "list_all (codec_ok (\<lambda>_. Some ''a'') (\<lambda>s. if s = ''a'' then Some (new_result ''::1'' 80) else None))
      ([] @ [new_result ''::1'' 80])"
    by (simp add: codec_ok_def max_line_def)
  from checkpoint_resume [OF this] show ?thesis by (auto simp: log_of_def)
qed

text \<open>A scan that is killed cannot always be resumed.  Records reach the file in
  whole 4096-byte buffers, so a run killed before \<open>close\<close> leaves the log cut at a
  multiple of 4096; when that cut falls inside the text of a result, reopening the
  file is an error and nothing of the finished part is reused.\<close>

theorem checkpoint_killed_is_corrupt:
  assumes ok: "list_all (codec_ok marshal unmarshal) (ps @ r # qs)"
    and small: "\<forall>x \<in> set (ps @ r # qs). case marshal x of None \<Rightarrow> True | Some d \<Rightarrow> Suc (length d) \<le> buf_size"
    and cut: "marshal r = Some (part @ tail)" "part \<noteq> []" "last part \<noteq> CHR 0x0D"
      "buf_size * ((length (log_of marshal (ps @ r # qs)) - 1) div buf_size) = length (log_of marshal ps @ part)"
    and json: "unmarshal part = None"
  shows "\<exists>c0. openCheckpoint unmarshal True ResumeMissing = Inr c0
    \<and> openCheckpoint unmarshal True (ResumeContent (cp_file (fold (cp_record marshal) (ps @ r # qs) c0)))
        = Inl (CorruptLine (Suc (length ps)))"
proof -
  let ?c0 = "\<lparr>cp_file = [], cp_buf = [], cp_done = [], cp_results = []\<rparr>"
  have lg: "log_of marshal (ps @ r # qs) = (log_of marshal ps @ part) @ tail @ CHR 0x0A # log_of marshal qs"
    using cut(1) by (simp add: log_of_def)
  have "cp_file (fold (cp_record marshal) (ps @ r # qs) ?c0)
      = take (length (log_of marshal ps @ part)) (log_of marshal (ps @ r # qs))"
    unfolding cut(4) [symmetric] using cp_killed [of ?c0 "ps @ r # qs" marshal] small by simp
  also have "\<dots> = log_of marshal ps @ part" unfolding lg by simp
  finally have torn: "cp_file (fold (cp_record marshal) (ps @ r # qs) ?c0) = log_of marshal ps @ part" .
  have r: "CHR 0x0A \<notin> set part" "length part < max_line"
    using ok cut(1) by (auto simp: codec_ok_def)
  have okps: "list_all (codec_ok marshal unmarshal) ps" using ok by simp
  have "scan_lines (log_of marshal ps @ part) = map (the \<circ> marshal) ps @ [part]"
    using split_log [OF okps, of part] r(1) cut(2) by (simp add: scan_lines_def split_on_absent Let_def)
  moreover have "load_lines unmarshal (0 + length ps) [part] = Inl (CorruptLine (Suc (length ps)))"
    using r(2) cut(2,3) json by (simp add: drop_cr_def)
  ultimately have "load_lines unmarshal 0 (scan_lines (log_of marshal ps @ part)) = Inl (CorruptLine (Suc (length ps)))"
    using load_lines_ok [OF okps, of 0 "[part]"] by simp
  then show ?thesis using torn by (simp add: openCheckpoint_def Let_def)
qed

text \<open>Two results of 3000 bytes each: the second one is torn.\<close>

theorem checkpoint_killed_is_corrupt_witness:
  "\<exists>c0. openCheckpoint (\<lambda>s. if length s = 3000 then Some (new_result ''::1'' 80) else None) True ResumeMissing = Inr c0
    \<and> openCheckpoint (\<lambda>s. if length s = 3000 then Some (new_result ''::1'' 80) else None) True
        (ResumeContent (cp_file (fold (cp_record (\<lambda>_. Some (replicate 3000 CHR ''x'')))
           [new_result ''::1'' 80, new_result ''::1'' 80] c0))) = Inl (CorruptLine 2)"
proof -
  let ?r = "new_result ''::1'' 80" and ?m = "\<lambda>_. Some (replicate 3000 CHR ''x'')"
  let ?u = "\<lambda>s. if length s = 3000 then Some (new_result ''::1'' 80) else None"
  have split: "replicate 3000 CHR ''x'' = replicate 1095 CHR ''x'' @ replicate 1905 CHR ''x''"
    by (simp flip: replicate_add)
  have "codec_ok ?m ?u ?r" by (simp add: codec_ok_def max_line_def)
  moreover have "length (log_of ?m [?r]) = 3001" "length (log_of ?m ([?r] @ [?r])) = 6002"
    by (simp_all add: log_of_def)
  ultimately show ?thesis
    using checkpoint_killed_is_corrupt [of ?m ?u "[?r]" ?r "[]" "replicate 1095 CHR ''x''" "replicate 1905 CHR ''x''"] split
    by (simp add: buf_size_def numeral_2_eq_2)
qed

end
