(* ===== verification/OsDetect.thy ===== *)
theory OsDetect
  imports Endian Complex_Main "HOL-Library.Sublist"
begin

unbundle bit_operations_syntax

text \<open>
  \<open>internal/osdetect\<close>: reading the stack signature of a SYN/ACK out of the received
  frame (\<open>fingerprint.go\<close>, \<open>engine.go\<close>) and scoring it against the table of known
  stacks.  An expression that panics (a slice out of range) is \<open>None\<close>.  Scores are
  exact rationals: the observed list is compared with lists of at most six kinds, and
  over all the scores this allows the \<open>float64\<close> arithmetic of the code orders them,
  and compares them with 0.4 and 0.9, as the rationals.
\<close>

record TCPSignature =
  sig_TTL :: byte
  sig_Window :: u16
  sig_MSS :: u16
  sig_WScale :: int
  sig_SACKPerm :: bool
  sig_TSPerm :: bool
  sig_NOPCount :: int
  sig_OptOrder :: "byte list"

definition ttlBucket :: "byte \<Rightarrow> byte" where
  "ttlBucket ttl = (if ttl \<le> 64 then 64 else if ttl \<le> 128 then 128 else 255)"

definition empty_sig :: TCPSignature where
  "empty_sig = \<lparr>sig_TTL = 0, sig_Window = 0, sig_MSS = 0, sig_WScale = -1, sig_SACKPerm = False,
     sig_TSPerm = False, sig_NOPCount = 0, sig_OptOrder = []\<rparr>"

text \<open>\<open>int(frame[at+12]>>4) * 4\<close>: the header length the data offset announces.\<close>

definition data_offset :: "byte \<Rightarrow> nat" where
  "data_offset b = unat (drop_bit 4 b) * 4"

definition int8 :: "byte \<Rightarrow> int" where
  "int8 b = sint b"

text \<open>The \<open>switch kind\<close> of the walk, on the bytes after the option's length byte.\<close>

definition note_option :: "byte \<Rightarrow> byte list \<Rightarrow> TCPSignature \<Rightarrow> TCPSignature" where
  "note_option kind body s =
     (if kind = 2 then (if length body \<ge> 2 then s\<lparr>sig_MSS := get16 body\<rparr> else s)
      else if kind = 3 then (if length body \<ge> 1 then s\<lparr>sig_WScale := int8 (hd body)\<rparr> else s)
      else if kind = 4 then s\<lparr>sig_SACKPerm := True\<rparr>
      else if kind = 8 then s\<lparr>sig_TSPerm := True\<rparr>
      else s)"

lemma OptOrder_note_option [simp]: "sig_OptOrder (note_option kind body s) = sig_OptOrder s"
  by (simp add: note_option_def)

text \<open>
  The option walk of \<open>ParseTCPSignature\<close> on the bytes from position \<open>i\<close> on: every
  iteration records the kind, then consumes one byte (NOP) or the announced length.
\<close>

function sig_walk :: "byte list \<Rightarrow> TCPSignature \<Rightarrow> TCPSignature" where
  "sig_walk [] s = s"
| "sig_walk (kind # rest) s =
     (let s1 = s\<lparr>sig_OptOrder := sig_OptOrder s @ [kind]\<rparr> in
      if kind = 0 then s1
      else if kind = 1 then sig_walk rest (s1\<lparr>sig_NOPCount := sig_NOPCount s1 + 1\<rparr>)
      else (case rest of
              [] \<Rightarrow> s1
            | len # body \<Rightarrow>
                if unat len < 2 then s1
                else
                  sig_walk (drop (unat len - 2) body) (note_option kind body s1)))"
  by pat_completeness auto
termination by (relation "measure (\<lambda>(opt, s). length opt)") auto

definition ParseTCPSignature :: "bytes \<Rightarrow> nat \<Rightarrow> nat \<Rightarrow> (TCPSignature \<times> bool) option" where
  "ParseTCPSignature frame ipStart tcpStart =
     (if length frame < ipStart + 9 \<or> length frame < tcpStart + 20 then Some (empty_sig, False)
      else
        (case (get_at frame (ipStart + 8), slice frame (tcpStart + 14) (tcpStart + 16), get_at frame (tcpStart + 12)) of
           (Some ttl, Some win, Some off) \<Rightarrow>
             (let s = empty_sig\<lparr>sig_TTL := ttl, sig_Window := get16 win\<rparr>; dataOffset = data_offset off in
              if dataOffset < 20 \<or> length frame < tcpStart + dataOffset then Some (s, True)
              else map_option (\<lambda>opt. (sig_walk opt s, True)) (slice frame (tcpStart + 20) (tcpStart + dataOffset)))
         | _ \<Rightarrow> None))"

text \<open>\<open>HasTCPOptionKind\<close>, by the same walk.\<close>

function kind_walk :: "byte \<Rightarrow> byte list \<Rightarrow> bool" where
  "kind_walk k [] = False"
| "kind_walk k (kind # rest) =
     (if kind = k then True
      else if kind = 0 then False
      else if kind = 1 then kind_walk k rest
      else (case rest of
              [] \<Rightarrow> False
            | len # body \<Rightarrow> if unat len < 2 then False else kind_walk k (drop (unat len - 2) body)))"
  by pat_completeness auto
termination by (relation "measure (\<lambda>(k, opt). length opt)") auto

definition HasTCPOptionKind :: "bytes \<Rightarrow> nat \<Rightarrow> nat \<Rightarrow> byte \<Rightarrow> bool option" where
  "HasTCPOptionKind frame ipStart tcpStart kind =
     (if length frame < tcpStart + 20 then Some False
      else
        (case get_at frame (tcpStart + 12) of
           None \<Rightarrow> None
         | Some off \<Rightarrow>
             (let dataOffset = data_offset off in
              if dataOffset < 20 \<or> length frame < tcpStart + dataOffset then Some False
              else map_option (kind_walk kind) (slice frame (tcpStart + 20) (tcpStart + dataOffset)))))"

subsection \<open>The display signature\<close>

definition u_text :: "'a::len word \<Rightarrow> string" where
  "u_text w = nat_digits (unat w)"

function opt_text :: "byte list \<Rightarrow> string list" where
  "opt_text [] = []"
| "opt_text (kind # rest) =
     (if kind = 0 then []
      else if kind = 1 then ''N'' # opt_text rest
      else (case rest of
              [] \<Rightarrow> []
            | len # body \<Rightarrow>
                if unat len < 2 then []
                else
                  (if kind = 2 then (if length body \<ge> 2 then [''M'' @ u_text (get16 body)] else [])
                   else if kind = 3 then (if length body \<ge> 1 then [''W'' @ u_text (hd body)] else [])
                   else if kind = 4 then [''S''] else if kind = 8 then [''T''] else [''U'' @ u_text kind])
                  @ opt_text (drop (unat len - 2) body)))"
  by pat_completeness auto
termination by (relation "measure length") auto

definition parseTCPOptions :: "byte list \<Rightarrow> string" where
  "parseTCPOptions opt = (let s = opt_text opt in if s = [] then ''None'' else join_str '','' s)"

definition GenerateSignature :: "bytes \<Rightarrow> nat \<Rightarrow> nat \<Rightarrow> string option" where
  "GenerateSignature frame ipStart tcpStart =
     (if length frame < ipStart + 9 then Some ''Unknown''
      else
        (case get_at frame (ipStart + 8) of
           None \<Rightarrow> None
         | Some ttl \<Rightarrow>
             if length frame < tcpStart + 16 then Some (''TTL:'' @ u_text ttl)
             else
               (case (slice frame (tcpStart + 14) (tcpStart + 16), get_at frame (tcpStart + 12)) of
                  (Some win, Some off) \<Rightarrow>
                    (let windowSize = get16 win; dataOffset = data_offset off in
                     if length frame < tcpStart + dataOffset
                     then Some (''TTL:'' @ u_text ttl @ ''|W:'' @ u_text windowSize)
                     else
                       (case slice frame (tcpStart + 20) (tcpStart + dataOffset) of
                          None \<Rightarrow> None
                        | Some optionsBytes \<Rightarrow>
                            (let guessedOS = (if ttl \<le> 64 then ''Linux/Unix'' else if ttl \<le> 128 then ''Windows''
                                              else ''Cisco/Solaris'')
                             in Some (''OS:'' @ guessedOS @ '' (TTL:'' @ u_text ttl @ '' WIN:'' @ u_text windowSize
                                  @ '' OPT:'' @ parseTCPOptions optionsBytes @ '')''))))
                | _ \<Rightarrow> None)))"

subsection \<open>Scoring\<close>

text \<open>
  The dynamic-programming table of \<open>optOrderSimilarity\<close>, a row at a time:
  \<open>lcs_row x ys prev left\<close> fills a row for the byte \<open>x\<close> from the previous row.
\<close>

fun lcs_row :: "byte \<Rightarrow> byte list \<Rightarrow> nat list \<Rightarrow> nat \<Rightarrow> nat list" where
  "lcs_row x (y # ys) (diag # up # prev) left =
     (let v = (if x = y then diag + 1 else if up \<ge> left then up else left)
      in v # lcs_row x ys (up # prev) v)"
| "lcs_row x ys prev left = []"

definition lcs_table :: "byte list \<Rightarrow> byte list \<Rightarrow> nat" where
  "lcs_table a b = last (fold (\<lambda>x prev. 0 # lcs_row x b prev 0) a (replicate (Suc (length b)) 0))"

definition optOrderSimilarity :: "byte list \<Rightarrow> byte list \<Rightarrow> rat" where
  "optOrderSimilarity a b =
     (if a = [] \<or> b = [] then 0
      else of_nat (lcs_table a b) / of_nat (if length b < length a then length b else length a))"

record Fingerprint =
  fp_Name :: string
  fp_Sig :: TCPSignature

definition mk_fp :: "string \<Rightarrow> byte \<Rightarrow> u16 \<Rightarrow> int \<Rightarrow> bool \<Rightarrow> bool \<Rightarrow> byte list \<Rightarrow> Fingerprint" where
  "mk_fp name ttl win wscale sack ts order =
     \<lparr>fp_Name = name, fp_Sig = \<lparr>sig_TTL = ttl, sig_Window = win, sig_MSS = 1460, sig_WScale = wscale,
        sig_SACKPerm = sack, sig_TSPerm = ts, sig_NOPCount = 0, sig_OptOrder = order\<rparr>\<rparr>"

definition KnownFingerprints :: "Fingerprint list" where
  "KnownFingerprints =
    [mk_fp ''Linux 3.x-6.x'' 64 29200 7 True True [2, 4, 8, 1, 3],
     mk_fp ''Windows 10/11'' 128 65535 8 True False [2, 1, 3, 1, 1, 4],
     mk_fp ''macOS / BSD'' 64 65535 6 True True [2, 4, 8, 1, 3],
     mk_fp ''Cisco IOS / IOS-XE'' 255 4128 (-1) False False [2],
     mk_fp ''Linux 2.x'' 64 5840 2 True False [2, 4, 1, 3],
     mk_fp ''Windows XP / Server 2003'' 128 65535 (-1) True False [2, 1, 1, 4],
     mk_fp ''OpenBSD'' 64 16384 3 True False [2, 4, 3, 1],
     mk_fp ''Solaris / SunOS'' 255 24820 0 True True [2, 3, 4, 8, 1],
     mk_fp ''IBM AIX'' 64 16384 0 True False [2, 1, 3, 4]]"

definition fp_norm :: "TCPSignature \<Rightarrow> Fingerprint \<Rightarrow> rat" where
  "fp_norm observed fp =
     (let f = fp_Sig fp;
          score = (if ttlBucket (sig_TTL observed) = sig_TTL f then 3 else 0)
            + (if sig_WScale observed = sig_WScale f then 2 else 0)
            + (if sig_SACKPerm observed = sig_SACKPerm f then 1 else 0)
            + (if sig_TSPerm observed = sig_TSPerm f then 1 else 0)
            + (if sig_MSS observed \<noteq> 0 \<and> sig_MSS observed = sig_MSS f then 1 else 0)
            + 3 * optOrderSimilarity (sig_OptOrder f) (sig_OptOrder observed)
      in score / 11)"

fun best_match :: "TCPSignature \<Rightarrow> Fingerprint list \<Rightarrow> string \<times> rat \<Rightarrow> string \<times> rat" where
  "best_match observed [] best = best"
| "best_match observed (fp # fps) best =
     best_match observed fps (if fp_norm observed fp > snd best then (fp_Name fp, fp_norm observed fp) else best)"

definition Match :: "TCPSignature \<Rightarrow> string \<times> rat" where
  "Match observed =
     (let (name, bestScore) = best_match observed KnownFingerprints ([], 0) in
      if bestScore < 4 / 10 then ([], 0)
      else (name, if bestScore > 9 / 10 then 9 / 10 else bestScore))"

definition ClassifyOS :: "bytes \<Rightarrow> nat \<Rightarrow> nat \<Rightarrow> (string \<times> rat) option" where
  "ClassifyOS frame ipStart tcpStart =
     (case ParseTCPSignature frame ipStart tcpStart of
        None \<Rightarrow> None
      | Some (s, ok) \<Rightarrow> Some (if \<not> ok then ([], 0) else Match s))"

declare sig_walk.simps [simp del] kind_walk.simps [simp del] opt_text.simps [simp del]

subsection \<open>The two walks agree\<close>

lemma sig_walk_order: "\<exists>ks. sig_OptOrder (sig_walk opt s) = sig_OptOrder s @ ks \<and> (\<forall>k. kind_walk k opt \<longleftrightarrow> k \<in> set ks)"
proof (induction opt s rule: sig_walk.induct)
  case (1 s)
  then show ?case by (simp add: sig_walk.simps kind_walk.simps)
next
  case (2 kind rest s)
  note walk = sig_walk.simps(2) [of kind rest s] kind_walk.simps(2) [of _ kind rest]
  consider (eol) "kind = 0" | (nop) "kind = 1" | (opt) "kind \<noteq> 0" "kind \<noteq> 1" by blast
  then show ?case
  proof cases
    case eol
    then show ?thesis
      by (intro exI [of _ "[0]"]) (auto simp: sig_walk.simps(2) [of 0 rest s] kind_walk.simps(2) [of _ 0 rest] Let_def)
  next
    case nop
    then have kind: "kind \<noteq> 0" by simp
    have "\<exists>ks. sig_OptOrder (sig_walk (kind # rest) s) = sig_OptOrder s @ 1 # ks
        \<and> (\<forall>k. kind_walk k rest \<longleftrightarrow> k \<in> set ks)"
      using 2(1) [OF refl kind nop] nop by (simp add: sig_walk.simps(2) [of 1 rest s] Let_def)
    then obtain ks where ks: "sig_OptOrder (sig_walk (kind # rest) s) = sig_OptOrder s @ 1 # ks"
        "\<forall>k. kind_walk k rest \<longleftrightarrow> k \<in> set ks" by (elim exE conjE)
    show ?thesis using nop ks by (intro exI [of _ "1 # ks"]) (auto simp: kind_walk.simps(2) [of _ 1 rest])
  next
    case opt
    show ?thesis
    proof (cases "case rest of [] \<Rightarrow> True | len # body \<Rightarrow> unat len < 2")
      case True
      then show ?thesis using opt by (intro exI [of _ "[kind]"]) (auto simp: walk Let_def split: list.splits)
    next
      case False
      then obtain len body where rest: "rest = len # body" "\<not> unat len < 2" by (cases rest) auto
      have "\<exists>ks. sig_OptOrder (sig_walk (kind # rest) s) = sig_OptOrder s @ kind # ks
          \<and> (\<forall>k. kind_walk k (drop (unat len - 2) body) \<longleftrightarrow> k \<in> set ks)"
        using 2(2) [OF refl opt rest(1) rest(2)] opt rest by (simp add: sig_walk.simps(2) [of kind "len # body" s] Let_def)
      then obtain ks where "sig_OptOrder (sig_walk (kind # rest) s) = sig_OptOrder s @ kind # ks"
          "\<forall>k. kind_walk k (drop (unat len - 2) body) \<longleftrightarrow> k \<in> set ks" by (elim exE conjE)
      then show ?thesis using opt rest by (intro exI [of _ "kind # ks"]) (auto simp: kind_walk.simps(2) [of _ kind "len # body"])
    qed
  qed
qed

subsection \<open>The table is the longest common subsequence\<close>

fun lcs :: "'a list \<Rightarrow> 'a list \<Rightarrow> nat" where
  "lcs [] ys = 0"
| "lcs (x # xs) [] = 0"
| "lcs (x # xs) (y # ys) = (if x = y then Suc (lcs xs ys) else max (lcs xs (y # ys)) (lcs (x # xs) ys))"

lemma lcs_upper: "subseq s a \<Longrightarrow> subseq s b \<Longrightarrow> length s \<le> lcs a b"
proof (induction a b arbitrary: s rule: lcs.induct)
  case (3 x xs y ys)
  show ?case
  proof (cases s)
    case (Cons z zs)
    show ?thesis
    proof (cases "x = y")
      case True
      show ?thesis
      proof (cases "z = x")
        case True
        then have "subseq zs xs" "subseq zs ys" using 3(4,5) Cons \<open>x = y\<close> by auto
        then show ?thesis using 3(1) \<open>x = y\<close> Cons by simp
      next
        case False
        then have "subseq s xs" "subseq s ys" using 3(4,5) Cons \<open>x = y\<close> by auto
        then have "length s \<le> lcs xs ys" using 3(1) \<open>x = y\<close> by blast
        then show ?thesis using \<open>x = y\<close> by simp
      qed
    next
      case False
      show ?thesis
      proof (cases "z = x")
        case True
        then have "subseq s ys" using 3(5) Cons False by auto
        then have "length s \<le> lcs (x # xs) ys" using 3(3,4) False by blast
        then show ?thesis using False by simp
      next
        case zx: False
        then have "subseq s xs" using 3(4) Cons by auto
        then have "length s \<le> lcs xs (y # ys)" using 3(2,5) False by blast
        then show ?thesis using False by simp
      qed
    qed
  qed simp
qed auto

lemma lcs_attained: "\<exists>s. subseq s a \<and> subseq s b \<and> length s = lcs a b"
proof (induction a b rule: lcs.induct)
  case (3 x xs y ys)
  show ?case
  proof (cases "x = y")
    case True
    then obtain s where "subseq s xs" "subseq s ys" "length s = lcs xs ys" using 3(1) by blast
    then show ?thesis using True by (intro exI [of _ "x # s"]) simp
  next
    case False
    then have "\<exists>s. subseq s xs \<and> subseq s (y # ys) \<and> length s = lcs xs (y # ys)"
      "\<exists>s. subseq s (x # xs) \<and> subseq s ys \<and> length s = lcs (x # xs) ys"
      using 3(2,3) by blast+
    then show ?thesis using False by (auto simp: max_def)
  qed
qed auto

lemma lcs_row_correct:
  "lcs_row x ys (map (\<lambda>k. lcs A (rev (take k (pre @ ys)))) [length pre..<Suc (length (pre @ ys))]) (lcs (x # A) (rev pre))
   = map (\<lambda>k. lcs (x # A) (rev (take k (pre @ ys)))) [Suc (length pre)..<Suc (length (pre @ ys))]"
proof (induction ys arbitrary: pre)
  case (Cons y ys)
  let ?L = "\<lambda>B k. lcs B (rev (take k (pre @ y # ys)))"
  let ?n = "length (pre @ y # ys)"
  have row: "map (?L A) [length pre..<Suc ?n] = lcs A (rev pre) # lcs A (y # rev pre) # map (?L A) [Suc (Suc (length pre))..<Suc ?n]"
    by (simp add: upt_conv_Cons del: upt_Suc)
  have row': "map (?L A) [Suc (length pre)..<Suc ?n] = lcs A (y # rev pre) # map (?L A) [Suc (Suc (length pre))..<Suc ?n]"
    by (simp add: upt_conv_Cons del: upt_Suc)
  have v: "(if x = y then lcs A (rev pre) + 1 else if lcs A (y # rev pre) \<ge> lcs (x # A) (rev pre)
      then lcs A (y # rev pre) else lcs (x # A) (rev pre)) = lcs (x # A) (y # rev pre)"
    by (auto simp: max_def)
  have ih: "lcs_row x ys (map (?L A) [Suc (length pre)..<Suc ?n]) (lcs (x # A) (y # rev pre))
      = map (?L (x # A)) [Suc (Suc (length pre))..<Suc ?n]"
    using Cons [of "pre @ [y]"] by (simp del: upt_Suc)
  have "lcs_row x (y # ys) (map (?L A) [length pre..<Suc ?n]) (lcs (x # A) (rev pre))
      = lcs (x # A) (y # rev pre) # map (?L (x # A)) [Suc (Suc (length pre))..<Suc ?n]"
    unfolding row lcs_row.simps(1) Let_def v using ih unfolding row' by simp
  also have "\<dots> = map (?L (x # A)) [Suc (length pre)..<Suc ?n]"
    by (simp add: upt_conv_Cons del: upt_Suc)
  finally show ?case .
qed simp

lemma lcs_fold:
  "fold (\<lambda>x prev. 0 # lcs_row x b prev 0) a (map (\<lambda>k. lcs A (rev (take k b))) [0..<Suc (length b)])
   = map (\<lambda>k. lcs (rev a @ A) (rev (take k b))) [0..<Suc (length b)]"
proof (induction a arbitrary: A)
  case (Cons x a)
  have "0 # lcs_row x b (map (\<lambda>k. lcs A (rev (take k b))) [0..<Suc (length b)]) 0
      = map (\<lambda>k. lcs (x # A) (rev (take k b))) [0..<Suc (length b)]"
    using lcs_row_correct [of x b A "[]"] by (simp add: upt_conv_Cons del: upt_Suc)
  then show ?case using Cons [of "x # A"] by simp
qed simp

lemma lcs_table_rev: "lcs_table a b = lcs (rev a) (rev b)"
proof -
  have "replicate (Suc (length b)) 0 = map (\<lambda>k. lcs [] (rev (take k b))) [0..<Suc (length b)]"
    by (simp add: map_replicate_const del: upt_Suc replicate.simps)
  then show ?thesis
    using lcs_fold [of b a "[]"] by (simp add: lcs_table_def)
qed

lemma subseq_rev: "subseq s a \<Longrightarrow> subseq (rev s) (rev a)"
proof (induction rule: list_emb.induct)
  case (list_emb_Cons xs ys y)
  then show ?case by (simp add: subseq_rev_drop_many)
next
  case (list_emb_Cons2 x y xs ys)
  then show ?case by (simp add: list_emb_append_mono)
qed simp

subsection \<open>Properties\<close>

text \<open>The dynamic-programming table of \<open>optOrderSimilarity\<close> computes the length of a
  longest common subsequence of the two option orders: some common subsequence has
  that length and none is longer.\<close>

theorem lcs_table_longest:
  "(\<exists>s. subseq s a \<and> subseq s b \<and> length s = lcs_table a b)
   \<and> {length s | s. subseq s a \<and> subseq s b} \<subseteq> {.. lcs_table a b}"
proof (intro conjI)
  obtain s where s: "subseq s (rev a)" "subseq s (rev b)" "length s = lcs (rev a) (rev b)"
    using lcs_attained by blast
  then show "\<exists>s. subseq s a \<and> subseq s b \<and> length s = lcs_table a b"
    using subseq_rev [OF s(1)] subseq_rev [OF s(2)] by (intro exI [of _ "rev s"]) (simp add: lcs_table_rev)
  show "{length s | s. subseq s a \<and> subseq s b} \<subseteq> {.. lcs_table a b}"
  proof (rule subsetI, elim CollectE exE conjE)
    fix n s assume "n = length s" "subseq s a" "subseq s b"
    then show "n \<in> {.. lcs_table a b}"
      using lcs_upper [OF subseq_rev subseq_rev, of s a b] by (simp add: lcs_table_rev)
  qed
qed

lemma HasTCPOptionKind_total: "HasTCPOptionKind frame ipStart tcpStart k \<noteq> None"
  by (cases "length frame < tcpStart + 20") (auto simp: HasTCPOptionKind_def get_at_def slice_def Let_def)

lemma ParseTCPSignature_total: "ParseTCPSignature frame ipStart tcpStart \<noteq> None"
  by (auto simp: ParseTCPSignature_def get_at_def slice_def Let_def)

lemma ClassifyOS_total: "ClassifyOS frame ipStart tcpStart \<noteq> None"
  using ParseTCPSignature_total by (fastforce simp: ClassifyOS_def split: option.split)

text \<open>Parsing a received frame never runs off its end, whatever the frame: reading
  the signature and looking for an option always return, and the two walks over the
  options agree on which option kinds are present.\<close>

theorem signature_parsing_total:
  "(\<exists>sg ok. ParseTCPSignature frame ipStart tcpStart = Some (sg, ok)
      \<and> map_option (\<lambda>b. ok \<and> b) (HasTCPOptionKind frame ipStart tcpStart k) = Some (k \<in> set (sig_OptOrder sg)))
   \<and> (\<exists>b. HasTCPOptionKind frame ipStart tcpStart k = Some b)
   \<and> (\<exists>r. ClassifyOS frame ipStart tcpStart = Some r)"
proof (cases "length frame < ipStart + 9 \<or> length frame < tcpStart + 20")
  case True
  then have "ParseTCPSignature frame ipStart tcpStart = Some (empty_sig, False)"
    by (auto simp: ParseTCPSignature_def)
  moreover obtain b where "HasTCPOptionKind frame ipStart tcpStart k = Some b"
    using HasTCPOptionKind_total by blast
  ultimately show ?thesis by (simp add: ClassifyOS_def empty_sig_def) blast
next
  case False
  then have len: "ipStart + 8 < length frame" "tcpStart + 20 \<le> length frame" by auto
  let ?off = "data_offset (frame ! (tcpStart + 12))"
  let ?s = "empty_sig\<lparr>sig_TTL := frame ! (ipStart + 8), sig_Window := get16 (take 2 (drop (tcpStart + 14) frame))\<rparr>"
  show ?thesis
  proof (cases "?off < 20 \<or> length frame < tcpStart + ?off")
    case True
    then have "ParseTCPSignature frame ipStart tcpStart = Some (?s, True)"
        "HasTCPOptionKind frame ipStart tcpStart k = Some False"
      using len by (simp_all add: ParseTCPSignature_def HasTCPOptionKind_def get_at_def slice_def Let_def)
    then show ?thesis by (simp add: ClassifyOS_def empty_sig_def) blast
  next
    case False
    let ?opt = "take (?off - 20) (drop (tcpStart + 20) frame)"
    obtain ks where ks: "sig_OptOrder (sig_walk ?opt ?s) = sig_OptOrder ?s @ ks" "\<forall>k. kind_walk k ?opt \<longleftrightarrow> k \<in> set ks"
      using sig_walk_order by blast
    then have "kind_walk k ?opt \<longleftrightarrow> k \<in> set (sig_OptOrder (sig_walk ?opt ?s))" by (simp add: empty_sig_def)
    then show ?thesis using len False
      by (simp add: ParseTCPSignature_def HasTCPOptionKind_def ClassifyOS_def get_at_def slice_def Let_def) blast
  qed
qed

text \<open>The display signature panics on a frame whose TCP header announces fewer than 20
  bytes, and on no other frame: the slice that starts after the fixed header then ends
  before it starts.\<close>

lemma GenerateSignature_panics:
  "GenerateSignature frame ipStart tcpStart = None \<longleftrightarrow>
     ipStart + 9 \<le> length frame \<and> tcpStart + 16 \<le> length frame
     \<and> data_offset (frame ! (tcpStart + 12)) < 20
     \<and> tcpStart + data_offset (frame ! (tcpStart + 12)) \<le> length frame"
  by (auto simp: GenerateSignature_def get_at_def slice_def Let_def)

text \<open>Rules that evaluate the table and the search one decision at a time.\<close>

lemma lcs_row_eval:
  "lcs_row x [] prev left = []"
  "x = y \<Longrightarrow> lcs_row x (y # ys) (diag # up # prev) left = Suc diag # lcs_row x ys (up # prev) (Suc diag)"
  "x \<noteq> y \<Longrightarrow> left \<le> up \<Longrightarrow> lcs_row x (y # ys) (diag # up # prev) left = up # lcs_row x ys (up # prev) up"
  "x \<noteq> y \<Longrightarrow> \<not> left \<le> up \<Longrightarrow> lcs_row x (y # ys) (diag # up # prev) left = left # lcs_row x ys (up # prev) left"
  by simp_all

lemma best_match_eval:
  "best_match observed [] best = best"
  "snd best < fp_norm observed fp \<Longrightarrow>
     best_match observed (fp # fps) best = best_match observed fps (fp_Name fp, fp_norm observed fp)"
  "\<not> snd best < fp_norm observed fp \<Longrightarrow> best_match observed (fp # fps) best = best_match observed fps best"
  by simp_all

lemmas match_eval = best_match_eval lcs_row_eval mk_fp_def fp_norm_def optOrderSimilarity_def lcs_table_def ttlBucket_def

lemma Match_table:
  "map (\<lambda>fp. Match (fp_Sig fp)) KnownFingerprints = map (\<lambda>fp. (fp_Name fp, 9 / 10)) KnownFingerprints"
  by (simp add: Match_def KnownFingerprints_def match_eval del: lcs_row.simps(1) best_match.simps(2))

text \<open>Scoring recognises each stack of the table from its own signature, with the
  capped confidence 0.9, and no frame is ever given more; a name is only reported
  with a confidence of at least 0.4.\<close>

theorem Match_recognises_table:
  "map (\<lambda>fp. Match (fp_Sig fp)) KnownFingerprints = map (\<lambda>fp. (fp_Name fp, 9 / 10)) KnownFingerprints
   \<and> snd (Match observed) \<le> 9 / 10 \<and> (snd (Match observed) = 0 \<and> fst (Match observed) = [] \<or> 4 / 10 \<le> snd (Match observed))"
proof (intro conjI)
  show "map (\<lambda>fp. Match (fp_Sig fp)) KnownFingerprints = map (\<lambda>fp. (fp_Name fp, 9 / 10)) KnownFingerprints"
    by (rule Match_table)
  show "snd (Match observed) \<le> 9 / 10"
    "snd (Match observed) = 0 \<and> fst (Match observed) = [] \<or> 4 / 10 \<le> snd (Match observed)"
    by (simp_all add: Match_def split: prod.split)
qed

end
