(* ===== verification/Checksum.thy ===== *)
theory Checksum
  imports Endian
begin

unbundle bit_operations_syntax

text \<open>
  The Internet checksum (RFC 1071) as \<open>xdpChecksum\<close> (\<open>internal/scan/xdp_craft.go\<close>) and
  \<open>calcIPChecksum\<close> (\<open>raw_tcp.go\<close>) compute it: a 32-bit sum of big-endian 16-bit words,
  its end-around carries, and the complement.  The lemmas read the words as numbers
  modulo 65535; \<open>checksum_fills\<close> is what every frame builder relies on.
\<close>

fun sum_words :: "bytes \<Rightarrow> u32" where
  "sum_words [] = 0"
| "sum_words [b] = push_bit 8 (ucast b)"
| "sum_words (hi # lo # rest) = ucast (get16 [hi, lo]) + sum_words rest"

lemma unat_u16_less [simp]: "unat (w :: u16) < 65536"
  using unsigned_less [of w, where ?'a = nat] by simp

lemma unat_ucast_u32: "unat (ucast (w :: u16) :: u32) = unat w"
  using unat_u16_less [of w] by (simp add: unsigned_ucast_eq take_bit_eq_mod del: unat_u16_less)

lemma unat_byte_shift: "unat (push_bit 8 (ucast (b :: byte)) :: u32) = 256 * unat b"
proof -
  have "unat (push_bit 8 (ucast b) :: u32) = take_bit 32 (push_bit 8 (take_bit 32 (unat b)))"
    by (simp only: unsigned_push_bit_eq unsigned_ucast_eq) simp
  then show ?thesis using unat_byte_less [of b] by (simp add: push_bit_eq_mult take_bit_eq_mod)
qed

lemma unat_hi16: "unat (drop_bit 16 (s :: u32)) = unat s div 65536"
  by (simp add: drop_bit_eq_div unat_div_distrib)

lemma unat_lo16: "unat (s AND 0xffff :: u32) = unat s mod 65536"
proof -
  have "s AND 0xffff = take_bit 16 s" by (simp add: take_bit_eq_mask mask_eq_exp_minus_1)
  then show ?thesis by (simp add: take_bit_eq_mod unat_mod_distrib)
qed

lemma unat_fold_step: "unat (drop_bit 16 s + (s AND 0xffff) :: u32) = unat s div 65536 + unat s mod 65536"
proof -
  have "unat s < 65536 * 65536" using unsigned_less [of s, where ?'a = nat] by simp
  then have "unat s div 65536 < 65536" by (simp add: less_mult_imp_div_less)
  moreover have "unat s mod 65536 < 65536" by simp
  ultimately have "unat s div 65536 + unat s mod 65536 < 2 ^ 32" by simp
  then show ?thesis by (simp add: unat_word_ariths unat_hi16 unat_lo16 del: unsigned_and_eq)
qed

lemma fold_decreases: "(0xffff :: u32) < s \<Longrightarrow> unat (drop_bit 16 s + (s AND 0xffff)) < unat s"
proof -
  assume "0xffff < s"
  then have "65536 \<le> unat s" by (simp add: word_less_nat_alt)
  then have "0 < unat s div 65536" by (simp add: div_greater_zero_iff)
  moreover have "unat s = 65536 * (unat s div 65536) + unat s mod 65536" by simp
  ultimately show ?thesis unfolding unat_fold_step by linarith
qed

text \<open>\<open>for sum > 0xffff { sum = (sum >> 16) + (sum & 0xffff) }\<close>\<close>

function fold_carries :: "u32 \<Rightarrow> u32" where
  "fold_carries s = (if s > 0xffff then fold_carries (drop_bit 16 s + (s AND 0xffff)) else s)"
  by pat_completeness auto
termination by (relation "measure unat") (auto simp: fold_decreases)

declare fold_carries.simps [simp del]

definition xdpChecksum :: "bytes \<Rightarrow> u16" where
  "xdpChecksum data = NOT (ucast (fold_carries (sum_words data)))"

text \<open>\<open>calcIPChecksum\<close> reads \<open>header[i : i+2]\<close> and panics (\<open>None\<close>) on an odd length.\<close>

definition calcIPChecksum :: "bytes \<Rightarrow> u16 option" where
  "calcIPChecksum header = (if even (length header) then Some (xdpChecksum header) else None)"

subsection \<open>The sum as a number\<close>

fun word_sum :: "bytes \<Rightarrow> nat" where
  "word_sum [] = 0"
| "word_sum [b] = 256 * unat b"
| "word_sum (hi # lo # rest) = 256 * unat hi + unat lo + word_sum rest"

lemma put16_get16: "put16 (get16 [hi, lo]) = [hi, lo]"
proof -
  have "(ucast (drop_bit 8 (get16 [hi, lo])) :: byte) = hi"
    by (intro bit_word_eqI) (use bit_imp_le_length [of lo] in \<open>fastforce simp: get16_def bit_simps\<close>)
  moreover have "(ucast (get16 [hi, lo]) :: byte) = lo"
    by (intro bit_word_eqI) (auto simp: get16_def bit_simps)
  ultimately show ?thesis by (simp add: put16_def)
qed

lemma unat_get16: "unat (get16 [hi, lo]) = 256 * unat hi + unat lo"
  using be_val_put16 [of "get16 [hi, lo]"] by (simp add: put16_get16 be_val_Cons)

lemma word_sum_le: "word_sum bs \<le> 65535 * ((length bs + 1) div 2)"
proof (induction bs rule: word_sum.induct)
  case (2 b)
  show ?case using unat_byte_less [of b] by (simp del: unat_byte_less)
next
  case (3 hi lo rest)
  then show ?case using unat_byte_less [of hi] unat_byte_less [of lo] by (simp del: unat_byte_less)
qed simp

lemma word_sum_append [simp]: "even (length a) \<Longrightarrow> word_sum (a @ b) = word_sum a + word_sum b"
  by (induction a rule: word_sum.induct) auto

lemma word_sum_put16 [simp]: "word_sum (put16 w) = unat w"
  using be_val_put16 [of w] by (simp add: put16_def be_val_Cons)

lemma word_sum_zeros [simp]: "word_sum (replicate n 0) = 0"
proof (induction n rule: nat_less_induct)
  case (1 n)
  then show ?case by (cases n; cases "n - 1") (auto simp: less_Suc_eq)
qed

lemma sum_words_eq: "length bs \<le> 131072 \<Longrightarrow> unat (sum_words bs) = word_sum bs"
proof (induction bs rule: sum_words.induct)
  case (3 hi lo rest)
  have "word_sum (hi # lo # rest) \<le> 65535 * ((length (hi # lo # rest) + 1) div 2)" by (rule word_sum_le)
  also have "\<dots> \<le> 65535 * 65536" using 3(2) by (intro mult_le_mono2) simp
  finally have "word_sum (hi # lo # rest) < 2 ^ 32" by simp
  then show ?case using 3
    by (simp add: unat_word_ariths unat_ucast_u32 unat_get16)
qed (simp_all add: unat_byte_shift)

lemma fold_carries_le: "fold_carries s \<le> 0xffff"
proof (induction s rule: fold_carries.induct)
  case (1 s)
  then show ?case by (subst fold_carries.simps) (auto simp: not_less)
qed

lemma fold_carries_zero: "fold_carries s = 0 \<longleftrightarrow> s = 0"
proof (induction s rule: fold_carries.induct)
  case (1 s)
  show ?case
  proof (cases "s > 0xffff")
    case True
    then have "65536 \<le> unat s" by (simp add: word_less_nat_alt)
    then have "0 < unat s div 65536" by (simp add: div_greater_zero_iff)
    then have "unat (drop_bit 16 s + (s AND 0xffff)) \<noteq> 0" unfolding unat_fold_step by simp
    moreover have "s \<noteq> 0" using True by auto
    ultimately show ?thesis using 1 True by (subst fold_carries.simps) (auto simp del: unsigned_and_eq)
  next
    case False
    then show ?thesis by (subst fold_carries.simps) simp
  qed
qed

lemma fold_carries_mod: "unat (fold_carries s) mod 65535 = unat s mod 65535"
proof (induction s rule: fold_carries.induct)
  case (1 s)
  have "unat s = 65535 * (unat s div 65536) + (unat s div 65536 + unat s mod 65536)" by simp
  then have "(unat s div 65536 + unat s mod 65536) mod 65535 = unat s mod 65535"
    by (metis mod_mult_self4)
  then show ?case using 1 by (subst fold_carries.simps) (simp add: unat_fold_step)
qed

text \<open>What a receiver checks: a word sum that is a positive multiple of 65535.\<close>

definition sums_to_ones :: "bytes \<Rightarrow> bool" where
  "sums_to_ones data = (xdpChecksum data = 0)"

lemma xdpChecksum_unat:
  "unat (xdpChecksum data) = 65535 - unat (fold_carries (sum_words data))"
proof -
  let ?f = "fold_carries (sum_words data)"
  have le: "unat ?f \<le> 65535" using fold_carries_le [of "sum_words data"] by (simp add: word_le_nat_alt)
  have "unat (ucast ?f :: u16) = unat ?f" using le by (simp add: unsigned_ucast_eq take_bit_eq_mod)
  moreover have "unat (NOT w) = 65535 - unat w" for w :: u16
  proof -
    have "NOT w = - 1 - w" by (simp add: not_eq_complement)
    then show ?thesis by (simp add: unat_sub unsigned_minus_1_eq_mask mask_eq_exp_minus_1)
  qed
  ultimately show ?thesis by (simp add: xdpChecksum_def)
qed

lemma sums_to_ones_iff:
  assumes "length data \<le> 131072"
  shows "sums_to_ones data \<longleftrightarrow> 0 < word_sum data \<and> word_sum data mod 65535 = 0"
proof -
  define F where "F = unat (fold_carries (sum_words data))"
  have sum: "unat (sum_words data) = word_sum data" using assms by (rule sum_words_eq)
  have F: "F \<le> 65535" "F mod 65535 = word_sum data mod 65535" "F = 0 \<longleftrightarrow> word_sum data = 0"
    using fold_carries_le [of "sum_words data"] fold_carries_mod [of "sum_words data"]
      fold_carries_zero [of "sum_words data"] sum
    by (auto simp: F_def word_le_nat_alt unat_eq_zero)
  have "sums_to_ones data \<longleftrightarrow> F = 65535"
    using F(1) xdpChecksum_unat [of data] by (simp add: sums_to_ones_def unat_eq_0 [symmetric] F_def [symmetric] del: unat_eq_0)
  also have "\<dots> \<longleftrightarrow> 0 < word_sum data \<and> word_sum data mod 65535 = 0"
  proof
    assume "F = 65535"
    then show "0 < word_sum data \<and> word_sum data mod 65535 = 0" using F by (cases "word_sum data") simp_all
  next
    assume "0 < word_sum data \<and> word_sum data mod 65535 = 0"
    then have "F mod 65535 = 0" "F \<noteq> 0" using F by simp_all
    then show "F = 65535" using F(1) by (cases "F = 65535") simp_all
  qed
  finally show ?thesis .
qed

lemma checksum_fills:
  assumes "even (length a)" and "length a + length b \<le> 131070"
    and c: "c = xdpChecksum (a @ [0, 0] @ b) \<or> c = 0xffff \<and> xdpChecksum (a @ [0, 0] @ b) = 0"
  shows "sums_to_ones (a @ put16 c @ b)"
proof -
  define S where "S = word_sum a + word_sum b"
  define F where "F = unat (fold_carries (sum_words (a @ [0, 0] @ b)))"
  have S: "word_sum (a @ [0, 0] @ b) = S" using assms(1) by (simp add: S_def)
  have sum: "unat (sum_words (a @ [0, 0] @ b)) = S"
    using sum_words_eq [of "a @ [0, 0] @ b"] assms(2) S by simp
  have F: "F \<le> 65535" "F mod 65535 = S mod 65535" "F = 0 \<longleftrightarrow> S = 0"
    using fold_carries_le [of "sum_words (a @ [0, 0] @ b)"] fold_carries_mod [of "sum_words (a @ [0, 0] @ b)"]
      fold_carries_zero [of "sum_words (a @ [0, 0] @ b)"] sum
    by (auto simp: F_def word_le_nat_alt unat_eq_zero)
  have x: "unat (xdpChecksum (a @ [0, 0] @ b)) = 65535 - F"
    using xdpChecksum_unat [of "a @ [0, 0] @ b"] by (simp add: F_def)
  have "unat c = 65535 - F \<or> unat c = 65535 \<and> F = 65535"
  proof (cases "c = xdpChecksum (a @ [0, 0] @ b)")
    case True
    then show ?thesis using x by simp
  next
    case False
    then have "c = 0xffff" "xdpChecksum (a @ [0, 0] @ b) = 0" using c by auto
    then show ?thesis using x F(1) by simp
  qed
  then have "(S + unat c) mod 65535 = 0 \<and> 0 < S + unat c"
  proof (elim disjE)
    assume u: "unat c = 65535 - F"
    have "(S + (65535 - F)) mod 65535 = (F + (65535 - F)) mod 65535"
      using F(2) by (metis mod_add_left_eq)
    then show ?thesis using u F(1,3) by (cases "S = 0") simp_all
  next
    assume u: "unat c = 65535 \<and> F = 65535"
    then have "S mod 65535 = 0" using F(2) by simp
    then show ?thesis using u by simp
  qed
  moreover have "word_sum (a @ put16 c @ b) = S + unat c" using assms(1) by (simp add: S_def)
  ultimately show ?thesis using assms(2) by (subst sums_to_ones_iff) simp_all
qed

end
