(* ===== verification/Frames.thy ===== *)
theory Frames
  imports Checksum OsDetect Results "HOL-Library.Monad_Syntax"
begin

unbundle bit_operations_syntax

text \<open>
  The packets the scanner writes and the frames it reads back: the option blocks of
  \<open>internal/scan/tcp_options.go\<close>, the AF_XDP frame builders of \<open>xdp_frames.go\<close>, the
  receive handler \<open>handleXDPFrame\<close> of \<open>xdp.go\<close>, and the raw-socket probe and receive
  loop of \<open>raw_tcp.go\<close>.  A frame is built into a zeroed buffer: a field copied from a
  shorter slice (a nil MAC or address) keeps the zeros.  \<open>None\<close> is a panic.  The clock
  values stamped into the options are arguments.
\<close>

subsection \<open>Fields\<close>

definition field :: "nat \<Rightarrow> bytes \<Rightarrow> bytes" where
  "field n src = take n (src @ replicate n 0)"

definition addr4 :: "ip \<Rightarrow> bytes" where
  "addr4 a = field 4 (case to4 a of Some b \<Rightarrow> b | None \<Rightarrow> [])"

definition put64 :: "u64 \<Rightarrow> bytes" where
  "put64 w = put32 (ucast (drop_bit 32 w)) @ put32 (ucast w)"

definition ethernet :: "bytes \<Rightarrow> bytes \<Rightarrow> bytes" where
  "ethernet srcMAC dstMAC = field 6 dstMAC @ field 6 srcMAC @ put16 0x0800"

definition ip4_fields :: "u16 \<Rightarrow> u16 \<Rightarrow> byte \<Rightarrow> u16 \<Rightarrow> ip \<Rightarrow> ip \<Rightarrow> bytes" where
  "ip4_fields totalLen ident proto cs srcIP dstIP =
     [0x45, 0x00] @ put16 totalLen @ put16 ident @ put16 0x4000 @ [64, proto] @ put16 cs
     @ addr4 srcIP @ addr4 dstIP"

definition xdp_ip_header :: "nat \<Rightarrow> u16 \<Rightarrow> byte \<Rightarrow> ip \<Rightarrow> ip \<Rightarrow> bytes" where
  "xdp_ip_header totalLen ident proto srcIP dstIP =
     ip4_fields (of_nat totalLen) ident proto
       (xdpChecksum (ip4_fields (of_nat totalLen) ident proto 0 srcIP dstIP)) srcIP dstIP"

definition pseudoHeader :: "byte \<Rightarrow> ip \<Rightarrow> ip \<Rightarrow> nat \<Rightarrow> bytes" where
  "pseudoHeader proto srcIP dstIP len = addr4 srcIP @ addr4 dstIP @ [0, proto] @ put16 (of_nat len)"

definition tcpChecksumCalc :: "bytes \<Rightarrow> bytes \<Rightarrow> u16" where
  "tcpChecksumCalc pseudo tcpData = xdpChecksum (pseudo @ tcpData)"

definition tcp_fields :: "u16 \<Rightarrow> u16 \<Rightarrow> u32 \<Rightarrow> u32 \<Rightarrow> byte \<Rightarrow> byte \<Rightarrow> u16 \<Rightarrow> u16 \<Rightarrow> bytes \<Rightarrow> bytes" where
  "tcp_fields srcPort dstPort seqno ackno off flags win cs opts =
     put16 srcPort @ put16 dstPort @ put32 seqno @ put32 ackno @ [off, flags] @ put16 win @ put16 cs
     @ put16 0 @ opts"

definition tcp_segment ::
  "ip \<Rightarrow> ip \<Rightarrow> u16 \<Rightarrow> u16 \<Rightarrow> u32 \<Rightarrow> u32 \<Rightarrow> byte \<Rightarrow> byte \<Rightarrow> u16 \<Rightarrow> bytes \<Rightarrow> bytes" where
  "tcp_segment srcIP dstIP srcPort dstPort seqno ackno off flags win opts =
     (let seg = tcp_fields srcPort dstPort seqno ackno off flags win
      in seg (tcpChecksumCalc (pseudoHeader 6 srcIP dstIP (20 + length opts)) (seg 0 opts)) opts)"

subsection \<open>SYN options\<close>

definition synOptions :: bytes where
  "synOptions = [2, 4, 0x05, 0xB4, 4, 2, 8, 10, 0, 0, 0, 0, 0, 0, 0, 0, 1, 3, 3, 7]"

definition synOptionsLen :: nat where "synOptionsLen = 20"
definition synTCPHeaderLen :: nat where "synTCPHeaderLen = 20 + synOptionsLen"
definition synDataOffset :: byte where "synDataOffset = of_nat (synTCPHeaderLen div 4 * 16)"
definition tsvalOffset :: nat where "tsvalOffset = 8"

definition writeSYNOptions :: "u32 \<Rightarrow> bytes" where
  "writeSYNOptions millis = put tsvalOffset (put32 millis) synOptions"

definition mpCapableOption :: bytes where
  "mpCapableOption = [30, 12, 0x01, 0x01, 0, 0, 0, 0, 0, 0, 0, 0]"

definition mpCapableLen :: nat where "mpCapableLen = 12"
definition mpCapableKind :: byte where "mpCapableKind = 30"
definition synMPTCPOptionsLen :: nat where "synMPTCPOptionsLen = synOptionsLen + mpCapableLen"
definition synMPTCPHeaderLen :: nat where "synMPTCPHeaderLen = 20 + synMPTCPOptionsLen"
definition synMPTCPDataOffset :: byte where "synMPTCPDataOffset = of_nat (synMPTCPHeaderLen div 4 * 16)"

definition writeSYNOptionsMPTCP :: "u32 \<Rightarrow> u64 \<Rightarrow> bytes" where
  "writeSYNOptionsMPTCP millis nanos = writeSYNOptions millis @ put 4 (put64 nanos) mpCapableOption"

definition syn_options :: "bool \<Rightarrow> u32 \<Rightarrow> u64 \<Rightarrow> byte \<times> bytes" where
  "syn_options mptcp millis nanos =
     (if mptcp then (synMPTCPDataOffset, writeSYNOptionsMPTCP millis nanos)
      else (synDataOffset, writeSYNOptions millis))"

subsection \<open>AF_XDP frames\<close>

definition constructSYNFrame ::
  "bytes \<Rightarrow> bytes \<Rightarrow> ip \<Rightarrow> ip \<Rightarrow> u16 \<Rightarrow> u16 \<Rightarrow> bool \<Rightarrow> u32 \<Rightarrow> u64 \<Rightarrow> bytes" where
  "constructSYNFrame srcMAC dstMAC srcIP dstIP srcPort dstPort mptcp millis nanos =
     (let tcpHdrLen = (if mptcp then synMPTCPHeaderLen else synTCPHeaderLen);
          (dataOffset, opts) = syn_options mptcp millis nanos
      in ethernet srcMAC dstMAC @ xdp_ip_header (20 + tcpHdrLen) 0x1234 6 srcIP dstIP
         @ tcp_segment srcIP dstIP srcPort dstPort 0x11223344 0 dataOffset 0x02 64240 opts)"

definition constructRSTFrame :: "bytes \<Rightarrow> bytes \<Rightarrow> ip \<Rightarrow> ip \<Rightarrow> u16 \<Rightarrow> u16 \<Rightarrow> u32 \<Rightarrow> bytes" where
  "constructRSTFrame srcMAC dstMAC srcIP dstIP srcPort dstPort seqno =
     ethernet srcMAC dstMAC @ xdp_ip_header 40 0x1236 6 srcIP dstIP
     @ tcp_segment srcIP dstIP srcPort dstPort seqno 0 0x50 0x04 0 []"

definition constructACKFrame :: "bytes \<Rightarrow> bytes \<Rightarrow> ip \<Rightarrow> ip \<Rightarrow> u16 \<Rightarrow> u16 \<Rightarrow> bytes" where
  "constructACKFrame srcMAC dstMAC srcIP dstIP srcPort dstPort =
     ethernet srcMAC dstMAC @ xdp_ip_header 40 0x1238 6 srcIP dstIP
     @ tcp_segment srcIP dstIP srcPort dstPort 0x11223344 0x11223345 0x50 0x10 1024 []"

definition constructICMPEchoFrame :: "bytes \<Rightarrow> bytes \<Rightarrow> ip \<Rightarrow> ip \<Rightarrow> u16 \<Rightarrow> u16 \<Rightarrow> bytes" where
  "constructICMPEchoFrame srcMAC dstMAC srcIP dstIP ident seqno =
     (let echo = (\<lambda>cs. [8, 0] @ put16 cs @ put16 ident @ put16 seqno)
      in ethernet srcMAC dstMAC @ xdp_ip_header 28 0x1239 1 srcIP dstIP @ echo (xdpChecksum (echo 0)))"

definition udp_datagram :: "ip \<Rightarrow> ip \<Rightarrow> u16 \<Rightarrow> u16 \<Rightarrow> bytes \<Rightarrow> bytes" where
  "udp_datagram srcIP dstIP srcPort dstPort payload =
     (let udpLen = 8 + length payload;
          udp = (\<lambda>cs. put16 srcPort @ put16 dstPort @ put16 (of_nat udpLen) @ put16 cs @ payload);
          udpChecksum = tcpChecksumCalc (pseudoHeader 17 srcIP dstIP udpLen) (udp 0)
      in udp (if udpChecksum = 0 then 0xffff else udpChecksum))"

definition constructUDPFrame :: "bytes \<Rightarrow> bytes \<Rightarrow> ip \<Rightarrow> ip \<Rightarrow> u16 \<Rightarrow> u16 \<Rightarrow> bytes \<Rightarrow> bytes" where
  "constructUDPFrame srcMAC dstMAC srcIP dstIP srcPort dstPort payload =
     ethernet srcMAC dstMAC @ xdp_ip_header (28 + length payload) 0x1235 17 srcIP dstIP
     @ udp_datagram srcIP dstIP srcPort dstPort payload"

definition constructIPinIPEthernetFrame :: "bytes \<Rightarrow> bytes \<Rightarrow> ip \<Rightarrow> ip \<Rightarrow> bytes \<Rightarrow> bytes option" where
  "constructIPinIPEthernetFrame srcMAC dstMAC outerSrcIP outerDstIP innerIPPacket =
     map_option (\<lambda>innerIPPayload.
         ethernet srcMAC dstMAC @ xdp_ip_header (20 + length innerIPPayload) 0x0000 4 outerSrcIP outerDstIP
         @ innerIPPayload)
       (slice innerIPPacket 14 (length innerIPPacket))"

definition constructARPRequestFrame :: "bytes \<Rightarrow> ip \<Rightarrow> ip \<Rightarrow> bytes" where
  "constructARPRequestFrame srcMAC srcIP dstIP =
     replicate 6 0xff @ field 6 srcMAC @ put16 0x0806
     @ put16 1 @ put16 0x0800 @ [6, 4] @ put16 1 @ field 6 srcMAC @ addr4 srcIP @ replicate 6 0 @ addr4 dstIP"

subsection \<open>The receive handler\<close>

record xdpResponse =
  xr_state :: string
  xr_osSig :: string
  xr_osName :: string
  xr_osConfidence :: rat
  xr_mptcp :: bool

definition state_response :: "string \<Rightarrow> xdpResponse" where
  "state_response st = \<lparr>xr_state = st, xr_osSig = [], xr_osName = [], xr_osConfidence = 0, xr_mptcp = False\<rparr>"

text \<open>What handling one frame does: mark a host alive, deliver to the probe waiting on a
  key, or answer with a RST (our address, theirs, our port, theirs, sequence number).\<close>

datatype rx_action =
  MarkAlive string
| Deliver string xdpResponse
| SendRST bytes bytes u16 u16 u32

definition ip_port_key :: "bytes \<Rightarrow> u16 \<Rightarrow> string" where
  "ip_port_key addr port = ip_string addr @ '':'' @ u_text port"

definition header_len :: "byte \<Rightarrow> nat" where
  "header_len b = unat (b AND 0x0F) * 4"

definition handle_tcp :: "bytes \<Rightarrow> nat \<Rightarrow> nat \<Rightarrow> bytes \<Rightarrow> rx_action list option" where
  "handle_tcp frame ipStart tcpStart srcIP =
     (if length frame < tcpStart + 14 then Some []
      else do {
        portBytes \<leftarrow> slice frame tcpStart (tcpStart + 2);
        tcpFlags \<leftarrow> get_at frame (tcpStart + 13);
        let pktSrcPort = get16 portBytes;
        let key = ip_port_key srcIP pktSrcPort;
        if tcpFlags AND 0x12 = 0x12 then do {
          osSig \<leftarrow> GenerateSignature frame ipStart tcpStart;
          (osName, osConfidence) \<leftarrow> ClassifyOS frame ipStart tcpStart;
          mptcp \<leftarrow> HasTCPOptionKind frame ipStart tcpStart mpCapableKind;
          ourIP \<leftarrow> slice frame (ipStart + 16) (ipStart + 20);
          ourPort \<leftarrow> slice frame (tcpStart + 2) (tcpStart + 4);
          ackSeq \<leftarrow> slice frame (tcpStart + 8) (tcpStart + 12);
          Some [MarkAlive (ip_string srcIP),
                Deliver key \<lparr>xr_state = StateOpen, xr_osSig = osSig, xr_osName = osName,
                  xr_osConfidence = osConfidence, xr_mptcp = mptcp\<rparr>,
                SendRST ourIP srcIP (get16 ourPort) pktSrcPort (get32 ackSeq)]
        }
        else if tcpFlags AND 0x04 \<noteq> 0
        then Some [MarkAlive (ip_string srcIP), Deliver key (state_response StateClosed)]
        else Some [MarkAlive (ip_string srcIP)]
      })"

definition handle_udp :: "bytes \<Rightarrow> nat \<Rightarrow> bytes \<Rightarrow> rx_action list option" where
  "handle_udp frame udpStart srcIP =
     (if length frame < udpStart + 8 then Some []
      else do {
        portBytes \<leftarrow> slice frame udpStart (udpStart + 2);
        Some [Deliver (ip_port_key srcIP (get16 portBytes)) (state_response StateOpen)]
      })"

definition handle_icmp :: "bytes \<Rightarrow> nat \<Rightarrow> bytes \<Rightarrow> rx_action list option" where
  "handle_icmp frame icmpStart srcIP =
     (if length frame < icmpStart + 8 then Some []
      else do {
        icmpType \<leftarrow> get_at frame icmpStart;
        icmpCode \<leftarrow> get_at frame (icmpStart + 1);
        let originalIPStart = icmpStart + 8;
        if icmpType = 0 then Some [MarkAlive (ip_string srcIP)]
        else if icmpType = 3 \<and> icmpCode = 3 then
          (if length frame < originalIPStart + 20 + 8 then Some []
           else do {
             ihl \<leftarrow> get_at frame originalIPStart;
             let originalUDPStart = originalIPStart + header_len ihl;
             if length frame < originalUDPStart + 4 then Some []
             else do {
               dst \<leftarrow> slice frame (originalIPStart + 16) (originalIPStart + 20);
               portBytes \<leftarrow> slice frame (originalUDPStart + 2) (originalUDPStart + 4);
               Some [Deliver (ip_port_key dst (get16 portBytes)) (state_response StateClosed)]
             }
           })
        else Some []
      })"

definition handleXDPFrame :: "bytes \<Rightarrow> rx_action list option" where
  "handleXDPFrame frame =
     (if length frame < 14 then Some []
      else do {
        etherBytes \<leftarrow> slice frame 12 14;
        let etherType = get16 etherBytes;
        if etherType = 0x0806 then
          (if length frame < 14 + 28 then Some []
           else do {
             opBytes \<leftarrow> slice frame 20 22;
             if get16 opBytes = 2 then do {
               senderIP \<leftarrow> slice frame 28 32;
               Some [MarkAlive (ip_string senderIP)]
             } else Some []
           })
        else if etherType \<noteq> 0x0800 \<or> length frame < 14 + 20 then Some []
        else do {
          ihl \<leftarrow> get_at frame 14;
          protocol \<leftarrow> get_at frame 23;
          srcIP \<leftarrow> slice frame 26 30;
          let start = 14 + header_len ihl;
          if protocol = 6 then handle_tcp frame 14 start srcIP
          else if protocol = 17 then handle_udp frame start srcIP
          else if protocol = 1 then handle_icmp frame start srcIP
          else Some []
        }
      })"

subsection \<open>The raw-socket path\<close>

record rawTCPPacket =
  pkt_Flags :: byte
  pkt_WindowSize :: u16
  pkt_IPID :: u16
  pkt_Frame :: bytes
  pkt_IPStart :: nat
  pkt_TCPStart :: nat

definition rawRxKey :: "ip \<Rightarrow> int \<Rightarrow> int \<Rightarrow> string" where
  "rawRxKey remoteIP remotePort localPort =
     ip_string remoteIP @ ''|'' @ itoa remotePort @ ''|'' @ itoa localPort"

text \<open>
  One iteration of \<open>rawRxLoop\<close> on the packet \<open>Recvfrom\<close> copied into the 1024-byte buffer:
  the key it is delivered to and the parsed packet, or nothing.  \<open>rawRxParse\<close> is the part
  after the offset of the IP header is known.
\<close>

definition rawRxParse :: "bytes \<Rightarrow> nat \<Rightarrow> (string \<times> rawTCPPacket) option option" where
  "rawRxParse buf ipOffset =
     (let n = length buf in
      if n < ipOffset + 20 then Some None
      else do {
        idBytes \<leftarrow> slice buf (ipOffset + 4) (ipOffset + 6);
        ihl \<leftarrow> get_at buf ipOffset;
        let tcpOffset = ipOffset + header_len ihl;
        if n < tcpOffset + 20 then Some None
        else do {
          srcIP \<leftarrow> slice buf (ipOffset + 12) (ipOffset + 16);
          srcPort \<leftarrow> slice buf tcpOffset (tcpOffset + 2);
          dstPort \<leftarrow> slice buf (tcpOffset + 2) (tcpOffset + 4);
          flags \<leftarrow> get_at buf (tcpOffset + 13);
          window \<leftarrow> slice buf (tcpOffset + 14) (tcpOffset + 16);
          Some (Some (rawRxKey srcIP (int (unat (get16 srcPort))) (int (unat (get16 dstPort))),
            \<lparr>pkt_Flags = flags, pkt_WindowSize = get16 window, pkt_IPID = get16 idBytes, pkt_Frame = buf,
             pkt_IPStart = ipOffset, pkt_TCPStart = tcpOffset\<rparr>))
        }
      })"

definition rawRxStep :: "bytes \<Rightarrow> (string \<times> rawTCPPacket) option option" where
  "rawRxStep received =
     (let buf = take 1024 received in
      if length buf < 40 then Some None
      else do {
        b0 \<leftarrow> get_at buf 0;
        b4 \<leftarrow> get_at buf 4;
        rawRxParse buf (if b0 AND 0xf0 \<noteq> 0x40 \<and> b4 AND 0xf0 = 0x40 then 4 else 0)
      })"

definition constructIPv4Header :: "ip \<Rightarrow> ip \<Rightarrow> byte \<Rightarrow> u16 \<Rightarrow> bytes option" where
  "constructIPv4Header srcIP dstIP protocol payloadLen =
     (let header = (\<lambda>cs. ip4_fields (20 + payloadLen) 0x0000 protocol cs srcIP dstIP)
      in map_option header (calcIPChecksum (header 0)))"

record rawTCPScanner =
  rs_srcIP :: ip
  rs_dstIP :: ip
  rs_srcPort :: int
  rs_dstPort :: int
  rs_relayIP :: "ip option"
  rs_mptcp :: bool

definition calcTCPChecksum :: "ip \<Rightarrow> ip \<Rightarrow> bytes \<Rightarrow> u16" where
  "calcTCPChecksum srcIP dstIP tcpHeader = xdpChecksum (pseudoHeader 6 srcIP dstIP (length tcpHeader) @ tcpHeader)"

text \<open>The TCP header \<open>Send\<close> writes, and the packet it hands to \<open>Sendto\<close>.\<close>

definition probe_header :: "rawTCPScanner \<Rightarrow> byte \<Rightarrow> u32 \<Rightarrow> u64 \<Rightarrow> bytes" where
  "probe_header s flags millis nanos =
     (let (off, opts) = (if flags = 0x02 then syn_options (rs_mptcp s) millis nanos else (0x50, []));
          header = (\<lambda>cs. tcp_fields (of_int (rs_srcPort s)) (of_int (rs_dstPort s)) 1 1 off flags 65535 cs opts)
      in header (calcTCPChecksum (rs_srcIP s) (rs_dstIP s) (header 0)))"

definition Send :: "ip \<Rightarrow> rawTCPScanner \<Rightarrow> byte \<Rightarrow> u32 \<Rightarrow> u64 \<Rightarrow> bytes option" where
  "Send localIPv4 s flags millis nanos =
     (let tcpHeader = probe_header s flags millis nanos in
      do {
        innerIPHeader \<leftarrow> constructIPv4Header (rs_srcIP s) (rs_dstIP s) 6 (of_nat (length tcpHeader));
        let innerPacket = innerIPHeader @ tcpHeader;
        case rs_relayIP s of
          None \<Rightarrow> Some innerPacket
        | Some relay \<Rightarrow> do {
            outerIPHeader \<leftarrow> constructIPv4Header localIPv4 relay 4 (of_nat (length innerPacket));
            Some (outerIPHeader @ innerPacket)
          }
      })"

subsection \<open>Lengths and checksums\<close>

lemma length_field [simp]: "length (field n src) = n"
  by (simp add: field_def)

lemma length_addr4 [simp]: "length (addr4 a) = 4"
  by (simp add: addr4_def)

lemma addr4_4 [simp]: "length a = 4 \<Longrightarrow> addr4 a = a"
  by (simp add: addr4_def field_def)

lemma length_ethernet [simp]: "length (ethernet srcMAC dstMAC) = 14"
  by (simp add: ethernet_def)

lemma length_ip4_fields [simp]: "length (ip4_fields len i p cs s d) = 20"
  by (simp add: ip4_fields_def)

lemma length_xdp_ip_header [simp]: "length (xdp_ip_header len i p s d) = 20"
  by (simp add: xdp_ip_header_def)

lemma length_pseudoHeader [simp]: "length (pseudoHeader p s d n) = 12"
  by (simp add: pseudoHeader_def)

lemma length_tcp_fields [simp]: "length (tcp_fields sp dp sn an off fl w cs opts) = 20 + length opts"
  by (simp add: tcp_fields_def)

lemma length_tcp_segment [simp]: "length (tcp_segment s d sp dp sn an off fl w opts) = 20 + length opts"
  by (simp add: tcp_segment_def Let_def)

lemma length_udp_datagram [simp]: "length (udp_datagram s d sp dp payload) = 8 + length payload"
  by (simp add: udp_datagram_def Let_def)

lemma length_put64 [simp]: "length (put64 w) = 8"
  by (simp add: put64_def)

lemmas syn_lengths = synOptionsLen_def synTCPHeaderLen_def synMPTCPOptionsLen_def synMPTCPHeaderLen_def
  mpCapableLen_def tsvalOffset_def

lemma length_syn_options: "length (snd (syn_options mptcp millis nanos)) = (if mptcp then 32 else 20)"
  by (simp add: syn_options_def writeSYNOptions_def writeSYNOptionsMPTCP_def synOptions_def mpCapableOption_def)

lemma put16_zero: "put16 0 = [0, 0]"
  by (simp add: put16_def)

lemma ip4_fields_ok:
  "sums_to_ones (ip4_fields len i p (xdpChecksum (ip4_fields len i p 0 s d)) s d)"
proof -
  let ?a = "[0x45, 0x00] @ put16 len @ put16 i @ put16 0x4000 @ [64, p]" and ?b = "addr4 s @ addr4 d"
  have split: "ip4_fields len i p cs s d = ?a @ put16 cs @ ?b" for cs by (simp add: ip4_fields_def)
  show ?thesis
    unfolding split by (rule checksum_fills) (simp_all add: put16_zero)
qed

lemma xdp_ip_header_ok: "sums_to_ones (xdp_ip_header len i p s d)"
  by (simp add: xdp_ip_header_def ip4_fields_ok)

lemma tcp_fields_ok:
  assumes "length opts \<le> 65000"
  shows "sums_to_ones (pseudoHeader p s d n @ tcp_fields sp dp sn an off fl w
    (xdpChecksum (pseudoHeader p s d n @ tcp_fields sp dp sn an off fl w 0 opts)) opts)"
proof -
  let ?a = "pseudoHeader p s d n @ put16 sp @ put16 dp @ put32 sn @ put32 an @ [off, fl] @ put16 w"
    and ?b = "put16 0 @ opts"
  have split: "pseudoHeader p s d n @ tcp_fields sp dp sn an off fl w cs opts = ?a @ put16 cs @ ?b" for cs
    by (simp add: tcp_fields_def)
  show ?thesis
    unfolding split by (rule checksum_fills) (use assms in \<open>simp_all add: put16_zero\<close>)
qed

lemma tcp_segment_ok:
  "length opts \<le> 65000 \<Longrightarrow>
   sums_to_ones (pseudoHeader 6 s d (20 + length opts) @ tcp_segment s d sp dp sn an off fl w opts)"
  unfolding tcp_segment_def Let_def tcpChecksumCalc_def by (rule tcp_fields_ok)

lemma udp_datagram_ok:
  assumes "length payload \<le> 65507"
  shows "sums_to_ones (pseudoHeader 17 s d (8 + length payload) @ udp_datagram s d sp dp payload)"
proof -
  let ?a = "pseudoHeader 17 s d (8 + length payload) @ put16 sp @ put16 dp @ put16 (of_nat (8 + length payload))"
  have split: "pseudoHeader 17 s d (8 + length payload) @ put16 sp @ put16 dp @ put16 (of_nat (8 + length payload))
      @ put16 cs @ payload = ?a @ put16 cs @ payload" for cs
    by simp
  show ?thesis
    unfolding udp_datagram_def Let_def tcpChecksumCalc_def split
    by (rule checksum_fills) (use assms in \<open>simp_all add: put16_zero\<close>)
qed

text \<open>A receiver's two checks on an IPv4 frame: its IP header, and its transport segment
  under the pseudo header.\<close>

definition checksums_ok :: "byte \<Rightarrow> ip \<Rightarrow> ip \<Rightarrow> bytes \<Rightarrow> bool" where
  "checksums_ok proto srcIP dstIP frame =
     (sums_to_ones (take 20 (drop 14 frame))
      \<and> sums_to_ones ((if proto = 1 then [] else pseudoHeader proto srcIP dstIP (length frame - 34)) @ drop 34 frame))"

lemma checksums_ok_frame:
  assumes "sums_to_ones ((if proto = 1 then [] else pseudoHeader proto s d (length seg)) @ seg)"
  shows "checksums_ok proto s d (ethernet srcMAC dstMAC @ xdp_ip_header len i proto' s d @ seg)"
  using assms by (cases "proto = 1") (simp_all add: checksums_ok_def xdp_ip_header_ok)

text \<open>Every frame the AF_XDP path builds carries the checksums a receiver accepts:
  the IP header's, and the TCP, UDP or ICMP one under its pseudo header, whatever the
  addresses, ports, options and clock values (UDP up to the largest IPv4 payload).\<close>

theorem frames_have_valid_checksums:
  assumes "length payload \<le> 65507"
  shows "checksums_ok 6 s d (constructSYNFrame sm dm s d sp dp mptcp millis nanos)
    \<and> checksums_ok 6 s d (constructRSTFrame sm dm s d sp dp seqno)
    \<and> checksums_ok 6 s d (constructACKFrame sm dm s d sp dp)
    \<and> checksums_ok 17 s d (constructUDPFrame sm dm s d sp dp payload)
    \<and> checksums_ok 1 s d (constructICMPEchoFrame sm dm s d ident seqid)"
proof (intro conjI)
  obtain off opts where opts: "syn_options mptcp millis nanos = (off, opts)" "length opts \<le> 65000"
    using length_syn_options [of mptcp millis nanos] by (cases "syn_options mptcp millis nanos") (auto split: if_splits)
  then show "checksums_ok 6 s d (constructSYNFrame sm dm s d sp dp mptcp millis nanos)"
    by (simp add: constructSYNFrame_def checksums_ok_frame tcp_segment_ok)
  show "checksums_ok 6 s d (constructRSTFrame sm dm s d sp dp seqno)"
    using tcp_segment_ok [of "[]"] by (simp add: constructRSTFrame_def checksums_ok_frame)
  show "checksums_ok 6 s d (constructACKFrame sm dm s d sp dp)"
    using tcp_segment_ok [of "[]"] by (simp add: constructACKFrame_def checksums_ok_frame)
  show "checksums_ok 17 s d (constructUDPFrame sm dm s d sp dp payload)"
    using udp_datagram_ok [OF assms] by (simp add: constructUDPFrame_def checksums_ok_frame)
  have "sums_to_ones ([8, 0] @ put16 (xdpChecksum ([8, 0] @ put16 0 @ put16 ident @ put16 seqid)) @ put16 ident @ put16 seqid)"
    by (rule checksum_fills) (simp_all add: put16_zero)
  then show "checksums_ok 1 s d (constructICMPEchoFrame sm dm s d ident seqid)"
    unfolding constructICMPEchoFrame_def Let_def by (intro checksums_ok_frame) simp
qed

theorem frames_have_valid_checksums_witness:
  "checksums_ok 17 [10, 0, 0, 1] [10, 0, 0, 2]
     (constructUDPFrame [] [1, 2, 3, 4, 5, 6] [10, 0, 0, 1] [10, 0, 0, 2] 54321 53 [0xDB, 0x42, 0x01])"
  using frames_have_valid_checksums [of "[0xDB, 0x42, 0x01]"] by simp

subsection \<open>Handling a frame\<close>

lemma slice_at [simp]: "i \<le> j \<Longrightarrow> j \<le> length xs \<Longrightarrow> slice xs i j = Some (take (j - i) (drop i xs))"
  by (simp add: slice_def)

lemma get_at_at [simp]: "i < length xs \<Longrightarrow> get_at xs i = Some (xs ! i)"
  by (simp add: get_at_def)

text \<open>The SYN/ACK branch, and what makes it panic.\<close>

definition panicking_synack :: "bytes \<Rightarrow> bool" where
  "panicking_synack frame =
     (34 \<le> length frame \<and> get16 (take 2 (drop 12 frame)) = 0x0800 \<and> frame ! 23 = 6
      \<and> (let tcpStart = 14 + header_len (frame ! 14) in
           tcpStart + 16 \<le> length frame \<and> frame ! (tcpStart + 13) AND 0x12 = 0x12
           \<and> data_offset (frame ! (tcpStart + 12)) < 20
           \<and> tcpStart + data_offset (frame ! (tcpStart + 12)) \<le> length frame))"

lemma handle_tcp_panics:
  assumes "ipStart + 20 \<le> length frame"
  shows "handle_tcp frame ipStart t srcIP = None \<longleftrightarrow>
    t + 16 \<le> length frame \<and> frame ! (t + 13) AND 0x12 = 0x12
    \<and> data_offset (frame ! (t + 12)) < 20 \<and> t + data_offset (frame ! (t + 12)) \<le> length frame"
proof (cases "length frame < t + 14 \<or> frame ! (t + 13) AND 0x12 \<noteq> 0x12")
  case True
  then show ?thesis by (auto simp: handle_tcp_def Let_def split: if_splits)
next
  case False
  obtain b where b: "HasTCPOptionKind frame ipStart t mpCapableKind = Some b"
    using HasTCPOptionKind_total by blast
  obtain os where os: "ClassifyOS frame ipStart t = Some os" using ClassifyOS_total by blast
  have "handle_tcp frame ipStart t srcIP = None \<longleftrightarrow> GenerateSignature frame ipStart t = None"
    using False assms by (auto simp: handle_tcp_def b os Let_def split: prod.split bind_splits)
  then show ?thesis using False assms by (simp add: GenerateSignature_panics)
qed

lemma handle_udp_total: "\<exists>r. handle_udp frame start srcIP = Some r"
  by (simp add: handle_udp_def)

lemma handle_icmp_total: "\<exists>r. handle_icmp frame start srcIP = Some r"
  by (auto simp: handle_icmp_def Let_def)

lemma handleXDPFrame_cases:
  assumes "34 \<le> length frame" and "get16 (take 2 (drop 12 frame)) = 0x0800"
  shows "handleXDPFrame frame =
    (let start = 14 + header_len (frame ! 14); srcIP = take 4 (drop 26 frame) in
     if frame ! 23 = 6 then handle_tcp frame 14 start srcIP
     else if frame ! 23 = 17 then handle_udp frame start srcIP
     else if frame ! 23 = 1 then handle_icmp frame start srcIP
     else Some [])"
  using assms by (simp add: handleXDPFrame_def Let_def)

lemma handleXDPFrame_ignores:
  assumes "\<not> (34 \<le> length frame \<and> get16 (take 2 (drop 12 frame)) = 0x0800)"
  shows "handleXDPFrame frame \<noteq> None"
  using assms by (auto simp: handleXDPFrame_def Let_def)

lemma handleXDPFrame_panics:
  "handleXDPFrame frame = None \<longleftrightarrow> panicking_synack frame"
proof (cases "34 \<le> length frame \<and> get16 (take 2 (drop 12 frame)) = 0x0800")
  case True
  then show ?thesis
    by (simp add: handleXDPFrame_cases handle_tcp_panics handle_udp_total handle_icmp_total panicking_synack_def Let_def)
next
  case False
  then show ?thesis using handleXDPFrame_ignores [OF False] by (auto simp: panicking_synack_def)
qed

text \<open>A frame as its parts: the Ethernet header, the IP header and the rest.\<close>

lemma ip4_fields_parts:
  "ip4_fields len i p cs s d ! 0 = 0x45" "ip4_fields len i p cs s d ! 9 = p"
  "take 2 (drop 4 (ip4_fields len i p cs s d)) = put16 i" "ip4_fields len i p cs s d ! 8 = 64"
  "take 4 (drop 12 (ip4_fields len i p cs s d)) = addr4 s" "take 4 (drop 16 (ip4_fields len i p cs s d)) = addr4 d"
  by (simp_all add: ip4_fields_def put16_def)

lemma ethernet_type: "drop 12 (ethernet sm dm) = put16 0x0800"
  by (simp add: ethernet_def)

lemma frame_parts:
  fixes seg :: bytes
  assumes "frame = ethernet sm dm @ xdp_ip_header len i p s d @ seg"
  shows "length frame = 34 + length seg" "get16 (take 2 (drop 12 frame)) = 0x0800"
    "frame ! 14 = 0x45" "frame ! 23 = p" "take 4 (drop 26 frame) = addr4 s" "take 4 (drop 30 frame) = addr4 d"
    "drop (34 + j) frame = drop j seg" "frame ! (34 + j) = seg ! j"
  using ip4_fields_parts [of "of_nat len" i p _ s d]
  by (simp_all add: assms xdp_ip_header_def nth_append ethernet_type)

lemma header_len_45 [simp]: "header_len 0x45 = 20"
  by (simp add: header_len_def)

lemma tcp_segment_parts:
  "take 2 (tcp_segment s d sp dp sn an off fl w opts) = put16 sp"
  "tcp_segment s d sp dp sn an off fl w opts ! 12 = off"
  "tcp_segment s d sp dp sn an off fl w opts ! 13 = fl"
  "drop 20 (tcp_segment s d sp dp sn an off fl w opts) = opts"
  by (simp_all add: tcp_segment_def tcp_fields_def Let_def nth_append)

lemma udp_datagram_parts:
  "take 2 (udp_datagram s d sp dp payload) = put16 sp" 
  "take 2 (drop 2 (udp_datagram s d sp dp payload)) = put16 dp"
  by (simp_all add: udp_datagram_def Let_def)

text \<open>C10: handling a received frame is safe except for one shape of frame: an IPv4 TCP
  segment with SYN and ACK set whose data offset announces fewer than 20 bytes.  That
  frame, and no other, makes the handler panic; nothing on the receive path recovers, so
  a single such reply ends the scanner.  Any host that is probed can send one.\<close>

theorem handleXDPFrame_panics_iff:
  "(handleXDPFrame frame = None \<longleftrightarrow> panicking_synack frame)
   \<and> handleXDPFrame (ethernet tm sm @ xdp_ip_header 40 ident 6 target our
         @ tcp_segment target our port sport seqno ackno 0x40 0x12 win []) = None"
proof
  show "handleXDPFrame frame = None \<longleftrightarrow> panicking_synack frame" by (rule handleXDPFrame_panics)
  define f where "f = ethernet tm sm @ xdp_ip_header 40 ident 6 target our
      @ tcp_segment target our port sport seqno ackno 0x40 0x12 win []"
  note parts = frame_parts [OF f_def]
  have "panicking_synack f"
    using parts(8) [where j = 12] parts(8) [where j = 13]
    by (simp add: panicking_synack_def parts tcp_segment_parts data_offset_def Let_def)
  then show "handleXDPFrame (ethernet tm sm @ xdp_ip_header 40 ident 6 target our
      @ tcp_segment target our port sport seqno ackno 0x40 0x12 win []) = None"
    by (simp only: handleXDPFrame_panics f_def)
qed



subsection \<open>Raw probes\<close>

lemma constructIPv4Header_Some:
  "constructIPv4Header s d p n = Some (ip4_fields (20 + n) 0 p (xdpChecksum (ip4_fields (20 + n) 0 p 0 s d)) s d)"
  by (simp add: constructIPv4Header_def calcIPChecksum_def)

lemma length_probe_header: "length (probe_header s flags millis nanos) =
    (if flags = 0x02 then if rs_mptcp s then 52 else 40 else 20)"
  using length_syn_options [of "rs_mptcp s" millis nanos]
  by (auto simp: probe_header_def Let_def split: prod.split if_splits)

text \<open>The raw receive loop survives every packet.\<close>

lemma rawRxParse_total: "\<exists>r. rawRxParse buf ipOffset = Some r"
  by (auto simp: rawRxParse_def Let_def)

lemma rawRxStep_total: "\<exists>r. rawRxStep received = Some r"
proof -
  define buf where "buf = take 1024 received"
  have "length buf < 40 \<or> 4 < length buf" by linarith
  then show ?thesis using rawRxParse_total
    by (auto simp: rawRxStep_def Let_def simp flip: buf_def simp del: get_at_at simp add: get_at_def)
qed

lemma rawRxStep_packet:
  assumes p: "packet = ip4_fields len ident pr cs s d @ seg" and "20 \<le> length seg" and "length seg \<le> 1004"
  shows "rawRxStep packet = Some (Some (rawRxKey (addr4 s) (int (unat (get16 (take 2 seg))))
      (int (unat (get16 (take 2 (drop 2 seg))))),
      \<lparr>pkt_Flags = seg ! 13, pkt_WindowSize = get16 (take 2 (drop 14 seg)), pkt_IPID = ident,
       pkt_Frame = packet, pkt_IPStart = 0, pkt_TCPStart = 20\<rparr>))"
proof -
  note ip = ip4_fields_parts [of len ident pr cs s d]
  have parts: "length packet = 20 + length seg" "packet ! 0 = 0x45" "take 2 (drop 4 packet) = put16 ident"
      "take 4 (drop 12 packet) = addr4 s" "take 2 (drop 20 packet) = take 2 seg"
      "take 2 (drop 22 packet) = take 2 (drop 2 seg)" "packet ! 33 = seg ! 13"
      "take 2 (drop 34 packet) = take 2 (drop 14 seg)"
    using ip by (simp_all add: p nth_append)
  have "take 1024 packet = packet" using assms parts(1) by simp
  then show ?thesis using assms(2) by (simp add: rawRxStep_def rawRxParse_def parts Let_def)
qed

lemma tcp_fields_parts:
  "take 2 (tcp_fields sp dp sn an off fl w cs opts) = put16 sp"
  "take 2 (drop 2 (tcp_fields sp dp sn an off fl w cs opts)) = put16 dp"
  "tcp_fields sp dp sn an off fl w cs opts ! 12 = off"
  "tcp_fields sp dp sn an off fl w cs opts ! 13 = fl"
  "take 2 (drop 14 (tcp_fields sp dp sn an off fl w cs opts)) = put16 w"
  "drop 20 (tcp_fields sp dp sn an off fl w cs opts) = opts"
  by (simp_all add: tcp_fields_def nth_append)

lemma probe_options_le:
  assumes "(off, opts) = (if syn then syn_options mptcp millis nanos else (0x50, []))"
  shows "length opts \<le> 32"
proof -
  have "opts = snd (if syn then syn_options mptcp millis nanos else (0x50, []))"
    using assms by (metis snd_conv)
  then show ?thesis by (simp add: length_syn_options)
qed

lemma probe_header_fields:
  obtains off opts cs where
    "probe_header s flags millis nanos
       = tcp_fields (of_int (rs_srcPort s)) (of_int (rs_dstPort s)) 1 1 off flags 65535 cs opts"
    "(off, opts) = (if flags = 0x02 then syn_options (rs_mptcp s) millis nanos else (0x50, []))"
    "sums_to_ones (pseudoHeader 6 (rs_srcIP s) (rs_dstIP s) (20 + length opts) @ probe_header s flags millis nanos)"
proof -
  obtain off opts where o: "(off, opts) = (if flags = 0x02 then syn_options (rs_mptcp s) millis nanos else (0x50, []))"
    by (metis surj_pair)
  then have len: "length opts \<le> 65000" using probe_options_le by fastforce
  let ?h = "\<lambda>cs. tcp_fields (of_int (rs_srcPort s)) (of_int (rs_dstPort s)) 1 1 off flags 65535 cs opts"
  have h: "probe_header s flags millis nanos = ?h (calcTCPChecksum (rs_srcIP s) (rs_dstIP s) (?h 0))"
    unfolding probe_header_def o [symmetric] by (simp add: Let_def)
  show thesis
    by (rule that [OF h o]) (simp add: h calcTCPChecksum_def tcp_fields_ok [OF len])
qed

lemma uint_port: "0 \<le> p \<Longrightarrow> p \<le> 65535 \<Longrightarrow> uint (word_of_int p :: u16) = p"
  by (simp add: uint_word_of_int)

text \<open>C12: the two halves of the raw-socket path fit together.  A TCP packet a host sends
  with the scanner's own \<open>Send\<close> (no relay), whatever its flags and options, has valid
  checksums, and the receive loop reads back the key of exactly that address and pair of
  ports, its flags and its window.\<close>

theorem raw_packet_recognised:
  assumes "length (rs_srcIP s) = 4" and "rs_relayIP s = None"
    and "rs_srcPort s \<in> {0..65535}" and "rs_dstPort s \<in> {0..65535}"
  shows "\<exists>packet pkt. Send localIP s flags millis nanos = Some packet
    \<and> rawRxStep packet = Some (Some (rawRxKey (rs_srcIP s) (rs_srcPort s) (rs_dstPort s), pkt))
    \<and> pkt_Flags pkt = flags \<and> pkt_WindowSize pkt = 65535 \<and> pkt_Frame pkt = packet
    \<and> sums_to_ones (take 20 packet)
    \<and> sums_to_ones (pseudoHeader 6 (rs_srcIP s) (rs_dstIP s) (length packet - 20) @ drop 20 packet)"
proof -
  obtain off opts cs where h: "probe_header s flags millis nanos
       = tcp_fields (of_int (rs_srcPort s)) (of_int (rs_dstPort s)) 1 1 off flags 65535 cs opts"
    "(off, opts) = (if flags = 0x02 then syn_options (rs_mptcp s) millis nanos else (0x50, []))"
    "sums_to_ones (pseudoHeader 6 (rs_srcIP s) (rs_dstIP s) (20 + length opts) @ probe_header s flags millis nanos)"
    by (rule probe_header_fields)
  have opts: "length opts \<le> 32" using h(2) by (rule probe_options_le)
  define n where "n = (of_nat (length (probe_header s flags millis nanos)) :: u16)"
  define ipcs where "ipcs = xdpChecksum (ip4_fields (20 + n) 0 6 0 (rs_srcIP s) (rs_dstIP s))"
  define packet where "packet = ip4_fields (20 + n) 0 6 ipcs (rs_srcIP s) (rs_dstIP s) @ probe_header s flags millis nanos"
  have send: "Send localIP s flags millis nanos = Some packet"
    using assms(2) by (simp add: Send_def Let_def constructIPv4Header_Some packet_def n_def ipcs_def)
  have rx: "rawRxStep packet = Some (Some (rawRxKey (rs_srcIP s) (rs_srcPort s) (rs_dstPort s),
      \<lparr>pkt_Flags = flags, pkt_WindowSize = 65535, pkt_IPID = 0, pkt_Frame = packet, pkt_IPStart = 0, pkt_TCPStart = 20\<rparr>))"
    using rawRxStep_packet [OF packet_def] assms opts
    by (simp add: h(1) tcp_fields_parts uint_port)
  have "sums_to_ones (take 20 packet)" by (simp add: packet_def ipcs_def ip4_fields_ok)
  moreover have "sums_to_ones (pseudoHeader 6 (rs_srcIP s) (rs_dstIP s) (length packet - 20) @ drop 20 packet)"
    using h(3) by (simp add: packet_def h(1))
  ultimately show ?thesis using send rx by (intro exI [of _ packet]) simp
qed

theorem raw_packet_recognised_witness:
  "\<exists>packet pkt. Send [10, 0, 0, 1] \<lparr>rs_srcIP = [10, 0, 0, 2], rs_dstIP = [10, 0, 0, 1], rs_srcPort = 80,
       rs_dstPort = 99, rs_relayIP = None, rs_mptcp = False\<rparr> 0x14 0 0 = Some packet
    \<and> rawRxStep packet = Some (Some (''10.0.0.2|80|99'', pkt)) \<and> pkt_Flags pkt = 0x14"
proof -
  have key: "rawRxKey [10, 0, 0, 2] 80 99 = ''10.0.0.2|80|99''" by code_simp
  show ?thesis
    using raw_packet_recognised [of "\<lparr>rs_srcIP = [10, 0, 0, 2], rs_dstIP = [10, 0, 0, 1], rs_srcPort = 80,
       rs_dstPort = 99, rs_relayIP = None, rs_mptcp = False\<rparr>" "[10, 0, 0, 1]" "0x14" 0 0]
    by (simp add: key) blast
qed

subsection \<open>The stack the probes imitate\<close>

lemma put32_bytes: "\<exists>a b c d. put32 w = [a, b, c, d]"
  by (simp add: put32_def)

lemma put64_bytes: "\<exists>a b c d e f g h. put64 w = [a, b, c, d, e, f, g, h]"
  by (simp add: put64_def put32_def)

lemma sig_walk_syn:
  "sig_walk (snd (syn_options mptcp millis nanos)) s =
     s\<lparr>sig_MSS := 1460, sig_WScale := 7, sig_SACKPerm := True, sig_TSPerm := True,
       sig_NOPCount := sig_NOPCount s + 1,
       sig_OptOrder := sig_OptOrder s @ [2, 4, 8, 1, 3] @ (if mptcp then [30] else [])\<rparr>"
proof -
  obtain a b c d where ts: "put32 millis = [a, b, c, d]" using put32_bytes by blast
  obtain e f g h i j k l where ky: "put64 nanos = [e, f, g, h, i, j, k, l]" using put64_bytes by blast
  show ?thesis
    by (simp add: syn_options_def writeSYNOptions_def writeSYNOptionsMPTCP_def ts ky synOptions_def mpCapableOption_def
        tsvalOffset_def put_def sig_walk.simps note_option_def get16_def int8_def Let_def)
qed

lemma syn_options_offset:
  "(off, opts) = syn_options mptcp millis nanos \<Longrightarrow> data_offset off = 20 + length opts"
  using length_syn_options [of mptcp millis nanos]
  by (cases mptcp) (auto simp: syn_options_def synDataOffset_def synMPTCPDataOffset_def syn_lengths data_offset_def
      drop_bit_eq_div split: if_splits)

lemma parse_syn_packet:
  assumes pkt: "pkt = ip4_fields len ident 6 ipcs s d @ tcp_fields sp dp sn an off 0x02 w cs opts"
    and o: "(off, opts) = syn_options mptcp millis nanos"
  shows "ParseTCPSignature pkt 0 20 = Some
      (\<lparr>sig_TTL = 64, sig_Window = w, sig_MSS = 1460, sig_WScale = 7, sig_SACKPerm = True, sig_TSPerm = True,
        sig_NOPCount = 1, sig_OptOrder = [2, 4, 8, 1, 3] @ (if mptcp then [30] else [])\<rparr>, True)"
proof -
  note ip = ip4_fields_parts and tcp = tcp_fields_parts
  have opts: "opts = snd (syn_options mptcp millis nanos)" using o by (metis snd_conv)
  have parts: "length pkt = 40 + length opts" "pkt ! 8 = 64" "take 2 (drop 34 pkt) = put16 w" "pkt ! 32 = off"
      "drop 40 pkt = opts"
    using ip tcp by (simp_all add: pkt nth_append)
  show ?thesis
    using sig_walk_syn [of mptcp millis nanos] syn_options_offset [OF o]
    by (simp add: ParseTCPSignature_def parts empty_sig_def opts Let_def)
qed

lemma Match_linux:
  "Match \<lparr>sig_TTL = 64, sig_Window = w, sig_MSS = 1460, sig_WScale = 7, sig_SACKPerm = True, sig_TSPerm = True,
     sig_NOPCount = 1, sig_OptOrder = [2, 4, 8, 1, 3] @ (if mptcp then [30] else [])\<rparr> = (''Linux 3.x-6.x'', 9 / 10)"
  by (cases mptcp)
    (simp_all add: Match_def KnownFingerprints_def match_eval del: lcs_row.simps(1) best_match.simps(2))

text \<open>A SYN the raw path sends looks like the SYN of a modern Linux host to the
  scanner's own classifier: its options parse as MSS 1460, SACK, timestamps, NOP and
  window scale 7 (and MP_CAPABLE exactly when asked for), and the match is the first
  entry of the table with the highest confidence it gives.\<close>

theorem own_syn_looks_like_linux:
  assumes "rs_relayIP s = None"
  shows "\<exists>packet sg. Send localIP s 0x02 millis nanos = Some packet
    \<and> ParseTCPSignature packet 0 20 = Some (sg, True) \<and> sig_TTL sg = 64 \<and> sig_MSS sg = 1460 \<and> sig_WScale sg = 7
    \<and> sig_OptOrder sg = [2, 4, 8, 1, 3] @ (if rs_mptcp s then [mpCapableKind] else [])
    \<and> ClassifyOS packet 0 20 = Some (''Linux 3.x-6.x'', 9 / 10)"
proof -
  obtain off opts cs where h: "probe_header s 0x02 millis nanos
       = tcp_fields (of_int (rs_srcPort s)) (of_int (rs_dstPort s)) 1 1 off 0x02 65535 cs opts"
    "(off, opts) = syn_options (rs_mptcp s) millis nanos"
    using probe_header_fields [of s "0x02" millis nanos] by (metis (full_types))
  define n where "n = (of_nat (length (probe_header s 0x02 millis nanos)) :: u16)"
  define ipcs where "ipcs = xdpChecksum (ip4_fields (20 + n) 0 6 0 (rs_srcIP s) (rs_dstIP s))"
  define packet where "packet = ip4_fields (20 + n) 0 6 ipcs (rs_srcIP s) (rs_dstIP s) @ probe_header s 0x02 millis nanos"
  have "Send localIP s 0x02 millis nanos = Some packet"
    using assms by (simp add: Send_def Let_def constructIPv4Header_Some packet_def n_def ipcs_def)
  moreover note parsed = parse_syn_packet [OF packet_def [unfolded h(1)] h(2)]
  moreover have "ClassifyOS packet 0 20 = Some (''Linux 3.x-6.x'', 9 / 10)"
    using Match_linux [of 65535 True] Match_linux [of 65535 False] by (simp add: ClassifyOS_def parsed)
  ultimately show ?thesis by (intro exI [of _ packet]) (simp add: mpCapableKind_def)
qed

theorem own_syn_looks_like_linux_witness:
  "\<exists>packet. Send [10, 0, 0, 1] \<lparr>rs_srcIP = [10, 0, 0, 1], rs_dstIP = [10, 0, 0, 2], rs_srcPort = 54321,
       rs_dstPort = 443, rs_relayIP = None, rs_mptcp = True\<rparr> 0x02 7 9 = Some packet
    \<and> ClassifyOS packet 0 20 = Some (''Linux 3.x-6.x'', 9 / 10)"
  using own_syn_looks_like_linux [of "\<lparr>rs_srcIP = [10, 0, 0, 1], rs_dstIP = [10, 0, 0, 2], rs_srcPort = 54321,
       rs_dstPort = 443, rs_relayIP = None, rs_mptcp = True\<rparr>" "[10, 0, 0, 1]" 7 9]
  by simp blast

end
