(* ===== verification/Waiters.thy ===== *)
theory Waiters
  imports Frames RateControl
begin

text \<open>
  How replies find their probe: the \<open>sync.Map\<close> from keys to one-slot channels that the
  raw-socket path (\<open>rawRxWaiters\<close> in \<open>raw_tcp.go\<close>) and the AF_XDP path (\<open>xdpWaiters\<close> in
  \<open>xdp_waiters.go\<close>) share between the scanning goroutines and their receive loop.
  Every map operation is atomic, so what concurrent probes can do is any sequence of
  the events below.  A channel is identified by a number; its slot holds at most one
  reply.  The locale states what both paths rely on and proves when a reply arrives.
\<close>

subsection \<open>The interface\<close>

datatype ('k, 'p) router_event =
  EvRegister 'k nat     \<comment> \<open>store a fresh channel under the key\<close>
| EvRelease 'k          \<comment> \<open>delete the key\<close>
| EvDeliver 'k 'p       \<comment> \<open>the receive loop looks the key up and sends\<close>
| EvDrain nat           \<comment> \<open>the prober takes or discards what its channel holds\<close>

fun touches_key :: "'k \<Rightarrow> ('k, 'p) router_event \<Rightarrow> bool" where
  "touches_key k (EvRegister k' c) = (k' = k)"
| "touches_key k (EvRelease k') = (k' = k)"
| "touches_key k (EvDeliver k' p) = (k' = k)"
| "touches_key k (EvDrain c) = False"

fun touches_chan :: "nat \<Rightarrow> ('k, 'p) router_event \<Rightarrow> bool" where
  "touches_chan c (EvRegister k c') = (c' = c)"
| "touches_chan c (EvRelease k) = False"
| "touches_chan c (EvDeliver k p) = False"
| "touches_chan c (EvDrain c') = (c' = c)"

text \<open>The channel a key stands for after a history, whatever the state before it.\<close>

fun last_owner :: "'k \<Rightarrow> ('k, 'p) router_event list \<Rightarrow> nat option \<Rightarrow> nat option" where
  "last_owner k [] own = own"
| "last_owner k (EvRegister k' c # es) own = last_owner k es (if k' = k then Some c else own)"
| "last_owner k (EvRelease k' # es) own = last_owner k es (if k' = k then None else own)"
| "last_owner k (e # es) own = last_owner k es own"

locale reply_router =
  fixes register :: "'k \<Rightarrow> nat \<Rightarrow> 's \<Rightarrow> 's"
    and release :: "'k \<Rightarrow> 's \<Rightarrow> 's"
    and deliver :: "'k \<Rightarrow> 'p \<Rightarrow> 's \<Rightarrow> 's"
    and drain_chan :: "nat \<Rightarrow> 's \<Rightarrow> 's"
    and owner :: "'s \<Rightarrow> 'k \<Rightarrow> nat option"
    and inbox :: "'s \<Rightarrow> nat \<Rightarrow> 'p option"
  assumes owner_register: "owner (register k c s) = (owner s)(k \<mapsto> c)"
    and owner_release: "owner (release k s) = (owner s)(k := None)"
    and owner_deliver: "owner (deliver k p s) = owner s"
    and owner_drain: "owner (drain_chan c s) = owner s"
    and inbox_register: "inbox (register k c s) = (inbox s)(c := None)"
    and inbox_release: "inbox (release k s) = inbox s"
    and inbox_deliver: "inbox (deliver k p s) = (case owner s k of
          None \<Rightarrow> inbox s
        | Some c \<Rightarrow> if inbox s c = None then (inbox s)(c \<mapsto> p) else inbox s)"
    and inbox_drain: "inbox (drain_chan c s) = (inbox s)(c := None)"
begin

lemmas laws = owner_register owner_release owner_deliver owner_drain
  inbox_register inbox_release inbox_deliver inbox_drain

fun step :: "('k, 'p) router_event \<Rightarrow> 's \<Rightarrow> 's" where
  "step (EvRegister k c) s = register k c s"
| "step (EvRelease k) s = release k s"
| "step (EvDeliver k p) s = deliver k p s"
| "step (EvDrain c) s = drain_chan c s"

definition run :: "('k, 'p) router_event list \<Rightarrow> 's \<Rightarrow> 's" where
  "run es s = fold step es s"

lemma run_simps [simp]: "run [] s = s" "run (e # es) s = run es (step e s)" "run (es @ fs) s = run fs (run es s)"
  by (simp_all add: run_def)

lemma owner_run: "owner (run es s) k = last_owner k es (owner s k)"
proof (induction es arbitrary: s)
  case (Cons e es)
  then show ?case by (cases e) (auto simp: laws)
qed simp

lemma owner_unchanged: "list_all (\<lambda>e. \<not> touches_key k e) es \<Longrightarrow> owner (run es s) k = owner s k"
proof (induction es arbitrary: s)
  case (Cons e es)
  then show ?case by (cases e) (auto simp: laws)
qed simp

text \<open>A channel that no key stands for is only changed by its own prober.\<close>

lemma private_chan:
  "list_all (\<lambda>e. \<not> touches_chan c e) es \<Longrightarrow> c \<notin> ran (owner s) \<Longrightarrow>
   inbox (run es s) c = inbox s c \<and> c \<notin> ran (owner (run es s))"
proof (induction es arbitrary: s)
  case (Cons e es)
  have "c \<notin> ran (owner (step e s)) \<and> inbox (step e s) c = inbox s c"
    using Cons.prems by (cases e) (auto simp: laws ran_def split: option.split)
  then show ?case using Cons by simp
qed simp

text \<open>A full slot keeps its reply until its prober takes it.\<close>

lemma full_slot_kept:
  "list_all (\<lambda>e. \<not> touches_chan c e) es \<Longrightarrow> inbox s c = Some p \<Longrightarrow> inbox (run es s) c = Some p"
proof (induction es arbitrary: s)
  case (Cons e es)
  have "inbox (step e s) c = Some p"
    using Cons.prems by (cases e) (auto simp: laws split: option.split)
  then show ?case using Cons by simp
qed simp

text \<open>An empty slot that only the key \<open>k\<close> feeds stays empty while nothing touches \<open>k\<close>.\<close>

lemma empty_slot_kept:
  "list_all (\<lambda>e. \<not> touches_chan c e \<and> \<not> touches_key k e) es \<Longrightarrow> inbox s c = None \<Longrightarrow>
   (\<forall>k'. owner s k' = Some c \<longrightarrow> k' = k) \<Longrightarrow>
   inbox (run es s) c = None \<and> (\<forall>k'. owner (run es s) k' = Some c \<longrightarrow> k' = k)"
proof (induction es arbitrary: s)
  case (Cons e es)
  have "inbox (step e s) c = None \<and> (\<forall>k'. owner (step e s) k' = Some c \<longrightarrow> k' = k)"
    using Cons.prems by (cases e) (auto simp: laws split: option.split)
  then show ?case using Cons.IH [of "step e s"] Cons.prems(1) by simp
qed simp

theorem reply_arrives:
  assumes "c \<notin> ran (owner s)"
    and "list_all (\<lambda>e. \<not> touches_chan c e \<and> \<not> touches_key k e) before"
    and "list_all (\<lambda>e. \<not> touches_chan c e) after"
  shows "inbox (run (EvRegister k c # before @ EvDeliver k p # after) s) c = Some p"
proof -
  let ?s0 = "register k c s"
  have own: "\<forall>k'. owner ?s0 k' = Some c \<longrightarrow> k' = k" using assms(1) by (auto simp: laws ran_def)
  have empty: "inbox (run before ?s0) c = None"
    using empty_slot_kept [OF assms(2) _ own] by (simp add: laws)
  have "owner (run before ?s0) k = Some c"
    using owner_unchanged [of k before ?s0] assms(2) by (simp add: laws list_all_iff)
  then have "inbox (deliver k p (run before ?s0)) c = Some p" by (simp add: laws empty)
  then show ?thesis using full_slot_kept [OF assms(3)] by simp
qed

text \<open>A reply whose key stands for another channel, or none, never reaches the prober.\<close>

theorem reply_misses:
  assumes "c \<notin> ran (owner s)" and "list_all (\<lambda>e. \<not> touches_chan c e) after"
  shows "inbox (run (EvDeliver k p # after) s) c = inbox s c"
  using private_chan [OF assms(2)] assms(1) by (auto simp: laws ran_def split: option.split)

text \<open>Once a key's channel is forgotten, nothing that happens later fills it.\<close>

theorem reply_after_release:
  assumes "c \<notin> ran (owner s)"
    and "list_all (\<lambda>e. \<not> touches_chan c e \<and> \<not> touches_key k e) before"
    and "list_all (\<lambda>e. \<not> touches_chan c e) later"
  shows "inbox (run (EvRegister k c # before @ EvRelease k # later) s) c = None"
proof -
  let ?s0 = "register k c s"
  have own: "\<forall>k'. owner ?s0 k' = Some c \<longrightarrow> k' = k" using assms(1) by (auto simp: laws ran_def)
  have "inbox (run before ?s0) c = None" and "\<forall>k'. owner (run before ?s0) k' = Some c \<longrightarrow> k' = k"
    using empty_slot_kept [OF assms(2) _ own] by (simp_all add: laws)
  moreover from this have "c \<notin> ran (owner (release k (run before ?s0)))" by (auto simp: laws ran_def)
  ultimately show ?thesis using private_chan [OF assms(3), of "release k (run before ?s0)"] by (simp add: laws)
qed

end

subsection \<open>The map of the two receive paths\<close>

record ('k, 'p) rx_map =
  rx_waiters :: "'k \<rightharpoonup> nat"
  rx_slots :: "nat \<Rightarrow> 'p option"

definition no_waiters :: "('k, 'p) rx_map" where
  "no_waiters = \<lparr>rx_waiters = Map.empty, rx_slots = (\<lambda>_. None)\<rparr>"

text \<open>\<open>registerXDPWaiter\<close>: \<open>make(chan, 1)\<close> stored under the key; its clean-up deletes the key.\<close>

definition registerXDPWaiter :: "'k \<Rightarrow> nat \<Rightarrow> ('k, 'p) rx_map \<Rightarrow> ('k, 'p) rx_map" where
  "registerXDPWaiter key ch m = m\<lparr>rx_waiters := (rx_waiters m)(key \<mapsto> ch), rx_slots := (rx_slots m)(ch := None)\<rparr>"

definition releaseXDPWaiter :: "'k \<Rightarrow> ('k, 'p) rx_map \<Rightarrow> ('k, 'p) rx_map" where
  "releaseXDPWaiter key m = m\<lparr>rx_waiters := (rx_waiters m)(key := None)\<rparr>"

definition deliverXDPResult :: "'k \<Rightarrow> 'p \<Rightarrow> ('k, 'p) rx_map \<Rightarrow> ('k, 'p) rx_map" where
  "deliverXDPResult key resp m =
     (case rx_waiters m key of
        None \<Rightarrow> m
      | Some ch \<Rightarrow> (if rx_slots m ch = None then m\<lparr>rx_slots := (rx_slots m)(ch \<mapsto> resp)\<rparr> else m))"

definition drain_slot :: "nat \<Rightarrow> ('k, 'p) rx_map \<Rightarrow> ('k, 'p) rx_map" where
  "drain_slot ch m = m\<lparr>rx_slots := (rx_slots m)(ch := None)\<rparr>"

text \<open>The frame handler's actions on the map; marking a host alive or sending a RST is not
  its business.\<close>

fun apply_rx_action :: "rx_action \<Rightarrow> (string, xdpResponse) rx_map \<Rightarrow> (string, xdpResponse) rx_map" where
  "apply_rx_action (Deliver key resp) m = deliverXDPResult key resp m"
| "apply_rx_action _ m = m"

text \<open>The raw path: what \<open>newRawTCPScanner\<close> stores, \<open>Close\<close> deletes, and the receive loop
  does with one packet.\<close>

definition storeRawWaiter :: "string \<Rightarrow> nat \<Rightarrow> (string, rawTCPPacket) rx_map \<Rightarrow> (string, rawTCPPacket) rx_map" where
  "storeRawWaiter = registerXDPWaiter"

definition closeRawScanner :: "string \<Rightarrow> (string, rawTCPPacket) rx_map \<Rightarrow> (string, rawTCPPacket) rx_map" where
  "closeRawScanner = releaseXDPWaiter"

definition rawRxDeliver :: "string \<Rightarrow> rawTCPPacket \<Rightarrow> (string, rawTCPPacket) rx_map \<Rightarrow> (string, rawTCPPacket) rx_map" where
  "rawRxDeliver = deliverXDPResult"

definition rawRxLoop_iter :: "bytes \<Rightarrow> (string, rawTCPPacket) rx_map \<Rightarrow> (string, rawTCPPacket) rx_map option" where
  "rawRxLoop_iter received m =
     map_option (\<lambda>r. case r of None \<Rightarrow> m | Some (key, pkt) \<Rightarrow> rawRxDeliver key pkt m) (rawRxStep received)"

lemma rx_map_router:
  "reply_router registerXDPWaiter releaseXDPWaiter deliverXDPResult drain_slot rx_waiters rx_slots"
  by unfold_locales
    (simp_all add: registerXDPWaiter_def releaseXDPWaiter_def deliverXDPResult_def drain_slot_def split: option.split)

interpretation xdp: reply_router
  registerXDPWaiter releaseXDPWaiter deliverXDPResult drain_slot rx_waiters rx_slots
  by (rule rx_map_router)

interpretation raw: reply_router storeRawWaiter closeRawScanner rawRxDeliver drain_slot rx_waiters rx_slots
  unfolding storeRawWaiter_def closeRawScanner_def rawRxDeliver_def by (rule rx_map_router)

subsection \<open>Opening a raw scanner\<close>

datatype scanner_error = OnlyIPv4 | InvalidIP string | ReceiveSocket string | SendSocket string

text \<open>What opening a scanner finds in the system: whether the shared receive socket and a
  send socket open, the local address, and the address of a named interface.\<close>

record raw_system =
  sys_rxErr :: "string option"
  sys_txErr :: "string option"
  sys_localIPv4 :: ip
  sys_ifaceIP :: "string \<Rightarrow> ip option"

definition newRawTCPScanner ::
  "raw_system \<Rightarrow> string \<Rightarrow> int \<Rightarrow> Options \<Rightarrow> ip option \<Rightarrow> scanner_error + rawTCPScanner \<times> string" where
  "newRawTCPScanner sys targetIP port opts spoofedSrcIP =
     (case Option.bind (parse_ip targetIP) to4 of
        None \<Rightarrow> Inl (if parse_ip targetIP \<noteq> None then OnlyIPv4 else InvalidIP targetIP)
      | Some dstIP \<Rightarrow>
          (case sys_rxErr sys of
             Some e \<Rightarrow> Inl (ReceiveSocket e)
           | None \<Rightarrow>
               (let ifaceName = Interface opts;
                    srcIP0 = (if ifaceName \<noteq> []
                              then (case sys_ifaceIP sys ifaceName of Some a \<Rightarrow> a | None \<Rightarrow> sys_localIPv4 sys)
                              else sys_localIPv4 sys);
                    srcIP = (case spoofedSrcIP of
                               Some a \<Rightarrow> (case to4 a of Some b \<Rightarrow> b | None \<Rightarrow> [])
                             | None \<Rightarrow> srcIP0)
                in case sys_txErr sys of
                     Some e \<Rightarrow> Inl (SendSocket e)
                   | None \<Rightarrow>
                       (let srcPort = (if SourcePort opts > 0 then SourcePort opts else 54321)
                        in Inr (\<lparr>rs_srcIP = srcIP, rs_dstIP = dstIP, rs_srcPort = srcPort, rs_dstPort = port,
                                  rs_relayIP = parse_ip (RelayServer opts), rs_mptcp = MPTCP opts\<rparr>,
                                rawRxKey dstIP port srcPort)))))"

lemma scanner_key_ignores_source:
  "newRawTCPScanner sys ip port opts src = Inr (s, k) \<Longrightarrow>
   newRawTCPScanner sys' ip port opts src' = Inr (s', k') \<Longrightarrow> k' = k"
  by (auto simp: newRawTCPScanner_def Let_def split: option.splits)

subsection \<open>Histories of the shared map\<close>

fun raw_event :: "(string, rawTCPPacket) router_event \<Rightarrow> (string, rawTCPPacket) rx_map \<Rightarrow> (string, rawTCPPacket) rx_map" where
  "raw_event (EvRegister k c) m = storeRawWaiter k c m"
| "raw_event (EvRelease k) m = closeRawScanner k m"
| "raw_event (EvDeliver k p) m = rawRxDeliver k p m"
| "raw_event (EvDrain c) m = drain_slot c m"

fun xdp_event :: "(string, xdpResponse) router_event \<Rightarrow> (string, xdpResponse) rx_map \<Rightarrow> (string, xdpResponse) rx_map" where
  "xdp_event (EvRegister k c) m = registerXDPWaiter k c m"
| "xdp_event (EvRelease k) m = releaseXDPWaiter k m"
| "xdp_event (EvDeliver k p) m = deliverXDPResult k p m"
| "xdp_event (EvDrain c) m = drain_slot c m"

lemma raw_run: "fold raw_event es m = raw.run es m"
proof (induction es arbitrary: m)
  case (Cons e es)
  then show ?case by (cases e) simp_all
qed simp

lemma xdp_run: "fold xdp_event es m = xdp.run es m"
proof (induction es arbitrary: m)
  case (Cons e es)
  then show ?case by (cases e) simp_all
qed simp



text \<open>A decoy makes the scanner deaf.  Every decoy opens its scanner under the key of
  the real probe, since the key does not depend on the source address, and closes it
  as soon as its packet is sent.  If one closes after the real probe registered and
  before the reply comes in, the reply of the target is dropped, whatever else happens.\<close>

theorem decoys_drop_replies:
  assumes "newRawTCPScanner sys ip port opts spoofed = Inr (probe, key)"
    and "newRawTCPScanner sys ip port opts (Some decoy) = Inr (decoyProbe, decoyKey)"
    and "c \<notin> ran (rx_waiters m)"
    and "list_all (\<lambda>e. \<not> touches_chan c e \<and> \<not> touches_key key e) es" and "list_all (\<lambda>e. \<not> touches_chan c e) fs"
  shows "rx_slots (fold raw_event (EvRegister key c # es @ EvRelease decoyKey # fs @ [EvDeliver key reply]) m) c = None"
proof -
  have "decoyKey = key" using scanner_key_ignores_source [OF assms(1,2)] .
  moreover have "list_all (\<lambda>e. \<not> touches_chan c e) (fs @ [EvDeliver key reply])" using assms(5) by simp
  ultimately show ?thesis
    unfolding raw_run using raw.reply_after_release [OF assms(3,4), of "fs @ [EvDeliver key reply]"] by simp
qed

theorem decoys_drop_replies_witness:
  "\<exists>probe key decoyProbe. newRawTCPScanner \<lparr>sys_rxErr = None, sys_txErr = None, sys_localIPv4 = [10, 0, 0, 1], sys_ifaceIP = (\<lambda>_. None)\<rparr>
       ''10.0.0.2'' 443 default_options None = Inr (probe, key)
    \<and> newRawTCPScanner \<lparr>sys_rxErr = None, sys_txErr = None, sys_localIPv4 = [10, 0, 0, 1], sys_ifaceIP = (\<lambda>_. None)\<rparr>
       ''10.0.0.2'' 443 default_options (Some [1, 1, 1, 1]) = Inr (decoyProbe, key)
    \<and> (\<forall>reply. rx_slots (fold raw_event [EvRegister key 1, EvRelease key, EvDeliver key reply] no_waiters) 1 = None)"
proof -
  let ?sys = "\<lparr>sys_rxErr = None, sys_txErr = None, sys_localIPv4 = [10, 0, 0, 1], sys_ifaceIP = (\<lambda>_. None)\<rparr>"
  have ip: "parse_ip ''10.0.0.2'' = Some (v4_prefix @ [10, 0, 0, 2])" by code_simp
  obtain probe key where p: "newRawTCPScanner ?sys ''10.0.0.2'' 443 default_options None = Inr (probe, key)"
    by (simp add: newRawTCPScanner_def ip default_options_def zero_options_def Let_def)
  obtain decoyProbe where d: "newRawTCPScanner ?sys ''10.0.0.2'' 443 default_options (Some [1, 1, 1, 1]) = Inr (decoyProbe, key)"
    using p by (simp add: newRawTCPScanner_def ip default_options_def zero_options_def Let_def)
  show ?thesis
    using decoys_drop_replies [OF p d, of 1 no_waiters "[]" "[]"] p d by (simp add: no_waiters_def)
qed

end
