(* ===== verification/UdpProbes.thy ===== *)
theory UdpProbes
  imports Frames
begin

unbundle bit_operations_syntax

text \<open>
  The UDP probes: the per-port datagrams of \<open>internal/scan/udp_payloads.go\<close> with the test
  that recognises each protocol's answer, and the stateless QUIC probe of
  \<open>quic_probe.go\<close> with the parser of the version-negotiation answer.  A test reads the
  reply by index; \<open>None\<close> would be an index out of range.
\<close>

record udpProbe =
  probe_Name :: string
  probe_Payload :: bytes
  probe_Match :: "(bytes \<Rightarrow> bool option) option"

text \<open>\<open>len(resp) >= n && p\<close>, with \<open>p\<close> reading bytes by index.\<close>

definition guarded :: "nat \<Rightarrow> (bytes \<Rightarrow> bool option) \<Rightarrow> bytes \<Rightarrow> bool option" where
  "guarded n p resp = (if length resp \<ge> n then p resp else Some False)"

definition byte_is :: "nat \<Rightarrow> byte \<Rightarrow> bytes \<Rightarrow> bool option" where
  "byte_is i b resp = map_option (\<lambda>x. x = b) (get_at resp i)"

definition bit_set :: "nat \<Rightarrow> byte \<Rightarrow> bytes \<Rightarrow> bool option" where
  "bit_set i m resp = map_option (\<lambda>x. x AND m \<noteq> 0) (get_at resp i)"

fun all_of :: "(bytes \<Rightarrow> bool option) list \<Rightarrow> bytes \<Rightarrow> bool option" where
  "all_of [] resp = Some True"
| "all_of (p # ps) resp = (case p resp of None \<Rightarrow> None | Some b \<Rightarrow> if b then all_of ps resp else Some False)"

definition crlf :: string where "crlf = [CHR 0x0D, CHR 0x0A]"

definition dnsProbe :: udpProbe where
  "dnsProbe = \<lparr>probe_Name = ''dns'',
     probe_Payload = [0x13, 0x37, 0x01, 0x00, 0x00, 0x01, 0x00, 0x00, 0x00, 0x00, 0x00, 0x00,
       0x00, 0x00, 0x02, 0x00, 0x01],
     probe_Match = Some (guarded 4 (all_of [byte_is 0 0x13, byte_is 1 0x37, bit_set 2 0x80]))\<rparr>"

definition ntpProbe :: udpProbe where
  "ntpProbe = \<lparr>probe_Name = ''ntp'', probe_Payload = 0x1b # replicate 47 0,
     probe_Match = Some (\<lambda>resp. if length resp < 1 then Some False
       else map_option (\<lambda>b. let mode = b AND 0x07 in mode = 4 \<or> mode = 2) (get_at resp 0))\<rparr>"

definition snmpProbe :: udpProbe where
  "snmpProbe = \<lparr>probe_Name = ''snmp'',
     probe_Payload = [0x30, 0x26, 0x02, 0x01, 0x01, 0x04, 0x06] @ bytes_of ''public''
       @ [0xa0, 0x19, 0x02, 0x04, 0x70, 0x69, 0x6e, 0x67, 0x02, 0x01, 0x00, 0x02, 0x01, 0x00,
          0x30, 0x0b, 0x30, 0x09, 0x06, 0x05, 0x2b, 0x06, 0x01, 0x02, 0x01, 0x05, 0x00],
     probe_Match = Some (guarded 2 (byte_is 0 0x30))\<rparr>"

definition netbiosNSProbe :: udpProbe where
  "netbiosNSProbe = \<lparr>probe_Name = ''netbios-ns'',
     probe_Payload = [0x13, 0x37, 0x00, 0x00, 0x00, 0x01, 0x00, 0x00, 0x00, 0x00, 0x00, 0x00, 0x20, 0x43, 0x4b]
       @ replicate 30 0x41 @ [0x00, 0x00, 0x21, 0x00, 0x01],
     probe_Match = Some (guarded 4 (all_of [byte_is 0 0x13, byte_is 1 0x37, bit_set 2 0x80]))\<rparr>"

definition ikeProbe :: udpProbe where
  "ikeProbe = \<lparr>probe_Name = ''ike'',
     probe_Payload = [0xde, 0xad, 0xbe, 0xef, 0x00, 0x00, 0x00, 0x01] @ replicate 8 0
       @ [0x01, 0x10, 0x02, 0x00, 0x00, 0x00, 0x00, 0x00, 0x00, 0x00, 0x00, 0x1c, 0x00, 0x00, 0x00, 0x08],
     probe_Match = Some (guarded 8 (all_of [byte_is 0 0xde, byte_is 1 0xad, byte_is 2 0xbe, byte_is 3 0xef]))\<rparr>"

definition text_prefix :: "string \<Rightarrow> bytes \<Rightarrow> bool option" where
  "text_prefix p resp = Some (take (length p) resp = bytes_of p)"

definition ssdpProbe :: udpProbe where
  "ssdpProbe = \<lparr>probe_Name = ''ssdp'',
     probe_Payload = bytes_of (''M-SEARCH * HTTP/1.1'' @ crlf @ ''HOST: 239.255.255.250:1900'' @ crlf
       @ ''MAN: '' @ [CHR 0x22] @ ''ssdp:discover'' @ [CHR 0x22] @ crlf @ ''MX: 1'' @ crlf @ ''ST: ssdp:all'' @ crlf @ crlf),
     probe_Match = Some (text_prefix ''HTTP/1.1'')\<rparr>"

definition mdnsProbe :: udpProbe where
  "mdnsProbe = \<lparr>probe_Name = ''mdns'',
     probe_Payload = [0x00, 0x00, 0x00, 0x00, 0x00, 0x01, 0x00, 0x00, 0x00, 0x00, 0x00, 0x00]
       @ [0x09] @ bytes_of ''_services'' @ [0x07] @ bytes_of ''_dns-sd'' @ [0x04] @ bytes_of ''_udp''
       @ [0x05] @ bytes_of ''local'' @ [0x00, 0x00, 0x0c, 0x00, 0x01],
     probe_Match = Some (guarded 4 (bit_set 2 0x80))\<rparr>"

definition sipProbe :: udpProbe where
  "sipProbe = \<lparr>probe_Name = ''sip'',
     probe_Payload = bytes_of (''OPTIONS sip:nm SIP/2.0'' @ crlf @ ''Via: SIP/2.0/UDP nm;branch=z9hG4bKtcpcat'' @ crlf
       @ ''From: <sip:nm@nm>;tag=root'' @ crlf @ ''To: <sip:nm@nm>'' @ crlf @ ''Call-ID: tcpcat'' @ crlf
       @ ''CSeq: 1 OPTIONS'' @ crlf @ ''Max-Forwards: 70'' @ crlf @ ''Content-Length: 0'' @ crlf @ crlf),
     probe_Match = Some (text_prefix ''SIP/2.0'')\<rparr>"

definition rpcProbe :: udpProbe where
  "rpcProbe = \<lparr>probe_Name = ''rpcbind'',
     probe_Payload = [0x00, 0x00, 0x13, 0x37, 0x00, 0x00, 0x00, 0x00, 0x00, 0x00, 0x00, 0x02, 0x00, 0x01, 0x86, 0xa0,
       0x00, 0x00, 0x00, 0x02, 0x00, 0x00, 0x00, 0x00] @ replicate 16 0,
     probe_Match = Some (guarded 8 (all_of [byte_is 2 0x13, byte_is 3 0x37, byte_is 4 0, byte_is 5 0, byte_is 6 0,
       byte_is 7 1]))\<rparr>"

definition coapProbe :: udpProbe where
  "coapProbe = \<lparr>probe_Name = ''coap'',
     probe_Payload = [0x40, 0x01, 0x13, 0x37, 0xbb] @ bytes_of ''.well-known'' @ [0x04] @ bytes_of ''core'',
     probe_Match = Some (guarded 4 (all_of [\<lambda>resp. map_option (\<lambda>b. b AND 0xc0 = 0x40) (get_at resp 0),
       byte_is 2 0x13, byte_is 3 0x37]))\<rparr>"

definition ipmiProbe :: udpProbe where
  "ipmiProbe = \<lparr>probe_Name = ''ipmi'',
     probe_Payload = [0x06, 0x00, 0xff, 0x07, 0x00, 0x00, 0x00, 0x00, 0x00, 0x00, 0x00, 0x00, 0x00, 0x09,
       0x20, 0x18, 0xc8, 0x81, 0x00, 0x38, 0x0e, 0x04, 0x35],
     probe_Match = Some (guarded 4 (all_of [byte_is 0 0x06, byte_is 1 0x00, byte_is 2 0xff, byte_is 3 0x07]))\<rparr>"

definition tftpProbe :: udpProbe where
  "tftpProbe = \<lparr>probe_Name = ''tftp'',
     probe_Payload = [0x00, 0x01] @ bytes_of ''tcpcat.probe'' @ [0x00] @ bytes_of ''octet'' @ [0x00],
     probe_Match = Some (guarded 2 (\<lambda>resp. case byte_is 0 0x00 resp of None \<Rightarrow> None
       | Some b \<Rightarrow> if b then map_option (\<lambda>x. x = 0x05 \<or> x = 0x03) (get_at resp 1) else Some False))\<rparr>"

subsection \<open>QUIC\<close>

definition quicGreaseVersion :: u32 where "quicGreaseVersion = 0x1a2a3a4a"
definition quicMinDatagram :: nat where "quicMinDatagram = 1200"

definition buildQUICProbe :: bytes where
  "buildQUICProbe =
     (let header = [0xC3] @ put32 quicGreaseVersion
            @ [8, 0xca, 0xfe, 0xba, 0xbe, 0xde, 0xad, 0xbe, 0xef] @ [8, 0x74, 0x63, 0x70, 0x63, 0x61, 0x74, 0x71, 0x63]
      in header @ replicate (quicMinDatagram - length header) 0)"

definition isQUICVersionNegotiation :: "bytes \<Rightarrow> bool option" where
  "isQUICVersionNegotiation resp =
     (if length resp < 7 then Some False
      else do {
        b0 \<leftarrow> get_at resp 0;
        if b0 AND 0x80 = 0 then Some False
        else do {
          version \<leftarrow> slice resp 1 5;
          Some (get32 version = 0)
        }
      })"

text \<open>\<open>for i+4 <= len(resp)\<close>: the versions that follow, four bytes each.\<close>

fun version_loop :: "bytes \<Rightarrow> u32 list" where
  "version_loop (a # b # c # d # rest) = get32 [a, b, c, d] # version_loop rest"
| "version_loop _ = []"

definition quicSupportedVersions :: "bytes \<Rightarrow> u32 list option" where
  "quicSupportedVersions resp = do {
     vn \<leftarrow> isQUICVersionNegotiation resp;
     if \<not> vn then Some []
     else if 5 \<ge> length resp then Some []
     else do {
       dcidLen \<leftarrow> get_at resp 5;
       let i = 5 + (1 + unat dcidLen);
       if i \<ge> length resp then Some []
       else do {
         scidLen \<leftarrow> get_at resp i;
         Some (version_loop (drop (i + (1 + unat scidLen)) resp))
       }
     }
   }"

definition quicProbe :: udpProbe where
  "quicProbe = \<lparr>probe_Name = ''quic'', probe_Payload = buildQUICProbe, probe_Match = Some isQUICVersionNegotiation\<rparr>"

definition udpProbesByPort :: "(int \<times> udpProbe list) list" where
  "udpProbesByPort =
    [(53, [dnsProbe]), (123, [ntpProbe]), (137, [netbiosNSProbe]), (161, [snmpProbe]), (500, [ikeProbe]),
     (1900, [ssdpProbe]), (5353, [mdnsProbe]), (5060, [sipProbe]), (111, [rpcProbe]), (69, [tftpProbe]),
     (443, [quicProbe]), (8443, [quicProbe]), (623, [ipmiProbe]), (5683, [coapProbe])]"

definition probesForPort :: "int \<Rightarrow> udpProbe list" where
  "probesForPort port = (case map_of udpProbesByPort port of None \<Rightarrow> [] | Some ps \<Rightarrow> ps)"

definition all_probes :: "udpProbe list" where
  "all_probes = concat (map snd udpProbesByPort)"

subsection \<open>Recognising answers\<close>

definition matches :: "udpProbe \<Rightarrow> bytes \<Rightarrow> bool option" where
  "matches p resp = (case probe_Match p of None \<Rightarrow> Some True | Some m \<Rightarrow> m resp)"

lemma all_of_total: "list_all (\<lambda>p. p resp \<noteq> None) ps \<Longrightarrow> all_of ps resp \<noteq> None"
  by (induction ps) (auto split: option.split)

lemma byte_is_total: "i < length resp \<Longrightarrow> byte_is i b resp \<noteq> None"
  by (simp add: byte_is_def)

lemma bit_set_total: "i < length resp \<Longrightarrow> bit_set i m resp \<noteq> None"
  by (simp add: bit_set_def)

lemma guarded_all_of_total:
  "(length resp \<ge> n \<Longrightarrow> list_all (\<lambda>p. p resp \<noteq> None) ps) \<Longrightarrow> guarded n (all_of ps) resp \<noteq> None"
  by (simp add: guarded_def all_of_total del: not_None_eq)

lemma isQUIC_total: "isQUICVersionNegotiation resp \<noteq> None"
  by (auto simp: isQUICVersionNegotiation_def simp del: length_greater_0_conv)

lemma quicSupportedVersions_total: "quicSupportedVersions resp \<noteq> None"
proof -
  obtain b where "isQUICVersionNegotiation resp = Some b" using isQUIC_total by blast
  then show ?thesis by (auto simp: quicSupportedVersions_def Let_def)
qed

lemmas probe_defs = dnsProbe_def ntpProbe_def snmpProbe_def netbiosNSProbe_def ikeProbe_def ssdpProbe_def
  mdnsProbe_def sipProbe_def rpcProbe_def coapProbe_def ipmiProbe_def tftpProbe_def quicProbe_def

lemma get_at_first: "xs \<noteq> [] \<Longrightarrow> get_at xs 0 = Some (xs ! 0)"
  by (simp add: get_at_def)

lemma probe_match_total: "list_all (\<lambda>p. matches p resp \<noteq> None) all_probes"
proof -
  have tftp: "(case byte_is 0 0x00 resp of None \<Rightarrow> None
       | Some b \<Rightarrow> if b then map_option (\<lambda>x. x = 0x05 \<or> x = 0x03) (get_at resp 1) else Some False) \<noteq> None"
    if "2 \<le> length resp" using that
    by (auto simp: byte_is_def simp del: length_greater_0_conv)
  show ?thesis
    using tftp isQUIC_total [of resp]
    by (simp add: all_probes_def udpProbesByPort_def matches_def probe_defs text_prefix_def guarded_def
        byte_is_total bit_set_total byte_is_def bit_set_def get_at_first del: not_None_eq length_greater_0_conv)
qed

lemma bytes_of_append [simp]: "bytes_of (a @ b) = bytes_of a @ bytes_of b"
  by (simp add: bytes_of_def)

lemma self_matching:
  "map probe_Name (filter (\<lambda>p. matches p (probe_Payload p) = Some True) all_probes) = [''snmp'', ''ike'', ''ipmi'', ''coap'']"
  by (simp add: all_probes_def udpProbesByPort_def matches_def probe_defs text_prefix_def guarded_def
      byte_is_def bit_set_def get_at_def bytes_of_def crlf_def isQUICVersionNegotiation_def buildQUICProbe_def
      quicMinDatagram_def quicGreaseVersion_def Let_def)

text \<open>Reading a UDP answer is safe: no test of the table, and no reader of a QUIC
  version-negotiation packet, indexes past the end of any reply.  Against a host that
  merely echoes datagrams, exactly four probes take their own payload for an answer of
  their protocol: SNMP, IKE, IPMI and CoAP.\<close>

theorem udp_answers_read_safely:
  "list_all (\<lambda>p. matches p resp \<noteq> None) all_probes \<and> quicSupportedVersions resp \<noteq> None
   \<and> map probe_Name (filter (\<lambda>p. matches p (probe_Payload p) = Some True) all_probes) = [''snmp'', ''ike'', ''ipmi'', ''coap'']"
  using probe_match_total quicSupportedVersions_total self_matching by blast

subsection \<open>Version negotiation\<close>

definition version_negotiation :: "byte \<Rightarrow> bytes \<Rightarrow> bytes \<Rightarrow> u32 list \<Rightarrow> bytes" where
  "version_negotiation first dcid scid versions =
     [first] @ put32 0 @ [of_nat (length dcid)] @ dcid @ [of_nat (length scid)] @ scid @ concat (map put32 versions)"

lemma version_loop_put32: "version_loop (concat (map put32 vs)) = vs"
proof (induction vs)
  case (Cons v vs)
  obtain a b c d where v: "put32 v = [a, b, c, d]" using put32_bytes by blast
  then have "get32 [a, b, c, d] = v" by (metis get32_put32_Nil)
  then show ?case using Cons v by simp
qed simp

lemma unat_small_byte: "n < 256 \<Longrightarrow> unat (of_nat n :: byte) = n"
  by (simp add: unsigned_of_nat take_bit_eq_mod)

text \<open>A version-negotiation packet, with any connection identifiers, is recognised and
  read back as exactly the versions it lists; the probe that provokes it has the
  1200 bytes a server requires and is not itself taken for one.\<close>

theorem quic_versions_roundtrip:
  assumes "first AND 0x80 \<noteq> 0" and "length dcid < 256" and "length scid < 256"
  shows "quicSupportedVersions (version_negotiation first dcid scid versions) = Some versions
    \<and> length buildQUICProbe = 1200 \<and> quicSupportedVersions buildQUICProbe = Some []"
proof (intro conjI)
  let ?p = "version_negotiation first dcid scid versions"
  have z: "put32 0 = [0, 0, 0, 0]" by (simp add: put32_def)
  have len: "7 \<le> length ?p" "6 + length dcid < length ?p" by (simp_all add: version_negotiation_def z)
  have parts: "?p ! 0 = first" "take 4 (drop 1 ?p) = [0, 0, 0, 0]" "?p ! 5 = of_nat (length dcid)"
      "?p ! (6 + length dcid) = of_nat (length scid)"
    by (simp_all add: version_negotiation_def z nth_append)
  define pre where "pre = [first, 0, 0, 0, 0, of_nat (length dcid)] @ dcid @ [of_nat (length scid)] @ scid"
  have "?p = pre @ concat (map put32 versions)" "length pre = 7 + length dcid + length scid"
    by (simp_all add: version_negotiation_def z pre_def)
  then have rest: "drop (7 + length dcid + length scid) ?p = concat (map put32 versions)" by simp
  have "isQUICVersionNegotiation ?p = Some True"
    using len parts assms(1)
    by (simp add: isQUICVersionNegotiation_def get32_def del: length_greater_0_conv)
  then show "quicSupportedVersions ?p = Some versions"
    using len parts rest assms(2,3)
    by (simp add: quicSupportedVersions_def Let_def unat_small_byte version_loop_put32 add.commute add.left_commute)
  show "length buildQUICProbe = 1200"
    by (simp add: buildQUICProbe_def quicMinDatagram_def quicGreaseVersion_def Let_def)
  show "quicSupportedVersions buildQUICProbe = Some []"
    by (simp add: quicSupportedVersions_def isQUICVersionNegotiation_def buildQUICProbe_def quicMinDatagram_def
        quicGreaseVersion_def put32_def get32_def Let_def)
qed

theorem quic_versions_roundtrip_witness:
  "quicSupportedVersions (version_negotiation 0xC3 [1, 2, 3] [] [1, 0xff00001d]) = Some [1, 0xff00001d]"
  using quic_versions_roundtrip [of "0xC3" "[1, 2, 3]" "[]" "[1, 0xff00001d]"] by simp

end
