(* ===== verification/Fragment.thy ===== *)
theory Fragment
  imports Frames
begin

unbundle bit_operations_syntax

text \<open>
  \<open>internal/evasion/fragment.go\<close>: splitting an Ethernet frame's IPv4 payload into IP
  fragments.  The loop advances by the size of the chunk it cut, which the rounding to
  a multiple of 8 can make zero, so it is a partial function: \<open>None\<close> is a run that never
  ends.  \<open>reassemble\<close> is what a receiving stack does with the fragments.
\<close>

text \<open>\<open>computeIPChecksum\<close>: the carries are folded twice instead of in a loop.\<close>

definition computeIPChecksum :: "bytes \<Rightarrow> u16" where
  "computeIPChecksum header =
     (let sum = sum_words header;
          sum1 = drop_bit 16 sum + (sum AND 0xffff);
          sum2 = sum1 + drop_bit 16 sum1
      in NOT (ucast sum2))"

text \<open>One fragment: the header base with its length, offset and checksum rewritten.\<close>

definition fragment_header :: "bytes \<Rightarrow> nat \<Rightarrow> nat \<Rightarrow> bool \<Rightarrow> bytes" where
  "fragment_header ipHeaderBase offset chunkSize moreFragments =
     (let flagsAndOffset = ((of_nat (offset div 8) :: u16) AND 0x1FFF) OR (if moreFragments then 0x2000 else 0);
          header = put 6 (put16 flagsAndOffset) (put 2 (put16 (of_nat (20 + chunkSize))) ipHeaderBase);
          zeroed = put 10 [0, 0] header
      in put 10 (put16 (computeIPChecksum zeroed)) zeroed)"

definition chunk_size :: "nat \<Rightarrow> nat \<Rightarrow> nat \<Rightarrow> nat" where
  "chunk_size mtu len offset =
     (let c1 = (if offset + mtu > len then len - offset else mtu)
      in if c1 mod 8 \<noteq> 0 \<and> offset + c1 < len then c1 div 8 * 8 else c1)"

partial_function (option) fragment_loop :: "bytes \<Rightarrow> bytes \<Rightarrow> bytes \<Rightarrow> nat \<Rightarrow> nat \<Rightarrow> bytes list option" where
  "fragment_loop ethHeader ipHeaderBase ipPayload mtu offset =
     (if offset < length ipPayload then
        (let chunkSize = chunk_size mtu (length ipPayload) offset;
             chunk = take chunkSize (drop offset ipPayload);
             header = fragment_header ipHeaderBase offset chunkSize (offset + chunkSize < length ipPayload)
         in Option.bind (fragment_loop ethHeader ipHeaderBase ipPayload mtu (offset + chunkSize))
              (\<lambda>rest. Some ((ethHeader @ header @ chunk) # rest)))
      else Some [])"

definition FragmentPacket :: "bytes \<Rightarrow> int \<Rightarrow> bytes list option" where
  "FragmentPacket rawFrame mtu =
     (if length rawFrame < 34 \<or> mtu \<le> 0 then Some [rawFrame]
      else fragment_loop (take 14 rawFrame) (take 20 (drop 14 rawFrame)) (drop 34 rawFrame) (nat mtu) 0)"

subsection \<open>The checksum\<close>

lemma unat_shift_add: "unat (s + drop_bit 16 s :: u32) mod 65536 = (unat s + unat s div 65536) mod 65536"
proof -
  have "unat (s + drop_bit 16 s) = (unat s + unat s div 65536) mod 2 ^ 32"
    by (simp add: unat_word_ariths unat_hi16)
  then show ?thesis by (simp add: mod_mod_cancel)
qed

lemma unat_ucast_u16: "unat (ucast (s :: u32) :: u16) = unat s mod 65536"
  by (simp add: unsigned_ucast_eq take_bit_eq_mod)

lemma computeIPChecksum_eq:
  shows "computeIPChecksum data = xdpChecksum data"
proof -
  define s where "s = sum_words data"
  define s1 where "s1 = drop_bit 16 s + (s AND 0xffff)"
  have s1: "unat s1 = unat s div 65536 + unat s mod 65536" unfolding s1_def by (rule unat_fold_step)
  have bound: "unat s < 65536 * 65536" using unsigned_less [of s, where ?'a = nat] by simp
  then have "unat s div 65536 < 65536" by (simp add: less_mult_imp_div_less)
  then have s1_le: "unat s1 \<le> 131070" unfolding s1 using mod_less_divisor [of 65536 "unat s"] by linarith
  have fold_s: "fold_carries s = fold_carries s1"
  proof (cases "s > 0xffff")
    case True
    then show ?thesis by (subst fold_carries.simps) (simp add: s1_def)
  next
    case False
    then have "unat s < 65536" by (simp add: word_less_nat_alt not_less word_le_nat_alt)
    then have "unat s1 = unat s" unfolding s1 by simp
    then have "s1 = s" by (simp add: word_unat_eq_iff)
    then show ?thesis by simp
  qed
  have "unat (ucast (s1 + drop_bit 16 s1) :: u16) = unat (ucast (fold_carries s1) :: u16)"
  proof (cases "s1 > 0xffff")
    case True
    then have ge: "65536 \<le> unat s1" by (simp add: word_less_nat_alt)
    define s2 where "s2 = drop_bit 16 s1 + (s1 AND 0xffff)"
    have d: "unat s1 div 65536 = 1" using ge s1_le by (simp add: div_nat_eqI)
    have s2: "unat s2 = 1 + unat s1 mod 65536" unfolding s2_def unat_fold_step d ..
    have m: "unat s1 mod 65536 = unat s1 - 65536" using ge s1_le by (simp add: mod_if)
    then have "\<not> s2 > 0xffff" using s1_le s2 by (simp add: word_less_nat_alt)
    then have "fold_carries s2 = s2" by (subst fold_carries.simps) simp
    moreover have "fold_carries s1 = fold_carries s2"
      using True by (subst fold_carries.simps) (simp add: s2_def)
    ultimately have "fold_carries s1 = s2" by simp
    moreover have "(unat s1 + unat s1 div 65536) mod 65536 = unat s2 mod 65536"
      unfolding s2 d by (metis add.commute mod_add_left_eq)
    ultimately show ?thesis by (simp add: unat_ucast_u16 unat_shift_add)
  next
    case False
    then have "unat s1 < 65536" by (simp add: word_less_nat_alt not_less word_le_nat_alt)
    moreover have "fold_carries s1 = s1" using False by (subst fold_carries.simps) simp
    ultimately show ?thesis by (simp add: unat_ucast_u16 unat_shift_add)
  qed
  then have "(ucast (s1 + drop_bit 16 s1) :: u16) = ucast (fold_carries s1)" by (simp add: word_unat_eq_iff)
  then show ?thesis
    by (simp add: computeIPChecksum_def xdpChecksum_def Let_def fold_s flip: s_def s1_def)
qed

subsection \<open>One fragment\<close>

text \<open>The header as its fields, for a base of 20 bytes.\<close>

definition frag_field :: "nat \<Rightarrow> bool \<Rightarrow> u16" where
  "frag_field offset more_frags = ((of_nat (offset div 8) :: u16) AND 0x1FFF) OR (if more_frags then 0x2000 else 0)"

lemma fragment_header_fields:
  assumes "length base = 20"
  obtains cs where "fragment_header base offset n m = take 2 base @ put16 (of_nat (20 + n)) @ take 2 (drop 4 base)
       @ put16 (frag_field offset m) @ take 2 (drop 8 base) @ put16 cs @ drop 12 base"
    and "sums_to_ones (fragment_header base offset n m)"
proof -
  define a where "a = take 2 base @ put16 (of_nat (20 + n)) @ take 2 (drop 4 base)
       @ put16 (frag_field offset m) @ take 2 (drop 8 base)"
  define b where "b = drop 12 base"
  have len: "length a = 10" "length b = 8" using assms by (simp_all add: a_def b_def)
  define header where "header = put 6 (put16 (frag_field offset m)) (put 2 (put16 (of_nat (20 + n))) base)"
  have header: "header = a @ take 2 (drop 10 base) @ b"
  proof -
    obtain b0 b1 b2 b3 b4 b5 b6 b7 b8 b9 b10 b11 b12 b13 b14 b15 b16 b17 b18 b19 where
      "base = [b0, b1, b2, b3, b4, b5, b6, b7, b8, b9, b10, b11, b12, b13, b14, b15, b16, b17, b18, b19]"
      using assms by (auto simp: numeral_eq_Suc length_Suc_conv)
    then show ?thesis by (simp add: header_def a_def b_def put_def)
  qed
  have zeroed: "put 10 [0, 0] header = a @ [0, 0] @ b"
    unfolding header using len assms by (simp add: put_def)
  have filled: "put 10 (put16 cs) (a @ [0, 0] @ b) = a @ put16 cs @ b" for cs
    using len by (simp add: put_def)
  let ?cs = "computeIPChecksum (a @ [0, 0] @ b)"
  have eq: "fragment_header base offset n m = a @ put16 ?cs @ b"
    using zeroed filled by (simp add: fragment_header_def header_def frag_field_def Let_def)
  have "sums_to_ones (a @ put16 ?cs @ b)"
    by (rule checksum_fills) (simp_all add: len computeIPChecksum_eq)
  then show thesis using that [of ?cs] eq by (simp add: a_def b_def)
qed

lemma length_fragment_header:
  assumes "length base = 20"
  shows "length (fragment_header base offset n m) = 20"
  by (rule fragment_header_fields [OF assms, of offset n m]) (simp add: assms)

subsection \<open>Reassembly\<close>

definition frag_offset :: "bytes \<Rightarrow> nat" where
  "frag_offset f = 8 * unat (get16 (take 2 (drop 20 f)) AND 0x1FFF)"

definition frag_more :: "bytes \<Rightarrow> bool" where
  "frag_more f = (get16 (take 2 (drop 20 f)) AND 0x2000 \<noteq> 0)"

definition frag_data :: "bytes \<Rightarrow> bytes" where
  "frag_data f = take (unat (get16 (take 2 (drop 16 f))) - 20) (drop 34 f)"

text \<open>The receiving stack: fragments in order, each at the offset reached, the last one
  without the more-fragments flag.\<close>

fun reassemble :: "nat \<Rightarrow> bytes list \<Rightarrow> bytes option" where
  "reassemble pos [] = None"
| "reassemble pos (f # fs) =
     (if frag_offset f \<noteq> pos then None
      else if frag_more f then map_option (append (frag_data f)) (reassemble (pos + length (frag_data f)) fs)
      else if fs = [] then Some (frag_data f) else None)"

lemma frag_field_read:
  assumes "offset mod 8 = 0" and "offset < 65536"
  shows "8 * unat (frag_field offset m AND 0x1FFF) = offset" and "(frag_field offset m AND 0x2000 \<noteq> 0) = m"
proof -
  define w where "w = (of_nat (offset div 8) :: u16)"
  have m13: "(0x1FFF :: u16) = mask 13" by (simp add: mask_eq_exp_minus_1)
  have flag: "bit (0x2000 :: int) n \<longleftrightarrow> n = 13" for n
    using bit_exp_iff [of 13 n, where ?'a = int] by simp
  have "frag_field offset m AND 0x1FFF = w AND mask 13"
    unfolding frag_field_def m13 by (intro bit_word_eqI) (auto simp: w_def bit_simps flag)
  moreover have "w AND mask 13 = take_bit 13 w" by (simp add: take_bit_eq_mask)
  moreover have "unat (take_bit 13 w) = offset div 8"
    using assms by (simp add: w_def take_bit_eq_mod unat_mod_distrib unsigned_of_nat div_less_iff_less_mult)
  ultimately show "8 * unat (frag_field offset m AND 0x1FFF) = offset" using assms(1) by auto
  have "frag_field offset m AND 0x2000 = (if m then 0x2000 else 0)"
    unfolding frag_field_def m13 by (intro bit_word_eqI) (auto simp: bit_simps flag)
  then show "(frag_field offset m AND 0x2000 \<noteq> 0) = m" by simp
qed

lemma fragment_read:
  assumes "length eth = 14" and "length base = 20" and "offset mod 8 = 0" and "offset < 65536"
    and "length chunk = n" and "n \<le> 65515"
  shows "frag_offset (eth @ fragment_header base offset n m @ chunk) = offset"
    and "frag_more (eth @ fragment_header base offset n m @ chunk) = m"
    and "frag_data (eth @ fragment_header base offset n m @ chunk) = chunk"
    and "sums_to_ones (take 20 (drop 14 (eth @ fragment_header base offset n m @ chunk)))"
proof -
  obtain cs where h: "fragment_header base offset n m = take 2 base @ put16 (of_nat (20 + n)) @ take 2 (drop 4 base)
       @ put16 (frag_field offset m) @ take 2 (drop 8 base) @ put16 cs @ drop 12 base"
    and ok: "sums_to_ones (fragment_header base offset n m)"
    by (rule fragment_header_fields [OF assms(2)])
  let ?f = "eth @ fragment_header base offset n m @ chunk"
  have len: "length (fragment_header base offset n m) = 20" using assms(2) by (simp add: h)
  have parts: "take 2 (drop 20 ?f) = put16 (frag_field offset m)" "take 2 (drop 16 ?f) = put16 (of_nat (20 + n))"
      "drop 34 ?f = chunk"
    using assms(1,2) by (simp_all add: h)
  show "frag_offset ?f = offset" "frag_more ?f = m"
    unfolding frag_offset_def frag_more_def parts using frag_field_read [OF assms(3,4)] by simp_all
  have "unat (of_nat (20 + n) :: u16) = 20 + n" using assms(6) by (simp add: unsigned_of_nat take_bit_eq_mod del: of_nat_add)
  then show "frag_data ?f = chunk" using assms(5) unfolding frag_data_def parts by (simp del: of_nat_add)
  show "sums_to_ones (take 20 (drop 14 ?f))" using ok assms(1) len by simp
qed

lemma chunk_size_props:
  assumes "8 \<le> mtu" and "offset < len"
  shows "0 < chunk_size mtu len offset" and "offset + chunk_size mtu len offset \<le> len" and "chunk_size mtu len offset \<le> mtu"
    and "offset mod 8 = 0 \<Longrightarrow> offset + chunk_size mtu len offset < len \<Longrightarrow> (offset + chunk_size mtu len offset) mod 8 = 0"
proof -
  have "1 \<le> mtu div 8" using assms(1) by (simp add: less_eq_div_iff_mult_less_eq)
  moreover have "mtu div 8 * 8 \<le> mtu" by simp
  ultimately show "0 < chunk_size mtu len offset" "offset + chunk_size mtu len offset \<le> len" "chunk_size mtu len offset \<le> mtu"
    using assms by (auto simp: chunk_size_def Let_def)
  show "(offset + chunk_size mtu len offset) mod 8 = 0" if "offset mod 8 = 0" "offset + chunk_size mtu len offset < len"
    using that assms by (auto simp: chunk_size_def Let_def mod_add_left_eq [symmetric] split: if_splits)
qed

lemma fragment_loop_reassembles:
  assumes "length eth = 14" and "length base = 20" and "8 \<le> mtu" and "length payload \<le> 65515"
    and "offset < length payload" and "offset mod 8 = 0"
  shows "\<exists>frags. fragment_loop eth base payload mtu offset = Some frags
    \<and> reassemble offset frags = Some (drop offset payload)
    \<and> (\<forall>f \<in> set frags. sums_to_ones (take 20 (drop 14 f)) \<and> length f \<le> 34 + mtu)"
  using assms(5,6)
proof (induction "length payload - offset" arbitrary: offset rule: less_induct)
  case less
  define n where "n = chunk_size mtu (length payload) offset"
  note n = chunk_size_props [OF assms(3) less.prems(1), folded n_def]
  define chunk where "chunk = take n (drop offset payload)"
  define f where "f = eth @ fragment_header base offset n (offset + n < length payload) @ chunk"
  have chunk: "length chunk = n" using n(2) by (simp add: chunk_def)
  have fr: "frag_offset f = offset" "frag_more f = (offset + n < length payload)" "frag_data f = chunk"
      "sums_to_ones (take 20 (drop 14 f))"
    unfolding f_def using fragment_read [OF assms(1,2) less.prems(2) _ chunk] less.prems assms(4) n(2) by simp_all
  have flen: "length f \<le> 34 + mtu"
    using assms(1) chunk n(3) by (simp add: f_def length_fragment_header [OF assms(2)])
  have unfold: "fragment_loop eth base payload mtu offset
      = Option.bind (fragment_loop eth base payload mtu (offset + n)) (\<lambda>rest. Some (f # rest))"
    using less.prems(1) by (subst fragment_loop.simps) (simp add: Let_def f_def chunk_def flip: n_def)
  have shrink: "length payload - (offset + n) < length payload - offset" using n(1) less.prems(1) by simp
  show ?case
  proof (cases "offset + n < length payload")
    case True
    then obtain frags where fs: "fragment_loop eth base payload mtu (offset + n) = Some frags"
        "reassemble (offset + n) frags = Some (drop (offset + n) payload)"
        "\<forall>f \<in> set frags. sums_to_ones (take 20 (drop 14 f)) \<and> length f \<le> 34 + mtu"
      using less.hyps [OF shrink True n(4) [OF less.prems(2) True]] by blast
    have "chunk @ drop (offset + n) payload = drop offset payload"
      using append_take_drop_id [of n "drop offset payload"] by (simp add: chunk_def add.commute)
    then show ?thesis using fs fr flen chunk True by (simp add: unfold)
  next
    case False
    then have "offset + n = length payload" using n(2) by simp
    then show ?thesis
      using fr flen chunk False by (simp add: unfold fragment_loop.simps [of eth base payload mtu "length payload"] chunk_def)
  qed
qed


subsection \<open>When the loop ends\<close>

lemma fragment_loop_total:
  assumes "8 \<le> mtu"
  shows "\<exists>frags. fragment_loop eth base payload mtu offset = Some frags"
proof (induction "length payload - offset" arbitrary: offset rule: less_induct)
  case less
  show ?case
  proof (cases "offset < length payload")
    case True
    have "length payload - (offset + chunk_size mtu (length payload) offset) < length payload - offset"
      using chunk_size_props(1) [OF assms True] True by linarith
    from less.hyps [OF this] obtain rest
      where "fragment_loop eth base payload mtu (offset + chunk_size mtu (length payload) offset) = Some rest"
      by blast
    then show ?thesis using True by (subst fragment_loop.simps) (simp add: Let_def)
  next
    case False
    then show ?thesis by (subst fragment_loop.simps) simp
  qed
qed

text \<open>A chunk of fewer than 8 bytes that is not the last is rounded down to nothing.\<close>

lemma chunk_size_stuck: "0 < mtu \<Longrightarrow> mtu < 8 \<Longrightarrow> mtu < len \<Longrightarrow> chunk_size mtu len 0 = 0"
  by (simp add: chunk_size_def Let_def)

lemma fragment_loop_stuck:
  assumes "fragment_loop eth base payload mtu offset = Some frags"
  shows "offset \<noteq> 0 \<or> mtu = 0 \<or> 8 \<le> mtu \<or> length payload \<le> mtu"
proof (rule fragment_loop.raw_induct [OF _ assms])
  fix loop :: "bytes \<Rightarrow> bytes \<Rightarrow> bytes \<Rightarrow> nat \<Rightarrow> nat \<Rightarrow> bytes list option" and eth base payload mtu offset frags
  assume IH: "\<And>eth base payload mtu offset frags. loop eth base payload mtu offset = Some frags
      \<Longrightarrow> offset \<noteq> 0 \<or> mtu = 0 \<or> 8 \<le> mtu \<or> length payload \<le> mtu"
    and eq: "(if offset < length payload then
        (let chunkSize = chunk_size mtu (length payload) offset;
             chunk = take chunkSize (drop offset payload);
             header = fragment_header base offset chunkSize (offset + chunkSize < length payload)
         in Option.bind (loop eth base payload mtu (offset + chunkSize)) (\<lambda>rest. Some ((eth @ header @ chunk) # rest)))
      else Some []) = Some frags"
  show "offset \<noteq> 0 \<or> mtu = 0 \<or> 8 \<le> mtu \<or> length payload \<le> mtu"
  proof (rule ccontr)
    assume "\<not> ?thesis"
    then have *: "offset = 0" "0 < mtu" "mtu < 8" "mtu < length payload" by auto
    then obtain r where "loop eth base payload mtu 0 = Some r"
      using eq by (cases "payload = []") (auto simp: chunk_size_stuck Let_def bind_eq_Some_conv simp del: length_greater_0_conv)
    then show False using IH [of eth base payload mtu 0 r] * by simp
  qed
qed

lemma fragment_loop_single:
  assumes "length payload \<le> mtu"
  shows "\<exists>frags. fragment_loop eth base payload mtu 0 = Some frags"
proof -
  have "chunk_size mtu (length payload) 0 = length payload" if "payload \<noteq> []"
    using that assms by (auto simp: chunk_size_def Let_def)
  moreover have "fragment_loop eth base payload mtu (length payload) = Some []"
    by (subst fragment_loop.simps) simp
  ultimately show ?thesis
    by (cases "payload = []") (simp_all add: fragment_loop.simps [of eth base payload mtu 0] Let_def)
qed

text \<open>\<open>FragmentPacket\<close> returns unless the MTU is between 1 and 7 and the IP payload
  is longer than the MTU: in that case the chunk length is rounded down to zero and the
  loop never advances.\<close>

theorem fragmenting_returns_iff:
  "FragmentPacket frame mtu = None \<longleftrightarrow> 34 \<le> length frame \<and> 0 < mtu \<and> mtu < 8 \<and> mtu < int (length frame) - 34"
proof (cases "34 \<le> length frame \<and> 0 < mtu")
  case True
  let ?loop = "fragment_loop (take 14 frame) (take 20 (drop 14 frame)) (drop 34 frame) (nat mtu) 0"
  have eq: "FragmentPacket frame mtu = ?loop" using True by (auto simp: FragmentPacket_def)
  have "?loop = None \<longleftrightarrow> nat mtu < 8 \<and> nat mtu < length frame - 34"
    using fragment_loop_total [of "nat mtu" "take 14 frame" "take 20 (drop 14 frame)" "drop 34 frame" 0]
      fragment_loop_stuck [of "take 14 frame" "take 20 (drop 14 frame)" "drop 34 frame" "nat mtu" 0]
      fragment_loop_single [of "drop 34 frame" "nat mtu" "take 14 frame" "take 20 (drop 14 frame)"] True
    by (cases ?loop) (auto simp: not_less simp flip: not_le)
  then show ?thesis unfolding eq using True by auto
next
  case False
  then show ?thesis by (auto simp: FragmentPacket_def)
qed

lemma FragmentPacket_reassembles:
  assumes "34 < length frame" and "length frame \<le> 65549" and "8 \<le> mtu"
  shows "\<exists>frags. FragmentPacket frame mtu = Some frags \<and> reassemble 0 frags = Some (drop 34 frame)
    \<and> list_all (\<lambda>f. sums_to_ones (take 20 (drop 14 f)) \<and> int (length f) \<le> 34 + mtu) frags"
proof -
  have "FragmentPacket frame mtu
      = fragment_loop (take 14 frame) (take 20 (drop 14 frame)) (drop 34 frame) (nat mtu) 0"
    using assms by (simp add: FragmentPacket_def)
  moreover have "int l \<le> 34 + mtu \<longleftrightarrow> l \<le> 34 + nat mtu" for l using assms(3) by linarith
  ultimately show ?thesis
    using fragment_loop_reassembles [of "take 14 frame" "take 20 (drop 14 frame)" "nat mtu" "drop 34 frame" 0] assms
    by (simp add: list_all_iff)
qed



text \<open>\<open>computeIPChecksum\<close> of the fragmenter, which folds the carries twice, computes
  the same checksum on every byte string as the loop of the XDP transport.\<close>

theorem checksum_folds_agree: "computeIPChecksum = xdpChecksum"
  by (rule ext) (rule computeIPChecksum_eq)

end
