(* ===== verification/Hex.thy ===== *)
theory Hex
  imports Prelude
begin

text \<open>
  Hexadecimal text, as the package \<open>encoding/hex\<close> reads and writes it: shared by the
  payload options, the kernel's socket tables and the report formats.
\<close>

definition hex_digit :: "char \<Rightarrow> byte option" where
  "hex_digit c =
     (if CHR ''0'' \<le> c \<and> c \<le> CHR ''9'' then Some (of_nat (of_char c - 48))
      else if CHR ''a'' \<le> c \<and> c \<le> CHR ''f'' then Some (of_nat (of_char c - 87))
      else if CHR ''A'' \<le> c \<and> c \<le> CHR ''F'' then Some (of_nat (of_char c - 55))
      else None)"

text \<open>\<open>hex.DecodeString\<close>; an odd length or a character that is no hex digit is an error.\<close>

fun hex_decode :: "string \<Rightarrow> bytes option" where
  "hex_decode [] = Some []"
| "hex_decode [_] = None"
| "hex_decode (a # b # s) =
     (case (hex_digit a, hex_digit b) of
        (Some x, Some y) \<Rightarrow> map_option (Cons (16 * x + y)) (hex_decode s)
      | _ \<Rightarrow> None)"

definition nibble_char :: "byte \<Rightarrow> char" where
  "nibble_char d = (if d < 10 then char_of (48 + unat d) else char_of (87 + unat d))"

fun hex_encode :: "bytes \<Rightarrow> string" where
  "hex_encode [] = []"
| "hex_encode (b # bs) = nibble_char (b div 16) # nibble_char (b mod 16) # hex_encode bs"

lemma hex_digit_nibble: "d < 16 \<Longrightarrow> hex_digit (nibble_char d) = Some d"
proof -
  assume "d < 16"
  then have "unat d \<in> {0..<16}" by (simp add: word_less_nat_alt)
  then have "unat d \<in> {0, 1, 2, 3, 4, 5, 6, 7, 8, 9, 10, 11, 12, 13, 14, 15}"
    by (simp only: atLeastLessThan_iff insert_iff empty_iff) presburger
  moreover have "d = of_nat (unat d)" by simp
  ultimately show ?thesis by (elim insertE emptyE; simp only:; code_simp)
qed

lemma hex_decode_encode [simp]: "hex_decode (hex_encode bs) = Some bs"
proof (induction bs)
  case (Cons b bs)
  have "unat b < 16 * 16" using unsigned_less [of b, where ?'a = nat] by simp
  then have "unat b div 16 < 16" by (rule less_mult_imp_div_less)
  then have "b div 16 < 16" "b mod 16 < 16" by (simp_all add: word_less_nat_alt unat_div unat_mod)
  then show ?case using Cons hex_digit_nibble by (metis (no_types, lifting) hex_decode.simps(3) hex_encode.simps(2) mult_div_mod_eq option.simps(5,9) case_prod_conv)
qed simp

lemma hex_digit_upper_nibble: "d < 16 \<Longrightarrow> hex_digit (upper_char (nibble_char d)) = Some d"
proof -
  assume "d < 16"
  then have "unat d \<in> {0..<16}" by (simp add: word_less_nat_alt)
  then have "unat d \<in> {0, 1, 2, 3, 4, 5, 6, 7, 8, 9, 10, 11, 12, 13, 14, 15}"
    by (simp only: atLeastLessThan_iff insert_iff empty_iff) presburger
  moreover have "d = of_nat (unat d)" by simp
  ultimately show ?thesis by (elim insertE emptyE; simp only:; code_simp)
qed

lemma nibbles_less: "b div 16 < (16 :: byte)" "b mod 16 < (16 :: byte)"
proof -
  have "unat b < 16 * 16" using unsigned_less [of b, where ?'a = nat] by simp
  then have "unat b div 16 < 16" by (rule less_mult_imp_div_less)
  then show "b div 16 < (16 :: byte)" "b mod 16 < (16 :: byte)" by (simp_all add: word_less_nat_alt unat_div unat_mod)
qed

lemma hex_decode_upper [simp]: "hex_decode (to_upper (hex_encode bs)) = Some bs"
proof (induction bs)
  case (Cons b bs)
  then show ?case using hex_digit_upper_nibble nibbles_less [of b]
    by (simp add: to_upper_def mult_div_mod_eq)
qed (simp add: to_upper_def)

end
