(* ===== verification/Dialer.thy ===== *)
theory Dialer
  imports Hex NetAddr Config
begin

text \<open>
  The part of \<open>internal/evasion\<close> a scan goes through: the payload and decoy options
  (\<open>payload.go\<close>, \<open>decoy.go\<close>), the configuration built from them (\<open>config.go\<close>,
  \<open>proxy.go\<close>) and the dialer that applies it (\<open>dialer.go\<close>).  Connecting is the
  network's business: a request goes to an oracle, and the dialer's result lists the
  requests it made and the payloads it wrote.
\<close>

subsection \<open>Payload and decoys\<close>

datatype evasion_error = InvalidHex | InvalidDecoy string | InvalidProxy | UnsupportedProxy string

definition PreparePayload :: "string \<Rightarrow> string \<Rightarrow> evasion_error + bytes" where
  "PreparePayload dataStr dataHex =
     (if dataHex \<noteq> [] then (case hex_decode dataHex of None \<Rightarrow> Inl InvalidHex | Some b \<Rightarrow> Inr b)
      else if dataStr \<noteq> [] then Inr (map of_char dataStr)
      else Inr [])"

fun parse_decoy_parts :: "string list \<Rightarrow> evasion_error + ip list" where
  "parse_decoy_parts [] = Inr []"
| "parse_decoy_parts (p # ps) =
     (case parse_ip (trim_space p) of
        None \<Rightarrow> Inl (InvalidDecoy (trim_space p))
      | Some a \<Rightarrow> (case parse_decoy_parts ps of Inl e \<Rightarrow> Inl e | Inr as \<Rightarrow> Inr (a # as)))"

definition ParseDecoys :: "string \<Rightarrow> evasion_error + ip list" where
  "ParseDecoys decoyStr =
     (if decoyStr = [] then Inr [] else parse_decoy_parts (split_on (CHR '','') decoyStr))"

text \<open>What a scan makes of its decoy option: an invalid list stands for no decoys.\<close>

definition decoys_of :: "Options \<Rightarrow> ip list" where
  "decoys_of opts =
     (if DecoyIPs opts = [] then []
      else (case ParseDecoys (DecoyIPs opts) of Inl _ \<Rightarrow> [] | Inr ips \<Rightarrow> ips))"

subsection \<open>Configuration\<close>

record EvasionConfig =
  ec_SourcePort :: int
  ec_TTL :: int
  ec_Payload :: bytes
  ec_ProxyEnabled :: bool
  ec_DecoyIPs :: "ip list"
  ec_DecoysEnabled :: bool
  ec_Interface :: string

text \<open>\<open>ParseProxyURL\<close>, with the scheme \<open>url.Parse\<close> finds as an argument.\<close>

definition ParseProxyURL :: "(string \<Rightarrow> string option) \<Rightarrow> string \<Rightarrow> evasion_error + bool" where
  "ParseProxyURL urlScheme proxyStr =
     (if proxyStr = [] then Inr False
      else (case urlScheme proxyStr of
              None \<Rightarrow> Inl InvalidProxy
            | Some scheme \<Rightarrow>
                if scheme \<noteq> ''socks5'' \<and> scheme \<noteq> ''http'' then Inl (UnsupportedProxy scheme) else Inr True))"

definition NewConfig ::
  "(string \<Rightarrow> string option) \<Rightarrow> int \<Rightarrow> int \<Rightarrow> string \<Rightarrow> string \<Rightarrow> string \<Rightarrow> string \<Rightarrow> evasion_error + EvasionConfig" where
  "NewConfig urlScheme sourcePort ttl dataStr dataHex proxyStr decoyStr =
     (case PreparePayload dataStr dataHex of
        Inl e \<Rightarrow> Inl e
      | Inr payload \<Rightarrow>
          (case ParseProxyURL urlScheme proxyStr of
             Inl e \<Rightarrow> Inl e
           | Inr proxy \<Rightarrow>
               (case ParseDecoys decoyStr of
                  Inl e \<Rightarrow> Inl e
                | Inr decoys \<Rightarrow>
                    Inr \<lparr>ec_SourcePort = sourcePort, ec_TTL = ttl, ec_Payload = payload, ec_ProxyEnabled = proxy,
                         ec_DecoyIPs = decoys, ec_DecoysEnabled = (decoys \<noteq> []), ec_Interface = []\<rparr>)))"

subsection \<open>The dialer\<close>

record dial_request =
  dq_addr :: string
  dq_local :: "(ip option \<times> int) option"   \<comment> \<open>the local address asked for\<close>
  dq_iface :: string
  dq_ttl :: int

datatype dial_outcome = Dialed nat | DialError string bool   \<comment> \<open>the message and \<open>Timeout()\<close>\<close>

type_synonym dialer = "dial_request \<Rightarrow> dial_outcome"

definition plain_request :: "string \<Rightarrow> dial_request" where
  "plain_request addr = \<lparr>dq_addr = addr, dq_local = None, dq_iface = [], dq_ttl = 0\<rparr>"

definition evasion_local :: "(string \<Rightarrow> ip option) \<Rightarrow> EvasionConfig option \<Rightarrow> (ip option \<times> int) option" where
  "evasion_local ifaceIP cfg =
     (case cfg of
        None \<Rightarrow> None
      | Some c \<Rightarrow>
          if ec_SourcePort c > 0 \<or> ec_Interface c \<noteq> []
          then Some (if ec_Interface c \<noteq> [] then ifaceIP (ec_Interface c) else None, ec_SourcePort c)
          else None)"

text \<open>\<open>CustomDialer.Dial\<close>: the connection or its error, the requests made and what was written.\<close>

definition custom_dial ::
  "(string \<Rightarrow> ip option) \<Rightarrow> EvasionConfig option \<Rightarrow> dialer \<Rightarrow> string \<Rightarrow> dial_outcome \<times> dial_request list \<times> bytes list" where
  "custom_dial ifaceIP cfg dial address =
     (let localAddr = evasion_local ifaceIP cfg;
          request = \<lparr>dq_addr = address, dq_local = localAddr,
                     dq_iface = (case cfg of Some c \<Rightarrow> ec_Interface c | None \<Rightarrow> []),
                     dq_ttl = (case cfg of Some c \<Rightarrow> if ec_TTL c > 0 then ec_TTL c else 0 | None \<Rightarrow> 0)\<rparr>
      in case dial request of
           DialError e t \<Rightarrow>
             if localAddr \<noteq> None then (dial (plain_request address), [request, plain_request address], [])
             else (DialError e t, [request], [])
         | Dialed c \<Rightarrow>
             (Dialed c, [request],
              case cfg of Some cf \<Rightarrow> if ec_Payload cf \<noteq> [] then [ec_Payload cf] else [] | None \<Rightarrow> []))"

subsection \<open>Laws\<close>

text \<open>Every decoy of a list that parses stands for one element of the list.\<close>

lemma parse_decoy_parts_length: "parse_decoy_parts ps = Inr ips \<Longrightarrow> length ips = length ps"
  by (induction ps arbitrary: ips) (auto split: option.splits sum.splits)

text \<open>A configuration that cannot be built is dialled as no configuration at all.\<close>

lemma custom_dial_unconfigured: "custom_dial ifaceIP None dial address = (dial (plain_request address), [plain_request address], [])"
  by (simp add: custom_dial_def evasion_local_def plain_request_def Let_def split: dial_outcome.split)

lemma custom_dial_plain_requests:
  assumes "custom_dial ifaceIP (Some c) dial address = (r, reqs, writes)"
  shows "length reqs \<le> 2" and "list_all (\<lambda>q. dq_addr q = address) reqs"
    and "r = dial (last reqs)"
  using assms by (auto simp: custom_dial_def Let_def plain_request_def split: dial_outcome.splits if_splits)

end
