(* ===== verification/ConnPool.thy ===== *)
theory ConnPool
  imports Dialer
begin

text \<open>
  \<open>internal/connpool/pool.go\<close>: idle TCP connections kept per address for reuse.  The
  pool's mutex is released while a connection is probed for liveness, so the atomic
  operations are the pop of one connection, the put, one reaper tick and the shutdown;
  \<open>Get\<close> is the loop of pops its caller runs.  A connection is a number; the pool
  keeps the list of those it closed.
\<close>

record idleConn =
  ic_conn :: nat
  ic_since :: int

record Pool =
  idle :: "string \<Rightarrow> idleConn list"    \<comment> \<open>an absent key reads as the nil slice\<close>
  maxSize :: int
  idleTimeout :: int
  pool_closed :: "nat list"

definition pool_New :: "int \<Rightarrow> int \<Rightarrow> Pool" where
  "pool_New mx idleTmo = \<lparr>idle = (\<lambda>_. []), maxSize = mx, idleTimeout = idleTmo, pool_closed = []\<rparr>"

definition pool_pop :: "string \<Rightarrow> Pool \<Rightarrow> nat option \<times> Pool" where
  "pool_pop addr p =
     (let conns = idle p addr in
      if conns = [] then (None, p)
      else (Some (ic_conn (last conns)), p\<lparr>idle := (idle p)(addr := butlast conns)\<rparr>))"

definition pool_discard :: "nat \<Rightarrow> Pool \<Rightarrow> Pool" where
  "pool_discard c p = p\<lparr>pool_closed := c # pool_closed p\<rparr>"

text \<open>\<open>Get\<close> with nobody else at the pool: connections are probed from the newest, the
  dead ones closed; \<open>alive\<close> is whether the read of one byte times out.\<close>

function pool_Get :: "(nat \<Rightarrow> bool) \<Rightarrow> dialer \<Rightarrow> string \<Rightarrow> Pool \<Rightarrow> dial_outcome \<times> Pool" where
  "pool_Get alive dial addr p =
     (case pool_pop addr p of
        (None, p') \<Rightarrow> (dial (plain_request addr), p')
      | (Some c, p') \<Rightarrow> if alive c then (Dialed c, p') else pool_Get alive dial addr (pool_discard c p'))"
  by pat_completeness auto
termination
  by (relation "measure (\<lambda>(alive, dial, addr, p). length (idle p addr))")
    (auto simp: pool_pop_def pool_discard_def Let_def split: if_splits)

definition pool_Put :: "string \<Rightarrow> nat \<Rightarrow> int \<Rightarrow> Pool \<Rightarrow> Pool" where
  "pool_Put addr c now p =
     (if int (length (idle p addr)) \<ge> maxSize p then pool_discard c p
      else p\<lparr>idle := (idle p)(addr := idle p addr @ [\<lparr>ic_conn = c, ic_since = now\<rparr>])\<rparr>)"

definition fresh_conn :: "int \<Rightarrow> Pool \<Rightarrow> idleConn \<Rightarrow> bool" where
  "fresh_conn now p ic = (now - ic_since ic < idleTimeout p)"

text \<open>One reaper tick over the addresses in use, and the shutdown.\<close>

fun pool_reap :: "int \<Rightarrow> string list \<Rightarrow> Pool \<Rightarrow> Pool" where
  "pool_reap now [] p = p"
| "pool_reap now (addr # addrs) p =
     pool_reap now addrs
       (p\<lparr>idle := (idle p)(addr := filter (fresh_conn now p) (idle p addr)),
          pool_closed := map ic_conn (filter (\<lambda>ic. \<not> fresh_conn now p ic) (idle p addr)) @ pool_closed p\<rparr>)"

fun pool_Close :: "string list \<Rightarrow> Pool \<Rightarrow> Pool" where
  "pool_Close [] p = p"
| "pool_Close (addr # addrs) p =
     pool_Close addrs (p\<lparr>idle := (idle p)(addr := []), pool_closed := map ic_conn (idle p addr) @ pool_closed p\<rparr>)"

declare pool_Get.simps [simp del]

subsection \<open>The pool never hands out a closed connection\<close>

text \<open>Every connection is in one place: idle under one address, closed, or in the hands of
  a scan; and no address keeps more than \<open>maxSize\<close>.\<close>

definition idle_conns :: "Pool \<Rightarrow> string \<Rightarrow> nat set" where
  "idle_conns p addr = ic_conn ` set (idle p addr)"

definition pool_inv :: "Pool \<Rightarrow> nat set \<Rightarrow> bool" where
  "pool_inv p out \<longleftrightarrow> (\<forall>a. int (length (idle p a)) \<le> max 0 (maxSize p) \<and> distinct (map ic_conn (idle p a))
       \<and> idle_conns p a \<inter> (set (pool_closed p) \<union> out) = {}
       \<and> (\<forall>b. a \<noteq> b \<longrightarrow> idle_conns p a \<inter> idle_conns p b = {}))
     \<and> set (pool_closed p) \<inter> out = {}"

inductive pool_step :: "Pool \<times> nat set \<Rightarrow> Pool \<times> nat set \<Rightarrow> bool" where
  pop: "pool_pop addr p = (Some c, p') \<Longrightarrow> pool_step (p, out) (p', insert c out)"
| discard: "c \<in> out \<Longrightarrow> pool_step (p, out) (pool_discard c p, out - {c})"
| dialled: "c \<notin> out \<Longrightarrow> c \<notin> set (pool_closed p) \<Longrightarrow> (\<forall>a. c \<notin> idle_conns p a) \<Longrightarrow>
    pool_step (p, out) (p, insert c out)"
| put_back: "c \<in> out \<Longrightarrow> pool_step (p, out) (pool_Put addr c now p, out - {c})"
| reap: "pool_step (p, out) (pool_reap now addrs p, out)"
| shutdown: "pool_step (p, out) (pool_Close addrs p, out)"

inductive_cases pool_stepE: "pool_step s t"

lemma pool_invD:
  assumes "pool_inv p out"
  shows "int (length (idle p a)) \<le> max 0 (maxSize p)" and "distinct (map ic_conn (idle p a))"
    and "idle_conns p a \<inter> set (pool_closed p) = {}" and "idle_conns p a \<inter> out = {}"
    and "a \<noteq> b \<Longrightarrow> idle_conns p a \<inter> idle_conns p b = {}" and "set (pool_closed p) \<inter> out = {}"
  using assms unfolding pool_inv_def by blast+

lemma pool_invI:
  assumes "\<And>a. int (length (idle p a)) \<le> max 0 (maxSize p)" and "\<And>a. distinct (map ic_conn (idle p a))"
    and "\<And>a. idle_conns p a \<inter> set (pool_closed p) = {}" and "\<And>a. idle_conns p a \<inter> out = {}"
    and "\<And>a b. a \<noteq> b \<Longrightarrow> idle_conns p a \<inter> idle_conns p b = {}" and "set (pool_closed p) \<inter> out = {}"
  shows "pool_inv p out"
  unfolding pool_inv_def using assms by (simp add: Int_Un_distrib)

lemma pool_inv_New: "pool_inv (pool_New mx t) {}"
  by (simp add: pool_inv_def pool_New_def idle_conns_def)

text \<open>Closing part of one address's connections: the reaper, the shutdown.\<close>

lemma pool_inv_close_part:
  assumes "pool_inv p out"
  shows "pool_inv (p\<lparr>idle := (idle p)(addr := filter k (idle p addr)),
       pool_closed := map ic_conn (filter (\<lambda>ic. \<not> k ic) (idle p addr)) @ pool_closed p\<rparr>) out"
    (is "pool_inv ?q out")
proof -
  note iv = pool_invD [OF assms]
  have sub: "idle_conns ?q a \<subseteq> idle_conns p a" for a by (auto simp: idle_conns_def)
  have closed: "set (pool_closed ?q) \<subseteq> set (pool_closed p) \<union> idle_conns p addr"
    by (auto simp: idle_conns_def)
  have split: "idle_conns ?q addr \<inter> set (pool_closed ?q) = {}"
    using iv(2) [of addr] iv(3) [of addr] by (auto simp: idle_conns_def distinct_map inj_on_def)
  show ?thesis
  proof (rule pool_invI)
    show "idle_conns ?q a \<inter> set (pool_closed ?q) = {}" for a
      using split closed sub [of a] iv(3) [of a] iv(5) [of a addr] by (cases "a = addr") blast+
    have "int (length (filter k (idle p addr))) \<le> int (length (idle p addr))" by simp
    then have "int (length (filter k (idle p addr))) \<le> max 0 (maxSize p)"
      using iv(1) [of addr] by (rule order_trans)
    then show "int (length (idle ?q a)) \<le> max 0 (maxSize ?q)" for a
      using iv(1) [of a] by simp
    show "distinct (map ic_conn (idle ?q a))" for a
      using iv(2) [of a] distinct_map_filter [of ic_conn "idle p addr" k] by auto
    show "set (pool_closed ?q) \<inter> out = {}" using closed iv(4) [of addr] iv(6) by blast
    show "idle_conns ?q a \<inter> out = {}" for a using sub [of a] iv(4) [of a] by blast
    show "idle_conns ?q a \<inter> idle_conns ?q b = {}" if "a \<noteq> b" for a b
      using sub [of a] sub [of b] iv(5) [OF that] by blast
  qed
qed

lemma pool_inv_reap: "pool_inv p out \<Longrightarrow> pool_inv (pool_reap now addrs p) out"
  by (induction addrs arbitrary: p) (auto intro: pool_inv_close_part)

lemma pool_inv_Close: "pool_inv p out \<Longrightarrow> pool_inv (pool_Close addrs p) out"
proof (induction addrs arbitrary: p)
  case (Cons a addrs)
  then show ?case using pool_inv_close_part [OF Cons.prems, where addr = a and k = "\<lambda>_. False"] by simp
qed simp

lemma pool_inv_pop:
  assumes "pool_inv p out" and "pool_pop addr p = (Some c, p')"
  shows "pool_inv p' (insert c out)" and "c \<notin> out" and "c \<notin> set (pool_closed p')"
proof -
  note iv = pool_invD [OF assms(1)]
  have ne: "idle p addr \<noteq> []" and c: "c = ic_conn (last (idle p addr))"
    and p': "p' = p\<lparr>idle := (idle p)(addr := butlast (idle p addr))\<rparr>"
    using assms(2) by (auto simp: pool_pop_def Let_def split: if_splits)
  obtain xs x where xs: "idle p addr = xs @ [x]" using ne by (metis append_butlast_last_id)
  have mem: "c \<in> idle_conns p addr" using xs c by (simp add: idle_conns_def)
  then show out: "c \<notin> out" "c \<notin> set (pool_closed p')" using iv(3,4) [of addr] p' by auto
  have sub: "idle_conns p' a \<subseteq> idle_conns p a" for a using xs by (auto simp: p' idle_conns_def)
  have "c \<notin> idle_conns p' addr" using iv(2) [of addr] xs c by (auto simp: p' idle_conns_def)
  moreover have "c \<notin> idle_conns p' a" if "a \<noteq> addr" for a using iv(5) [OF that] mem sub [of a] by blast
  ultimately have gone: "c \<notin> idle_conns p' a" for a by (cases "a = addr") auto
  show "pool_inv p' (insert c out)"
  proof (rule pool_invI)
    show "int (length (idle p' a)) \<le> max 0 (maxSize p')" for a
      using iv(1) [of a] xs by (auto simp: p' le_max_iff_disj)
    show "distinct (map ic_conn (idle p' a))" for a using iv(2) [of a] xs by (auto simp: p')
    show "idle_conns p' a \<inter> set (pool_closed p') = {}" for a using sub [of a] iv(3) [of a] by (auto simp: p')
    show "idle_conns p' a \<inter> insert c out = {}" for a using sub [of a] iv(4) [of a] gone [of a] by blast
    show "idle_conns p' a \<inter> idle_conns p' b = {}" if "a \<noteq> b" for a b
      using sub [of a] sub [of b] iv(5) [OF that] by blast
    show "set (pool_closed p') \<inter> insert c out = {}" using iv(6) out by (auto simp: p')
  qed
qed

lemma pool_inv_discard:
  assumes "pool_inv p out" and "c \<in> out"
  shows "pool_inv (pool_discard c p) (out - {c})"
proof -
  note iv = pool_invD [OF assms(1)]
  have same: "idle_conns (pool_discard c p) a = idle_conns p a" for a by (simp add: pool_discard_def idle_conns_def)
  show ?thesis
  proof (rule pool_invI; (unfold same)?)
    show "idle_conns p a \<inter> set (pool_closed (pool_discard c p)) = {}" for a
      using iv(3) [of a] iv(4) [of a] assms(2) by (auto simp: pool_discard_def)
    show "idle_conns p a \<inter> (out - {c}) = {}" for a using iv(4) [of a] by blast
    show "set (pool_closed (pool_discard c p)) \<inter> (out - {c}) = {}" using iv(6) by (auto simp: pool_discard_def)
  qed (use iv in \<open>simp_all add: pool_discard_def\<close>)
qed

lemma pool_inv_Put:
  assumes "pool_inv p out" and "c \<in> out"
  shows "pool_inv (pool_Put addr c now p) (out - {c})"
proof (cases "int (length (idle p addr)) \<ge> maxSize p")
  case True
  then show ?thesis using pool_inv_discard [OF assms] by (simp add: pool_Put_def)
next
  case False
  let ?q = "p\<lparr>idle := (idle p)(addr := idle p addr @ [\<lparr>ic_conn = c, ic_since = now\<rparr>])\<rparr>"
  note iv = pool_invD [OF assms(1)]
  have conns: "idle_conns ?q a = (if a = addr then insert c (idle_conns p a) else idle_conns p a)" for a
    by (simp add: idle_conns_def)
  have "pool_inv ?q (out - {c})"
  proof (rule pool_invI)
    show "int (length (idle ?q a)) \<le> max 0 (maxSize ?q)" for a using iv(1) [of a] False by auto
    show "distinct (map ic_conn (idle ?q a))" for a
      using iv(2) [of a] iv(4) [of a] assms(2) by (auto simp: idle_conns_def)
    show "idle_conns ?q a \<inter> set (pool_closed ?q) = {}" for a using iv(3) [of a] iv(6) assms(2) by (auto simp: conns)
    show "idle_conns ?q a \<inter> (out - {c}) = {}" for a using iv(4) [of a] by (auto simp: conns)
    show "idle_conns ?q a \<inter> idle_conns ?q b = {}" if "a \<noteq> b" for a b
      using iv(5) [OF that] iv(4) [of a] iv(4) [of b] assms(2) that by (auto simp: conns)
    show "set (pool_closed ?q) \<inter> (out - {c}) = {}" using iv(6) by auto
  qed
  then show ?thesis using False by (simp add: pool_Put_def)
qed

lemma pool_inv_dialled:
  "pool_inv p out \<Longrightarrow> c \<notin> set (pool_closed p) \<Longrightarrow> (\<forall>a. c \<notin> idle_conns p a) \<Longrightarrow> pool_inv p (insert c out)"
  by (rule pool_invI) (auto dest: pool_invD)

lemma maxSize_ops [simp]:
  "maxSize (pool_discard c p) = maxSize p" "maxSize (pool_Put addr c now p) = maxSize p"
  "maxSize (pool_reap now addrs p) = maxSize p" "maxSize (pool_Close addrs p) = maxSize p"
  "maxSize (snd (pool_pop addr p)) = maxSize p"
proof -
  show "maxSize (pool_reap now addrs p) = maxSize p" by (induction addrs arbitrary: p) simp_all
  show "maxSize (pool_Close addrs p) = maxSize p" by (induction addrs arbitrary: p) simp_all
qed (simp_all add: pool_discard_def pool_Put_def pool_pop_def Let_def)

lemma pool_step_inv:
  assumes "pool_step s t" and "pool_inv (fst s) (snd s)"
  shows "pool_inv (fst t) (snd t) \<and> maxSize (fst t) = maxSize (fst s)"
  using assms(1)
proof (rule pool_stepE)
  fix addr p c p' out assume "s = (p, out)" "t = (p', insert c out)" "pool_pop addr p = (Some c, p')"
  then show ?thesis using pool_inv_pop(1) assms(2) maxSize_ops(5) [of addr p] by simp
qed (use assms(2) in \<open>simp_all add: pool_inv_discard pool_inv_dialled pool_inv_Put pool_inv_reap pool_inv_Close\<close>)

lemma pool_reach_inv:
  assumes "pool_step\<^sup>*\<^sup>* (pool_New mx t, {}) s"
  shows "pool_inv (fst s) (snd s) \<and> maxSize (fst s) = mx"
  using assms
proof (induction rule: rtranclp_induct)
  case base
  show ?case using pool_inv_New by (simp add: pool_New_def)
next
  case (step s t)
  then show ?case using pool_step_inv [OF step.hyps(2)] by simp
qed

text \<open>C18: however the scans, the reaper and the shutdown interleave their uses of the pool,
  a connection it hands out is open and in nobody else's hands, and no address ever
  keeps more idle connections than the pool's size.\<close>

theorem pool_never_shares:
  assumes "pool_step\<^sup>*\<^sup>* (pool_New mx t, {}) (p, out)" and "pool_pop addr p = (Some c, p')"
  shows "c \<notin> out \<and> c \<notin> set (pool_closed p') \<and> int (length (idle p addr)) \<le> max 0 mx"
proof -
  have iv: "pool_inv p out" and mx: "maxSize p = mx" using pool_reach_inv [OF assms(1)] by simp_all
  show ?thesis using pool_inv_pop(2,3) [OF iv assms(2)] pool_invD(1) [OF iv, of addr] by (simp add: mx)
qed

theorem pool_never_shares_witness:
  "let p = pool_Put ''a'' 7 0 (pool_New 2 30) in pool_pop ''a'' p = (Some 7, pool_New 2 30) \<and> 7 \<notin> set (pool_closed p)"
proof -
  let ?p = "pool_Put ''a'' 7 0 (pool_New 2 30)"
  have pop: "pool_pop ''a'' ?p = (Some 7, pool_New 2 30)"
    by (simp add: pool_Put_def pool_New_def pool_pop_def Let_def fun_upd_idem_iff)
  have "pool_step (pool_New 2 30, {}) (pool_New 2 30, {7})"
    by (rule pool_step.dialled) (simp_all add: pool_New_def idle_conns_def)
  moreover have "pool_step (pool_New 2 30, {7}) (?p, {})"
    using pool_step.put_back [of 7 "{7}" "pool_New 2 30" "''a''" 0] by simp
  ultimately have "pool_step\<^sup>*\<^sup>* (pool_New 2 30, {}) (?p, {})"
    by (rule rtranclp.rtrancl_into_rtrancl [OF r_into_rtranclp])
  from pool_never_shares [OF this pop] show ?thesis
    using pop by (simp add: Let_def pool_Put_def pool_New_def)
qed

end
