(* ===== verification/RawProbes.thy ===== *)
theory RawProbes
  imports Waiters ConnPool Results
begin

text \<open>
  The raw-socket scans: \<open>syn.go\<close>, \<open>ack_window.go\<close>, \<open>stealth.go\<close> and \<open>idle.go\<close>.  What the
  network does is a parameter, the \<open>world\<close>: it answers the \<open>n\<close>-th exchange of the scan,
  counted by \<open>sh_clock\<close>.  The state the scans share is the RTT estimator, the pacer,
  the connection pool and the log of what was sent.  \<open>None\<close> is a panic.  The decoy
  goroutines only transmit, so their packets go to a log of their own; what closing them
  does to the receive map is the subject of \<open>Waiters\<close> and reaches this model as a
  silent exchange.
\<close>

subsection \<open>The world and the shared state\<close>

datatype exchange =
  SendFails string
| Silent duration
| Answers rawTCPPacket duration

datatype udp_exchange =
  UdpReply bytes duration
| UdpError string bool duration   \<comment> \<open>the error's text and its \<open>Timeout()\<close>\<close>

datatype xdp_exchange =
  TxFull
| XdpSilent duration
| XdpReply xdpResponse duration

datatype tx =
  RawTx string int "ip option" byte
| UdpTx string int bytes
| FrameTx bytes
| ConnDial dial_request
| ConnData nat bytes
| ConnClose nat

record world =
  w_sys :: raw_system
  w_now :: "nat \<Rightarrow> int"
  w_raw :: "nat \<Rightarrow> duration \<Rightarrow> exchange"
  w_udp_dial :: "nat \<Rightarrow> bool"
  w_udp :: "nat \<Rightarrow> bytes \<Rightarrow> duration \<Rightarrow> udp_exchange"
  w_xdp :: "nat \<Rightarrow> duration \<Rightarrow> xdp_exchange"
  w_dial :: "nat \<Rightarrow> dialer"
  w_alive :: "nat \<Rightarrow> nat \<Rightarrow> bool"
  w_took :: "nat \<Rightarrow> duration"
  w_xsk :: bool
  w_localMAC :: bytes
  w_dstMAC :: "ip \<Rightarrow> bytes"
  w_localIP :: ip
  w_millis :: u32
  w_nanos :: u64

record shared =
  sh_clock :: nat
  sh_rtt :: "RTTEstimator option"
  sh_limiter :: "AdaptiveRateLimiter option"
  sh_pool :: "Pool option"
  sh_sent :: "tx list"
  sh_decoys :: "tx list"

definition tick :: "shared \<Rightarrow> shared" where
  "tick sh = sh\<lparr>sh_clock := sh_clock sh + 1\<rparr>"

definition emit :: "tx \<Rightarrow> shared \<Rightarrow> shared" where
  "emit t sh = sh\<lparr>sh_sent := sh_sent sh @ [t]\<rparr>"

definition paced :: "world \<Rightarrow> shared \<Rightarrow> shared option" where
  "paced w sh = map_option (\<lambda>(l, d). sh\<lparr>sh_limiter := l\<rparr>) (pacedWait (w_now w (sh_clock sh)) (sh_limiter sh))"

text \<open>\<open>if rtt != nil { rtt.Sample(d) }\<close>\<close>

definition sampled :: "duration \<Rightarrow> shared \<Rightarrow> shared" where
  "sampled d sh = sh\<lparr>sh_rtt := map_option (Sample d) (sh_rtt sh)\<rparr>"

subsection \<open>The attempts of a raw scan\<close>

text \<open>The loop the four scans share.  \<open>judge\<close> is what the scan makes of a reply, \<open>quiet\<close> and
  \<open>why\<close> the state and reason a silent attempt sets before the next one.\<close>

fun raw_attempts ::
  "world \<Rightarrow> (rawTCPPacket \<Rightarrow> TargetResult \<Rightarrow> TargetResult option) \<Rightarrow> string \<Rightarrow> string \<Rightarrow> tx \<Rightarrow> duration \<Rightarrow> nat
   \<Rightarrow> TargetResult \<Rightarrow> shared \<Rightarrow> (TargetResult \<times> shared) option" where
  "raw_attempts w judge quiet why probe tmo 0 res sh = Some (res, sh)"
| "raw_attempts w judge quiet why probe tmo (Suc n) res sh =
     Option.bind (paced w sh) (\<lambda>sh1.
       case w_raw w (sh_clock sh1) tmo of
         SendFails e \<Rightarrow> Some (res\<lparr>res_State := StateFiltered, res_Reason := ''Send failed: '' @ e\<rparr>, tick sh1)
       | Silent d \<Rightarrow>
           raw_attempts w judge quiet why probe tmo n
             (res\<lparr>res_Latency := d, res_State := quiet, res_Reason := why\<rparr>) (tick (emit probe sh1))
       | Answers pkt d \<Rightarrow>
           map_option (\<lambda>r. (r, sampled d (tick (emit probe sh1)))) (judge pkt (res\<lparr>res_Latency := d\<rparr>)))"

definition decoy_packets :: "world \<Rightarrow> Options \<Rightarrow> string \<Rightarrow> int \<Rightarrow> byte \<Rightarrow> tx list" where
  "decoy_packets w opts ip port flags =
     map (\<lambda>d. RawTx ip port (Some d) flags)
       (filter (\<lambda>d. \<not> isl (newRawTCPScanner (w_sys w) ip port opts (Some d))) (decoys_of opts))"

definition scanner_error_text :: "scanner_error \<Rightarrow> string" where
  "scanner_error_text e =
     (case e of
        OnlyIPv4 \<Rightarrow> ''raw-socket scans (SYN/ACK/Window/NULL/FIN/Xmas) only support IPv4; use -sT or -sU for an IPv6 target''
      | InvalidIP s \<Rightarrow> ''invalid IP address: '' @ [CHR 0x22] @ s @ [CHR 0x22]
      | ReceiveSocket s \<Rightarrow> ''raw receive socket error (sudo required): '' @ s
      | SendSocket s \<Rightarrow> ''raw Socket error (sudo required): '' @ s)"

definition raw_scan ::
  "world \<Rightarrow> (rawTCPPacket \<Rightarrow> TargetResult \<Rightarrow> TargetResult option) \<Rightarrow> string \<Rightarrow> string \<Rightarrow> byte
   \<Rightarrow> string \<Rightarrow> int \<Rightarrow> Options \<Rightarrow> duration \<Rightarrow> ip option \<Rightarrow> shared \<Rightarrow> (TargetResult \<times> shared) option" where
  "raw_scan w judge quiet why flags ip port opts timeout spoofed sh =
     (let res = new_result ip port;
          sh1 = sh\<lparr>sh_decoys := sh_decoys sh @ decoy_packets w opts ip port flags\<rparr>;
          attemptTimeout = probeTimeout (sh_rtt sh1) timeout
      in case newRawTCPScanner (w_sys w) ip port opts spoofed of
           Inl e \<Rightarrow> Some (res\<lparr>res_State := StateFiltered, res_Reason := scanner_error_text e\<rparr>, sh1)
         | Inr _ \<Rightarrow>
             raw_attempts w judge quiet why (RawTx ip port spoofed flags) attemptTimeout
               (nat (probeAttempts (Some opts))) res sh1)"

subsection \<open>The four scans\<close>

definition syn_judge :: "Options \<Rightarrow> rawTCPPacket \<Rightarrow> TargetResult \<Rightarrow> TargetResult option" where
  "syn_judge opts pkt res =
     (if pkt_Flags pkt AND 0x12 = 0x12 then
        (let res1 = res\<lparr>res_State := StateOpen, res_Reason := ''SYN-ACK Received''\<rparr>
         in Option.bind
              (if OsDetect opts then
                 map_option (\<lambda>(osName, confidence).
                     if osName \<noteq> [] then res1\<lparr>res_OS := osName, res_OSConfidence := confidence\<rparr> else res1)
                   (ClassifyOS (pkt_Frame pkt) (pkt_IPStart pkt) (pkt_TCPStart pkt))
               else Some res1)
              (\<lambda>res2.
                 if MPTCP opts then
                   map_option (\<lambda>capable.
                       if capable then res2\<lparr>res_MPTCP := True, res_Reason := res_Reason res2 @ '' [MPTCP]''\<rparr> else res2)
                     (HasTCPOptionKind (pkt_Frame pkt) (pkt_IPStart pkt) (pkt_TCPStart pkt) mpCapableKind)
                 else Some res2))
      else if pkt_Flags pkt AND 0x04 \<noteq> 0
      then Some (res\<lparr>res_State := StateClosed, res_Reason := ''RST Received''\<rparr>)
      else Some res)"

definition ScanSYNPort ::
  "world \<Rightarrow> string \<Rightarrow> int \<Rightarrow> Options \<Rightarrow> duration \<Rightarrow> ip option \<Rightarrow> shared \<Rightarrow> (TargetResult \<times> shared) option" where
  "ScanSYNPort w ip port opts =
     raw_scan w (syn_judge opts) StateFiltered ''No response / Timeout'' 0x02 ip port opts"

definition ack_judge :: "rawTCPPacket \<Rightarrow> TargetResult \<Rightarrow> TargetResult option" where
  "ack_judge pkt res = Some
     (if pkt_Flags pkt AND 0x04 \<noteq> 0
      then res\<lparr>res_State := StateUnfiltered, res_Reason := ''RST Received (Unfiltered)''\<rparr> else res)"

definition ScanAckPort ::
  "world \<Rightarrow> string \<Rightarrow> int \<Rightarrow> Options \<Rightarrow> duration \<Rightarrow> ip option \<Rightarrow> shared \<Rightarrow> (TargetResult \<times> shared) option" where
  "ScanAckPort w ip port opts =
     raw_scan w ack_judge StateFiltered ''No response (Stateful Firewall)'' 0x10 ip port opts"

definition window_judge :: "rawTCPPacket \<Rightarrow> TargetResult \<Rightarrow> TargetResult option" where
  "window_judge pkt res = Some
     (if pkt_Flags pkt AND 0x04 \<noteq> 0
      then if pkt_WindowSize pkt > 0
           then res\<lparr>res_State := StateOpen, res_Reason := ''RST received with non-zero window size''\<rparr>
           else res\<lparr>res_State := StateClosed, res_Reason := ''RST received with zero window size''\<rparr>
      else res)"

definition ScanWindowPort ::
  "world \<Rightarrow> string \<Rightarrow> int \<Rightarrow> Options \<Rightarrow> duration \<Rightarrow> ip option \<Rightarrow> shared \<Rightarrow> (TargetResult \<times> shared) option" where
  "ScanWindowPort w ip port opts =
     raw_scan w window_judge StateFiltered ''No response (Stateful Firewall)'' 0x10 ip port opts"

datatype StealthType = ScanNull | ScanFin | ScanXmas

fun stealth_flags :: "StealthType \<Rightarrow> byte" where
  "stealth_flags ScanNull = 0x00"
| "stealth_flags ScanFin = 0x01"
| "stealth_flags ScanXmas = 0x29"

definition stealth_judge :: "rawTCPPacket \<Rightarrow> TargetResult \<Rightarrow> TargetResult option" where
  "stealth_judge pkt res = Some
     (if pkt_Flags pkt AND 0x04 \<noteq> 0
      then res\<lparr>res_State := StateClosed, res_Reason := ''RST Received (Closed)''\<rparr> else res)"

definition ScanStealthPort ::
  "world \<Rightarrow> StealthType \<Rightarrow> string \<Rightarrow> int \<Rightarrow> Options \<Rightarrow> duration \<Rightarrow> ip option \<Rightarrow> shared \<Rightarrow> (TargetResult \<times> shared) option" where
  "ScanStealthPort w scanType ip port opts =
     raw_scan w stealth_judge StateOpenFiltered ''No RST received (RFC 793 Open|Filtered)'' (stealth_flags scanType)
       ip port opts"


subsection \<open>What an attempt loop amounts to\<close>

text \<open>The first exchange that is not silent, with its number.\<close>

fun first_reply :: "(nat \<Rightarrow> exchange) \<Rightarrow> nat \<Rightarrow> (nat \<times> exchange) option" where
  "first_reply f 0 = None"
| "first_reply f (Suc n) =
     (case f 0 of
        Silent d \<Rightarrow> map_option (\<lambda>(i, e). (Suc i, e)) (first_reply (\<lambda>i. f (Suc i)) n)
      | e \<Rightarrow> Some (0, e))"

definition limiter_ok :: "shared \<Rightarrow> bool" where
  "limiter_ok sh = pred_option limiter_inv (sh_limiter sh)"

lemma limiter_ok_simps [simp]:
  "limiter_ok (tick sh) = limiter_ok sh" "limiter_ok (emit t sh) = limiter_ok sh"
  "limiter_ok (sampled d sh) = limiter_ok sh" "limiter_ok (sh\<lparr>sh_decoys := ts\<rparr>) = limiter_ok sh"
  "limiter_ok (sh\<lparr>sh_pool := pl\<rparr>) = limiter_ok sh"
  by (simp_all add: limiter_ok_def tick_def emit_def sampled_def)

lemma shared_simps [simp]:
  "sh_clock (tick sh) = sh_clock sh + 1" "sh_clock (emit t sh) = sh_clock sh" "sh_clock (sampled d sh) = sh_clock sh"
  "sh_sent (tick sh) = sh_sent sh" "sh_sent (emit t sh) = sh_sent sh @ [t]" "sh_sent (sampled d sh) = sh_sent sh"
  "sh_rtt (tick sh) = sh_rtt sh" "sh_rtt (emit t sh) = sh_rtt sh"
  "sh_pool (tick sh) = sh_pool sh" "sh_pool (emit t sh) = sh_pool sh" "sh_pool (sampled d sh) = sh_pool sh"
  by (simp_all add: tick_def emit_def sampled_def)

lemma paced_ok:
  assumes "limiter_ok sh"
  obtains sh1 where "paced w sh = Some sh1" and "limiter_ok sh1" and "sh_clock sh1 = sh_clock sh"
    and "sh_sent sh1 = sh_sent sh" and "sh_rtt sh1 = sh_rtt sh" and "sh_pool sh1 = sh_pool sh"
proof (cases "sh_limiter sh")
  case None
  then show thesis using that assms by (simp add: paced_def pacedWait_def limiter_ok_def)
next
  case (Some rl)
  then have "limiter_inv rl" using assms by (simp add: limiter_ok_def)
  then obtain rl' d where "acquireBatched (w_now w (sh_clock sh)) rl = Some (rl', d)" "limiter_inv rl'"
    using acquireBatched_returns by blast
  then show thesis using that Some by (simp add: paced_def pacedWait_def limiter_ok_def)
qed

text \<open>How many packets the loop sends, and what it makes of the reply.\<close>

definition packets_until :: "nat \<Rightarrow> (nat \<times> exchange) option \<Rightarrow> nat" where
  "packets_until n r =
     (case r of None \<Rightarrow> n | Some (i, SendFails _) \<Rightarrow> i | Some (i, _) \<Rightarrow> Suc i)"

definition loop_result ::
  "(rawTCPPacket \<Rightarrow> TargetResult \<Rightarrow> TargetResult option) \<Rightarrow> string \<Rightarrow> string \<Rightarrow> (nat \<times> exchange) option \<Rightarrow> nat
   \<Rightarrow> TargetResult \<Rightarrow> TargetResult \<Rightarrow> bool" where
  "loop_result judge quiet why rep n res r \<longleftrightarrow>
     (case rep of
        None \<Rightarrow> n = 0 \<and> r = res \<or> 0 < n \<and> (\<exists>d. r = res\<lparr>res_Latency := d, res_State := quiet, res_Reason := why\<rparr>)
      | Some (i, SendFails e) \<Rightarrow>
          res_State r = StateFiltered \<and> res_Reason r = ''Send failed: '' @ e \<and> res_key r = res_key res
      | Some (i, Silent d) \<Rightarrow> False
      | Some (0, Answers pkt d) \<Rightarrow> judge pkt (res\<lparr>res_Latency := d\<rparr>) = Some r
      | Some (Suc i, Answers pkt d) \<Rightarrow>
          judge pkt (res\<lparr>res_Latency := d, res_State := quiet, res_Reason := why\<rparr>) = Some r)"

lemma first_reply_not_silent: "first_reply f n = Some (i, e) \<Longrightarrow> i < n \<and> e = f i \<and> (\<forall>d. e \<noteq> Silent d)"
  by (induction f n arbitrary: i rule: first_reply.induct) (auto split: exchange.splits)

lemma result_update_order:
  "(res :: TargetResult)\<lparr>res_State := s, res_Reason := y, res_Latency := d\<rparr>
     = res\<lparr>res_Latency := d, res_State := s, res_Reason := y\<rparr>"
  by (cases res) simp

lemma loop_result_Suc:
  assumes "loop_result judge quiet why rep n (res\<lparr>res_Latency := d, res_State := quiet, res_Reason := why\<rparr>) r"
  shows "loop_result judge quiet why (map_option (\<lambda>(i, e). (Suc i, e)) rep) (Suc n) res r"
proof (cases rep)
  case None
  then show ?thesis using assms by (auto simp: loop_result_def)
next
  case (Some ie)
  then show ?thesis using assms
    by (cases ie; cases "snd ie"; cases "fst ie") (auto simp: loop_result_def res_key_def result_update_order)
qed

lemma raw_attempts_outcome:
  fixes w :: world and tmo :: duration and n :: nat and sh :: shared
  assumes "limiter_ok sh" and "\<And>pkt res. judge pkt res \<noteq> None"
  defines "rep \<equiv> first_reply (\<lambda>i. w_raw w (sh_clock sh + i) tmo) n"
  shows "\<exists>r sh'. raw_attempts w judge quiet why probe tmo n res sh = Some (r, sh')
    \<and> loop_result judge quiet why rep n res r \<and> limiter_ok sh'
    \<and> sh_sent sh' = sh_sent sh @ replicate (packets_until n rep) probe
    \<and> sh_pool sh' = sh_pool sh \<and> sh_clock sh \<le> sh_clock sh'"
  using assms(1) unfolding rep_def
proof (induction n arbitrary: res sh)
  case 0
  then show ?case by (simp add: loop_result_def packets_until_def)
next
  case (Suc n)
  obtain sh1 where sh1: "paced w sh = Some sh1" "limiter_ok sh1" "sh_clock sh1 = sh_clock sh"
      "sh_sent sh1 = sh_sent sh" "sh_pool sh1 = sh_pool sh"
    using paced_ok [OF Suc.prems] by metis
  show ?case
  proof (cases "w_raw w (sh_clock sh) tmo")
    case (SendFails e)
    then show ?thesis using sh1 by (simp add: loop_result_def packets_until_def res_key_def)
  next
    case (Answers pkt d)
    obtain r where "judge pkt (res\<lparr>res_Latency := d\<rparr>) = Some r" using assms(2) by blast
    then show ?thesis using sh1 Answers by (simp add: loop_result_def packets_until_def)
  next
    case (Silent d)
    let ?res = "res\<lparr>res_Latency := d, res_State := quiet, res_Reason := why\<rparr>"
    let ?sh = "tick (emit probe sh1)"
    let ?rep = "first_reply (\<lambda>i. w_raw w (sh_clock sh + Suc i) tmo) n"
    have "limiter_ok ?sh" using sh1 by simp
    from Suc.IH [OF this, of ?res] obtain r sh' where
      run: "raw_attempts w judge quiet why probe tmo n ?res ?sh = Some (r, sh')"
      and lr: "loop_result judge quiet why ?rep n ?res r" and rest: "limiter_ok sh'"
        "sh_sent sh' = (sh_sent sh @ [probe]) @ replicate (packets_until n ?rep) probe"
        "sh_pool sh' = sh_pool sh" "sh_clock sh + 1 \<le> sh_clock sh'"
      using sh1 by (auto simp: algebra_simps)
    have "loop_result judge quiet why (map_option (\<lambda>(i, e). (Suc i, e)) ?rep) (Suc n) res r"
      using lr by (rule loop_result_Suc)
    moreover have "packets_until (Suc n) (map_option (\<lambda>(i, e). (Suc i, e)) ?rep) = Suc (packets_until n ?rep)"
      by (auto simp: packets_until_def split: option.splits exchange.splits)
    moreover have "raw_attempts w judge quiet why probe tmo (Suc n) res sh = Some (r, sh')"
      using run Silent sh1 by simp
    moreover have "first_reply (\<lambda>i. w_raw w (sh_clock sh + i) tmo) (Suc n) = map_option (\<lambda>(i, e). (Suc i, e)) ?rep"
      using Silent by simp
    ultimately show ?thesis using rest by simp
  qed
qed


subsection \<open>The verdict of a raw scan\<close>

text \<open>What every scan promises the engine: it returns, for the target it was given, with one
  of its states, and leaves the pacer usable.\<close>

locale leaf_scan =
  fixes scan :: "string \<Rightarrow> int \<Rightarrow> shared \<Rightarrow> (TargetResult \<times> shared) option"
    and states :: "string set"
  assumes scan_returns: "limiter_ok sh \<Longrightarrow>
    \<exists>r sh'. scan ip port sh = Some (r, sh') \<and> res_key r = (ip, port) \<and> res_State r \<in> states \<and> limiter_ok sh'"
begin

lemma scan_Some:
  assumes "limiter_ok sh" and "scan ip port sh = Some (r, sh')"
  shows "res_key r = (ip, port)" and "res_State r \<in> states" and "limiter_ok sh'"
  using scan_returns [OF assms(1), of ip port] assms(2) by auto

text \<open>Scans in sequence, as the bypass runs them.\<close>

lemma scan_then:
  assumes "limiter_ok sh"
    and "\<And>r sh'. scan ip port sh = Some (r, sh') \<Longrightarrow> res_key r = (ip, port) \<Longrightarrow> res_State r \<in> states \<Longrightarrow>
       limiter_ok sh' \<Longrightarrow> P (f (r, sh'))"
  shows "P (Option.bind (scan ip port sh) f)"
  using scan_returns [OF assms(1), of ip port] assms(2) by auto

end

datatype raw_kind = KSyn | KAck | KWindow | KStealth StealthType

fun raw_scan_of ::
  "raw_kind \<Rightarrow> world \<Rightarrow> string \<Rightarrow> int \<Rightarrow> Options \<Rightarrow> duration \<Rightarrow> ip option \<Rightarrow> shared \<Rightarrow> (TargetResult \<times> shared) option" where
  "raw_scan_of KSyn w = ScanSYNPort w"
| "raw_scan_of KAck w = ScanAckPort w"
| "raw_scan_of KWindow w = ScanWindowPort w"
| "raw_scan_of (KStealth t) w = ScanStealthPort w t"

fun probe_flags :: "raw_kind \<Rightarrow> byte" where
  "probe_flags KSyn = 0x02"
| "probe_flags KAck = 0x10"
| "probe_flags KWindow = 0x10"
| "probe_flags (KStealth t) = stealth_flags t"

fun silent_verdict :: "raw_kind \<Rightarrow> string" where
  "silent_verdict (KStealth t) = StateOpenFiltered"
| "silent_verdict k = StateFiltered"

fun reply_verdict :: "raw_kind \<Rightarrow> rawTCPPacket \<Rightarrow> string option" where
  "reply_verdict KSyn pkt =
     (if pkt_Flags pkt AND 0x12 = 0x12 then Some StateOpen
      else if pkt_Flags pkt AND 0x04 \<noteq> 0 then Some StateClosed else None)"
| "reply_verdict KAck pkt = (if pkt_Flags pkt AND 0x04 \<noteq> 0 then Some StateUnfiltered else None)"
| "reply_verdict KWindow pkt =
     (if pkt_Flags pkt AND 0x04 \<noteq> 0 then Some (if pkt_WindowSize pkt > 0 then StateOpen else StateClosed) else None)"
| "reply_verdict (KStealth t) pkt = (if pkt_Flags pkt AND 0x04 \<noteq> 0 then Some StateClosed else None)"

definition raw_verdict :: "raw_kind \<Rightarrow> (nat \<times> exchange) option \<Rightarrow> string" where
  "raw_verdict k rep =
     (case rep of
        None \<Rightarrow> silent_verdict k
      | Some (i, Answers pkt d) \<Rightarrow>
          (case reply_verdict k pkt of Some s \<Rightarrow> s | None \<Rightarrow> if i = 0 then [] else silent_verdict k)
      | Some _ \<Rightarrow> StateFiltered)"

fun judge_of :: "raw_kind \<Rightarrow> Options \<Rightarrow> rawTCPPacket \<Rightarrow> TargetResult \<Rightarrow> TargetResult option" where
  "judge_of KSyn opts = syn_judge opts"
| "judge_of KAck opts = ack_judge"
| "judge_of KWindow opts = window_judge"
| "judge_of (KStealth t) opts = stealth_judge"

lemma judge_of_outcome:
  "\<exists>r. judge_of k opts pkt res = Some r \<and> res_key r = res_key res
     \<and> res_State r = (case reply_verdict k pkt of Some s \<Rightarrow> s | None \<Rightarrow> res_State res)"
proof (cases k)
  case KSyn
  show ?thesis
  proof (cases "pkt_Flags pkt AND 0x12 = 0x12")
    case True
    obtain os conf where "ClassifyOS (pkt_Frame pkt) (pkt_IPStart pkt) (pkt_TCPStart pkt) = Some (os, conf)"
      using ClassifyOS_total by (metis old.prod.exhaust option.exhaust)
    moreover obtain b where "HasTCPOptionKind (pkt_Frame pkt) (pkt_IPStart pkt) (pkt_TCPStart pkt) mpCapableKind = Some b"
      using HasTCPOptionKind_total by blast
    ultimately show ?thesis using True KSyn by (simp add: syn_judge_def Let_def res_key_def)
  qed (use KSyn in \<open>simp add: syn_judge_def res_key_def\<close>)
qed (simp_all add: ack_judge_def window_judge_def stealth_judge_def res_key_def)

lemma judge_of_Some: "judge_of k opts pkt res \<noteq> None"
  using judge_of_outcome [of k opts pkt res] by auto

lemma raw_attempts_judged:
  assumes "limiter_ok sh"
  shows "\<exists>r sh'. raw_attempts w (judge_of k opts) quiet why probe tmo n res sh = Some (r, sh')
    \<and> loop_result (judge_of k opts) quiet why (first_reply (\<lambda>i. w_raw w (sh_clock sh + i) tmo) n) n res r \<and> limiter_ok sh'
    \<and> sh_sent sh' = sh_sent sh @ replicate (packets_until n (first_reply (\<lambda>i. w_raw w (sh_clock sh + i) tmo) n)) probe
    \<and> sh_pool sh' = sh_pool sh \<and> sh_clock sh \<le> sh_clock sh'"
  by (rule raw_attempts_outcome [OF assms judge_of_Some])

lemma raw_scan_of_eq:
  "\<exists>why. raw_scan_of k w ip port opts = raw_scan w (judge_of k opts) (silent_verdict k) why (probe_flags k) ip port opts"
  by (cases k) (auto simp: ScanSYNPort_def ScanAckPort_def ScanWindowPort_def ScanStealthPort_def)

lemma loop_result_verdict:
  assumes "loop_result (judge_of k opts) (silent_verdict k) why rep n (new_result ip port) r" and "0 < n"
  shows "res_key r = (ip, port)" and "res_State r = raw_verdict k rep"
proof -
  have "res_key r = (ip, port) \<and> res_State r = raw_verdict k rep"
  proof (cases rep)
    case None
    then show ?thesis using assms by (auto simp: loop_result_def raw_verdict_def res_key_def)
  next
    case (Some ie)
    obtain i e where ie: "ie = (i, e)" by (cases ie)
    show ?thesis
    proof (cases e)
      case (Answers pkt d)
      then show ?thesis using assms(1) Some ie
          judge_of_outcome [of k opts pkt "(new_result ip port)\<lparr>res_Latency := d\<rparr>"]
          judge_of_outcome [of k opts pkt "(new_result ip port)\<lparr>res_Latency := d, res_State := silent_verdict k, res_Reason := why\<rparr>"]
        by (cases i) (auto simp: loop_result_def raw_verdict_def res_key_def split: option.splits)
    qed (use assms(1) Some ie in \<open>cases i; auto simp: loop_result_def raw_verdict_def\<close>)+
  qed
  then show "res_key r = (ip, port)" "res_State r = raw_verdict k rep" by simp_all
qed

lemma probeAttempts_pos: "0 < nat (probeAttempts (Some opts))"
  by (simp add: probeAttempts_def Let_def)

subsection \<open>The raw scans keep the promise\<close>

definition scan_states :: "string set" where
  "scan_states = {[], StateOpen, StateClosed, StateFiltered, StateUnfiltered, StateOpenFiltered}"

lemma raw_verdict_states: "raw_verdict k rep \<in> scan_states"
  by (cases k) (auto simp: raw_verdict_def scan_states_def split: option.split exchange.split)

lemma raw_scan_returns:
  assumes "limiter_ok sh"
  shows "\<exists>r sh'. raw_scan_of k w ip port opts timeout spoofed sh = Some (r, sh')
    \<and> res_key r = (ip, port) \<and> res_State r \<in> scan_states \<and> limiter_ok sh'"
proof -
  obtain why where eq: "raw_scan_of k w ip port opts
      = raw_scan w (judge_of k opts) (silent_verdict k) why (probe_flags k) ip port opts"
    using raw_scan_of_eq by blast
  let ?n = "nat (probeAttempts (Some opts))"
  let ?sh = "sh\<lparr>sh_decoys := sh_decoys sh @ decoy_packets w opts ip port (probe_flags k)\<rparr>"
  show ?thesis
  proof (cases "newRawTCPScanner (w_sys w) ip port opts spoofed")
    case (Inl e)
    then show ?thesis using assms by (simp add: eq raw_scan_def Let_def res_key_def scan_states_def)
  next
    case (Inr s)
    have "limiter_ok ?sh" using assms by simp
    from raw_attempts_judged [OF this, where w = w and k = k and opts = opts and tmo = "probeTimeout (sh_rtt sh) timeout"
        and n = ?n and quiet = "silent_verdict k" and why = why and probe = "RawTx ip port spoofed (probe_flags k)"
        and res = "new_result ip port"]
    obtain r sh' where "raw_attempts w (judge_of k opts) (silent_verdict k) why (RawTx ip port spoofed (probe_flags k))
        (probeTimeout (sh_rtt sh) timeout) ?n (new_result ip port) ?sh = Some (r, sh')" "limiter_ok sh'"
      "loop_result (judge_of k opts) (silent_verdict k) why
        (first_reply (\<lambda>i. w_raw w (sh_clock ?sh + i) (probeTimeout (sh_rtt sh) timeout)) ?n) ?n (new_result ip port) r"
      by blast
    then show ?thesis
      using loop_result_verdict [OF _ probeAttempts_pos] raw_verdict_states Inr
      by (simp add: eq raw_scan_def Let_def)
  qed
qed

interpretation raw_leaf: leaf_scan "\<lambda>ip port. raw_scan_of k w ip port opts timeout spoofed" scan_states
  for k w opts timeout spoofed
  by unfold_locales (rule raw_scan_returns)

text \<open>C15: a SYN, ACK, window, NULL, FIN or Xmas scan returns for the target it was given; its
  verdict is a function of the first exchange that is not silent, within the number of
  attempts configured, and it sends exactly the probes up to that exchange.  A reply
  with neither of the flags the scan knows leaves the state of the attempt before: none
  at all when it is the first.\<close>

theorem raw_scans_follow_first_reply:
  fixes w :: world and sh :: shared and opts :: Options and timeout :: duration
  defines "n \<equiv> nat (probeAttempts (Some opts))"
    and "rep \<equiv> first_reply (\<lambda>i. w_raw w (sh_clock sh + i) (probeTimeout (sh_rtt sh) timeout)) (nat (probeAttempts (Some opts)))"
  assumes "newRawTCPScanner (w_sys w) ip port opts spoofed = Inr scanner" and "limiter_ok sh"
  shows "\<exists>r sh'. raw_scan_of k w ip port opts timeout spoofed sh = Some (r, sh')
    \<and> res_key r = (ip, port) \<and> res_State r = raw_verdict k rep
    \<and> sh_sent sh' = sh_sent sh @ replicate (packets_until n rep) (RawTx ip port spoofed (probe_flags k))"
proof -
  obtain why where eq: "raw_scan_of k w ip port opts
      = raw_scan w (judge_of k opts) (silent_verdict k) why (probe_flags k) ip port opts"
    using raw_scan_of_eq by blast
  let ?sh = "sh\<lparr>sh_decoys := sh_decoys sh @ decoy_packets w opts ip port (probe_flags k)\<rparr>"
  have "limiter_ok ?sh" using assms(4) by simp
  from raw_attempts_judged [OF this, where w = w and k = k and opts = opts and tmo = "probeTimeout (sh_rtt sh) timeout"
      and n = n and quiet = "silent_verdict k" and why = why and probe = "RawTx ip port spoofed (probe_flags k)"
      and res = "new_result ip port"]
  obtain r sh' where "raw_attempts w (judge_of k opts) (silent_verdict k) why (RawTx ip port spoofed (probe_flags k))
        (probeTimeout (sh_rtt sh) timeout) n (new_result ip port) ?sh = Some (r, sh')"
      "loop_result (judge_of k opts) (silent_verdict k) why rep n (new_result ip port) r"
      "sh_sent sh' = sh_sent sh @ replicate (packets_until n rep) (RawTx ip port spoofed (probe_flags k))"
    unfolding rep_def n_def by auto
  then show ?thesis
    using loop_result_verdict [of k opts why rep n ip port r] assms(3) probeAttempts_pos [of opts]
    by (auto simp: eq raw_scan_def n_def Let_def)
qed


text \<open>A world in which nothing answers, and one state of the scan, for the witnesses.\<close>

definition silent_world :: world where
  "silent_world =
     \<lparr>w_sys = \<lparr>sys_rxErr = None, sys_txErr = None, sys_localIPv4 = [10, 0, 0, 1], sys_ifaceIP = (\<lambda>_. None)\<rparr>,
      w_now = (\<lambda>_. 0), w_raw = (\<lambda>_ _. Silent 100), w_udp_dial = (\<lambda>_. False),
      w_udp = (\<lambda>_ _ _. UdpError ''i/o timeout'' True 100), w_xdp = (\<lambda>_ _. XdpSilent 100),
      w_dial = (\<lambda>_ _. DialError ''i/o timeout'' True), w_alive = (\<lambda>_ _. False), w_took = (\<lambda>_. 100),
      w_xsk = False, w_localMAC = replicate 6 0, w_dstMAC = (\<lambda>_. replicate 6 0), w_localIP = [10, 0, 0, 1],
      w_millis = 0, w_nanos = 0\<rparr>"

definition idle_shared :: shared where
  "idle_shared = \<lparr>sh_clock = 0, sh_rtt = None, sh_limiter = None, sh_pool = None, sh_sent = [], sh_decoys = []\<rparr>"

definition rst_packet :: "u16 \<Rightarrow> rawTCPPacket" where
  "rst_packet ipid = \<lparr>pkt_Flags = 0x14, pkt_WindowSize = 0, pkt_IPID = ipid, pkt_Frame = [], pkt_IPStart = 0, pkt_TCPStart = 20\<rparr>"

lemma limiter_ok_idle [simp]: "limiter_ok idle_shared"
  by (simp add: limiter_ok_def idle_shared_def)

lemma silent_world_scanner:
  "\<exists>s. newRawTCPScanner (w_sys silent_world) ''10.0.0.2'' p default_options src = Inr s"
proof -
  have "parse_ip ''10.0.0.2'' = Some [0, 0, 0, 0, 0, 0, 0, 0, 0, 0, 0xff, 0xff, 10, 0, 0, 2]" by code_simp
  moreover have "to4 [0, 0, 0, 0, 0, 0, 0, 0, 0, 0, 0xff, 0xff, 10, 0, 0, 2] = Some [10, 0, 0, 2]" by code_simp
  ultimately show ?thesis
    by (simp add: newRawTCPScanner_def silent_world_def default_options_def zero_options_def Let_def)
qed

theorem raw_scans_follow_first_reply_witness:
  "\<exists>r sh'. ScanSYNPort (silent_world\<lparr>w_raw := (\<lambda>i _. if i = 1 then Answers (rst_packet 9) 5 else Silent 100)\<rparr>)
       ''10.0.0.2'' 443 default_options 1000 None idle_shared = Some (r, sh')
     \<and> res_State r = StateClosed \<and> length (sh_sent sh') = 2"
proof -
  let ?w = "silent_world\<lparr>w_raw := (\<lambda>i _. if i = 1 then Answers (rst_packet 9) 5 else Silent 100)\<rparr>"
  obtain s where sc: "newRawTCPScanner (w_sys ?w) ''10.0.0.2'' 443 default_options None = Inr s"
    using silent_world_scanner [of 443 None] by (auto simp: silent_world_def)
  have n: "nat (probeAttempts (Some default_options)) = 3"
    by (simp add: probeAttempts_def default_options_def zero_options_def)
  have rep: "first_reply (\<lambda>i. w_raw ?w (sh_clock idle_shared + i) (probeTimeout (sh_rtt idle_shared) 1000)) 3
      = Some (1, Answers (rst_packet 9) 5)"
    by (simp add: numeral_3_eq_3 idle_shared_def)
  have "raw_verdict KSyn (Some (1, Answers (rst_packet 9) 5)) = StateClosed"
    by (simp add: raw_verdict_def rst_packet_def)
  moreover have "packets_until 3 (Some (1, Answers (rst_packet 9) 5)) = 2" by (simp add: packets_until_def)
  ultimately show ?thesis
    using raw_scans_follow_first_reply [OF sc limiter_ok_idle, of KSyn 1000] unfolding n rep
    by (auto simp: idle_shared_def)
qed

end
