(* ===== verification/IdleScan.thy ===== *)
theory IdleScan
  imports RawProbes
begin

text \<open>
  \<open>internal/scan/idle.go\<close>: the idle scan infers a port's state from the IP
  identification counter of a third host, the zombie.  The properties put a zombie
  with a global counter under the model: it counts every packet it sends.
\<close>

subsection \<open>Asking the zombie\<close>

fun zombie_attempts ::
  "world \<Rightarrow> tx \<Rightarrow> duration \<Rightarrow> nat \<Rightarrow> string option \<Rightarrow> shared \<Rightarrow> ((string + u16) \<times> shared) option" where
  "zombie_attempts w probe tmo 0 lastErr sh =
     Some (case lastErr of None \<Rightarrow> Inr 0 | Some e \<Rightarrow> Inl e, sh)"
| "zombie_attempts w probe tmo (Suc n) lastErr sh =
     Option.bind (paced w sh) (\<lambda>sh1.
       case w_raw w (sh_clock sh1) tmo of
         SendFails e \<Rightarrow> Some (Inl (''send to zombie failed: '' @ e), tick sh1)
       | Silent d \<Rightarrow> zombie_attempts w probe tmo n (Some ''no response from zombie'') (tick (emit probe sh1))
       | Answers pkt d \<Rightarrow>
           Some (if pkt_Flags pkt AND 0x04 \<noteq> 0 then Inr (pkt_IPID pkt) else Inl ''zombie did not respond with RST'',
                 tick (emit probe sh1)))"

definition getZombieIPID ::
  "world \<Rightarrow> string \<Rightarrow> int \<Rightarrow> Options \<Rightarrow> duration \<Rightarrow> ip option \<Rightarrow> shared \<Rightarrow> ((string + u16) \<times> shared) option" where
  "getZombieIPID w zombieIP zombiePort opts timeout spoofed sh =
     (case newRawTCPScanner (w_sys w) zombieIP zombiePort opts spoofed of
        Inl e \<Rightarrow> Some (Inl (scanner_error_text e), sh)
      | Inr _ \<Rightarrow>
          zombie_attempts w (RawTx zombieIP zombiePort spoofed 0x10) timeout (nat (probeAttempts (Some opts))) None sh)"

text \<open>The spoofed SYN: only whether it was sent matters, nothing is received.\<close>

definition sendSpoofedSYN ::
  "world \<Rightarrow> string \<Rightarrow> int \<Rightarrow> string \<Rightarrow> Options \<Rightarrow> duration \<Rightarrow> shared \<Rightarrow> (string option \<times> shared) option" where
  "sendSpoofedSYN w targetIP targetPort zombieIP opts timeout sh =
     (case parse_ip zombieIP of
        None \<Rightarrow> Some (Some ''invalid zombie IP address'', sh)
      | Some zombie \<Rightarrow>
          (case newRawTCPScanner (w_sys w) targetIP targetPort opts (Some zombie) of
             Inl e \<Rightarrow> Some (Some (''failed to create raw scanner for spoofed SYN: '' @ scanner_error_text e), sh)
           | Inr _ \<Rightarrow>
               Option.bind (paced w sh) (\<lambda>sh1.
                 case w_raw w (sh_clock sh1) timeout of
                   SendFails e \<Rightarrow> Some (Some e, tick sh1)
                 | _ \<Rightarrow> Some (None, tick (emit (RawTx targetIP targetPort (Some zombie) 0x02) sh1)))))"

definition zombieProbePort :: int where "zombieProbePort = 80"

definition u16_text :: "u16 \<Rightarrow> string" where
  "u16_text x = itoa (int (unat x))"

definition idle_verdict :: "u16 \<Rightarrow> string" where
  "idle_verdict diff = (if diff = 2 then StateOpen else if diff = 1 then StateClosed else StateFiltered)"

definition idle_reason :: "string \<Rightarrow> u16 \<Rightarrow> string" where
  "idle_reason zombieIP diff =
     ''Idle scan (zombie '' @ zombieIP @
     (if diff = 2 then ''): IPID increased by 2''
      else if diff = 1 then ''): IPID increased by 1''
      else ''): IPID difference is '' @ u16_text diff @ '' (unexpected)'')"

definition ScanIdlePort ::
  "world \<Rightarrow> string \<Rightarrow> int \<Rightarrow> string \<Rightarrow> Options \<Rightarrow> duration \<Rightarrow> ip option \<Rightarrow> ip option \<Rightarrow> shared
   \<Rightarrow> (TargetResult \<times> shared) option" where
  "ScanIdlePort w ip port zombieIP opts timeout spoofed relayIP sh =
     (let res = new_result ip port;
          fail = (\<lambda>why sh. Some (res\<lparr>res_State := StateFiltered, res_Reason := why\<rparr>, sh))
      in if zombieIP = [] then fail ''Zombie Host Not Configured (-sI)'' sh
         else if relayIP \<noteq> None then fail ''Relay server not supported for Idle Scan'' sh
         else
           Option.bind (getZombieIPID w zombieIP zombieProbePort opts timeout spoofed sh) (\<lambda>(first, sh1).
             case first of
               Inl e \<Rightarrow> fail (''Zombie '' @ zombieIP @ '' is not responding correctly: '' @ e) sh1
             | Inr initialID \<Rightarrow>
                 Option.bind (sendSpoofedSYN w ip port zombieIP opts timeout sh1) (\<lambda>(syn, sh2).
                   case syn of
                     Some e \<Rightarrow> fail (''Failed to send spoofed packet: '' @ e) sh2
                   | None \<Rightarrow>
                       Option.bind (getZombieIPID w zombieIP zombieProbePort opts timeout spoofed sh2) (\<lambda>(second, sh3).
                         case second of
                           Inl e \<Rightarrow> fail (''Zombie '' @ zombieIP @ '' stopped responding: '' @ e) sh3
                         | Inr finalID \<Rightarrow>
                             (let diff = finalID - initialID
                              in Some (res\<lparr>res_Latency := w_took w (sh_clock sh3), res_State := idle_verdict diff,
                                           res_Reason := idle_reason zombieIP diff\<rparr>, sh3))))))"

subsection \<open>What one round of queries learns\<close>

definition zombie_result :: "string option \<Rightarrow> nat \<Rightarrow> (nat \<times> exchange) option \<Rightarrow> string + u16" where
  "zombie_result lastErr n rep =
     (case rep of
        None \<Rightarrow> (if n = 0 then (case lastErr of None \<Rightarrow> Inr 0 | Some e \<Rightarrow> Inl e) else Inl ''no response from zombie'')
      | Some (i, SendFails e) \<Rightarrow> Inl (''send to zombie failed: '' @ e)
      | Some (i, Silent d) \<Rightarrow> Inr 0
      | Some (i, Answers pkt d) \<Rightarrow>
          (if pkt_Flags pkt AND 0x04 \<noteq> 0 then Inr (pkt_IPID pkt) else Inl ''zombie did not respond with RST''))"

definition rounds_used :: "nat \<Rightarrow> (nat \<times> exchange) option \<Rightarrow> nat" where
  "rounds_used n rep = (case rep of None \<Rightarrow> n | Some (i, _) \<Rightarrow> Suc i)"

lemma zombie_attempts_outcome:
  assumes "limiter_ok sh"
  shows "\<exists>sh'. zombie_attempts w probe tmo n lastErr sh
      = Some (zombie_result lastErr n (first_reply (\<lambda>i. w_raw w (sh_clock sh + i) tmo) n), sh')
    \<and> limiter_ok sh' \<and> sh_clock sh' = sh_clock sh + rounds_used n (first_reply (\<lambda>i. w_raw w (sh_clock sh + i) tmo) n)"
  using assms
proof (induction n arbitrary: lastErr sh)
  case 0
  then show ?case by (simp add: zombie_result_def rounds_used_def)
next
  case (Suc n)
  obtain sh1 where sh1: "paced w sh = Some sh1" "limiter_ok sh1" "sh_clock sh1 = sh_clock sh"
    using paced_ok [OF Suc.prems] by metis
  show ?case
  proof (cases "w_raw w (sh_clock sh) tmo")
    case (Silent d)
    let ?sh = "tick (emit probe sh1)"
    let ?rep = "first_reply (\<lambda>i. w_raw w (sh_clock sh + Suc i) tmo) n"
    have "limiter_ok ?sh" using sh1 by simp
    from Suc.IH [OF this, of "Some ''no response from zombie''"] obtain sh' where
      run: "zombie_attempts w probe tmo n (Some ''no response from zombie'') ?sh
          = Some (zombie_result (Some ''no response from zombie'') n ?rep, sh')"
      and rest: "limiter_ok sh'" "sh_clock sh' = sh_clock sh + 1 + rounds_used n ?rep"
      using sh1 by auto
    have "zombie_result lastErr (Suc n) (map_option (\<lambda>(i, e). (Suc i, e)) ?rep)
        = zombie_result (Some ''no response from zombie'') n ?rep"
      by (cases ?rep) (auto simp: zombie_result_def split: exchange.splits)
    moreover have "rounds_used (Suc n) (map_option (\<lambda>(i, e). (Suc i, e)) ?rep) = Suc (rounds_used n ?rep)"
      by (cases ?rep) (auto simp: rounds_used_def)
    moreover have "first_reply (\<lambda>i. w_raw w (sh_clock sh + i) tmo) (Suc n) = map_option (\<lambda>(i, e). (Suc i, e)) ?rep"
      using Silent by simp
    ultimately show ?thesis using run rest Silent sh1 by simp
  qed (use sh1 in \<open>simp_all add: zombie_result_def rounds_used_def\<close>)
qed

lemma spoofed_syn_returns:
  assumes "limiter_ok sh"
  shows "\<exists>e sh'. sendSpoofedSYN w ip port zombie opts timeout sh = Some (e, sh') \<and> limiter_ok sh'"
proof -
  obtain sh1 where "paced w sh = Some sh1" "limiter_ok sh1" using paced_ok [OF assms] by metis
  then show ?thesis
    by (auto simp: sendSpoofedSYN_def assms split: option.split sum.split exchange.split)
qed

lemma zombie_query_returns:
  assumes "limiter_ok sh"
  shows "\<exists>r sh'. getZombieIPID w zombie port opts timeout spoofed sh = Some (r, sh') \<and> limiter_ok sh'"
proof (cases "newRawTCPScanner (w_sys w) zombie port opts spoofed")
  case (Inr a)
  then show ?thesis
    using zombie_attempts_outcome [OF assms, of w "RawTx zombie port spoofed 0x10" timeout "nat (probeAttempts (Some opts))" None]
    by (auto simp: getZombieIPID_def)
qed (simp add: getZombieIPID_def assms)

lemma idle_scan_returns:
  assumes "limiter_ok sh"
  shows "\<exists>r sh'. ScanIdlePort w ip port zombie opts timeout spoofed relay sh = Some (r, sh')
    \<and> res_key r = (ip, port) \<and> res_State r \<in> {StateOpen, StateClosed, StateFiltered} \<and> limiter_ok sh'"
proof -
  obtain r1 sh1 where 1: "getZombieIPID w zombie zombieProbePort opts timeout spoofed sh = Some (r1, sh1)" "limiter_ok sh1"
    using zombie_query_returns [OF assms] by blast
  obtain r2 sh2 where 2: "sendSpoofedSYN w ip port zombie opts timeout sh1 = Some (r2, sh2)" "limiter_ok sh2"
    using spoofed_syn_returns [OF 1(2)] by blast
  obtain r3 sh3 where 3: "getZombieIPID w zombie zombieProbePort opts timeout spoofed sh2 = Some (r3, sh3)" "limiter_ok sh3"
    using zombie_query_returns [OF 2(2)] by blast
  show ?thesis
    using assms 1 2 3 by (cases r1; cases r2; cases r3) (simp_all add: ScanIdlePort_def Let_def res_key_def idle_verdict_def)
qed


subsection \<open>The verdict against a counting zombie\<close>

lemma counter_verdict:
  "idle_verdict (of_nat (k + 1)) = (if k mod 65536 = 1 then StateOpen else if k mod 65536 = 0 then StateClosed else StateFiltered)"
proof -
  have eq: "(of_nat a = (of_nat b :: u16)) = (a mod 65536 = b mod 65536)" for a b
    by (simp add: word_of_nat_eq_iff take_bit_eq_mod)
  have "(of_nat (k + 1) = (2 :: u16)) = ((k + 1) mod 65536 = 2)" "(of_nat (k + 1) = (1 :: u16)) = ((k + 1) mod 65536 = 1)"
    using eq [of "k + 1" 2] eq [of "k + 1" 1] by simp_all
  moreover have "((k + 1) mod 65536 = 2) = (k mod 65536 = 1)" "((k + 1) mod 65536 = 1) = (k mod 65536 = 0)"
    by (simp_all add: mod_Suc)
  ultimately show ?thesis unfolding idle_verdict_def by simp
qed

text \<open>C16: against a zombie that numbers its packets consecutively, let the second round of
  queries have \<open>i2\<close> answers lost, the zombie send \<open>extra\<close> packets of its own, and one more
  if the port is open.  The scan says OPEN exactly when these add up to 1 modulo 65536,
  CLOSED when to 0: a closed port with one lost answer is reported OPEN.\<close>

theorem idle_scan_counts_packets:
  fixes w :: world and sh :: shared and opts :: Options and timeout :: duration
  defines "answer \<equiv> \<lambda>c. first_reply (\<lambda>i. w_raw w (c + i) timeout) (nat (probeAttempts (Some opts)))"
  assumes "zombieIP \<noteq> []" and "limiter_ok sh" and "parse_ip zombieIP = Some za"
    and "newRawTCPScanner (w_sys w) zombieIP 80 opts spoofed = Inr z"
    and "newRawTCPScanner (w_sys w) ip port opts (Some za) = Inr s"
    and "answer (sh_clock sh) = Some (i1, Answers p1 d1)" and "pkt_Flags p1 AND 0x04 \<noteq> 0"
    and "w_raw w (sh_clock sh + i1 + 1) timeout = Silent d"
    and "answer (sh_clock sh + i1 + 2) = Some (i2, Answers p2 d2)" and "pkt_Flags p2 AND 0x04 \<noteq> 0"
    and "pkt_IPID p2 = pkt_IPID p1 + of_nat (i2 + extra + (if port_open then 1 else 0) + 1)"
  shows "\<exists>r sh'. ScanIdlePort w ip port zombieIP opts timeout spoofed None sh = Some (r, sh')
    \<and> res_State r = (let k = (i2 + extra + (if port_open then 1 else 0)) mod 65536
         in if k = 1 then StateOpen else if k = 0 then StateClosed else StateFiltered)"
proof -
  let ?n = "nat (probeAttempts (Some opts))"
  let ?probe = "RawTx zombieIP 80 spoofed 0x10"
  obtain sh1 where 1: "zombie_attempts w ?probe timeout ?n None sh = Some (Inr (pkt_IPID p1), sh1)"
      "limiter_ok sh1" "sh_clock sh1 = sh_clock sh + i1 + 1"
    using zombie_attempts_outcome [OF assms(3), of w ?probe timeout ?n None] assms(7,8)
    by (auto simp: answer_def zombie_result_def rounds_used_def)
  obtain sh2 where 2: "paced w sh1 = Some sh2" "limiter_ok sh2" "sh_clock sh2 = sh_clock sh + i1 + 1"
    using paced_ok [OF 1(2)] 1(3) by metis
  let ?sh2 = "tick (emit (RawTx ip port (Some za) 0x02) sh2)"
  have "limiter_ok ?sh2" "sh_clock ?sh2 = sh_clock sh + i1 + 2" using 2 by simp_all
  from zombie_attempts_outcome [OF this(1), of w ?probe timeout ?n None] this(2) obtain sh3
    where 3: "zombie_attempts w ?probe timeout ?n None ?sh2 = Some (Inr (pkt_IPID p2), sh3)"
    using assms(10,11) by (auto simp: answer_def zombie_result_def)
  define k where "k = i2 + extra + (if port_open then 1 else 0)"
  have diff: "idle_verdict (pkt_IPID p2 - pkt_IPID p1)
      = (if k mod 65536 = 1 then StateOpen else if k mod 65536 = 0 then StateClosed else StateFiltered)"
    unfolding assms(12) add_diff_cancel_left' k_def by (rule counter_verdict)
  have "getZombieIPID w zombieIP zombieProbePort opts timeout spoofed sh = Some (Inr (pkt_IPID p1), sh1)"
    "getZombieIPID w zombieIP zombieProbePort opts timeout spoofed ?sh2 = Some (Inr (pkt_IPID p2), sh3)"
    using 1(1) 3 assms(5) by (simp_all add: getZombieIPID_def zombieProbePort_def)
  moreover have "sendSpoofedSYN w ip port zombieIP opts timeout sh1 = Some (None, ?sh2)"
    using 2 assms(4,6,9) by (simp add: sendSpoofedSYN_def)
  ultimately show ?thesis
    using assms(2) unfolding Let_def k_def [symmetric] by (simp add: ScanIdlePort_def Let_def diff)
qed

theorem idle_scan_counts_packets_witness:
  "\<exists>r sh'. ScanIdlePort (silent_world\<lparr>w_raw := (\<lambda>i _. if i = 0 then Answers (rst_packet 7) 5
        else if i = 3 then Answers (rst_packet 9) 5 else Silent 100)\<rparr>)
      ''10.0.0.2'' 443 ''10.0.0.2'' default_options 1000 None None idle_shared = Some (r, sh')
    \<and> res_State r = StateOpen"
proof -
  let ?w = "silent_world\<lparr>w_raw := (\<lambda>i _. if i = 0 then Answers (rst_packet 7) 5
        else if i = 3 then Answers (rst_packet 9) 5 else Silent 100)\<rparr>"
  obtain s z za where sc: "newRawTCPScanner (w_sys ?w) ''10.0.0.2'' 80 default_options None = Inr z"
      "newRawTCPScanner (w_sys ?w) ''10.0.0.2'' 443 default_options (Some za) = Inr s"
      and za: "parse_ip ''10.0.0.2'' = Some za"
  proof -
    have "parse_ip ''10.0.0.2'' = Some (v4_prefix @ [10, 0, 0, 2])" by code_simp
    then show thesis using that silent_world_scanner [of 80 None] silent_world_scanner [of 443 "Some (v4_prefix @ [10, 0, 0, 2])"]
      by (auto simp: silent_world_def)
  qed
  have n: "nat (probeAttempts (Some default_options)) = 3"
    by (simp add: probeAttempts_def default_options_def zero_options_def)
  show ?thesis
    using idle_scan_counts_packets [of "''10.0.0.2''" idle_shared za ?w default_options None z "''10.0.0.2''" 443 s 1000
        0 "rst_packet 7" 5 100 1 "rst_packet 9" 5 0 False] sc za
    unfolding n by (simp add: idle_shared_def limiter_ok_def rst_packet_def numeral_3_eq_3)
qed

end
