(* ===== verification/SocketProbes.thy ===== *)
theory SocketProbes
  imports RawProbes UdpProbes
begin

text \<open>
  The scans that go through the kernel: \<open>connect.go\<close> (TCP connect, through the
  evasion dialer, the pool or a plain dialer) and \<open>udp.go\<close> (one connected UDP socket,
  the probes of the port sent in turn).
\<close>

subsection \<open>TCP connect\<close>

definition uses_evasion :: "Options \<Rightarrow> bool" where
  "uses_evasion opts \<longleftrightarrow> SourcePort opts > 0 \<or> TTL opts > 0 \<or> DecoyIPs opts \<noteq> [] \<or> Interface opts \<noteq> []"

definition evasion_config :: "Options \<Rightarrow> EvasionConfig option" where
  "evasion_config opts =
     (case NewConfig (\<lambda>_. None) (SourcePort opts) (TTL opts) (DataString opts) (DataHex opts) [] (DecoyIPs opts) of
        Inl _ \<Rightarrow> None
      | Inr cfg \<Rightarrow> Some (cfg\<lparr>ec_Interface := Interface opts\<rparr>))"

definition log_all :: "tx list \<Rightarrow> shared \<Rightarrow> shared" where
  "log_all ts sh = sh\<lparr>sh_sent := sh_sent sh @ ts\<rparr>"

definition dial_writes :: "dial_outcome \<Rightarrow> bytes list \<Rightarrow> tx list" where
  "dial_writes out writes = (case out of Dialed c \<Rightarrow> map (ConnData c) writes | DialError _ _ \<Rightarrow> [])"

text \<open>Getting the connection: the dialer in use depends on the options and the pool.\<close>

definition connect_dial :: "world \<Rightarrow> Options \<Rightarrow> string \<Rightarrow> shared \<Rightarrow> dial_outcome \<times> shared" where
  "connect_dial w opts addr sh =
     (let dial = w_dial w (sh_clock sh) in
      if uses_evasion opts then
        (let (out, reqs, writes) = custom_dial (sys_ifaceIP (w_sys w)) (evasion_config opts) dial addr
         in (out, log_all (map ConnDial reqs @ dial_writes out writes) sh))
      else
        (case sh_pool sh of
           Some p \<Rightarrow>
             (let (out, p') = pool_Get (w_alive w (sh_clock sh)) dial addr p
              in (out, sh\<lparr>sh_pool := Some p'\<rparr>))
         | None \<Rightarrow> (dial (plain_request addr), log_all [ConnDial (plain_request addr)] sh)))"

definition scan_payload :: "Options \<Rightarrow> bytes" where
  "scan_payload opts = (case PreparePayload (DataString opts) (DataHex opts) of Inl _ \<Rightarrow> [] | Inr p \<Rightarrow> p)"

definition ScanConnectPooled :: "world \<Rightarrow> string \<Rightarrow> int \<Rightarrow> Options \<Rightarrow> ip option \<Rightarrow> shared \<Rightarrow> TargetResult \<times> shared" where
  "ScanConnectPooled w hostIP port opts relayIP sh =
     (let res = (new_result hostIP port)\<lparr>res_State := StateFiltered\<rparr>;
          targetAddr = join_host_port hostIP (itoa port)
      in if relayIP \<noteq> None then (res\<lparr>res_Reason := ''Relay not supported for Connect Scan''\<rparr>, sh)
         else
           (let (out, sh1) = connect_dial w opts targetAddr sh;
                res1 = res\<lparr>res_Latency := w_took w (sh_clock sh)\<rparr>
            in case out of
                 DialError e timedOut \<Rightarrow>
                   (if timedOut then res1\<lparr>res_State := StateFiltered, res_Reason := ''Connection Timeout''\<rparr>
                    else if contains_str e ''refused'' then res1\<lparr>res_State := StateClosed, res_Reason := ''Connection Refused''\<rparr>
                    else res1\<lparr>res_State := StateFiltered, res_Reason := e\<rparr>,
                    tick sh1)
               | Dialed c \<Rightarrow>
                   (let payload = scan_payload opts;
                        sh2 = (if payload \<noteq> [] then emit (ConnData c payload) sh1 else sh1);
                        sh3 = (case sh_pool sh2 of
                                 Some p \<Rightarrow>
                                   if \<not> uses_evasion opts \<and> payload = []
                                   then sh2\<lparr>sh_pool := Some (pool_Put targetAddr c (w_now w (sh_clock sh2)) p)\<rparr>
                                   else emit (ConnClose c) sh2
                               | None \<Rightarrow> emit (ConnClose c) sh2)
                    in (res1\<lparr>res_State := StateOpen, res_Reason := ''SYN-ACK Received''\<rparr>, tick sh3))))"

definition ScanConnectPort :: "world \<Rightarrow> string \<Rightarrow> int \<Rightarrow> Options \<Rightarrow> ip option \<Rightarrow> shared \<Rightarrow> TargetResult \<times> shared" where
  "ScanConnectPort w hostIP port opts relayIP sh = ScanConnectPooled w hostIP port opts relayIP (sh\<lparr>sh_pool := None\<rparr>)"

subsection \<open>UDP\<close>

definition no_probe :: udpProbe where
  "no_probe = \<lparr>probe_Name = [], probe_Payload = [], probe_Match = None\<rparr>"

definition udp_probes_for :: "Options \<Rightarrow> int \<Rightarrow> udpProbe list" where
  "udp_probes_for opts port =
     (if DataString opts \<noteq> [] then [no_probe\<lparr>probe_Payload := bytes_of (DataString opts)\<rparr>]
      else if probesForPort port \<noteq> [] then probesForPort port
      else [no_probe])"

text \<open>What a reply is worth: the reason, and the service when the probe recognises it.\<close>

definition udp_open :: "string \<Rightarrow> int \<Rightarrow> udpProbe \<Rightarrow> bytes \<Rightarrow> duration \<Rightarrow> TargetResult option" where
  "udp_open ip port probe resp d =
     map_option (\<lambda>known.
         (new_result ip port)\<lparr>res_State := StateOpen, res_Latency := d,
           res_Reason := (if known then ''UDP Response Received ('' @ probe_Name probe @ '')'' else ''UDP Response Received''),
           res_Service := (if known then probe_Name probe else [])\<rparr>)
       (if probe_Name probe = [] then Some False else matches probe resp)"

type_synonym udp_error = "(string \<times> bool) option"

definition refused :: "string \<Rightarrow> bool" where
  "refused e = contains_str e ''connection refused''"

text \<open>One attempt: the probes in turn; \<open>Inl\<close> is the result to return, \<open>Inr\<close> the last
  error and the last duration, with which the next attempt starts.\<close>

fun udp_round ::
  "world \<Rightarrow> string \<Rightarrow> int \<Rightarrow> duration \<Rightarrow> udpProbe list \<Rightarrow> udp_error \<times> duration \<Rightarrow> shared
   \<Rightarrow> ((TargetResult + udp_error \<times> duration) \<times> shared) option" where
  "udp_round w ip port tmo [] acc sh = Some (Inr acc, sh)"
| "udp_round w ip port tmo (p # ps) acc sh =
     Option.bind (paced w sh) (\<lambda>sh1.
       let sh2 = tick (emit (UdpTx ip port (probe_Payload p)) sh1)
       in case w_udp w (sh_clock sh1) (probe_Payload p) tmo of
            UdpError e t d \<Rightarrow>
              if refused e then Some (Inr (Some (e, t), d), sh2)
              else udp_round w ip port tmo ps (Some (e, t), d) sh2
          | UdpReply resp d \<Rightarrow>
              map_option (\<lambda>r. (Inl r, sampled d sh2)) (udp_open ip port p (take 2048 resp) d))"

fun udp_attempts ::
  "world \<Rightarrow> string \<Rightarrow> int \<Rightarrow> duration \<Rightarrow> udpProbe list \<Rightarrow> nat \<Rightarrow> udp_error \<times> duration \<Rightarrow> shared
   \<Rightarrow> ((TargetResult + udp_error \<times> duration) \<times> shared) option" where
  "udp_attempts w ip port tmo ps 0 acc sh = Some (Inr acc, sh)"
| "udp_attempts w ip port tmo ps (Suc n) acc sh =
     Option.bind (udp_round w ip port tmo ps acc sh) (\<lambda>(r, sh1).
       case r of
         Inl res \<Rightarrow> Some (Inl res, sh1)
       | Inr (lastErr, d) \<Rightarrow>
           if (case lastErr of Some (e, t) \<Rightarrow> refused e | None \<Rightarrow> False) then Some (Inr (lastErr, d), sh1)
           else udp_attempts w ip port tmo ps n (lastErr, d) sh1)"

definition udp_verdict :: "string \<Rightarrow> int \<Rightarrow> udp_error \<times> duration \<Rightarrow> TargetResult" where
  "udp_verdict ip port acc =
     (case acc of
        (None, d) \<Rightarrow> (new_result ip port)\<lparr>res_State := StateOpenFiltered, res_Reason := ''No Response''\<rparr>
      | (Some (e, timedOut), d) \<Rightarrow>
          (let res = (new_result ip port)\<lparr>res_Latency := d\<rparr> in
           if refused e then res\<lparr>res_State := StateClosed, res_Reason := ''ICMP Port Unreachable''\<rparr>
           else if timedOut then res\<lparr>res_State := StateOpenFiltered, res_Reason := ''No Response (Timeout)''\<rparr>
           else res\<lparr>res_State := StateOpenFiltered, res_Reason := ''Error: '' @ e\<rparr>))"

definition ScanUDPPort ::
  "world \<Rightarrow> string \<Rightarrow> int \<Rightarrow> Options \<Rightarrow> duration \<Rightarrow> ip option \<Rightarrow> ip option \<Rightarrow> shared \<Rightarrow> (TargetResult \<times> shared) option" where
  "ScanUDPPort w ip port opts timeout spoofed relayIP sh =
     (if w_udp_dial w (sh_clock sh)
      then Some ((new_result ip port)\<lparr>res_State := StateClosed, res_Reason := ''Socket Error''\<rparr>, sh)
      else if relayIP \<noteq> None \<or> spoofed \<noteq> None
      then Some ((new_result ip port)\<lparr>res_State := StateFiltered,
             res_Reason := ''UDP spoofing/relay requires raw socket support; userspace UDP connect cannot spoof source IP''\<rparr>, sh)
      else
        map_option (\<lambda>(r, sh'). (case r of Inl res \<Rightarrow> res | Inr acc \<Rightarrow> udp_verdict ip port acc, sh'))
          (udp_attempts w ip port (probeTimeout (sh_rtt sh) timeout) (udp_probes_for opts port)
             (nat (probeAttempts (Some opts))) (None, 0) sh))"


subsection \<open>A UDP scan is one pass over its probes\<close>

definition last_refused :: "udp_error \<times> duration \<Rightarrow> bool" where
  "last_refused acc = (case fst acc of Some (e, t) \<Rightarrow> refused e | None \<Rightarrow> False)"

lemma udp_round_append:
  assumes "\<not> last_refused acc"
  shows "udp_round w ip port tmo (xs @ ys) acc sh =
    Option.bind (udp_round w ip port tmo xs acc sh) (\<lambda>(r, sh1).
      case r of Inl res \<Rightarrow> Some (Inl res, sh1)
      | Inr a \<Rightarrow> if last_refused a then Some (Inr a, sh1) else udp_round w ip port tmo ys a sh1)"
  using assms
proof (induction xs arbitrary: acc sh)
  case (Cons p xs)
  show ?case
  proof (cases "paced w sh")
    case (Some sh1)
    show ?thesis
    proof (cases "w_udp w (sh_clock sh1) (probe_Payload p) tmo")
      case (UdpReply resp d)
      then show ?thesis using Some by (cases "udp_open ip port p (take 2048 resp) d") (simp_all add: Let_def)
    next
      case (UdpError e t d)
      then show ?thesis using Some Cons.IH [of "(Some (e, t), d)"] by (simp add: Let_def last_refused_def)
    qed
  qed simp
qed simp

lemma udp_attempts_flat:
  assumes "\<not> last_refused acc"
  shows "udp_attempts w ip port tmo ps n acc sh = udp_round w ip port tmo (concat (replicate n ps)) acc sh"
  using assms
proof (induction n arbitrary: acc sh)
  case (Suc n)
  have "udp_attempts w ip port tmo ps (Suc n) acc sh =
    Option.bind (udp_round w ip port tmo ps acc sh) (\<lambda>(r, sh1).
      case r of Inl res \<Rightarrow> Some (Inl res, sh1)
      | Inr a \<Rightarrow> if last_refused a then Some (Inr a, sh1) else udp_attempts w ip port tmo ps n a sh1)"
    by (auto simp: last_refused_def bind_eq_Some_conv split: sum.split option.split intro!: bind_option_cong)
  also have "\<dots> = Option.bind (udp_round w ip port tmo ps acc sh) (\<lambda>(r, sh1).
      case r of Inl res \<Rightarrow> Some (Inl res, sh1)
      | Inr a \<Rightarrow> if last_refused a then Some (Inr a, sh1) else udp_round w ip port tmo (concat (replicate n ps)) a sh1)"
    using Suc.IH by (auto split: sum.split intro!: bind_option_cong)
  also have "\<dots> = udp_round w ip port tmo (ps @ concat (replicate n ps)) acc sh"
    by (rule udp_round_append [OF Suc.prems, symmetric])
  finally show ?case by simp
qed simp

text \<open>The first exchange that decides: a reply or a refusal.\<close>

fun first_udp :: "(nat \<Rightarrow> bytes \<Rightarrow> udp_exchange) \<Rightarrow> udpProbe list \<Rightarrow> (nat \<times> udpProbe \<times> udp_exchange) option" where
  "first_udp f [] = None"
| "first_udp f (p # ps) =
     (let later = map_option (\<lambda>(i, r). (Suc i, r)) (first_udp (\<lambda>i. f (Suc i)) ps)
      in case f 0 (probe_Payload p) of
           UdpError e t d \<Rightarrow> if refused e then Some (0, p, UdpError e t d) else later
         | UdpReply resp d \<Rightarrow> Some (0, p, UdpReply resp d))"

definition udp_sends :: "string \<Rightarrow> int \<Rightarrow> udpProbe list \<Rightarrow> (nat \<times> udpProbe \<times> udp_exchange) option \<Rightarrow> tx list" where
  "udp_sends ip port ps rep =
     map (\<lambda>p. UdpTx ip port (probe_Payload p)) (case rep of None \<Rightarrow> ps | Some (i, _) \<Rightarrow> take (Suc i) ps)"

definition udp_decides ::
  "string \<Rightarrow> int \<Rightarrow> (nat \<times> udpProbe \<times> udp_exchange) option \<Rightarrow> TargetResult + udp_error \<times> duration \<Rightarrow> bool" where
  "udp_decides ip port rep x =
     (case rep of
        None \<Rightarrow> (\<exists>a. x = Inr a \<and> \<not> last_refused a)
      | Some (i, p, UdpReply resp d) \<Rightarrow> (\<exists>r. udp_open ip port p (take 2048 resp) d = Some r \<and> x = Inl r)
      | Some (i, p, UdpError e t d) \<Rightarrow> x = Inr (Some (e, t), d) \<and> refused e)"

lemma udp_open_total:
  assumes "\<And>resp. matches p resp \<noteq> None"
  shows "\<exists>r. udp_open ip port p resp d = Some r"
proof -
  obtain b where "matches p resp = Some b" using assms by blast
  then show ?thesis by (cases "probe_Name p = []") (simp_all add: udp_open_def)
qed

lemma udp_open_result:
  "udp_open ip port p resp d = Some r \<Longrightarrow> res_key r = (ip, port) \<and> res_State r = StateOpen"
  by (auto simp: udp_open_def res_key_def)

lemma udp_decides_Inl: "udp_decides ip port rep (Inl r) \<Longrightarrow> res_key r = (ip, port) \<and> res_State r = StateOpen"
proof (cases rep)
  case (Some ipe)
  assume dec: "udp_decides ip port rep (Inl r)"
  obtain i p e where "ipe = (i, p, e)" by (cases ipe)
  then show ?thesis using dec Some udp_open_result by (cases e) (auto simp: udp_decides_def)
qed (simp add: udp_decides_def)

lemma udp_round_outcome:
  assumes "limiter_ok sh" and "\<not> last_refused acc" and "list_all (\<lambda>p. \<forall>resp. matches p resp \<noteq> None) ps"
  shows "\<exists>x sh'. udp_round w ip port tmo ps acc sh = Some (x, sh')
    \<and> udp_decides ip port (first_udp (\<lambda>i pl. w_udp w (sh_clock sh + i) pl tmo) ps) x
    \<and> sh_sent sh' = sh_sent sh @ udp_sends ip port ps (first_udp (\<lambda>i pl. w_udp w (sh_clock sh + i) pl tmo) ps)
    \<and> limiter_ok sh' \<and> sh_pool sh' = sh_pool sh"
  using assms
proof (induction ps arbitrary: acc sh)
  case Nil
  then show ?case by (cases acc) (simp add: udp_decides_def udp_sends_def)
next
  case (Cons p ps)
  obtain sh1 where sh1: "paced w sh = Some sh1" "limiter_ok sh1" "sh_clock sh1 = sh_clock sh"
      "sh_sent sh1 = sh_sent sh" "sh_pool sh1 = sh_pool sh"
    using paced_ok [OF Cons.prems(1)] by metis
  let ?sh2 = "tick (emit (UdpTx ip port (probe_Payload p)) sh1)"
  show ?case
  proof (cases "w_udp w (sh_clock sh) (probe_Payload p) tmo")
    case (UdpReply resp d)
    obtain r where "udp_open ip port p (take 2048 resp) d = Some r"
      using udp_open_total [of p ip port "take 2048 resp" d] Cons.prems(3) by auto
    then show ?thesis using sh1 UdpReply by (simp add: udp_decides_def udp_sends_def)
  next
    case (UdpError e t d)
    show ?thesis
    proof (cases "refused e")
      case True
      then show ?thesis using sh1 UdpError by (simp add: udp_decides_def udp_sends_def)
    next
      case False
      let ?rep = "first_udp (\<lambda>i pl. w_udp w (sh_clock sh + Suc i) pl tmo) ps"
      have "limiter_ok ?sh2" "\<not> last_refused (Some (e, t), d)" using sh1 False by (simp_all add: last_refused_def)
      from Cons.IH [OF this] obtain x sh' where
        run: "udp_round w ip port tmo ps (Some (e, t), d) ?sh2 = Some (x, sh')"
        and rest: "udp_decides ip port ?rep x" "limiter_ok sh'" "sh_pool sh' = sh_pool sh"
          "sh_sent sh' = sh_sent sh @ UdpTx ip port (probe_Payload p) # udp_sends ip port ps ?rep"
        using sh1 Cons.prems(3) by auto
      have "udp_decides ip port (map_option (\<lambda>(i, r). (Suc i, r)) ?rep) x"
        using rest(1) by (auto simp: udp_decides_def split: option.splits)
      moreover have "udp_sends ip port (p # ps) (map_option (\<lambda>(i, r). (Suc i, r)) ?rep)
          = UdpTx ip port (probe_Payload p) # udp_sends ip port ps ?rep"
        by (cases ?rep) (auto simp: udp_sends_def)
      ultimately show ?thesis using run rest UdpError False sh1 by (simp add: Let_def)
    qed
  qed
qed

lemma udp_probes_total: "list_all (\<lambda>p. \<forall>resp. matches p resp \<noteq> None) (udp_probes_for opts port)"
proof -
  have "set (probesForPort port) \<subseteq> set all_probes"
  proof (cases "map_of udpProbesByPort port")
    case (Some ps)
    then have "(port, ps) \<in> set udpProbesByPort" by (rule map_of_SomeD)
    then show ?thesis using Some by (force simp: probesForPort_def all_probes_def)
  qed (simp add: probesForPort_def)
  then have "list_all (\<lambda>p. \<forall>resp. matches p resp \<noteq> None) (probesForPort port)"
    using probe_match_total by (auto simp: list_all_iff)
  then show ?thesis by (auto simp: udp_probes_for_def matches_def no_probe_def simp del: not_None_eq)
qed


lemma udp_scan_returns:
  assumes "limiter_ok sh"
  shows "\<exists>r sh'. ScanUDPPort w ip port opts timeout spoofed relay sh = Some (r, sh') \<and> res_key r = (ip, port)
    \<and> res_State r \<in> {StateOpen, StateClosed, StateFiltered, StateOpenFiltered} \<and> limiter_ok sh'"
proof (cases "w_udp_dial w (sh_clock sh) \<or> relay \<noteq> None \<or> spoofed \<noteq> None")
  case True
  then show ?thesis using assms by (auto simp: ScanUDPPort_def res_key_def)
next
  case False
  let ?probes = "concat (replicate (nat (probeAttempts (Some opts))) (udp_probes_for opts port))"
  have none: "\<not> last_refused (None, 0)" by (simp add: last_refused_def)
  have total: "list_all (\<lambda>p. \<forall>resp. matches p resp \<noteq> None) ?probes"
    using udp_probes_total [of opts port] by (auto simp: list_all_iff)
  from udp_round_outcome [OF assms none total, of w ip port "probeTimeout (sh_rtt sh) timeout"]
  obtain x sh' where run: "udp_attempts w ip port (probeTimeout (sh_rtt sh) timeout) (udp_probes_for opts port)
        (nat (probeAttempts (Some opts))) (None, 0) sh = Some (x, sh')" "limiter_ok sh'"
    and dec: "udp_decides ip port (first_udp (\<lambda>i pl. w_udp w (sh_clock sh + i) pl (probeTimeout (sh_rtt sh) timeout)) ?probes) x"
    unfolding udp_attempts_flat [OF none] by blast
  have verdict: "res_key (udp_verdict ip port a) = (ip, port)"
      "res_State (udp_verdict ip port a) \<in> {StateOpen, StateClosed, StateFiltered, StateOpenFiltered}" for a
    by (cases a; cases "fst a"; force simp: udp_verdict_def Let_def res_key_def)+
  show ?thesis
  proof (cases x)
    case (Inl r)
    then have "res_key r = (ip, port) \<and> res_State r = StateOpen"
      using dec udp_decides_Inl by blast
    then show ?thesis using run False Inl by (simp add: ScanUDPPort_def)
  next
    case (Inr a)
    then show ?thesis using run False verdict [of a] by (simp add: ScanUDPPort_def)
  qed
qed

text \<open>C17: a UDP scan returns for the target it was given; its verdict is decided by the first
  exchange, over all attempts and probes in order, that is a reply (OPEN, and a service
  exactly when the probe recognises the reply) or a refusal (CLOSED); without one it is
  OPEN|FILTERED.  It sends the probes up to that exchange and no more.\<close>

theorem udp_scan_first_decisive:
  fixes w :: world and sh :: shared and opts :: Options and timeout :: duration and port :: int
  defines "probes \<equiv> concat (replicate (nat (probeAttempts (Some opts))) (udp_probes_for opts port))"
    and "net \<equiv> \<lambda>i payload. w_udp w (sh_clock sh + i) payload (probeTimeout (sh_rtt sh) timeout)"
  assumes "\<not> w_udp_dial w (sh_clock sh)" and "limiter_ok sh"
  shows "\<exists>r sh'. ScanUDPPort w ip port opts timeout None None sh = Some (r, sh') \<and> res_key r = (ip, port)
    \<and> (res_State r, res_Service r) = (case first_udp net probes of
          None \<Rightarrow> (StateOpenFiltered, [])
        | Some (i, p, UdpError e t d) \<Rightarrow> (StateClosed, [])
        | Some (i, p, UdpReply resp d) \<Rightarrow>
            (StateOpen, if matches p (take 2048 resp) = Some True then probe_Name p else []))
    \<and> sh_sent sh' = sh_sent sh @ udp_sends ip port probes (first_udp net probes)"
proof -
  let ?ps = "udp_probes_for opts port"
  let ?n = "nat (probeAttempts (Some opts))"
  have none: "\<not> last_refused (None, 0)" by (simp add: last_refused_def)
  have total: "list_all (\<lambda>p. \<forall>resp. matches p resp \<noteq> None) probes"
    using udp_probes_total [of opts port] by (auto simp: probes_def list_all_iff)
  from udp_round_outcome [OF assms(4) none total, of w ip port "probeTimeout (sh_rtt sh) timeout"]
  obtain x sh' where run: "udp_attempts w ip port (probeTimeout (sh_rtt sh) timeout) ?ps ?n (None, 0) sh = Some (x, sh')"
    and dec: "udp_decides ip port (first_udp net probes) x"
    and sent: "sh_sent sh' = sh_sent sh @ udp_sends ip port probes (first_udp net probes)"
    unfolding net_def udp_attempts_flat [OF none] probes_def by blast
  define r where "r = (case x of Inl res \<Rightarrow> res | Inr acc \<Rightarrow> udp_verdict ip port acc)"
  have scan: "ScanUDPPort w ip port opts timeout None None sh = Some (r, sh')"
    using assms(3) run by (simp add: ScanUDPPort_def r_def)
  have "res_key r = (ip, port) \<and> (res_State r, res_Service r) = (case first_udp net probes of
          None \<Rightarrow> (StateOpenFiltered, [])
        | Some (i, p, UdpError e t d) \<Rightarrow> (StateClosed, [])
        | Some (i, p, UdpReply resp d) \<Rightarrow>
            (StateOpen, if matches p (take 2048 resp) = Some True then probe_Name p else []))"
  proof (cases "first_udp net probes")
    case None
    then obtain a where "x = Inr a" "\<not> last_refused a" using dec by (auto simp: udp_decides_def)
    then show ?thesis using None
      by (cases a; cases "fst a") (auto simp: r_def udp_verdict_def last_refused_def new_result_def res_key_def Let_def)
  next
    case (Some ipe)
    obtain i p e where ipe: "ipe = (i, p, e)" by (cases ipe)
    show ?thesis
    proof (cases e)
      case (UdpReply resp d)
      then obtain r' where "udp_open ip port p (take 2048 resp) d = Some r'" "x = Inl r'"
        using dec Some ipe by (auto simp: udp_decides_def)
      then show ?thesis using Some ipe UdpReply
        by (auto simp: udp_open_def r_def new_result_def res_key_def split: if_splits)
    next
      case (UdpError e' t d)
      then show ?thesis using dec Some ipe
        by (auto simp: udp_decides_def r_def udp_verdict_def new_result_def res_key_def Let_def)
    qed
  qed
  then show ?thesis using scan sent by blast
qed

theorem udp_scan_first_decisive_witness:
  "\<exists>r sh'. ScanUDPPort (silent_world\<lparr>w_udp := (\<lambda>i _ _. if i = 1 then UdpReply [0x13, 0x37, 0x80] 5 else UdpError ''i/o timeout'' True 100)\<rparr>)
       ''10.0.0.2'' 9999 default_options 1000 None None idle_shared = Some (r, sh')
     \<and> res_State r = StateOpen \<and> length (sh_sent sh') = 2"
proof -
  let ?w = "silent_world\<lparr>w_udp := (\<lambda>i _ _. if i = 1 then UdpReply [0x13, 0x37, 0x80] 5 else UdpError ''i/o timeout'' True 100)\<rparr>"
  have dial: "\<not> w_udp_dial ?w (sh_clock idle_shared)" by (simp add: silent_world_def)
  have n: "nat (probeAttempts (Some default_options)) = 3"
    by (simp add: probeAttempts_def default_options_def zero_options_def)
  have ps: "udp_probes_for default_options 9999 = [no_probe]"
    by (simp add: udp_probes_for_def probesForPort_def udpProbesByPort_def default_options_def zero_options_def)
  have no: "\<not> refused ''i/o timeout''" by code_simp
  show ?thesis
    using udp_scan_first_decisive [OF dial limiter_ok_idle, of "''10.0.0.2''" 9999 default_options 1000]
    unfolding n ps by (auto simp: idle_shared_def numeral_3_eq_3 no udp_sends_def)
qed

subsection \<open>What a connect scan does with its connection\<close>

lemma connect_dial_outcome:
  "connect_dial w opts addr sh = (out, sh1) \<Longrightarrow> limiter_ok sh1 = limiter_ok sh"
  by (auto simp: connect_dial_def limiter_ok_def log_all_def Let_def split: if_splits option.splits prod.splits)

lemma connect_scan_returns:
  assumes "limiter_ok sh" and "ScanConnectPooled w ip port opts relay sh = (r, sh')"
  shows "res_key r = (ip, port)" and "res_State r \<in> {StateOpen, StateClosed, StateFiltered}" and "limiter_ok sh'"
proof -
  obtain out sh1 where d: "connect_dial w opts (join_host_port ip (itoa port)) sh = (out, sh1)" by fastforce
  then have "limiter_ok sh1" using connect_dial_outcome assms(1) by blast
  then show "res_key r = (ip, port)" "res_State r \<in> {StateOpen, StateClosed, StateFiltered}" "limiter_ok sh'"
    using assms d by (auto simp: ScanConnectPooled_def Let_def res_key_def split: if_splits dial_outcome.splits option.splits)
qed

text \<open>The payload writes of a scan.\<close>

definition payload_writes :: "tx list \<Rightarrow> bytes list" where
  "payload_writes ts = concat (map (\<lambda>t. case t of ConnData c b \<Rightarrow> [b] | _ \<Rightarrow> []) ts)"

definition connect_request :: "world \<Rightarrow> Options \<Rightarrow> EvasionConfig \<Rightarrow> string \<Rightarrow> dial_request" where
  "connect_request w opts cfg addr =
     \<lparr>dq_addr = addr, dq_local = evasion_local (sys_ifaceIP (w_sys w)) (Some cfg), dq_iface = ec_Interface cfg,
      dq_ttl = (if ec_TTL cfg > 0 then ec_TTL cfg else 0)\<rparr>"


text \<open>How often the payload of the options reaches the wire: the evasion dialer writes the
  payload of its configuration and the scan writes it again; the dialer's fallback,
  taken when the first request fails, does not write it.\<close>

definition payload_copies :: "world \<Rightarrow> Options \<Rightarrow> string \<Rightarrow> shared \<Rightarrow> nat" where
  "payload_copies w opts addr sh =
     (case evasion_config opts of
        Some cfg \<Rightarrow>
          if uses_evasion opts
          then (case w_dial w (sh_clock sh) (connect_request w opts cfg addr) of Dialed c \<Rightarrow> 2 | DialError e t \<Rightarrow> 1)
          else 1
      | None \<Rightarrow> 1)"

lemma payload_writes_simps [simp]:
  "payload_writes [] = []" "payload_writes (ts @ us) = payload_writes ts @ payload_writes us"
  "payload_writes (ConnData c b # ts) = b # payload_writes ts"
  "payload_writes (ConnDial q # ts) = payload_writes ts" "payload_writes (ConnClose c # ts) = payload_writes ts"
  "payload_writes (map ConnDial qs) = []"
  by (induction qs) (simp_all add: payload_writes_def)

lemma evasion_config_payload: "evasion_config opts = Some cfg \<Longrightarrow> ec_Payload cfg = scan_payload opts"
  by (auto simp: evasion_config_def NewConfig_def scan_payload_def split: sum.splits)

lemma connect_dial_writes:
  assumes "connect_dial w opts addr sh = (out, sh1)"
  shows "\<exists>ts. sh_sent sh1 = sh_sent sh @ ts
    \<and> payload_writes ts = (case out of DialError e t \<Rightarrow> []
        | Dialed c \<Rightarrow> if scan_payload opts = [] then [] else replicate (payload_copies w opts addr sh - 1) (scan_payload opts))"
proof (cases "uses_evasion opts")
  case False
  then show ?thesis using assms
    by (auto simp: connect_dial_def payload_copies_def log_all_def Let_def split: option.splits prod.splits dial_outcome.split)
next
  case True
  show ?thesis
  proof (cases "evasion_config opts")
    case None
    then show ?thesis using assms True
      by (auto simp: connect_dial_def custom_dial_unconfigured payload_copies_def log_all_def dial_writes_def Let_def
          split: dial_outcome.split)
  next
    case (Some cfg)
    note pay = evasion_config_payload [OF Some]
    have req: "\<lparr>dq_addr = addr, dq_local = evasion_local (sys_ifaceIP (w_sys w)) (Some cfg), dq_iface = ec_Interface cfg,
        dq_ttl = (if ec_TTL cfg > 0 then ec_TTL cfg else 0)\<rparr> = connect_request w opts cfg addr"
      by (simp add: connect_request_def)
    show ?thesis
      using assms True Some pay
      by (cases "w_dial w (sh_clock sh) (connect_request w opts cfg addr)")
        (auto simp: connect_dial_def custom_dial_def req payload_copies_def log_all_def dial_writes_def Let_def
          split: dial_outcome.splits if_splits)
  qed
qed

text \<open>A connect scan that finds its port open writes the payload of the options exactly
  once, except through the evasion dialer, where it is written twice when the dialer's
  own request succeeds; a scan that does not find it open writes nothing.\<close>

theorem connect_payload_writes:
  "let (r, sh') = ScanConnectPooled w ip port opts None sh in
   payload_writes (drop (length (sh_sent sh)) (sh_sent sh'))
     = (if res_State r = StateOpen \<and> scan_payload opts \<noteq> []
        then replicate (payload_copies w opts (join_host_port ip (itoa port)) sh) (scan_payload opts) else [])"
proof -
  let ?addr = "join_host_port ip (itoa port)"
  obtain out sh1 where d: "connect_dial w opts ?addr sh = (out, sh1)" by fastforce
  from connect_dial_writes [OF this] obtain ts where ts: "sh_sent sh1 = sh_sent sh @ ts"
    "payload_writes ts = (case out of DialError e t \<Rightarrow> []
        | Dialed c \<Rightarrow> if scan_payload opts = [] then [] else replicate (payload_copies w opts ?addr sh - 1) (scan_payload opts))"
    by blast
  have pos: "0 < payload_copies w opts ?addr sh"
    by (simp add: payload_copies_def split: option.split dial_outcome.split)
  then have rep: "replicate (payload_copies w opts ?addr sh - 1) p @ [p] = replicate (payload_copies w opts ?addr sh) p" for p :: bytes
    by (metis Suc_diff_1 append_Cons append_Nil replicate_Suc replicate_append_same)
  show ?thesis
  proof (cases out)
    case (DialError e t)
    then show ?thesis using d ts by (simp add: ScanConnectPooled_def Let_def state_defs)
  next
    case (Dialed c)
    then show ?thesis using d ts rep
      by (cases "sh_pool sh1") (simp_all add: ScanConnectPooled_def Let_def emit_def)
  qed
qed

end
