(* ===== verification/XdpProbes.thy ===== *)
theory XdpProbes
  imports RawProbes Fragment
begin

text \<open>
  The AF_XDP scans of \<open>internal/scan/xdp.go\<close>: \<open>ScanXDPPort\<close> and \<open>ScanXDPUDPPort\<close> build
  the frames of the probe once, hand them to the transmit queue at every attempt and
  wait on the channel of \<open>ip:port\<close>; and the transmit queue itself, from which one
  flusher takes batches.  Decoy frames go past the queue to the ring, so they are logged
  apart.
\<close>

subsection \<open>The transmit queue\<close>

definition txBatchSize :: nat where "txBatchSize = 64"

text \<open>The queue with its capacity, the frames the ring took and the frames it had no slot for.\<close>

record tx_queue =
  txq_cap :: nat
  txq_queue :: "bytes list"
  txq_sent :: "bytes list"
  txq_unsent :: "bytes list"

text \<open>\<open>transmitXDPFrames\<close>: frames are queued until one finds the queue full.\<close>

fun transmitXDPFrames :: "bytes list \<Rightarrow> tx_queue \<Rightarrow> bool \<times> tx_queue" where
  "transmitXDPFrames [] q = (True, q)"
| "transmitXDPFrames (f # fs) q =
     (if length (txq_queue q) < txq_cap q then transmitXDPFrames fs (q\<lparr>txq_queue := txq_queue q @ [f]\<rparr>)
      else (False, q))"

text \<open>\<open>xdpFlushBatch\<close>: the ring offers some descriptors; the frames beyond them are not sent.\<close>

definition xdpFlushBatch :: "nat \<Rightarrow> bytes list \<Rightarrow> tx_queue \<Rightarrow> tx_queue" where
  "xdpFlushBatch descs frames q =
     (if frames = [] then q
      else q\<lparr>txq_sent := txq_sent q @ take descs frames, txq_unsent := txq_unsent q @ drop descs frames\<rparr>)"

text \<open>One turn of \<open>xdpTxFlusher\<close>: up to \<open>txBatchSize\<close> frames leave the queue.\<close>

definition flusher_turn :: "nat \<Rightarrow> tx_queue \<Rightarrow> tx_queue" where
  "flusher_turn descs q =
     xdpFlushBatch descs (take txBatchSize (txq_queue q)) (q\<lparr>txq_queue := drop txBatchSize (txq_queue q)\<rparr>)"

subsection \<open>The frames of a probe\<close>

definition getSrcPort :: "Options \<Rightarrow> u16" where
  "getSrcPort opts = (if SourcePort opts > 0 then of_int (SourcePort opts) else 54321)"

definition to4_or_nil :: "ip \<Rightarrow> ip" where
  "to4_or_nil a = (case to4 a of Some b \<Rightarrow> b | None \<Rightarrow> [])"

definition parsed_ip :: "string \<Rightarrow> ip" where
  "parsed_ip s = (case parse_ip s of Some a \<Rightarrow> a | None \<Rightarrow> [])"

definition effective_source :: "world \<Rightarrow> ip option \<Rightarrow> ip" where
  "effective_source w spoofed = (case spoofed of Some a \<Rightarrow> to4_or_nil a | None \<Rightarrow> to4_or_nil (w_localIP w))"

definition probe_frames :: "world \<Rightarrow> Options \<Rightarrow> bytes \<Rightarrow> bytes list option" where
  "probe_frames w opts rawFrame =
     (if Fragment opts then FragmentPacket rawFrame 8
      else (case parse_ip (RelayServer opts) of
              Some relay \<Rightarrow>
                map_option (\<lambda>f. [f])
                  (constructIPinIPEthernetFrame (w_localMAC w) (w_dstMAC w relay) (to4_or_nil (w_localIP w)) (to4_or_nil relay) rawFrame)
            | None \<Rightarrow> Some [rawFrame]))"

definition syn_frame :: "world \<Rightarrow> string \<Rightarrow> int \<Rightarrow> Options \<Rightarrow> ip option \<Rightarrow> bytes" where
  "syn_frame w ip port opts spoofed =
     constructSYNFrame (w_localMAC w) (w_dstMAC w (parsed_ip ip)) (effective_source w spoofed) (parsed_ip ip)
       (getSrcPort opts) (of_int port) (MPTCP opts) (w_millis w) (w_nanos w)"

definition udp_frame_payload :: "Options \<Rightarrow> int \<Rightarrow> bytes" where
  "udp_frame_payload opts port =
     (if DataString opts \<noteq> [] then map of_char (DataString opts)
      else if port = 53 then
        [0xDB, 0x42, 0x01, 0x00, 0x00, 0x01, 0x00, 0x00, 0x00, 0x00, 0x00, 0x00, 0x06]
        @ map of_char ''google'' @ [0x03] @ map of_char ''com'' @ [0x00, 0x00, 0x01, 0x00, 0x01]
      else [])"

definition udp_frame :: "world \<Rightarrow> string \<Rightarrow> int \<Rightarrow> Options \<Rightarrow> ip option \<Rightarrow> bytes" where
  "udp_frame w ip port opts spoofed =
     constructUDPFrame (w_localMAC w) (w_dstMAC w (parsed_ip ip)) (effective_source w spoofed) (parsed_ip ip)
       (getSrcPort opts) (of_int port) (udp_frame_payload opts port)"

definition syn_decoy_frames :: "world \<Rightarrow> string \<Rightarrow> int \<Rightarrow> Options \<Rightarrow> tx list" where
  "syn_decoy_frames w ip port opts =
     map (\<lambda>d. FrameTx (constructSYNFrame (w_localMAC w) (w_dstMAC w (parsed_ip ip)) (to4_or_nil d) (to4_or_nil (parsed_ip ip))
                (getSrcPort opts) (of_int port) False (w_millis w) (w_nanos w)))
       (decoys_of opts)"

definition udp_decoy_frames :: "world \<Rightarrow> string \<Rightarrow> int \<Rightarrow> Options \<Rightarrow> tx list" where
  "udp_decoy_frames w ip port opts =
     map (\<lambda>d. FrameTx (constructUDPFrame (w_localMAC w) (w_dstMAC w (parsed_ip ip)) (to4_or_nil d) (to4_or_nil (parsed_ip ip))
                (getSrcPort opts) (of_int port) []))
       (decoys_of opts)"

subsection \<open>The attempts\<close>

definition log_frames :: "bytes list \<Rightarrow> shared \<Rightarrow> shared" where
  "log_frames frames sh = sh\<lparr>sh_sent := sh_sent sh @ map FrameTx frames\<rparr>"

fun xdp_attempts ::
  "world \<Rightarrow> (xdpResponse \<Rightarrow> duration \<Rightarrow> TargetResult) \<Rightarrow> (duration \<Rightarrow> TargetResult) \<Rightarrow> TargetResult \<Rightarrow> bytes list
   \<Rightarrow> duration \<Rightarrow> nat \<Rightarrow> duration \<Rightarrow> shared \<Rightarrow> (TargetResult \<times> shared) option" where
  "xdp_attempts w judge quiet congested frames tmo 0 lastLatency sh = Some (quiet lastLatency, sh)"
| "xdp_attempts w judge quiet congested frames tmo (Suc n) lastLatency sh =
     Option.bind (paced w sh) (\<lambda>sh1.
       case w_xdp w (sh_clock sh1) tmo of
         TxFull \<Rightarrow> Some (congested, tick sh1)
       | XdpReply resp d \<Rightarrow> Some (judge resp d, sampled d (tick (log_frames frames sh1)))
       | XdpSilent d \<Rightarrow> xdp_attempts w judge quiet congested frames tmo n d (tick (log_frames frames sh1)))"


definition xdp_offline :: "string \<Rightarrow> int \<Rightarrow> TargetResult" where
  "xdp_offline ip port = (new_result ip port)\<lparr>res_State := StateClosed, res_Reason := ''XDP engine offline''\<rparr>"

definition xdp_congested :: "string \<Rightarrow> int \<Rightarrow> TargetResult" where
  "xdp_congested ip port =
     (new_result ip port)\<lparr>res_State := StateFiltered, res_Reason := ''XDP TX Ring Congestion (Fragment dropped)''\<rparr>"

definition xdp_timeout :: "string \<Rightarrow> string \<Rightarrow> int \<Rightarrow> duration \<Rightarrow> TargetResult" where
  "xdp_timeout state ip port d =
     (new_result ip port)\<lparr>res_State := state, res_Latency := d, res_Reason := ''No Response (Timeout)''\<rparr>"

definition xdp_syn_result :: "string \<Rightarrow> int \<Rightarrow> xdpResponse \<Rightarrow> duration \<Rightarrow> TargetResult" where
  "xdp_syn_result ip port resp d =
     (let state = xr_state resp;
          reason = (if state = StateOpen \<and> xr_osSig resp \<noteq> [] then ''SYN-ACK ['' @ xr_osSig resp @ '']''
                    else if state = StateClosed then ''RST Received (AF_XDP)''
                    else ''SYN-ACK Received (AF_XDP)'')
      in (new_result ip port)\<lparr>res_State := state, res_OS := xr_osName resp, res_OSConfidence := xr_osConfidence resp,
           res_MPTCP := xr_mptcp resp, res_Latency := d,
           res_Reason := (if xr_mptcp resp then reason @ '' [MPTCP]'' else reason)\<rparr>)"

definition xdp_udp_result :: "string \<Rightarrow> int \<Rightarrow> xdpResponse \<Rightarrow> duration \<Rightarrow> TargetResult" where
  "xdp_udp_result ip port resp d =
     (new_result ip port)\<lparr>res_State := xr_state resp, res_Latency := d,
       res_Reason := (if xr_state resp = StateOpen then ''UDP Response Received (AF_XDP)''
                      else if xr_state resp = StateClosed then ''ICMP Port Unreachable (AF_XDP)'' else [])\<rparr>"

definition xdp_scan ::
  "world \<Rightarrow> (xdpResponse \<Rightarrow> duration \<Rightarrow> TargetResult) \<Rightarrow> string \<Rightarrow> tx list \<Rightarrow> bytes
   \<Rightarrow> string \<Rightarrow> int \<Rightarrow> Options \<Rightarrow> duration \<Rightarrow> shared \<Rightarrow> (TargetResult \<times> shared) option" where
  "xdp_scan w judge quiet decoys rawFrame ip port opts timeout sh =
     (if \<not> w_xsk w then Some (xdp_offline ip port, sh)
      else
        Option.bind (probe_frames w opts rawFrame) (\<lambda>frames.
          xdp_attempts w judge (xdp_timeout quiet ip port) (xdp_congested ip port) frames
            (probeTimeout (sh_rtt sh) timeout) (nat (probeAttempts (Some opts))) 0
            (sh\<lparr>sh_decoys := sh_decoys sh @ decoys\<rparr>)))"

definition ScanXDPPort ::
  "world \<Rightarrow> string \<Rightarrow> int \<Rightarrow> Options \<Rightarrow> duration \<Rightarrow> ip option \<Rightarrow> shared \<Rightarrow> (TargetResult \<times> shared) option" where
  "ScanXDPPort w ip port opts timeout spoofed =
     xdp_scan w (xdp_syn_result ip port) StateFiltered (syn_decoy_frames w ip port opts)
       (syn_frame w ip port opts spoofed) ip port opts timeout"

definition ScanXDPUDPPort ::
  "world \<Rightarrow> string \<Rightarrow> int \<Rightarrow> Options \<Rightarrow> duration \<Rightarrow> ip option \<Rightarrow> shared \<Rightarrow> (TargetResult \<times> shared) option" where
  "ScanXDPUDPPort w ip port opts timeout spoofed =
     xdp_scan w (xdp_udp_result ip port) StateOpenFiltered (udp_decoy_frames w ip port opts)
       (udp_frame w ip port opts spoofed) ip port opts timeout"

subsection \<open>Returning\<close>

lemma log_frames_simps [simp]:
  "limiter_ok (log_frames fs sh) = limiter_ok sh" "sh_clock (log_frames fs sh) = sh_clock sh"
  "sh_sent (log_frames fs sh) = sh_sent sh @ map FrameTx fs"
  by (simp_all add: log_frames_def limiter_ok_def)

lemma probe_frames_total: "14 \<le> length rawFrame \<Longrightarrow> probe_frames w opts rawFrame \<noteq> None"
proof -
  assume len: "14 \<le> length rawFrame"
  have "FragmentPacket rawFrame 8 \<noteq> None"
    using fragment_loop_total [of 8] by (auto simp: FragmentPacket_def simp del: not_None_eq)
  moreover have "constructIPinIPEthernetFrame m1 m2 a b rawFrame \<noteq> None" for m1 m2 a b
    using len by (simp add: constructIPinIPEthernetFrame_def slice_def)
  ultimately show ?thesis by (simp add: probe_frames_def split: option.split del: not_None_eq)
qed

text \<open>The first attempt that is not silent, as for the raw scans.\<close>

fun first_xdp :: "(nat \<Rightarrow> xdp_exchange) \<Rightarrow> nat \<Rightarrow> (nat \<times> xdp_exchange) option" where
  "first_xdp f 0 = None"
| "first_xdp f (Suc n) =
     (case f 0 of
        XdpSilent d \<Rightarrow> map_option (\<lambda>(i, e). (Suc i, e)) (first_xdp (\<lambda>i. f (Suc i)) n)
      | e \<Rightarrow> Some (0, e))"

definition transmissions :: "nat \<Rightarrow> (nat \<times> xdp_exchange) option \<Rightarrow> nat" where
  "transmissions n r = (case r of None \<Rightarrow> n | Some (i, TxFull) \<Rightarrow> i | Some (i, _) \<Rightarrow> Suc i)"

lemma xdp_attempts_outcome:
  assumes "limiter_ok sh"
  shows "\<exists>r sh' d. xdp_attempts w judge quiet congested frames tmo n d0 sh = Some (r, sh') \<and> limiter_ok sh'
    \<and> r = (case first_xdp (\<lambda>i. w_xdp w (sh_clock sh + i) tmo) n of
              None \<Rightarrow> quiet d | Some (i, XdpReply resp l) \<Rightarrow> judge resp l | Some _ \<Rightarrow> congested)
    \<and> sh_sent sh' = sh_sent sh @ concat (replicate (transmissions n (first_xdp (\<lambda>i. w_xdp w (sh_clock sh + i) tmo) n))
         (map FrameTx frames))"
  using assms
proof (induction n arbitrary: d0 sh)
  case 0
  then show ?case by (auto simp: transmissions_def)
next
  case (Suc n)
  obtain sh1 where sh1: "paced w sh = Some sh1" "limiter_ok sh1" "sh_clock sh1 = sh_clock sh" "sh_sent sh1 = sh_sent sh"
    using paced_ok [OF Suc.prems] by metis
  show ?case
  proof (cases "w_xdp w (sh_clock sh) tmo")
    case (XdpSilent d)
    let ?sh = "tick (log_frames frames sh1)"
    let ?rep = "first_xdp (\<lambda>i. w_xdp w (sh_clock sh + Suc i) tmo) n"
    have "limiter_ok ?sh" using sh1 by simp
    from Suc.IH [OF this, of d] obtain r sh' d' where
      run: "xdp_attempts w judge quiet congested frames tmo n d ?sh = Some (r, sh')" "limiter_ok sh'"
      and r: "r = (case ?rep of None \<Rightarrow> quiet d' | Some (i, XdpReply resp l) \<Rightarrow> judge resp l | Some _ \<Rightarrow> congested)"
      and sent: "sh_sent sh' = (sh_sent sh @ map FrameTx frames) @ concat (replicate (transmissions n ?rep) (map FrameTx frames))"
      using sh1 by auto
    have rep: "first_xdp (\<lambda>i. w_xdp w (sh_clock sh + i) tmo) (Suc n) = map_option (\<lambda>(i, e). (Suc i, e)) ?rep"
      using XdpSilent by simp
    have "transmissions (Suc n) (map_option (\<lambda>(i, e). (Suc i, e)) ?rep) = Suc (transmissions n ?rep)"
      by (auto simp: transmissions_def split: option.splits xdp_exchange.splits)
    moreover have "r = (case map_option (\<lambda>(i, e). (Suc i, e)) ?rep of
        None \<Rightarrow> quiet d' | Some (i, XdpReply resp l) \<Rightarrow> judge resp l | Some _ \<Rightarrow> congested)"
      unfolding r by (cases ?rep) auto
    moreover have "xdp_attempts w judge quiet congested frames tmo (Suc n) d0 sh = Some (r, sh')"
      using run XdpSilent sh1 by simp
    ultimately show ?thesis using run sent unfolding rep by auto
  qed (use sh1 in \<open>simp_all add: transmissions_def\<close>)
qed


subsection \<open>Verdicts\<close>

text \<open>The receive loop only delivers OPEN and CLOSED.\<close>

lemma handleXDPFrame_states:
  assumes "handleXDPFrame frame = Some actions" and "Deliver key resp \<in> set actions"
  shows "xr_state resp \<in> {StateOpen, StateClosed}"
  using assms
  by (auto simp: handleXDPFrame_def handle_tcp_def handle_udp_def handle_icmp_def state_response_def Let_def bind_eq_Some_conv
      split: if_splits)

definition xdp_world :: "world \<Rightarrow> bool" where
  "xdp_world w \<longleftrightarrow> w_xsk w \<and> (\<forall>i t resp d. w_xdp w i t = XdpReply resp d \<longrightarrow> xr_state resp \<in> {StateOpen, StateClosed})"

lemma frame_lengths:
  "14 \<le> length (syn_frame w ip port opts spoofed)" "14 \<le> length (udp_frame w ip port opts spoofed)"
  by (simp_all add: syn_frame_def constructSYNFrame_def udp_frame_def constructUDPFrame_def ethernet_def split: prod.split)

definition xdp_verdict :: "string \<Rightarrow> (nat \<times> xdp_exchange) option \<Rightarrow> string" where
  "xdp_verdict quiet rep =
     (case rep of None \<Rightarrow> quiet | Some (i, XdpReply resp d) \<Rightarrow> xr_state resp | Some _ \<Rightarrow> StateFiltered)"

lemma xdp_scan_outcome:
  assumes "limiter_ok sh" and "w_xsk w" and "14 \<le> length rawFrame"
    and "\<And>resp d. res_key (judge resp d) = (ip, port) \<and> res_State (judge resp d) = xr_state resp"
  shows "\<exists>r sh' frames. xdp_scan w judge quiet decoys rawFrame ip port opts timeout sh = Some (r, sh')
    \<and> probe_frames w opts rawFrame = Some frames \<and> res_key r = (ip, port) \<and> limiter_ok sh'
    \<and> res_State r = xdp_verdict quiet (first_xdp (\<lambda>i. w_xdp w (sh_clock sh + i) (probeTimeout (sh_rtt sh) timeout))
         (nat (probeAttempts (Some opts))))
    \<and> sh_sent sh' = sh_sent sh @ concat (replicate (transmissions (nat (probeAttempts (Some opts)))
         (first_xdp (\<lambda>i. w_xdp w (sh_clock sh + i) (probeTimeout (sh_rtt sh) timeout)) (nat (probeAttempts (Some opts)))))
         (map FrameTx frames))"
proof -
  obtain frames where fr: "probe_frames w opts rawFrame = Some frames" using probe_frames_total [OF assms(3)] by blast
  let ?sh = "sh\<lparr>sh_decoys := sh_decoys sh @ decoys\<rparr>"
  let ?n = "nat (probeAttempts (Some opts))"
  let ?tmo = "probeTimeout (sh_rtt sh) timeout"
  let ?rep = "first_xdp (\<lambda>i. w_xdp w (sh_clock sh + i) ?tmo) ?n"
  have "limiter_ok ?sh" using assms(1) by simp
  from xdp_attempts_outcome [OF this, of w judge "xdp_timeout quiet ip port" "xdp_congested ip port" frames ?tmo ?n 0]
  obtain r sh' d where run: "xdp_attempts w judge (xdp_timeout quiet ip port) (xdp_congested ip port) frames ?tmo ?n 0 ?sh = Some (r, sh')"
      "limiter_ok sh'"
    and r: "r = (case ?rep of None \<Rightarrow> xdp_timeout quiet ip port d | Some (i, XdpReply resp l) \<Rightarrow> judge resp l | Some _ \<Rightarrow> xdp_congested ip port)"
    and sent: "sh_sent sh' = sh_sent sh @ concat (replicate (transmissions ?n ?rep) (map FrameTx frames))"
    by auto
  have "res_key r = (ip, port) \<and> res_State r = xdp_verdict quiet ?rep"
  proof (cases ?rep)
    case None
    then show ?thesis unfolding r by (simp add: xdp_timeout_def xdp_verdict_def res_key_def)
  next
    case (Some ie)
    obtain i e where ie: "ie = (i, e)" by (cases ie)
    then show ?thesis unfolding r Some using assms(4)
      by (cases e) (simp_all add: xdp_verdict_def xdp_congested_def res_key_def)
  qed
  then show ?thesis using run sent fr assms(2) by (auto simp: xdp_scan_def)
qed

lemma xdp_judges:
  "res_key (xdp_syn_result ip port resp d) = (ip, port) \<and> res_State (xdp_syn_result ip port resp d) = xr_state resp"
  "res_key (xdp_udp_result ip port resp d) = (ip, port) \<and> res_State (xdp_udp_result ip port resp d) = xr_state resp"
  by (simp_all add: xdp_syn_result_def xdp_udp_result_def res_key_def Let_def)

lemma ScanXDPPort_outcome:
  assumes "limiter_ok sh" and "w_xsk w"
  shows "\<exists>r sh' frames. ScanXDPPort w ip port opts timeout spoofed sh = Some (r, sh')
    \<and> probe_frames w opts (syn_frame w ip port opts spoofed) = Some frames \<and> res_key r = (ip, port) \<and> limiter_ok sh'
    \<and> res_State r = xdp_verdict StateFiltered (first_xdp (\<lambda>i. w_xdp w (sh_clock sh + i) (probeTimeout (sh_rtt sh) timeout))
         (nat (probeAttempts (Some opts))))
    \<and> sh_sent sh' = sh_sent sh @ concat (replicate (transmissions (nat (probeAttempts (Some opts)))
         (first_xdp (\<lambda>i. w_xdp w (sh_clock sh + i) (probeTimeout (sh_rtt sh) timeout)) (nat (probeAttempts (Some opts)))))
         (map FrameTx frames))"
  unfolding ScanXDPPort_def by (rule xdp_scan_outcome [OF assms frame_lengths(1)]) (rule xdp_judges)

lemma ScanXDPUDPPort_outcome:
  assumes "limiter_ok sh" and "w_xsk w"
  shows "\<exists>r sh' frames. ScanXDPUDPPort w ip port opts timeout spoofed sh = Some (r, sh')
    \<and> probe_frames w opts (udp_frame w ip port opts spoofed) = Some frames \<and> res_key r = (ip, port) \<and> limiter_ok sh'
    \<and> res_State r = xdp_verdict StateOpenFiltered (first_xdp (\<lambda>i. w_xdp w (sh_clock sh + i) (probeTimeout (sh_rtt sh) timeout))
         (nat (probeAttempts (Some opts))))
    \<and> sh_sent sh' = sh_sent sh @ concat (replicate (transmissions (nat (probeAttempts (Some opts)))
         (first_xdp (\<lambda>i. w_xdp w (sh_clock sh + i) (probeTimeout (sh_rtt sh) timeout)) (nat (probeAttempts (Some opts)))))
         (map FrameTx frames))"
  unfolding ScanXDPUDPPort_def by (rule xdp_scan_outcome [OF assms frame_lengths(2)]) (rule xdp_judges)

text \<open>On the AF_XDP path a SYN scan returns the state the receive loop delivered at the
  first attempt that is not silent and FILTERED without one; a full transmit queue ends
  the scan as FILTERED at once, without another attempt.  Every attempt hands over the
  same frames, and with fragmentation on a receiver puts them together to the probe's
  TCP segment.\<close>

theorem xdp_syn_scan_verdict:
  fixes w :: world and sh :: shared and opts :: Options and timeout :: duration
  defines "rep \<equiv> first_xdp (\<lambda>i. w_xdp w (sh_clock sh + i) (probeTimeout (sh_rtt sh) timeout)) (nat (probeAttempts (Some opts)))"
  assumes "w_xsk w" and "limiter_ok sh" and "Fragment opts"
  shows "\<exists>r sh' frames. ScanXDPPort w ip port opts timeout spoofed sh = Some (r, sh') \<and> res_key r = (ip, port)
    \<and> res_State r = xdp_verdict StateFiltered rep
    \<and> sh_sent sh' = sh_sent sh @ concat (replicate (transmissions (nat (probeAttempts (Some opts))) rep) (map FrameTx frames))
    \<and> reassemble 0 frames = Some (drop 34 (syn_frame w ip port opts spoofed))"
proof -
  let ?raw = "syn_frame w ip port opts spoofed"
  have len: "34 < length ?raw" "length ?raw \<le> 65549"
    by (auto simp: syn_frame_def constructSYNFrame_def ethernet_def xdp_ip_header_def ip4_fields_def tcp_segment_def
        tcp_fields_def syn_options_def writeSYNOptions_def writeSYNOptionsMPTCP_def synOptions_def mpCapableOption_def
        put16_def put32_def Let_def split: prod.split)
  from FragmentPacket_reassembles [OF len, of 8] obtain frames
    where "FragmentPacket ?raw 8 = Some frames" "reassemble 0 frames = Some (drop 34 ?raw)" by auto
  moreover from this have "probe_frames w opts ?raw = Some frames" using assms(4) by (simp add: probe_frames_def)
  ultimately show ?thesis
    using ScanXDPPort_outcome [OF assms(3,2), of ip port opts timeout spoofed] by (auto simp: rep_def)
qed


theorem xdp_syn_scan_verdict_witness:
  "\<exists>r sh' frames. ScanXDPPort (silent_world\<lparr>w_xsk := True, w_xdp := (\<lambda>i _. if i = 1 then TxFull else XdpSilent 9)\<rparr>)
       ''10.0.0.2'' 443 (default_options\<lparr>Fragment := True\<rparr>) 1000 None idle_shared = Some (r, sh')
     \<and> res_State r = StateFiltered \<and> sh_sent sh' = map FrameTx frames"
proof -
  let ?w = "silent_world\<lparr>w_xsk := True, w_xdp := (\<lambda>i _. if i = 1 then TxFull else XdpSilent 9)\<rparr>"
  let ?o = "default_options\<lparr>Fragment := True\<rparr>"
  have n: "nat (probeAttempts (Some ?o)) = 3" by (simp add: probeAttempts_def default_options_def zero_options_def)
  have "w_xsk ?w" "Fragment ?o" by simp_all
  from xdp_syn_scan_verdict [OF this(1) limiter_ok_idle this(2), of "''10.0.0.2''" 443 1000 None]
  show ?thesis unfolding n
    by (auto simp: idle_shared_def numeral_3_eq_3 transmissions_def xdp_verdict_def)
qed

subsection \<open>The queue loses nothing it accepted\<close>

datatype txq_event = Hand "bytes list" | FlushTurn nat

fun txq_step :: "txq_event \<Rightarrow> tx_queue \<Rightarrow> tx_queue" where
  "txq_step (Hand fs) q = snd (transmitXDPFrames fs q)"
| "txq_step (FlushTurn descs) q = flusher_turn descs q"

text \<open>The frames a history of events got into the queue, in order.\<close>

fun txq_accepted :: "txq_event list \<Rightarrow> tx_queue \<Rightarrow> bytes list" where
  "txq_accepted [] q = []"
| "txq_accepted (e # es) q =
     (case e of Hand fs \<Rightarrow> take (txq_cap q - length (txq_queue q)) fs | FlushTurn d \<Rightarrow> [])
     @ txq_accepted es (txq_step e q)"

lemma transmit_effect:
  assumes "length (txq_queue q) \<le> txq_cap q"
  shows "transmitXDPFrames fs q = (length (txq_queue q) + length fs \<le> txq_cap q,
      q\<lparr>txq_queue := txq_queue q @ take (txq_cap q - length (txq_queue q)) fs\<rparr>)"
  using assms
proof (induction fs arbitrary: q)
  case (Cons f fs)
  show ?case
  proof (cases "length (txq_queue q) < txq_cap q")
    case True
    then have "txq_cap q - length (txq_queue q) = Suc (txq_cap q - Suc (length (txq_queue q)))" by simp
    then show ?thesis using True Cons.IH [of "q\<lparr>txq_queue := txq_queue q @ [f]\<rparr>"] by simp
  qed (use Cons.prems in simp)
qed simp

text \<open>Under any sequence of hand-overs and flusher turns that always find a slot for every
  frame of a batch, the frames the ring took followed by those still queued are exactly
  the frames the queue accepted, in the order they were handed over, none is dropped
  afterwards, and the queue stays within its capacity.\<close>

theorem tx_queue_is_fifo:
  assumes "length (txq_queue q) \<le> txq_cap q"
    and "list_all (\<lambda>e. case e of FlushTurn descs \<Rightarrow> txBatchSize \<le> descs | Hand fs \<Rightarrow> True) es"
  shows "let q' = fold txq_step es q in
    txq_sent q' @ txq_queue q' = txq_sent q @ txq_queue q @ txq_accepted es q
    \<and> txq_unsent q' = txq_unsent q \<and> length (txq_queue q') \<le> txq_cap q'"
  using assms
proof (induction es arbitrary: q)
  case (Cons e es)
  let ?q = "txq_step e q"
  have step: "length (txq_queue ?q) \<le> txq_cap ?q \<and> txq_unsent ?q = txq_unsent q
      \<and> txq_sent ?q @ txq_queue ?q = txq_sent q @ txq_queue q
          @ (case e of Hand fs \<Rightarrow> take (txq_cap q - length (txq_queue q)) fs | FlushTurn d \<Rightarrow> [])"
  proof (cases e)
    case (Hand fs)
    then show ?thesis using transmit_effect [OF Cons.prems(1), of fs] Cons.prems(1) by auto
  next
    case (FlushTurn descs)
    then have "txBatchSize \<le> descs" using Cons.prems(2) by simp
    then have "take descs (take txBatchSize xs) = take txBatchSize xs" "drop descs (take txBatchSize xs) = []" for xs :: "bytes list"
      by simp_all
    then show ?thesis using FlushTurn Cons.prems(1)
      by (auto simp: flusher_turn_def xdpFlushBatch_def)
  qed
  then show ?case using Cons.IH [of ?q] Cons.prems(2) by (simp add: Let_def)
qed (simp add: Let_def)

theorem tx_queue_is_fifo_witness:
  "let q' = fold txq_step [Hand [[1], [2], [3]], FlushTurn 64, Hand [[4]]] \<lparr>txq_cap = 2, txq_queue = [], txq_sent = [], txq_unsent = []\<rparr>
   in txq_sent q' @ txq_queue q' = [[1], [2], [4]]"
  using tx_queue_is_fifo [of "\<lparr>txq_cap = 2, txq_queue = [], txq_sent = [], txq_unsent = []\<rparr>"
      "[Hand [[1], [2], [3]], FlushTurn 64, Hand [[4]]]"]
  by (simp add: Let_def txBatchSize_def flusher_turn_def xdpFlushBatch_def numeral_2_eq_2)

end
