(* ===== verification/Dispatch.thy ===== *)
theory Dispatch
  imports IdleScan SocketProbes XdpProbes
begin

text \<open>
  The choice of scan in \<open>internal/scan/engine.go\<close>: \<open>runScanWithOptions\<close> picks the leaf
  scan, \<open>dispatchScan\<close> adds the bypass sequence to a filtered verdict.  Every leaf scan
  is an instance of \<open>leaf_scan\<close>, and so is what is composed from them.
\<close>

subsection \<open>Which packets a job costs\<close>

definition usesRawTxPath :: "bool \<Rightarrow> Options \<Rightarrow> bool" where
  "usesRawTxPath xsk opts \<longleftrightarrow> xsk \<or> SynScan opts \<or> AckScan opts \<or> WindowScan opts
     \<or> NullScan opts \<or> FinScan opts \<or> XmasScan opts \<or> UdpScan opts"

definition decoyCount :: "Options \<Rightarrow> int" where
  "decoyCount opts = int (length (decoys_of opts))"

definition perJobPackets :: "bool \<Rightarrow> Options \<Rightarrow> int" where
  "perJobPackets xsk opts = (if usesRawTxPath xsk opts then decoyCount opts else 1)"

subsection \<open>The leaf scan of a job\<close>

definition is_loopback :: "ip \<Rightarrow> bool" where
  "is_loopback a =
     (case to4 a of
        Some b \<Rightarrow> b ! 0 = 127
      | None \<Rightarrow> a = replicate 15 0 @ [1])"

definition xdpEligible :: "string \<Rightarrow> Options \<Rightarrow> bool" where
  "xdpEligible ip opts =
     (if ConnectScan opts then False
      else (case parse_ip ip of Some a \<Rightarrow> \<not> is_loopback a | None \<Rightarrow> True))"

definition isOtherRawScan :: "Options \<Rightarrow> bool" where
  "isOtherRawScan opts \<longleftrightarrow> AckScan opts \<or> WindowScan opts \<or> NullScan opts \<or> FinScan opts \<or> XmasScan opts"

definition runScanWithOptions ::
  "world \<Rightarrow> duration \<Rightarrow> string \<Rightarrow> int \<Rightarrow> Options \<Rightarrow> shared \<Rightarrow> (TargetResult \<times> shared) option" where
  "runScanWithOptions w timeout ip port opts sh =
     (let spoofed = SpoofedSrcIP opts; relayIP = parse_ip (RelayServer opts) in
      if w_xsk w \<and> xdpEligible ip opts \<and> UdpScan opts then ScanXDPUDPPort w ip port opts timeout spoofed sh
      else if w_xsk w \<and> xdpEligible ip opts \<and> (SynScan opts \<or> \<not> isOtherRawScan opts)
      then ScanXDPPort w ip port opts timeout spoofed sh
      else if ZombieHost opts \<noteq> [] then ScanIdlePort w ip port (ZombieHost opts) opts timeout spoofed relayIP sh
      else if AckScan opts then ScanAckPort w ip port opts timeout spoofed sh
      else if WindowScan opts then ScanWindowPort w ip port opts timeout spoofed sh
      else if UdpScan opts then ScanUDPPort w ip port opts timeout spoofed relayIP sh
      else if SynScan opts then ScanSYNPort w ip port opts timeout spoofed sh
      else if NullScan opts then ScanStealthPort w ScanNull ip port opts timeout spoofed sh
      else if FinScan opts then ScanStealthPort w ScanFin ip port opts timeout spoofed sh
      else if XmasScan opts then ScanStealthPort w ScanXmas ip port opts timeout spoofed sh
      else Some (ScanConnectPooled w ip port opts relayIP sh))"

definition is_filtered :: "TargetResult \<Rightarrow> bool" where
  "is_filtered res \<longleftrightarrow> res_State res = StateFiltered \<or> res_State res = StateOpenFiltered"

subsection \<open>The bypass sequence\<close>

text \<open>The three source ports are tried in turn; \<open>Inr\<close> is the state to go on with.\<close>

fun try_source_ports ::
  "world \<Rightarrow> duration \<Rightarrow> string \<Rightarrow> int \<Rightarrow> Options \<Rightarrow> int list \<Rightarrow> shared \<Rightarrow> (TargetResult \<times> shared + shared) option" where
  "try_source_ports w timeout ip port opts [] sh = Some (Inr sh)"
| "try_source_ports w timeout ip port opts (p # ps) sh =
     Option.bind (runScanWithOptions w timeout ip port (opts\<lparr>SourcePort := p\<rparr>) sh) (\<lambda>(res, sh1).
       if \<not> is_filtered res
       then Some (Inl (res\<lparr>res_Reason := ''Bypass: Source port '' @ itoa p @ '' scan succeeded''\<rparr>, sh1))
       else try_source_ports w timeout ip port opts ps sh1)"

definition bypass_window :: "world \<Rightarrow> duration \<Rightarrow> string \<Rightarrow> int \<Rightarrow> TargetResult \<Rightarrow> Options \<Rightarrow> shared \<Rightarrow> (TargetResult \<times> shared) option" where
  "bypass_window w timeout ip port originalRes opts sh =
     (let failed = originalRes\<lparr>res_Reason := res_Reason originalRes @ '' (Bypass failed)''\<rparr> in
      if UdpScan opts then Some (failed, sh)
      else
        map_option (\<lambda>(winRes, sh1).
            (if res_State winRes = StateOpen then winRes\<lparr>res_Reason := ''Bypass: Window scan detected open port''\<rparr>
             else if res_State winRes = StateClosed then winRes\<lparr>res_Reason := ''Bypass: Window scan detected closed port''\<rparr>
             else failed, sh1))
          (ScanWindowPort w ip port opts timeout (SpoofedSrcIP opts) sh))"

definition bypass_retries :: "world \<Rightarrow> duration \<Rightarrow> string \<Rightarrow> int \<Rightarrow> TargetResult \<Rightarrow> Options \<Rightarrow> shared \<Rightarrow> (TargetResult \<times> shared) option" where
  "bypass_retries w timeout ip port originalRes opts sh =
     Option.bind (runScanWithOptions w timeout ip port (opts\<lparr>Fragment := True\<rparr>) sh) (\<lambda>(fragRes, sh1).
       if \<not> is_filtered fragRes then Some (fragRes\<lparr>res_Reason := ''Bypass: Fragmented scan succeeded''\<rparr>, sh1)
       else Option.bind (try_source_ports w timeout ip port opts [53, 80, 443] sh1) (\<lambda>r.
         case r of
           Inl done \<Rightarrow> Some done
         | Inr sh2 \<Rightarrow> bypass_window w timeout ip port originalRes opts sh2))"

definition runBypassSequence :: "world \<Rightarrow> duration \<Rightarrow> string \<Rightarrow> int \<Rightarrow> TargetResult \<Rightarrow> Options \<Rightarrow> shared \<Rightarrow> (TargetResult \<times> shared) option" where
  "runBypassSequence w timeout ip port originalRes opts sh =
     (if \<not> UdpScan opts then
        Option.bind (ScanAckPort w ip port opts timeout (SpoofedSrcIP opts) sh) (\<lambda>(ackRes, sh1).
          if res_State ackRes = StateUnfiltered then
            map_option (\<lambda>(finRes, sh2).
                (if res_State finRes = StateClosed
                 then finRes\<lparr>res_Reason := ''Bypass: ACK->unfiltered, FIN->closed''\<rparr>
                 else (new_result ip port)\<lparr>res_State := StateOpen,
                        res_Reason := ''Bypass: ACK->unfiltered, FIN->filtered (implies OPEN)''\<rparr>, sh2))
              (ScanStealthPort w ScanFin ip port opts timeout (SpoofedSrcIP opts) sh1)
          else bypass_retries w timeout ip port originalRes opts sh1)
      else bypass_retries w timeout ip port originalRes opts sh)"

definition dispatchScan :: "world \<Rightarrow> duration \<Rightarrow> Options \<Rightarrow> string \<Rightarrow> int \<Rightarrow> shared \<Rightarrow> (TargetResult \<times> shared) option" where
  "dispatchScan w timeout opts ip port sh =
     Option.bind (runScanWithOptions w timeout ip port opts sh) (\<lambda>(res, sh1).
       if is_filtered res \<and> SmartBypass opts then runBypassSequence w timeout ip port res opts sh1
       else Some (res, sh1))"


subsection \<open>Every dispatch returns for its own target\<close>

text \<open>What the receive loop delivers is one of the two states of \<open>handleXDPFrame\<close>
  (\<open>handleXDPFrame_states\<close>).\<close>

definition world_ok :: "world \<Rightarrow> bool" where
  "world_ok w \<longleftrightarrow> (\<forall>i t resp d. w_xdp w i t = XdpReply resp d \<longrightarrow> xr_state resp \<in> {StateOpen, StateClosed})"

lemma first_xdp_from: "first_xdp f n = Some (i, e) \<Longrightarrow> \<exists>j. e = f j"
proof (induction f n arbitrary: i rule: first_xdp.induct)
  case (2 f n)
  then show ?case by (cases "f 0") (auto intro: exI [of _ 0])
qed simp

lemma xdp_verdict_states:
  assumes "world_ok w" and "quiet \<in> scan_states"
  shows "xdp_verdict quiet (first_xdp (\<lambda>i. w_xdp w (c + i) tmo) n) \<in> scan_states"
proof (cases "first_xdp (\<lambda>i. w_xdp w (c + i) tmo) n")
  case None
  then show ?thesis using assms(2) by (simp add: xdp_verdict_def)
next
  case (Some ie)
  obtain i e where ie: "ie = (i, e)" by (cases ie)
  obtain j where "w_xdp w (c + j) tmo = e" using first_xdp_from Some ie by metis
  then have "xr_state resp \<in> {StateOpen, StateClosed}" if "e = XdpReply resp d" for resp d
    using assms(1) that by (auto simp: world_ok_def)
  then show ?thesis using Some ie by (cases e) (auto simp: xdp_verdict_def scan_states_def)
qed

text \<open>The result of a scan that returns: its target, a state, and a pacer that still works.\<close>

definition good_return :: "string \<Rightarrow> int \<Rightarrow> (TargetResult \<times> shared) option \<Rightarrow> bool" where
  "good_return ip port x \<longleftrightarrow>
     (\<exists>r sh'. x = Some (r, sh') \<and> res_key r = (ip, port) \<and> res_State r \<in> scan_states \<and> limiter_ok sh')"

lemma leaf_scan_good: "leaf_scan scan scan_states \<longleftrightarrow> (\<forall>ip port sh. limiter_ok sh \<longrightarrow> good_return ip port (scan ip port sh))"
  by (auto simp: leaf_scan_def good_return_def)

lemma good_Some: "good_return ip port (Some (r, sh')) \<longleftrightarrow> res_key r = (ip, port) \<and> res_State r \<in> scan_states \<and> limiter_ok sh'"
  by (simp add: good_return_def)

lemma raw_good: "limiter_ok sh \<Longrightarrow> good_return ip port (raw_scan_of k w ip port opts timeout spoofed sh)"
  using raw_leaf.scan_returns by (auto simp: good_return_def)

lemmas named_raw_good =
  raw_good [of _ _ _ KSyn, simplified] raw_good [of _ _ _ KAck, simplified] raw_good [of _ _ _ KWindow, simplified]
  raw_good [of _ _ _ "KStealth t" for t, simplified]

lemma connect_good: "limiter_ok sh \<Longrightarrow> good_return ip port (Some (ScanConnectPooled w ip port opts relay sh))"
  using connect_scan_returns [of sh w ip port opts relay]
  by (cases "ScanConnectPooled w ip port opts relay sh") (auto simp: good_return_def scan_states_def)

lemma idle_good: "limiter_ok sh \<Longrightarrow> good_return ip port (ScanIdlePort w ip port zombie opts timeout spoofed relay sh)"
  using idle_scan_returns [of sh w ip port zombie opts timeout spoofed relay] by (auto simp: good_return_def scan_states_def)

lemma udp_good: "limiter_ok sh \<Longrightarrow> good_return ip port (ScanUDPPort w ip port opts timeout spoofed relay sh)"
  using udp_scan_returns [of sh w ip port opts timeout spoofed relay] by (auto simp: good_return_def scan_states_def)

lemma xdp_good:
  assumes "limiter_ok sh" and "w_xsk w" and "world_ok w"
  shows "good_return ip port (ScanXDPPort w ip port opts timeout spoofed sh)"
    and "good_return ip port (ScanXDPUDPPort w ip port opts timeout spoofed sh)"
  using ScanXDPPort_outcome [OF assms(1,2)] ScanXDPUDPPort_outcome [OF assms(1,2)] xdp_verdict_states [OF assms(3)]
  by (auto simp: good_return_def scan_states_def) (metis scan_states_def insertCI xdp_verdict_states assms(3))+

lemma runScan_good:
  assumes "world_ok w" and "limiter_ok sh"
  shows "good_return ip port (runScanWithOptions w timeout ip port opts sh)"
  using assms by (auto simp: runScanWithOptions_def Let_def xdp_good named_raw_good connect_good idle_good udp_good)

lemma good_bind:
  assumes "good_return ip port x"
    and "\<And>r sh'. x = Some (r, sh') \<Longrightarrow> res_key r = (ip, port) \<Longrightarrow> res_State r \<in> scan_states \<Longrightarrow> limiter_ok sh' \<Longrightarrow> good_return ip port (f (r, sh'))"
  shows "good_return ip port (Option.bind x f)"
  using assms by (auto simp: good_return_def)


lemma good_map:
  assumes "good_return ip port x"
    and "\<And>r sh'. res_key r = (ip, port) \<Longrightarrow> res_State r \<in> scan_states \<Longrightarrow> limiter_ok sh' \<Longrightarrow>
       res_key (f r) = (ip, port) \<and> res_State (f r) \<in> scan_states"
  shows "good_return ip port (map_option (\<lambda>(r, sh'). (f r, sh')) x)"
  using assms by (auto simp: good_return_def)

lemma res_key_reason [simp]: "res_key (r\<lparr>res_Reason := t\<rparr>) = res_key r"
  by (simp add: res_key_def)

lemma states_in [simp]: "StateOpen \<in> scan_states" "StateFiltered \<in> scan_states"
  by (simp_all add: scan_states_def)

definition good_try :: "string \<Rightarrow> int \<Rightarrow> (TargetResult \<times> shared + shared) option \<Rightarrow> bool" where
  "good_try ip port x \<longleftrightarrow>
     (\<exists>y. x = Some y \<and> (case y of Inl rs \<Rightarrow> good_return ip port (Some rs) | Inr sh' \<Rightarrow> limiter_ok sh'))"

lemma try_source_ports_good:
  "world_ok w \<Longrightarrow> limiter_ok sh \<Longrightarrow> good_try ip port (try_source_ports w timeout ip port opts ps sh)"
proof (induction ps arbitrary: sh)
  case (Cons p ps)
  have "good_return ip port (runScanWithOptions w timeout ip port (opts\<lparr>SourcePort := p\<rparr>) sh)"
    by (rule runScan_good [OF Cons.prems])
  then obtain r sh1 where "runScanWithOptions w timeout ip port (opts\<lparr>SourcePort := p\<rparr>) sh = Some (r, sh1)"
      "res_key r = (ip, port)" "res_State r \<in> scan_states" "limiter_ok sh1"
    by (auto simp: good_return_def)
  then show ?case using Cons.IH [OF Cons.prems(1), of sh1] by (simp add: good_try_def good_Some)
qed (simp add: good_try_def)

lemma bypass_good:
  assumes "world_ok w" and "limiter_ok sh" and "res_key r0 = (ip, port)" and "res_State r0 \<in> scan_states"
  shows "good_return ip port (runBypassSequence w timeout ip port r0 opts sh)"
proof -
  have window: "good_return ip port (bypass_window w timeout ip port r0 opts sh')" if "limiter_ok sh'" for sh'
    using named_raw_good(3) [OF that] that assms(3,4)
    by (auto simp: bypass_window_def Let_def good_Some intro!: good_map)
  have retries: "good_return ip port (bypass_retries w timeout ip port r0 opts sh')" if "limiter_ok sh'" for sh'
    unfolding bypass_retries_def
  proof (rule good_bind [OF runScan_good [OF assms(1) that]])
    fix r sh1 assume r: "res_key r = (ip, port)" "res_State r \<in> scan_states" "limiter_ok sh1"
    obtain y where "try_source_ports w timeout ip port opts [53, 80, 443] sh1 = Some y"
        "case y of Inl rs \<Rightarrow> good_return ip port (Some rs) | Inr sh' \<Rightarrow> limiter_ok sh'"
      using try_source_ports_good [OF assms(1) r(3), where timeout = timeout and ip = ip and port = port
          and opts = opts and ps = "[53, 80, 443]"] unfolding good_try_def by blast
    then show "good_return ip port
        (case (r, sh1) of (fragRes, sh1) \<Rightarrow>
          if \<not> is_filtered fragRes then Some (fragRes\<lparr>res_Reason := ''Bypass: Fragmented scan succeeded''\<rparr>, sh1)
          else Option.bind (try_source_ports w timeout ip port opts [53, 80, 443] sh1)
                 (\<lambda>r. case r of Inl done \<Rightarrow> Some done | Inr sh2 \<Rightarrow> bypass_window w timeout ip port r0 opts sh2))"
      using r window by (cases y) (simp_all add: good_Some)
  qed
  show ?thesis
  proof (cases "UdpScan opts")
    case True
    then show ?thesis using retries [OF assms(2)] by (simp add: runBypassSequence_def)
  next
    case False
    show ?thesis unfolding runBypassSequence_def using False
      by (auto simp: retries good_Some res_key_def intro!: good_bind [OF named_raw_good(2) [OF assms(2)]]
          good_map [OF named_raw_good(4)])
  qed
qed

lemma dispatch_good:
  assumes "world_ok w" and "limiter_ok sh"
  shows "good_return ip port (dispatchScan w timeout opts ip port sh)"
  unfolding dispatchScan_def
  by (rule good_bind [OF runScan_good [OF assms]]) (auto simp: good_Some bypass_good [OF assms(1)])

lemma dispatch_leaf: "world_ok w \<Longrightarrow> leaf_scan (dispatchScan w timeout opts) scan_states"
  using dispatch_good by (simp add: leaf_scan_good)

subsection \<open>What the bypass can change\<close>

lemma is_filtered_reason [simp]: "is_filtered (r\<lparr>res_Reason := t\<rparr>) = is_filtered r"
  by (simp add: is_filtered_def)

lemma not_filtered: "res_State r = StateOpen \<Longrightarrow> \<not> is_filtered r" "res_State r = StateClosed \<Longrightarrow> \<not> is_filtered r"
  by (simp_all add: is_filtered_def state_defs)

text \<open>C19: whatever the network does, the bypass sequence replaces a filtered verdict only by
  one that is not filtered; when every technique fails the original result is returned
  with its reason marked, and a verdict that is not filtered is never touched.\<close>

theorem bypass_only_improves:
  assumes "runScanWithOptions w timeout ip port opts sh = Some (r0, sh0)"
    and "dispatchScan w timeout opts ip port sh = Some (r, sh')"
  shows "if is_filtered r0 \<and> SmartBypass opts
    then \<not> is_filtered r \<or> r = r0\<lparr>res_Reason := res_Reason r0 @ '' (Bypass failed)''\<rparr> else r = r0"
proof -
  let ?failed = "r0\<lparr>res_Reason := res_Reason r0 @ '' (Bypass failed)''\<rparr>"
  let ?better = "\<lambda>x. \<not> is_filtered x \<or> x = ?failed"
  have window: "?better x" if "bypass_window w timeout ip port r0 opts s = Some (x, s')" for s x s'
    using that by (auto simp: bypass_window_def Let_def not_filtered split: if_splits)
  have ports: "\<not> is_filtered x" if "try_source_ports w timeout ip port opts ps s = Some (Inl (x, s'))" for ps s x s'
    using that by (induction ps arbitrary: s) (auto simp: bind_eq_Some_conv split: if_splits)
  have retries: "?better x" if run: "bypass_retries w timeout ip port r0 opts s = Some (x, s')" for s x s'
  proof -
    obtain f s1 where f: "runScanWithOptions w timeout ip port (opts\<lparr>Fragment := True\<rparr>) s = Some (f, s1)"
      using run by (auto simp: bypass_retries_def bind_eq_Some_conv)
    show ?thesis
    proof (cases "is_filtered f")
      case False
      then show ?thesis using run f by (auto simp: bypass_retries_def)
    next
      case True
      then obtain y where y: "try_source_ports w timeout ip port opts [53, 80, 443] s1 = Some y"
          "(case y of Inl done \<Rightarrow> Some done | Inr s2 \<Rightarrow> bypass_window w timeout ip port r0 opts s2) = Some (x, s')"
        using run f by (auto simp: bypass_retries_def bind_eq_Some_conv)
      show ?thesis
      proof (cases y)
        case (Inl fin)
        then have "fin = (x, s')" using y(2) by simp
        then show ?thesis using ports y(1) Inl by (simp del: try_source_ports.simps)
      next
        case (Inr s2)
        then show ?thesis using y(2) window by simp
      qed
    qed
  qed
  have "?better x" if run: "runBypassSequence w timeout ip port r0 opts s = Some (x, s')" for s x s'
  proof (cases "UdpScan opts")
    case True
    then show ?thesis using run retries by (simp add: runBypassSequence_def)
  next
    case False
    then obtain a s1 where a: "ScanAckPort w ip port opts timeout (SpoofedSrcIP opts) s = Some (a, s1)"
      using run by (auto simp: runBypassSequence_def bind_eq_Some_conv)
    show ?thesis
    proof (cases "res_State a = StateUnfiltered")
      case True
      then show ?thesis using run a False by (auto simp: runBypassSequence_def not_filtered)
    next
      case other: False
      then have "bypass_retries w timeout ip port r0 opts s1 = Some (x, s')"
        using run a False by (simp add: runBypassSequence_def)
      then show ?thesis by (rule retries)
    qed
  qed
  then show ?thesis using assms by (auto simp: dispatchScan_def)
qed

theorem bypass_only_improves_witness:
  "\<exists>r0 sh0 r sh'. runScanWithOptions silent_world 1000 ''10.0.0.2'' 443 (default_options\<lparr>SmartBypass := True\<rparr>) idle_shared = Some (r0, sh0)
     \<and> dispatchScan silent_world 1000 (default_options\<lparr>SmartBypass := True\<rparr>) ''10.0.0.2'' 443 idle_shared = Some (r, sh')
     \<and> (is_filtered r0 = False \<longrightarrow> r = r0)"
proof -
  have w: "world_ok silent_world" by (simp add: world_ok_def silent_world_def)
  obtain r0 sh0 where 0: "runScanWithOptions silent_world 1000 ''10.0.0.2'' 443 (default_options\<lparr>SmartBypass := True\<rparr>) idle_shared = Some (r0, sh0)"
    using runScan_good [OF w limiter_ok_idle] unfolding good_return_def by metis
  obtain r sh' where 1: "dispatchScan silent_world 1000 (default_options\<lparr>SmartBypass := True\<rparr>) ''10.0.0.2'' 443 idle_shared = Some (r, sh')"
    using dispatch_good [OF w limiter_ok_idle] unfolding good_return_def by metis
  show ?thesis using bypass_only_improves [OF 0 1] 0 1 by auto
qed


text \<open>Outside AF_XDP no scan looks at the fragmentation option.\<close>

lemma options_fragment [simp]:
  "newRawTCPScanner sys ip port (opts\<lparr>Fragment := b\<rparr>) src = newRawTCPScanner sys ip port opts src"
  "decoys_of (opts\<lparr>Fragment := b\<rparr>) = decoys_of opts"
  "probeAttempts (Some (opts\<lparr>Fragment := b\<rparr>)) = probeAttempts (Some opts)"
  "syn_judge (opts\<lparr>Fragment := b\<rparr>) = syn_judge opts"
  "uses_evasion (opts\<lparr>Fragment := b\<rparr>) = uses_evasion opts"
  "evasion_config (opts\<lparr>Fragment := b\<rparr>) = evasion_config opts"
  "scan_payload (opts\<lparr>Fragment := b\<rparr>) = scan_payload opts"
  "udp_probes_for (opts\<lparr>Fragment := b\<rparr>) port = udp_probes_for opts port"
  by (simp_all add: newRawTCPScanner_def decoys_of_def probeAttempts_def syn_judge_def uses_evasion_def
      evasion_config_def scan_payload_def udp_probes_for_def fun_eq_iff Let_def split: option.split sum.split)

text \<open>Without the AF_XDP engine the bypass sequence's fragmented scan is the same scan
  again, packet for packet: the fragmentation option has no effect on any scan that
  goes through a raw or a kernel socket, so a success it reports is a retry's.\<close>

theorem fragmented_bypass_is_a_retry:
  assumes "\<not> w_xsk w"
  shows "runScanWithOptions w timeout ip port (opts\<lparr>Fragment := True\<rparr>) = runScanWithOptions w timeout ip port opts"
proof (rule ext)
  fix sh
  let ?o = "opts\<lparr>Fragment := True\<rparr>"
  have raw: "raw_scan w j q y f ip port ?o t s = raw_scan w j q y f ip port opts t s" for j q y f t s
    by (simp add: raw_scan_def decoy_packets_def fun_eq_iff Let_def split: sum.split)
  have zombie: "getZombieIPID w z zp ?o t s sh = getZombieIPID w z zp opts t s sh" for z zp t s sh
    by (simp add: getZombieIPID_def split: sum.split)
  have syn: "sendSpoofedSYN w ip port z ?o t sh = sendSpoofedSYN w ip port z opts t sh" for z t sh
    by (simp add: sendSpoofedSYN_def split: option.split)
  have "ScanIdlePort w ip port z ?o t s rl sh = ScanIdlePort w ip port z opts t s rl sh" for z t s rl
    unfolding ScanIdlePort_def zombie syn ..
  moreover have "ScanConnectPooled w ip port ?o rl sh = ScanConnectPooled w ip port opts rl sh" for rl
    unfolding ScanConnectPooled_def connect_dial_def options_fragment ..
  moreover have "ScanUDPPort w ip port ?o t s rl sh = ScanUDPPort w ip port opts t s rl sh" for t s rl
    unfolding ScanUDPPort_def options_fragment ..
  ultimately show "runScanWithOptions w timeout ip port ?o sh = runScanWithOptions w timeout ip port opts sh"
    using assms
    by (simp add: runScanWithOptions_def ScanSYNPort_def ScanAckPort_def ScanWindowPort_def ScanStealthPort_def raw Let_def)
qed

theorem fragmented_bypass_is_a_retry_witness:
  "runScanWithOptions silent_world 1000 ''10.0.0.2'' 443 (default_options\<lparr>Fragment := True\<rparr>)
     = runScanWithOptions silent_world 1000 ''10.0.0.2'' 443 default_options"
  by (rule fragmented_bypass_is_a_retry) (simp add: silent_world_def)

end
