(* ===== verification/Engine.thy ===== *)
theory Engine
  imports Dispatch Permute OTGuard Checkpoint
begin

text \<open>
  The engine of \<open>internal/scan/engine.go\<close>: \<open>NewEngine\<close>, the order in which jobs are
  dispatched, what a worker does with one job, and the pipeline of goroutines that
  \<open>ExecuteWithProgress\<close> starts.  The pipeline is a step relation over the dispatcher, the
  bounded job channel, the workers, the bounded result channel and the collector; a
  worker's handling of one job is one step, so two jobs interleave at the granularity
  of jobs.  The state the workers share is threaded through these steps.
\<close>

type_synonym job = "string \<times> int"

subsection \<open>The engine\<close>

record engine =
  eng_timeout :: duration
  eng_shared :: shared
  eng_guard :: "Guard option"

definition engine_timeout :: "Options \<Rightarrow> duration" where
  "engine_timeout opts =
     (if 0 \<le> Timing opts \<and> Timing opts \<le> 5
      then [15000000000, 5000000000, 3000000000, 1000000000, 500000000, 300000000] ! nat (Timing opts)
      else 3000000000)"

text \<open>\<open>rise\<close> is the comparison with the baseline, 1.15 times it, in floating point.\<close>

definition NewEngine :: "(int \<Rightarrow> int) \<Rightarrow> Options \<Rightarrow> int \<Rightarrow> engine" where
  "NewEngine rise opts now =
     \<lparr>eng_timeout = engine_timeout opts,
      eng_shared = \<lparr>sh_clock = 0, sh_rtt = Some NewRTTEstimator, sh_limiter = NewLimiterFromOptions (Some opts) now,
        sh_pool = Some (pool_New (if ConnPoolSize opts > 0 then ConnPoolSize opts else 64) 30000000000),
        sh_sent = [], sh_decoys = []\<rparr>,
      eng_guard = (if Profile opts = ''ot'' then Some (New rise 8 5) else None)\<rparr>"

subsection \<open>The order of the jobs\<close>

definition job_at :: "string list \<Rightarrow> int list \<Rightarrow> u64 \<Rightarrow> job" where
  "job_at targets ports idx =
     (let numPorts = (of_nat (length ports) :: u64)
      in (targets ! unat (idx div numPorts), ports ! unat (idx mod numPorts)))"

definition not_done :: "checkpoint option \<Rightarrow> job \<Rightarrow> bool" where
  "not_done cp j = (\<not> isDone cp (fst j) (snd j))"

definition scan_jobs ::
  "Options \<Rightarrow> checkpoint option \<Rightarrow> u64 \<times> u64 \<times> u64 \<Rightarrow> string list \<Rightarrow> int list \<Rightarrow> job list option" where
  "scan_jobs opts cp draws targets ports =
     (let total = (of_nat (length targets) :: u64) * of_nat (length ports);
          (rc, rk, rx) = draws
      in if NoRandomize opts \<or> ports = []
         then Some (filter (not_done cp) (List.product targets ports))
         else
           Option.bind (newJobPermutation total rc rk rx) (\<lambda>perm.
             map_option (\<lambda>is. filter (not_done cp) (map (job_at targets ports) is))
               (drain jobPermutation_next (Suc (unat total)) perm)))"

text \<open>The dispatcher sends a batch whenever it is full, and the rest at the end.\<close>

fun batched :: "nat \<Rightarrow> job list \<Rightarrow> job list \<Rightarrow> job list" where
  "batched limit batch [] = batch"
| "batched limit batch (j # js) =
     (let b = batch @ [j] in if length b \<ge> limit then b @ batched limit [] js else batched limit b js)"

definition batch_size :: "Options \<Rightarrow> nat" where
  "batch_size opts = (if BatchSize opts < 1 then 1000 else nat (BatchSize opts))"

subsection \<open>One job of a worker\<close>

definition breaker_result :: "job \<Rightarrow> TargetResult" where
  "breaker_result j = (new_result (fst j) (snd j))\<lparr>res_State := StateFiltered,
     res_Reason := ''OT circuit breaker: scan aborted (target health degraded)''\<rparr>"

definition internal_error :: "job \<Rightarrow> TargetResult" where
  "internal_error j = (new_result (fst j) (snd j))\<lparr>res_State := StateFiltered, res_Reason := ''internal error''\<rparr>"

definition reserve_packets :: "world \<Rightarrow> Options \<Rightarrow> engine \<Rightarrow> engine option" where
  "reserve_packets w opts e =
     (let sh = eng_shared e in
      case sh_limiter sh of
        None \<Rightarrow> Some e
      | Some rl \<Rightarrow>
          map_option (\<lambda>(rl', d). e\<lparr>eng_shared := sh\<lparr>sh_limiter := Some rl'\<rparr>\<rparr>)
            (WaitN (perJobPackets (w_xsk w) opts) (w_now w (sh_clock sh)) rl))"

definition guard_trips :: "engine \<Rightarrow> string \<Rightarrow> bool" where
  "guard_trips e ip = (case eng_guard e of None \<Rightarrow> False | Some g \<Rightarrow> Tripped g ip)"

text \<open>What the worker learns from a result: the estimator, the guard and the adaptive rate.\<close>

definition learn :: "Options \<Rightarrow> int \<Rightarrow> TargetResult \<Rightarrow> engine \<Rightarrow> engine" where
  "learn opts now res e =
     (let lost = is_filtered res;
          sh = eng_shared e;
          sh1 = (if \<not> lost \<and> res_Latency res > 0 then sampled (res_Latency res) sh else sh);
          sh2 = (if AdaptiveRate opts then sh1\<lparr>sh_limiter := map_option (Report lost) (sh_limiter sh1)\<rparr> else sh1)
      in e\<lparr>eng_shared := sh2, eng_guard := map_option (Observe (res_IP res, res_Latency res, lost, now)) (eng_guard e)\<rparr>)"

definition worker_job :: "world \<Rightarrow> Options \<Rightarrow> job \<Rightarrow> engine \<Rightarrow> (TargetResult \<times> engine) option" where
  "worker_job w opts j e =
     Option.bind (reserve_packets w opts e) (\<lambda>e1.
       if guard_trips e1 (fst j) then Some (breaker_result j, e1)
       else
         (let (res, sh) = (case dispatchScan w (eng_timeout e1) opts (fst j) (snd j) (eng_shared e1) of
                             Some (r, sh) \<Rightarrow> (r, sh)
                           | None \<Rightarrow> (internal_error j, eng_shared e1))
          in Some (res, learn opts (w_now w (sh_clock sh)) res (e1\<lparr>eng_shared := sh\<rparr>))))"


subsection \<open>The pipeline\<close>

record Progress =
  pg_Completed :: nat
  pg_Total :: nat
  pg_Open :: nat
  pg_Closed :: nat
  pg_Filtered :: nat

definition count_result :: "TargetResult \<Rightarrow> Progress \<Rightarrow> Progress" where
  "count_result res p =
     (let q = p\<lparr>pg_Completed := pg_Completed p + 1\<rparr> in
      if res_State res = StateOpen then q\<lparr>pg_Open := pg_Open q + 1\<rparr>
      else if res_State res = StateClosed then q\<lparr>pg_Closed := pg_Closed q + 1\<rparr>
      else if res_State res = StateFiltered \<or> res_State res = StateOpenFiltered then q\<lparr>pg_Filtered := pg_Filtered q + 1\<rparr>
      else q)"

record pipeline =
  pl_todo :: "job list"             \<comment> \<open>what the dispatcher has left to send\<close>
  pl_jobs :: "job list"             \<comment> \<open>the job channel\<close>
  pl_busy :: "job list"             \<comment> \<open>jobs workers are scanning\<close>
  pl_held :: "TargetResult list"    \<comment> \<open>results workers are blocked on sending\<close>
  pl_out :: "TargetResult list"     \<comment> \<open>the result channel\<close>
  pl_all :: "TargetResult list"     \<comment> \<open>\<open>allResults\<close>\<close>
  pl_checkpoint :: "checkpoint option"
  pl_progress :: Progress
  pl_engine :: engine

definition worker_count :: "Options \<Rightarrow> nat" where
  "worker_count opts = (if MaxWorkers opts < 1 then 1 else nat (MaxWorkers opts))"

definition queue_size :: "Options \<Rightarrow> nat" where
  "queue_size opts = worker_count opts * 2"

definition collect :: "(TargetResult \<Rightarrow> string option) \<Rightarrow> TargetResult \<Rightarrow> pipeline \<Rightarrow> pipeline" where
  "collect marshal res s =
     s\<lparr>pl_all := pl_all s @ [res], pl_checkpoint := record_opt marshal res (pl_checkpoint s),
       pl_progress := count_result res (pl_progress s)\<rparr>"

inductive pipe_step :: "world \<Rightarrow> Options \<Rightarrow> (TargetResult \<Rightarrow> string option) \<Rightarrow> pipeline \<Rightarrow> pipeline \<Rightarrow> bool"
  for w opts marshal where
  dispatch: "pl_todo s = j # js \<Longrightarrow> length (pl_jobs s) < queue_size opts \<Longrightarrow>
    pipe_step w opts marshal s (s\<lparr>pl_todo := js, pl_jobs := pl_jobs s @ [j]\<rparr>)"
| take: "pl_jobs s = j # js \<Longrightarrow> length (pl_busy s) + length (pl_held s) < worker_count opts \<Longrightarrow>
    pipe_step w opts marshal s (s\<lparr>pl_jobs := js, pl_busy := j # pl_busy s\<rparr>)"
| scan: "j \<in> set (pl_busy s) \<Longrightarrow> worker_job w opts j (pl_engine s) = Some (r, e) \<Longrightarrow>
    pipe_step w opts marshal s (s\<lparr>pl_busy := remove1 j (pl_busy s), pl_held := r # pl_held s, pl_engine := e\<rparr>)"
| send: "r \<in> set (pl_held s) \<Longrightarrow> length (pl_out s) < queue_size opts \<Longrightarrow>
    pipe_step w opts marshal s (s\<lparr>pl_held := remove1 r (pl_held s), pl_out := pl_out s @ [r]\<rparr>)"
| receive: "pl_out s = r # rs \<Longrightarrow> pipe_step w opts marshal s (collect marshal r (s\<lparr>pl_out := rs\<rparr>))"

inductive_cases pipe_stepE: "pipe_step w opts marshal s t"

definition start_pipeline :: "checkpoint option \<Rightarrow> nat \<Rightarrow> job list \<Rightarrow> engine \<Rightarrow> pipeline" where
  "start_pipeline cp tot jobs e =
     \<lparr>pl_todo = jobs, pl_jobs = [], pl_busy = [], pl_held = [], pl_out = [], pl_all = priorResults cp,
      pl_checkpoint = cp,
      pl_progress = \<lparr>pg_Completed = length (priorResults cp), pg_Total = tot, pg_Open = 0, pg_Closed = 0, pg_Filtered = 0\<rparr>,
      pl_engine = e\<rparr>"

definition pipeline_done :: "pipeline \<Rightarrow> bool" where
  "pipeline_done s \<longleftrightarrow> pl_todo s = [] \<and> pl_jobs s = [] \<and> pl_busy s = [] \<and> pl_held s = [] \<and> pl_out s = []"

subsection \<open>The report\<close>

definition result_less :: "TargetResult \<Rightarrow> TargetResult \<Rightarrow> bool" where
  "result_less a b = (if res_IP a \<noteq> res_IP b then res_IP a < res_IP b else res_Port a < res_Port b)"

definition final_results :: "Options \<Rightarrow> TargetResult list \<Rightarrow> TargetResult list" where
  "final_results opts rs =
     filter (\<lambda>r. \<not> (res_State r \<noteq> StateOpen \<and> OnlyOpen opts)) (sort_by result_less rs)"

subsection \<open>Order of the jobs\<close>

lemma batched_eq: "batched limit batch js = batch @ js"
  by (induction js arbitrary: batch) (simp_all add: Let_def)

lemma nth_product_upt: "map (\<lambda>i. (xs ! (i div length ys), ys ! (i mod length ys))) [0..<length xs * length ys] = List.product xs ys"
  by (rule nth_equalityI) (simp_all add: product_nth)

lemma job_at_index:
  assumes "unat idx < length targets * length ports" and "length targets * length ports \<le> 2 ^ 62"
  shows "job_at targets ports idx = (targets ! (unat idx div length ports), ports ! (unat idx mod length ports))"
proof -
  have "1 * length ports \<le> length targets * length ports"
    by (rule mult_right_mono) (use assms(1) in \<open>cases targets; simp\<close>)+
  then have "length ports \<le> 2 ^ 62" using assms(2) by linarith
  then have "length ports < 2 ^ 64" by simp
  then have "unat (of_nat (length ports) :: u64) = length ports" by (simp add: unsigned_of_nat take_bit_eq_mod)
  then show ?thesis by (simp add: job_at_def Let_def unat_div unat_mod)
qed

lemma scan_jobs_mset:
  assumes "length targets * length ports \<le> 2 ^ 62"
    and "\<not> NoRandomize opts \<Longrightarrow> jp_draws (of_nat (length targets * length ports)) (snd (snd draws))"
  shows "\<exists>js. scan_jobs opts cp draws targets ports = Some js
    \<and> mset js = mset (filter (not_done cp) (List.product targets ports))"
proof (cases "NoRandomize opts \<or> ports = []")
  case True
  then show ?thesis by (auto simp: scan_jobs_def Let_def split: prod.split)
next
  case False
  let ?N = "length targets * length ports"
  obtain rc rk rx where dr: "draws = (rc, rk, rx)" by (cases draws)
  have N: "unat (of_nat ?N :: u64) = ?N" using assms(1) by (simp add: unsigned_of_nat take_bit_eq_mod del: of_nat_mult)
  obtain p "is" where p: "newJobPermutation (of_nat ?N) rc rk rx = Some p"
      "drain jobPermutation_next (Suc ?N) p = Some is" "mset (map unat is) = mset [0..<?N]"
    using permutation_drained [of "of_nat ?N" rx rc rk] assms(2) False unfolding dr N by auto
  have lt: "unat x < ?N" if "x \<in> set is" for x
  proof -
    have "set (map unat is) = {0..<?N}" using p(3) by (metis set_mset_mset set_upt)
    then show ?thesis using that by auto
  qed
  have "map (job_at targets ports) is
      = map (\<lambda>i. (targets ! (i div length ports), ports ! (i mod length ports))) (map unat is)"
    using job_at_index [OF lt assms(1)] by simp
  then have "mset (map (job_at targets ports) is)
      = image_mset (\<lambda>i. (targets ! (i div length ports), ports ! (i mod length ports))) (mset (map unat is))"
    by (simp only: mset_map)
  also have "\<dots> = image_mset (\<lambda>i. (targets ! (i div length ports), ports ! (i mod length ports))) (mset [0..<?N])"
    by (simp only: p(3))
  also have "\<dots> = mset (List.product targets ports)"
    unfolding nth_product_upt [symmetric] by (simp only: mset_map)
  finally have "mset (filter (not_done cp) (map (job_at targets ports) is))
      = mset (filter (not_done cp) (List.product targets ports))"
    by (simp only: mset_filter)
  moreover have "scan_jobs opts cp draws targets ports = Some (filter (not_done cp) (map (job_at targets ports) is))"
    using False p(1,2) N by (simp add: scan_jobs_def dr del: drain.simps)
  ultimately show ?thesis by blast
qed


subsection \<open>A worker always produces the result of its job\<close>

lemma learn_keeps_limiter: "limiter_ok (eng_shared e) \<Longrightarrow> limiter_ok (eng_shared (learn opts now res e))"
  by (cases "sh_limiter (eng_shared e)") (simp_all add: learn_def limiter_ok_def sampled_def Report_inv Let_def)

lemma reserve_returns:
  assumes "limiter_ok (eng_shared e)"
  shows "\<exists>e1. reserve_packets w opts e = Some e1 \<and> limiter_ok (eng_shared e1) \<and> eng_guard e1 = eng_guard e
    \<and> eng_timeout e1 = eng_timeout e \<and> sh_sent (eng_shared e1) = sh_sent (eng_shared e)
    \<and> sh_decoys (eng_shared e1) = sh_decoys (eng_shared e)"
proof (cases "sh_limiter (eng_shared e)")
  case None
  then show ?thesis using assms by (simp add: reserve_packets_def)
next
  case (Some rl)
  then have "limiter_inv rl" using assms by (simp add: limiter_ok_def)
  from WaitN_returns [OF this, of "perJobPackets (w_xsk w) opts" "w_now w (sh_clock (eng_shared e))"] obtain rl' d
    where "WaitN (perJobPackets (w_xsk w) opts) (w_now w (sh_clock (eng_shared e))) rl = Some (rl', d)" "limiter_inv rl'"
    by blast
  then show ?thesis using Some by (simp add: reserve_packets_def limiter_ok_def)
qed

lemma worker_job_returns:
  assumes "world_ok w" and "limiter_ok (eng_shared e)"
  shows "\<exists>r e'. worker_job w opts j e = Some (r, e') \<and> res_key r = j \<and> limiter_ok (eng_shared e')"
proof -
  obtain e1 where e1: "reserve_packets w opts e = Some e1" "limiter_ok (eng_shared e1)"
    using reserve_returns [OF assms(2)] by blast
  show ?thesis
  proof (cases "guard_trips e1 (fst j)")
    case True
    then show ?thesis using e1 by (simp add: worker_job_def breaker_result_def res_key_def)
  next
    case False
    obtain r sh where "dispatchScan w (eng_timeout e1) opts (fst j) (snd j) (eng_shared e1) = Some (r, sh)"
        "res_key r = j" "limiter_ok sh"
      using leaf_scan.scan_returns [OF dispatch_leaf [OF assms(1), of "eng_timeout e1" opts] e1(2), of "fst j" "snd j"] by auto
    then show ?thesis using e1 False by (simp add: worker_job_def learn_keeps_limiter)
  qed
qed

subsection \<open>The invariant of the pipeline\<close>

definition in_pipeline :: "pipeline \<Rightarrow> job multiset" where
  "in_pipeline s = mset (pl_todo s) + mset (pl_jobs s) + mset (pl_busy s)
     + image_mset res_key (mset (pl_held s) + mset (pl_out s) + mset (pl_all s))"

definition pipe_inv :: "Options \<Rightarrow> (TargetResult \<Rightarrow> string option) \<Rightarrow> checkpoint option \<Rightarrow> job multiset \<Rightarrow> pipeline \<Rightarrow> bool" where
  "pipe_inv opts marshal cp jobs s \<longleftrightarrow>
     in_pipeline s = image_mset res_key (mset (priorResults cp)) + jobs
     \<and> limiter_ok (eng_shared (pl_engine s))
     \<and> length (pl_busy s) + length (pl_held s) \<le> worker_count opts
     \<and> (\<exists>new. pl_all s = priorResults cp @ new \<and> pl_checkpoint s = fold (record_opt marshal) new cp)
     \<and> pg_Completed (pl_progress s) = length (pl_all s)"

lemma count_result_Completed [simp]: "pg_Completed (count_result r p) = Suc (pg_Completed p)"
  by (simp add: count_result_def Let_def)

lemma pipe_inv_start:
  "limiter_ok (eng_shared e) \<Longrightarrow> pipe_inv opts marshal cp (mset jobs) (start_pipeline cp tot jobs e)"
  by (simp add: pipe_inv_def in_pipeline_def start_pipeline_def)

lemma length_remove1_Suc: "x \<in> set xs \<Longrightarrow> length xs = Suc (length (remove1 x xs))"
  by (induction xs) auto

lemma pipe_inv_step:
  assumes "pipe_step w opts marshal s t" and "world_ok w" and "pipe_inv opts marshal cp jobs s"
  shows "pipe_inv opts marshal cp jobs t"
  using assms(1)
proof (rule pipe_stepE)
  fix j js assume "t = s\<lparr>pl_todo := js, pl_jobs := pl_jobs s @ [j]\<rparr>" "pl_todo s = j # js"
  then show ?thesis using assms(3) by (simp add: pipe_inv_def in_pipeline_def)
next
  fix j js assume "t = s\<lparr>pl_jobs := js, pl_busy := j # pl_busy s\<rparr>" "pl_jobs s = j # js"
    "length (pl_busy s) + length (pl_held s) < worker_count opts"
  then show ?thesis using assms(3) by (simp add: pipe_inv_def in_pipeline_def)
next
  fix j r e assume t: "t = s\<lparr>pl_busy := remove1 j (pl_busy s), pl_held := r # pl_held s, pl_engine := e\<rparr>"
    and j: "j \<in> set (pl_busy s)" and run: "worker_job w opts j (pl_engine s) = Some (r, e)"
  have "res_key r = j" "limiter_ok (eng_shared e)"
    using worker_job_returns [OF assms(2), of "pl_engine s" opts j] run assms(3) by (auto simp: pipe_inv_def)
  moreover obtain M where "mset (pl_busy s) = add_mset j M" using j by (metis multi_member_split set_mset_mset)
  moreover note length_remove1_Suc [OF j]
  ultimately show ?thesis using assms(3) t by (simp add: pipe_inv_def in_pipeline_def)
next
  fix r assume t: "t = s\<lparr>pl_held := remove1 r (pl_held s), pl_out := pl_out s @ [r]\<rparr>" and r: "r \<in> set (pl_held s)"
  obtain M where "mset (pl_held s) = add_mset r M" using r by (metis multi_member_split set_mset_mset)
  moreover note length_remove1_Suc [OF r]
  ultimately show ?thesis using assms(3) t by (simp add: pipe_inv_def in_pipeline_def)
next
  fix r rs assume t: "t = collect marshal r (s\<lparr>pl_out := rs\<rparr>)" and out: "pl_out s = r # rs"
  obtain new where "pl_all s = priorResults cp @ new" "pl_checkpoint s = fold (record_opt marshal) new cp"
    using assms(3) by (auto simp: pipe_inv_def)
  then have "pl_all t = priorResults cp @ new @ [r]" "pl_checkpoint t = fold (record_opt marshal) (new @ [r]) cp"
    using t by (simp_all add: collect_def)
  moreover have "in_pipeline t = in_pipeline s" using t out by (simp add: in_pipeline_def collect_def)
  ultimately show ?thesis using assms(3) t by (auto simp: pipe_inv_def collect_def)
qed

lemma pipe_inv_reach:
  assumes "(pipe_step w opts marshal)\<^sup>*\<^sup>* (start_pipeline cp tot jobs e) s" and "world_ok w" and "limiter_ok (eng_shared e)"
  shows "pipe_inv opts marshal cp (mset jobs) s"
  using assms(1) by (induction rule: rtranclp_induct) (use assms pipe_inv_start pipe_inv_step in blast)+

subsection \<open>Progress\<close>

text \<open>Every step moves one job one stage on.\<close>

definition work_left :: "pipeline \<Rightarrow> nat" where
  "work_left s = 5 * length (pl_todo s) + 4 * length (pl_jobs s) + 3 * length (pl_busy s)
     + 2 * length (pl_held s) + length (pl_out s)"

lemma step_works: "pipe_step w opts marshal s t \<Longrightarrow> work_left t < work_left s"
proof (erule pipe_stepE)
  fix j r e assume "t = s\<lparr>pl_busy := remove1 j (pl_busy s), pl_held := r # pl_held s, pl_engine := e\<rparr>" "j \<in> set (pl_busy s)"
  moreover note length_remove1_Suc [OF this(2)]
  ultimately show ?thesis by (simp add: work_left_def del: length_remove1)
next
  fix r assume "t = s\<lparr>pl_held := remove1 r (pl_held s), pl_out := pl_out s @ [r]\<rparr>" "r \<in> set (pl_held s)"
  moreover note length_remove1_Suc [OF this(2)]
  ultimately show ?thesis by (simp add: work_left_def del: length_remove1)
qed (simp_all add: work_left_def collect_def)

lemma pipe_step_enabled:
  assumes "world_ok w" and "pipe_inv opts marshal cp jobs s" and "\<not> pipeline_done s"
  shows "\<exists>t. pipe_step w opts marshal s t"
proof -
  have q: "0 < queue_size opts" "0 < worker_count opts" by (simp_all add: queue_size_def worker_count_def)
  show ?thesis
  proof (cases "pl_out s")
    case (Cons r rs)
    then show ?thesis using pipe_step.receive by blast
  next
    case Nil
    show ?thesis
    proof (cases "pl_held s")
      case (Cons r rs)
      then have "r \<in> set (pl_held s)" by simp
      then show ?thesis using pipe_step.send [of r s opts] Nil q(1) by auto
    next
      case held: Nil
      show ?thesis
      proof (cases "pl_busy s")
        case (Cons j js)
        then have "j \<in> set (pl_busy s)" by simp
        moreover obtain r e where "worker_job w opts j (pl_engine s) = Some (r, e)"
          using worker_job_returns [OF assms(1), of "pl_engine s" opts j] assms(2) by (auto simp: pipe_inv_def)
        ultimately show ?thesis using pipe_step.scan by blast
      next
        case busy: Nil
        show ?thesis
        proof (cases "pl_jobs s")
          case (Cons j js)
          then show ?thesis using pipe_step.take [of s j js opts] held busy q(2) by auto
        next
          case jobs: Nil
          then obtain j js where "pl_todo s = j # js"
            using assms(3) Nil held busy by (cases "pl_todo s") (auto simp: pipeline_done_def)
          then show ?thesis using pipe_step.dispatch [of s j js opts] jobs q(1) by auto
        qed
      qed
    qed
  qed
qed


lemma pipeline_reaches_done:
  assumes "world_ok w" and "limiter_ok (eng_shared e)"
    and "(pipe_step w opts marshal)\<^sup>*\<^sup>* (start_pipeline cp tot jobs e) s"
  shows "\<exists>t. (pipe_step w opts marshal)\<^sup>*\<^sup>* (start_pipeline cp tot jobs e) t \<and> pipeline_done t"
  using assms(3)
proof (induction "work_left s" arbitrary: s rule: less_induct)
  case less
  show ?case
  proof (cases "pipeline_done s")
    case False
    then obtain t where "pipe_step w opts marshal s t"
      using pipe_step_enabled [OF assms(1) pipe_inv_reach [OF less.prems assms(1,2)]] by blast
    then show ?thesis using less.hyps [OF step_works] less.prems by (meson rtranclp.rtrancl_into_rtrancl)
  qed (use less.prems in blast)
qed

lemma done_pipeline_stuck: "pipeline_done s \<Longrightarrow> \<not> pipe_step w opts marshal s t"
  by (auto simp: pipeline_done_def elim: pipe_stepE)

lemma NewEngine_limiter_ok: "limiter_ok (eng_shared (NewEngine rise opts now))"
  by (simp add: NewEngine_def limiter_ok_def NewLimiterFromOptions_def NewAdaptiveRateLimiter_inv Let_def)

interpretation result_order: weak_order result_less
proof
  fix x y z
  show "result_less x y \<Longrightarrow> \<not> result_less y x" by (auto simp: result_less_def split: if_splits)
  show "\<not> result_less y x \<Longrightarrow> \<not> result_less z y \<Longrightarrow> \<not> result_less z x"
    by (auto simp: result_less_def not_less split: if_splits)
qed

subsection \<open>Properties\<close>


lemma silent_world_ok [simp]: "world_ok silent_world"
  by (simp add: world_ok_def silent_world_def)


text \<open>C20: a scan that ends has exactly one result for every target and port that the
  checkpoint did not already have, next to the results it loaded, in whatever order the
  permutation, the workers and the channels delivered them; the report is sorted by
  address and port, and is cut to the open ports exactly when that was asked for.\<close>

theorem scan_covers_every_target:
  assumes "world_ok w" and "length targets * length ports \<le> 2 ^ 62"
    and "jp_draws (of_nat (length targets * length ports)) (snd (snd draws))"
    and "scan_jobs opts cp draws targets ports = Some jobs"
    and "(pipe_step w opts marshal)\<^sup>*\<^sup>* (start_pipeline cp tot (batched (batch_size opts) [] jobs) (NewEngine rise opts now)) s"
    and "pipeline_done s"
  shows "image_mset res_key (mset (pl_all s))
      = image_mset res_key (mset (priorResults cp)) + mset (filter (not_done cp) (List.product targets ports))
    \<and> pg_Completed (pl_progress s) = length (pl_all s)
    \<and> sorted_wrt (\<lambda>a b. \<not> result_less b a) (final_results opts (pl_all s))
    \<and> mset (final_results opts (pl_all s)) = filter_mset (\<lambda>r. res_State r = StateOpen \<or> \<not> OnlyOpen opts) (mset (pl_all s))"
proof -
  have iv: "pipe_inv opts marshal cp (mset jobs) s"
    using pipe_inv_reach [OF assms(5,1) NewEngine_limiter_ok] by (simp add: batched_eq)
  have "mset jobs = mset (filter (not_done cp) (List.product targets ports))"
    using scan_jobs_mset [OF assms(2), of opts draws cp] assms(3,4) by auto
  moreover have "in_pipeline s = image_mset res_key (mset (pl_all s))"
    using assms(6) by (simp add: in_pipeline_def pipeline_done_def)
  moreover have "sorted_wrt (\<lambda>a b. \<not> result_less b a) (final_results opts (pl_all s))"
    unfolding final_results_def by (rule sorted_wrt_filter) (rule result_order.ordered_sort)
  moreover have "mset (final_results opts (pl_all s)) = filter_mset (\<lambda>r. res_State r = StateOpen \<or> \<not> OnlyOpen opts) (mset (pl_all s))"
    by (simp add: final_results_def mset_filter)
  ultimately show ?thesis using iv by (simp add: pipe_inv_def)
qed

lemma small_draws: "jp_draws 2 0"
proof -
  have "pow2_at_least 65 1 2 = Some 2" by code_simp
  then show ?thesis by (simp add: jp_draws_def)
qed

theorem scan_covers_every_target_witness:
  "\<exists>s. pipeline_done s \<and> image_mset res_key (mset (pl_all s)) = {#(''10.0.0.2'', 80), (''10.0.0.2'', 443)#}"
proof -
  let ?o = "default_options\<lparr>NoRandomize := True\<rparr>"
  let ?jobs = "[(''10.0.0.2'', 80), (''10.0.0.2'', 443)] :: job list"
  have jobs: "scan_jobs ?o None (0, 0, 0) [''10.0.0.2''] [80, 443] = Some ?jobs"
    by (simp add: scan_jobs_def not_done_def isDone_def)
  obtain s where s: "(pipe_step silent_world ?o (\<lambda>_. None))\<^sup>*\<^sup>*
      (start_pipeline None 2 (batched (batch_size ?o) [] ?jobs) (NewEngine id ?o 0)) s" "pipeline_done s"
    using pipeline_reaches_done [OF silent_world_ok NewEngine_limiter_ok rtranclp.rtrancl_refl] by blast
  have "image_mset res_key (mset (pl_all s)) = {#(''10.0.0.2'', 80), (''10.0.0.2'', 443)#}"
    using scan_covers_every_target [OF silent_world_ok _ _ jobs s] small_draws
    by (simp add: priorResults_def not_done_def isDone_def)
  then show ?thesis using s(2) by blast
qed

text \<open>C22: scanning, ending and resuming compose: when a scan that was started from a
  checkpoint file has ended and closed the file, reopening it marks every target and
  port as done, so that the same scan resumed once more has no job left.\<close>

theorem finished_scan_resumes_to_nothing:
  assumes "world_ok w" and "length targets * length ports \<le> 2 ^ 62"
    and "jp_draws (of_nat (length targets * length ports)) (snd (snd draws))"
    and "openCheckpoint unmarshal True (ResumeContent (log_of marshal old)) = Inr c0"
    and "scan_jobs opts (Some c0) draws targets ports = Some jobs"
    and "(pipe_step w opts marshal)\<^sup>*\<^sup>* (start_pipeline (Some c0) tot jobs (NewEngine rise opts now)) s"
    and "pipeline_done s" and "pl_checkpoint s = Some c" and "list_all (codec_ok marshal unmarshal) (old @ pl_all s)"
  shows "\<exists>c1. openCheckpoint unmarshal True (ResumeContent (cp_close c)) = Inr c1
    \<and> priorResults (Some c1) = pl_all s \<and> scan_jobs opts (Some c1) draws targets ports = Some []"
proof -
  have c0: "c0 = \<lparr>cp_file = log_of marshal old, cp_buf = [],
      cp_done = map (\<lambda>r. checkpointKey (res_IP r) (res_Port r)) old, cp_results = old\<rparr>"
    using open_log [of marshal unmarshal old] assms(4,9) by simp
  have iv: "pipe_inv opts marshal (Some c0) (mset jobs) s"
    using pipe_inv_reach [OF assms(6,1) NewEngine_limiter_ok] .
  then obtain new where new: "pl_all s = old @ new" "pl_checkpoint s = fold (record_opt marshal) new (Some c0)"
    by (auto simp: pipe_inv_def priorResults_def c0)
  have "fold (record_opt marshal) new (Some x) = Some (fold (cp_record marshal) new x)" for x
    by (induction new arbitrary: x) (simp_all add: record_opt_def)
  then have "c = fold (cp_record marshal) new c0" using new(2) assms(8) by simp
  then have "cp_close c = log_of marshal (old @ new)"
    by (simp add: cp_fold_all) (simp add: cp_close_def log_of_def c0)
  then have open1: "openCheckpoint unmarshal True (ResumeContent (cp_close c))
      = Inr \<lparr>cp_file = log_of marshal (old @ new), cp_buf = [],
           cp_done = map (\<lambda>r. checkpointKey (res_IP r) (res_Port r)) (old @ new), cp_results = old @ new\<rparr>"
    using open_log [of marshal unmarshal "old @ new"] assms(9) new(1) by simp
  let ?c1 = "\<lparr>cp_file = log_of marshal (old @ new), cp_buf = [],
           cp_done = map (\<lambda>r. checkpointKey (res_IP r) (res_Port r)) (old @ new), cp_results = old @ new\<rparr>"
  have "image_mset res_key (mset (pl_all s))
      = image_mset res_key (mset old) + mset (filter (not_done (Some c0)) (List.product targets ports))"
    using iv scan_jobs_mset [OF assms(2), of opts draws "Some c0"] assms(3,5,7)
    by (auto simp: pipe_inv_def in_pipeline_def pipeline_done_def priorResults_def c0)
  then have keys: "res_key ` set (old @ new) = res_key ` set old \<union> set (filter (not_done (Some c0)) (List.product targets ports))"
    unfolding new(1) by (metis set_image_mset set_mset_mset set_mset_union)
  have "isDone (Some ?c1) ip port" if "(ip, port) \<in> set (List.product targets ports)" for ip port
  proof -
    have "isDone (Some c0) ip port \<longleftrightarrow> (ip, port) \<in> res_key ` set old" unfolding c0 by (rule isDone_open)
    then show ?thesis using keys that unfolding isDone_open by (auto simp: not_done_def)
  qed
  then have "filter (not_done (Some ?c1)) (List.product targets ports) = []"
    by (auto simp: filter_empty_conv not_done_def)
  then have "scan_jobs opts (Some ?c1) draws targets ports = Some []"
    using scan_jobs_mset [OF assms(2), of opts draws "Some ?c1"] assms(3) by auto
  then show ?thesis using open1 new(1) by (auto simp: priorResults_def)
qed


theorem finished_scan_resumes_to_nothing_witness:
  "\<exists>s c c1 unmarshal. pipeline_done s \<and> pl_checkpoint s = Some c \<and> length (pl_all s) = 1
     \<and> openCheckpoint unmarshal True (ResumeContent (cp_close c)) = Inr c1
     \<and> scan_jobs (default_options\<lparr>NoRandomize := True\<rparr>) (Some c1) (0, 0, 0) [''10.0.0.2''] [80] = Some []"
proof -
  let ?o = "default_options\<lparr>NoRandomize := True\<rparr>"
  let ?m = "\<lambda>_ :: TargetResult. Some ''a''"
  let ?c0 = "\<lparr>cp_file = [], cp_buf = [], cp_done = [], cp_results = []\<rparr>"
  have jobs: "scan_jobs ?o (Some ?c0) (0, 0, 0) [''10.0.0.2''] [80] = Some [(''10.0.0.2'', 80)]"
    by (simp add: scan_jobs_def not_done_def isDone_def)
  obtain s where s: "(pipe_step silent_world ?o ?m)\<^sup>*\<^sup>* (start_pipeline (Some ?c0) 1 [(''10.0.0.2'', 80)] (NewEngine id ?o 0)) s"
      "pipeline_done s"
    using pipeline_reaches_done [OF silent_world_ok NewEngine_limiter_ok rtranclp.rtrancl_refl] by blast
  have iv: "pipe_inv ?o ?m (Some ?c0) (mset [(''10.0.0.2'', 80)]) s"
    by (rule pipe_inv_reach [OF s(1) silent_world_ok NewEngine_limiter_ok])
  then have "size (image_mset res_key (mset (pl_all s))) = 1"
    using s(2) by (auto simp: pipe_inv_def in_pipeline_def pipeline_done_def priorResults_def)
  then have len: "length (pl_all s) = 1" by simp
  then obtain r where r: "pl_all s = [r]" by (auto simp: length_Suc_conv)
  have some: "\<exists>y. fold (record_opt ?m) xs (Some x) = Some y" for xs x
    by (induction xs arbitrary: x) (simp_all add: record_opt_def)
  obtain new where "pl_checkpoint s = fold (record_opt ?m) new (Some ?c0)" using iv by (auto simp: pipe_inv_def)
  then obtain c where c: "pl_checkpoint s = Some c" using some [of new ?c0] by auto
  let ?u = "\<lambda>x. if x = ''a'' then Some r else None"
  have "openCheckpoint ?u True (ResumeContent (log_of ?m [])) = Inr ?c0"
    using open_log [of ?m ?u "[]"] by (simp add: log_of_def)
  moreover have "list_all (codec_ok ?m ?u) ([] @ pl_all s)" by (simp add: r codec_ok_def max_line_def)
  moreover have "jp_draws (of_nat (length [''10.0.0.2''] * length [80 :: int])) (snd (snd (0, 0, 0)))"
  proof -
    have "pow2_at_least 65 1 1 = Some 1" by code_simp
    then show ?thesis by (simp add: jp_draws_def)
  qed
  ultimately have "\<exists>c1. openCheckpoint ?u True (ResumeContent (cp_close c)) = Inr c1
      \<and> priorResults (Some c1) = pl_all s \<and> scan_jobs ?o (Some c1) (0, 0, 0) [''10.0.0.2''] [80] = Some []"
    using finished_scan_resumes_to_nothing [OF silent_world_ok _ _ _ jobs s c] by simp
  then show ?thesis using s(2) c len by blast
qed

text \<open>Once the breaker of a target has tripped, a worker reports its ports as filtered
  without sending a packet, and the checkpoint records them like any other result: a
  resumed scan takes them for done and never probes them.\<close>

theorem breaker_skips_are_checkpointed:
  assumes "guard_trips e ip" and "limiter_ok (eng_shared e)"
    and "codec_ok marshal unmarshal (breaker_result (ip, port))"
    and "openCheckpoint unmarshal True (ResumeContent []) = Inr c0"
  shows "\<exists>e' c1. worker_job w opts (ip, port) e = Some (breaker_result (ip, port), e')
    \<and> sh_sent (eng_shared e') = sh_sent (eng_shared e) \<and> sh_decoys (eng_shared e') = sh_decoys (eng_shared e)
    \<and> openCheckpoint unmarshal True (ResumeContent (cp_close (cp_record marshal (breaker_result (ip, port)) c0))) = Inr c1
    \<and> isDone (Some c1) ip port"
proof -
  obtain e1 where e1: "reserve_packets w opts e = Some e1" "eng_guard e1 = eng_guard e" "sh_sent (eng_shared e1) = sh_sent (eng_shared e)"
      "sh_decoys (eng_shared e1) = sh_decoys (eng_shared e)"
    using reserve_returns [OF assms(2), of w opts] by blast
  then have "worker_job w opts (ip, port) e = Some (breaker_result (ip, port), e1)"
    using assms(1) by (simp add: worker_job_def guard_trips_def)
  moreover have "c0 = \<lparr>cp_file = [], cp_buf = [], cp_done = [], cp_results = []\<rparr>"
    using open_log [of marshal unmarshal "[]"] assms(4) by (simp add: log_of_def)
  then have "cp_close (cp_record marshal (breaker_result (ip, port)) c0) = log_of marshal [breaker_result (ip, port)]"
    by (simp add: cp_record_all) (simp add: cp_close_def)
  then have "openCheckpoint unmarshal True (ResumeContent (cp_close (cp_record marshal (breaker_result (ip, port)) c0)))
      = Inr \<lparr>cp_file = log_of marshal [breaker_result (ip, port)], cp_buf = [],
           cp_done = map (\<lambda>r. checkpointKey (res_IP r) (res_Port r)) [breaker_result (ip, port)],
           cp_results = [breaker_result (ip, port)]\<rparr>"
    using open_log [of marshal unmarshal "[breaker_result (ip, port)]"] assms(3) by simp
  moreover have "isDone (Some \<lparr>cp_file = log_of marshal [breaker_result (ip, port)], cp_buf = [],
           cp_done = map (\<lambda>r. checkpointKey (res_IP r) (res_Port r)) [breaker_result (ip, port)],
           cp_results = [breaker_result (ip, port)]\<rparr>) ip port"
    unfolding isDone_open by (simp add: breaker_result_def res_key_def)
  ultimately show ?thesis using e1 by blast
qed

theorem breaker_skips_are_checkpointed_witness:
  "\<exists>e c1. guard_trips e ''plc'' \<and> isDone (Some c1) ''plc'' 502
     \<and> openCheckpoint (\<lambda>s. if s = ''a'' then Some (breaker_result (''plc'', 502)) else None) True
         (ResumeContent (cp_close (cp_record (\<lambda>_. Some ''a'') (breaker_result (''plc'', 502))
            \<lparr>cp_file = [], cp_buf = [], cp_done = [], cp_results = []\<rparr>))) = Inr c1"
proof -
  let ?e = "\<lparr>eng_timeout = 1, eng_shared = idle_shared,
      eng_guard = Some ((New id 8 5)\<lparr>guard_targets := [''plc'' \<mapsto> zero_state\<lparr>tripped := True\<rparr>]\<rparr>)\<rparr>"
  let ?u = "\<lambda>s. if s = ''a'' then Some (breaker_result (''plc'', 502)) else None"
  have g: "guard_trips ?e ''plc''" by (simp add: guard_trips_def Tripped_def New_def)
  have ok: "codec_ok (\<lambda>_. Some ''a'') ?u (breaker_result (''plc'', 502))" by (simp add: codec_ok_def max_line_def)
  have o0: "openCheckpoint ?u True (ResumeContent []) = Inr \<lparr>cp_file = [], cp_buf = [], cp_done = [], cp_results = []\<rparr>"
    using open_log [of "\<lambda>_. Some ''a''" ?u "[]"] by (simp add: log_of_def)
  show ?thesis
    using breaker_skips_are_checkpointed [OF g _ ok o0, of silent_world default_options] g by auto
qed

end
