(* ===== verification/Versions.thy ===== *)
theory Versions
  imports Results "HOL-Library.Product_Lexorder" "HOL-Library.Monad_Syntax"
begin

text \<open>
  \<open>internal/vuln/version.go\<close>: the version tokenizer, the comparison of two
  versions and the evaluation of the affected ranges of an OSV entry.

  A version is its list of runes (code points); the tables of the package
  \<open>unicode\<close> are an argument, and \<open>unicode_ok\<close> states what their documentation
  says of ASCII and of the decimal digits below U+0100.  The tokenizer loops until
  its input is used up; a loop that does not end is \<open>None\<close>.
\<close>

type_synonym rune = nat
type_synonym runes = "rune list"

record unicode =
  uc_digit :: "rune \<Rightarrow> bool"
  uc_letter :: "rune \<Rightarrow> bool"

definition ascii_digit :: "rune \<Rightarrow> bool" where
  "ascii_digit r \<longleftrightarrow> 48 \<le> r \<and> r \<le> 57"

definition unicode_ok :: "unicode \<Rightarrow> bool" where
  "unicode_ok u \<longleftrightarrow> (\<forall>r. r < 256 \<longrightarrow> uc_digit u r = ascii_digit r)
     \<and> (\<forall>r. uc_letter u r \<longrightarrow> 65 \<le> r \<and> \<not> uc_digit u r)"

text \<open>The first byte of a rune's UTF-8 encoding: what \<open>s[0]\<close> reads.\<close>

definition first_byte :: "rune \<Rightarrow> nat" where
  "first_byte r =
     (if r < 0x80 then r else if r < 0x800 then 0xC0 + r div 64
      else if r < 0x10000 then 0xE0 + r div 4096 else 0xF0 + r div 262144)"

definition is_rune :: "rune \<Rightarrow> bool" where
  "is_rune r \<longleftrightarrow> r < 0x110000"

definition token_char :: "unicode \<Rightarrow> bool \<Rightarrow> rune \<Rightarrow> bool" where
  "token_char u isDigit r = (if isDigit then uc_digit u r else uc_letter u r)"

partial_function (option) tokenizer :: "unicode \<Rightarrow> runes \<Rightarrow> runes list option" where
  "tokenizer u s =
     (let s1 = dropWhile (\<lambda>r. \<not> (uc_digit u r \<or> uc_letter u r)) s in
      if s1 = [] then Some []
      else
        (let isDigit = uc_digit u (first_byte (hd s1));
             part = takeWhile (token_char u isDigit) s1
         in Option.bind (tokenizer u (drop (length part) s1)) (\<lambda>parts. Some (part # parts))))"

declare tokenizer.simps [code]

text \<open>\<open>strconv.Atoi\<close> on a token.\<close>

definition atoi_runes :: "runes \<Rightarrow> int option" where
  "atoi_runes p = (if list_all (\<lambda>r. r < 128) p then atoi (map char_of p) else None)"

definition compare_part :: "runes \<Rightarrow> runes \<Rightarrow> int" where
  "compare_part p1 p2 =
     (case (atoi_runes p1, atoi_runes p2) of
        (Some num1, Some num2) \<Rightarrow> if num1 < num2 then -1 else if num1 > num2 then 1 else 0
      | _ \<Rightarrow> if p1 < p2 then -1 else if p1 > p2 then 1 else 0)"

fun compare_parts :: "runes list \<Rightarrow> runes list \<Rightarrow> int" where
  "compare_parts [] [] = 0"
| "compare_parts [] (q # qs) = (let c = compare_part [] q in if c = 0 then compare_parts [] qs else c)"
| "compare_parts (p # ps) [] = (let c = compare_part p [] in if c = 0 then compare_parts ps [] else c)"
| "compare_parts (p # ps) (q # qs) = (let c = compare_part p q in if c = 0 then compare_parts ps qs else c)"

definition CompareVersions :: "unicode \<Rightarrow> runes \<Rightarrow> runes \<Rightarrow> int option" where
  "CompareVersions u v1 v2 = do {
     parts1 \<leftarrow> tokenizer u v1;
     parts2 \<leftarrow> tokenizer u v2;
     Some (compare_parts parts1 parts2)
   }"

record osvEvent =
  ev_Introduced :: runes
  ev_Fixed :: runes

record osvRange =
  rng_Type :: string
  rng_Events :: "osvEvent list"

record osvSeverity =
  sev_Type :: string
  sev_Score :: string

record osvAffected =
  aff_Ranges :: "osvRange list"
  aff_Versions :: "runes list"
  aff_Severity :: "osvSeverity list"

text \<open>One event: reaching an \<open>introduced\<close> boundary sets the flag, reaching a
  \<open>fixed\<close> one clears it.\<close>

definition reaches :: "unicode \<Rightarrow> runes \<Rightarrow> runes \<Rightarrow> bool option" where
  "reaches u target boundary =
     (if boundary = [] then Some False else map_option (\<lambda>c. c \<ge> 0) (CompareVersions u target boundary))"

definition event_step :: "unicode \<Rightarrow> runes \<Rightarrow> osvEvent \<Rightarrow> bool \<Rightarrow> bool option" where
  "event_step u target event isIntroduced = do {
     i \<leftarrow> reaches u target (ev_Introduced event);
     let flag = isIntroduced \<or> i;
     f \<leftarrow> reaches u target (ev_Fixed event);
     Some (flag \<and> \<not> f)
   }"

fun walk_events :: "unicode \<Rightarrow> runes \<Rightarrow> osvEvent list \<Rightarrow> bool \<Rightarrow> bool option" where
  "walk_events u target [] flag = Some flag"
| "walk_events u target (e # es) flag = Option.bind (event_step u target e flag) (walk_events u target es)"

fun affected_ranges :: "unicode \<Rightarrow> runes \<Rightarrow> osvRange list \<Rightarrow> bool option" where
  "affected_ranges u target [] = Some False"
| "affected_ranges u target (r # rs) =
     (if rng_Type r = ''SEMVER'' \<or> rng_Type r = ''ECOSYSTEM''
      then Option.bind (walk_events u target (rng_Events r) False) (\<lambda>flag.
             if flag then Some True else affected_ranges u target rs)
      else affected_ranges u target rs)"

fun affected_entries :: "unicode \<Rightarrow> runes \<Rightarrow> osvAffected list \<Rightarrow> bool option" where
  "affected_entries u target [] = Some False"
| "affected_entries u target (a # as) =
     (if List.member (aff_Versions a) target then Some True
      else Option.bind (affected_ranges u target (aff_Ranges a)) (\<lambda>hit.
             if hit then Some True else affected_entries u target as))"

definition IsVersionAffected :: "unicode \<Rightarrow> runes \<Rightarrow> osvAffected list \<Rightarrow> bool option" where
  "IsVersionAffected u target affected = (if affected = [] then Some True else affected_entries u target affected)"


subsection \<open>Termination of the tokenizer\<close>

text \<open>A decimal digit outside ASCII that no digit precedes: the tokenizer looks only at
  its first byte, takes it for the start of a word, and makes no progress.\<close>

fun stuck_digit :: "unicode \<Rightarrow> bool \<Rightarrow> runes \<Rightarrow> bool" where
  "stuck_digit u after_digit [] = False"
| "stuck_digit u after_digit (r # rs) =
     (uc_digit u r \<and> 128 \<le> r \<and> \<not> after_digit \<or> stuck_digit u (uc_digit u r) rs)"

lemma stuck_append:
  "stuck_digit u d (xs @ ys) \<longleftrightarrow>
     stuck_digit u d xs \<or> stuck_digit u (if xs = [] then d else uc_digit u (last xs)) ys"
  by (induction xs arbitrary: d) auto

lemma stuck_digits: "list_all (uc_digit u) xs \<Longrightarrow> \<not> stuck_digit u True xs"
  by (induction xs) auto

lemma stuck_no_digits: "list_all (\<lambda>r. \<not> uc_digit u r) xs \<Longrightarrow> \<not> stuck_digit u d xs"
  by (induction xs arbitrary: d) auto

lemma first_byte_digit:
  assumes "unicode_ok u" and "is_rune r"
  shows "uc_digit u (first_byte r) = (uc_digit u r \<and> r < 128)"
proof (cases "r < 128")
  case True
  then show ?thesis by (simp add: first_byte_def)
next
  case False
  have "r div 64 < 64" if "r < 0x800" using that by simp
  moreover have "r div 4096 < 16" if "r < 0x10000" using that by simp
  moreover have "r div 262144 < 5" using assms(2) by (simp add: is_rune_def)
  ultimately have "first_byte r < 256" "58 \<le> first_byte r"
    using False by (auto simp: first_byte_def)
  then show ?thesis using assms(1) False by (auto simp: unicode_ok_def ascii_digit_def)
qed

lemma tokenizer_split:
  assumes "unicode_ok u" and "list_all is_rune s"
  obtains (finished) "tokenizer u s = Some []" "list_all (\<lambda>r. \<not> uc_digit u r) s"
  | (loops) "tokenizer u s = None" "stuck_digit u False s"
  | (token) gap part rest where "s = gap @ part @ rest" "part \<noteq> []"
      "tokenizer u s = map_option ((#) part) (tokenizer u rest)" "list_all (\<lambda>r. \<not> uc_digit u r) gap"
      "list_all (uc_digit u) part \<and> hd part < 128 \<and> (rest = [] \<or> \<not> uc_digit u (hd rest)) \<or> list_all (uc_letter u) part"
proof -
  let ?alnum = "\<lambda>r. uc_digit u r \<or> uc_letter u r"
  let ?gap = "takeWhile (\<lambda>r. \<not> ?alnum r) s"
  define s1 where "s1 = dropWhile (\<lambda>r. \<not> ?alnum r) s"
  have s: "s = ?gap @ s1" by (simp add: s1_def)
  have gap: "list_all (\<lambda>r. \<not> uc_digit u r) ?gap" by (auto simp: list_all_iff dest: set_takeWhileD)
  show ?thesis
  proof (cases s1)
    case Nil
    then have "tokenizer u s = Some []" by (subst tokenizer.simps) (simp add: s1_def)
    moreover have "list_all (\<lambda>r. \<not> uc_digit u r) s" using s gap Nil by simp
    ultimately show ?thesis by (rule finished)
  next
    case (Cons r rs)
    have r: "?alnum r" using Cons hd_dropWhile [of "\<lambda>r. \<not> ?alnum r" s] by (simp add: s1_def)
    have "is_rune r" using assms(2) Cons by (subst (asm) s) simp
    from first_byte_digit [OF assms(1) this]
    have fb: "uc_digit u (first_byte r) = (uc_digit u r \<and> r < 128)" .
    let ?d = "uc_digit u (first_byte r)"
    let ?part = "takeWhile (token_char u ?d) s1"
    have ne: "s1 \<noteq> []" "hd s1 = r" by (simp_all add: Cons)
    have "tokenizer u s = Option.bind (tokenizer u (drop (length ?part) s1)) (\<lambda>parts. Some (?part # parts))"
      using tokenizer.simps [of u s, folded s1_def] ne by (simp only: Let_def if_False)
    then have step: "tokenizer u s = map_option ((#) ?part) (tokenizer u (drop (length ?part) s1))"
      by (cases "tokenizer u (drop (length ?part) s1)") simp_all
    have "dropWhile (\<lambda>r. \<not> ?alnum r) s1 = s1" using r by (auto simp: Cons)
    then have "tokenizer u s1 = Option.bind (tokenizer u (drop (length ?part) s1)) (\<lambda>parts. Some (?part # parts))"
      using tokenizer.simps [of u s1] ne by (simp only: Let_def if_False)
    then have again: "tokenizer u s1 = map_option ((#) ?part) (tokenizer u (drop (length ?part) s1))"
      by (cases "tokenizer u (drop (length ?part) s1)") simp_all
    show ?thesis
    proof (cases "uc_digit u r \<and> 128 \<le> r")
      case True
      then have "\<not> uc_letter u r" using assms(1) by (auto simp: unicode_ok_def)
      then have "?part = []" using True fb Cons by (simp add: token_char_def)
      then have "tokenizer u s = map_option ((#) []) (tokenizer u s1)" using step by simp
      moreover have "tokenizer u s1 = map_option ((#) []) (tokenizer u s1)"
        using again \<open>?part = []\<close> by simp
      then have "tokenizer u s1 = None" by (cases "tokenizer u s1") auto
      moreover have "stuck_digit u False (?gap @ s1)"
      proof -
        have "\<not> uc_digit u (last ?gap)" if "?gap \<noteq> []"
          using that gap by (metis last_in_set list_all_iff)
        then show ?thesis using True Cons by (simp add: stuck_append)
      qed
      ultimately show ?thesis using loops s by simp
    next
      case False
      then have "token_char u ?d r" using r fb by (auto simp: token_char_def)
      then have "?part \<noteq> []" using Cons by simp
      moreover have "s = ?gap @ ?part @ drop (length ?part) s1"
        using s by (metis append_take_drop_id takeWhile_eq_take)
      moreover have "list_all (uc_digit u) ?part \<and> hd ?part < 128
          \<and> (drop (length ?part) s1 = [] \<or> \<not> uc_digit u (hd (drop (length ?part) s1)))
        \<or> list_all (uc_letter u) ?part"
      proof (cases ?d)
        case True
        have d: "drop (length ?part) s1 = dropWhile (token_char u ?d) s1" by (simp add: dropWhile_eq_drop)
        have "list_all (uc_digit u) ?part" using True by (auto simp: list_all_iff token_char_def dest: set_takeWhileD)
        moreover have "hd ?part < 128" using True fb Cons \<open>token_char u ?d r\<close> by simp
        moreover have "drop (length ?part) s1 = [] \<or> \<not> uc_digit u (hd (drop (length ?part) s1))"
          unfolding d using True hd_dropWhile [of "token_char u ?d" s1] by (auto simp: token_char_def)
        ultimately show ?thesis by blast
      next
        case False
        then show ?thesis by (auto simp: list_all_iff token_char_def dest: set_takeWhileD)
      qed
      ultimately show ?thesis using token step gap by blast
    qed
  qed
qed

lemma letters_no_digits: "unicode_ok u \<Longrightarrow> list_all (uc_letter u) xs \<Longrightarrow> list_all (\<lambda>r. \<not> uc_digit u r) xs"
  by (auto simp: unicode_ok_def list_all_iff)

lemma tokenizer_None_iff:
  assumes "unicode_ok u" and "list_all is_rune s"
  shows "tokenizer u s = None \<longleftrightarrow> stuck_digit u False s"
  using assms(2)
proof (induction "length s" arbitrary: s rule: less_induct)
  case less
  show ?case
  proof (cases rule: tokenizer_split [OF assms(1) less.prems])
    case 1
    then show ?thesis by (simp add: stuck_no_digits)
  next
    case 2
    then show ?thesis by simp
  next
    case (3 gap part rest)
    have "tokenizer u rest = None \<longleftrightarrow> stuck_digit u False rest"
      using 3(1,2) less.prems by (intro less.hyps) auto
    moreover have "stuck_digit u False s \<longleftrightarrow> stuck_digit u False rest"
    proof -
      obtain p ps where p: "part = p # ps" using 3(2) by (cases part) auto
      have g: "\<not> uc_digit u (last gap)" if "gap \<noteq> []" using that 3(4) by (metis last_in_set list_all_iff)
      have "stuck_digit u False s \<longleftrightarrow> stuck_digit u False (part @ rest)"
        using g by (simp add: 3(1) stuck_append stuck_no_digits [OF 3(4)])
      also have "\<dots> \<longleftrightarrow> stuck_digit u False rest"
        using 3(5)
      proof
        assume *: "list_all (uc_digit u) part \<and> hd part < 128 \<and> (rest = [] \<or> \<not> uc_digit u (hd rest))"
        then have "\<not> stuck_digit u False part" using stuck_digits [of u ps] by (simp add: p)
        moreover have "uc_digit u (last part)" using * 3(2) by (metis last_in_set list_all_iff)
        moreover have "stuck_digit u True rest = stuck_digit u False rest" using * by (cases rest) auto
        ultimately show ?thesis using 3(2) by (simp add: stuck_append)
      next
        assume "list_all (uc_letter u) part"
        then have n: "list_all (\<lambda>r. \<not> uc_digit u r) part" by (rule letters_no_digits [OF assms(1)])
        then have "\<not> uc_digit u (last part)" using 3(2) by (metis last_in_set list_all_iff)
        then show ?thesis using 3(2) by (simp add: stuck_append stuck_no_digits [OF n])
      qed
      finally show ?thesis .
    qed
    ultimately show ?thesis using 3(3) by simp
  qed
qed


subsection \<open>The comparison is an order on ordinary versions\<close>

text \<open>A number orders before a word, numbers by value, words by their runes; an absent
  token orders before every token.\<close>

definition part_key :: "runes \<Rightarrow> nat \<times> int \<times> runes" where
  "part_key p = (case atoi_runes p of Some n \<Rightarrow> (0, n, []) | None \<Rightarrow> (1, 0, p))"

definition version_key :: "unicode \<Rightarrow> runes \<Rightarrow> (nat \<times> int \<times> runes) list" where
  "version_key u v = (case tokenizer u v of Some parts \<Rightarrow> map part_key parts | None \<Rightarrow> [])"

definition cmp3 :: "'a :: linorder \<Rightarrow> 'a \<Rightarrow> int" where
  "cmp3 a b = (if a < b then -1 else if b < a then 1 else 0)"

text \<open>An ordinary version: its digits are ASCII and no token is longer than 18 runes.\<close>

definition ordinary :: "unicode \<Rightarrow> runes \<Rightarrow> bool" where
  "ordinary u v \<longleftrightarrow> list_all (\<lambda>r. is_rune r \<and> (uc_digit u r \<longrightarrow> r < 128)) v
     \<and> (case tokenizer u v of Some parts \<Rightarrow> list_all (\<lambda>p. length p \<le> 18) parts | None \<Rightarrow> True)"

definition fit_token :: "runes \<Rightarrow> bool" where
  "fit_token p \<longleftrightarrow> p \<noteq> [] \<and> (list_all ascii_digit p \<and> length p \<le> 18 \<or> list_all (\<lambda>r. 65 \<le> r) p)"

lemma digits_val_bound: "digits_val acc ds = Some n \<Longrightarrow> n < (acc + 1) * 10 ^ length ds"
proof (induction acc ds rule: digits_val.induct)
  case (2 acc c cs)
  then have d: "is_digit c" by (simp split: if_splits)
  from 2 have "n < (10 * acc + digit_val c + 1) * 10 ^ length cs" by (simp split: if_splits)
  moreover
  have "digit_val c \<le> 9" using d by (auto simp: is_digit_def digit_val_def less_eq_char_def)
  then have "10 * acc + digit_val c + 1 \<le> (acc + 1) * 10" by simp
  then have "(10 * acc + digit_val c + 1) * 10 ^ length cs \<le> (acc + 1) * 10 * 10 ^ length cs"
    by (rule mult_le_mono1)
  ultimately have "n < (acc + 1) * 10 * 10 ^ length cs" by (rule order.strict_trans2)
  then show ?case by (simp only: length_Cons power_Suc mult.assoc)
qed simp

lemma is_digit_rune: "r < 128 \<Longrightarrow> is_digit (char_of r) = ascii_digit r"
  by (simp add: is_digit_def less_eq_char_def ascii_digit_def)

lemma digits_val_total: "list_all ascii_digit p \<Longrightarrow> \<exists>n. digits_val acc (map char_of p) = Some n"
proof (induction p arbitrary: acc)
  case (Cons r p)
  then have "r < 128" by (simp add: ascii_digit_def)
  then show ?case using Cons by (simp add: is_digit_rune)
qed simp

lemma atoi_digits:
  assumes "list_all ascii_digit p" and "p \<noteq> []" and "length p \<le> 18"
  shows "\<exists>n. atoi_runes p = Some n"
proof -
  have lt: "list_all (\<lambda>r. r < 128) p" using assms(1) by (auto simp: list_all_iff ascii_digit_def)
  obtain r rs where p: "p = r # rs" using assms(2) by (cases p) auto
  have dig: "is_digit (char_of r)" using assms(1) lt by (simp add: p is_digit_rune)
  then have sign: "char_of r \<noteq> CHR ''-''" "char_of r \<noteq> CHR ''+''" using minus_no_digit by auto
  obtain n where n: "digits_val 0 (map char_of p) = Some n" using digits_val_total [OF assms(1)] by blast
  then have "n < 10 ^ length p" using digits_val_bound [OF n] by simp
  also have "\<dots> \<le> 10 ^ 18" using assms(3) by (rule power_increasing) simp
  finally have "int n \<le> max_int64" by (simp add: max_int64_def)
  then have "atoi (map char_of p) = Some (int n)"
    using n sign by (simp add: p atoi_def min_int64_def)
  then show ?thesis using lt by (simp add: atoi_runes_def)
qed

lemma letter_no_sign: "46 \<le> r \<Longrightarrow> r < 128 \<Longrightarrow> char_of (r :: nat) \<notin> {CHR ''-'', CHR ''+''}"
proof
  assume r: "46 \<le> r" "r < 128" and "char_of r \<in> {CHR ''-'', CHR ''+''}"
  then have "(of_char (char_of r :: char) :: nat) \<in> of_char ` {CHR ''-'', CHR ''+''}" by blast
  then show False using r by simp
qed

lemma char_no_sign:
  "46 \<le> r \<Longrightarrow> r < 128 \<Longrightarrow> char_of (r :: nat) \<noteq> CHR ''-''" "46 \<le> r \<Longrightarrow> r < 128 \<Longrightarrow> char_of (r :: nat) \<noteq> CHR ''+''"
  using letter_no_sign by auto

lemma atoi_word: "list_all (\<lambda>r. 65 \<le> r) p \<Longrightarrow> atoi_runes p = None"
proof (cases p)
  case Nil
  then show ?thesis by (simp add: atoi_runes_def atoi_def)
next
  case (Cons r rs)
  assume *: "list_all (\<lambda>r. 65 \<le> r) p"
  show ?thesis
  proof (cases "list_all (\<lambda>r. r < 128) p")
    case True
    then have r: "65 \<le> r" "r < 128" using * Cons by auto
    then have "\<not> is_digit (char_of r)" by (simp add: is_digit_rune ascii_digit_def)
    moreover have "char_of r \<noteq> CHR ''-''" "char_of r \<noteq> CHR ''+''" using r letter_no_sign [of r] by auto
    ultimately show ?thesis by (simp add: atoi_runes_def atoi_def Cons)
  qed (simp add: atoi_runes_def)
qed

lemma compare_part_key:
  assumes "fit_token p" and "fit_token q"
  shows "compare_part p q = cmp3 (part_key p) (part_key q)"
proof -
  consider (dd) "list_all ascii_digit p" "length p \<le> 18" "list_all ascii_digit q" "length q \<le> 18"
    | (dw) "list_all ascii_digit p" "length p \<le> 18" "list_all (\<lambda>r. 65 \<le> r) q"
    | (wd) "list_all (\<lambda>r. 65 \<le> r) p" "list_all ascii_digit q" "length q \<le> 18"
    | (ww) "list_all (\<lambda>r. 65 \<le> r) p" "list_all (\<lambda>r. 65 \<le> r) q"
    using assms by (auto simp: fit_token_def)
  then show ?thesis
  proof cases
    case dd
    then obtain m n where "atoi_runes p = Some m" "atoi_runes q = Some n"
      using assms atoi_digits by (fastforce simp: fit_token_def)
    then show ?thesis by (simp add: compare_part_def part_key_def cmp3_def)
  next
    case dw
    then obtain m where "atoi_runes p = Some m" using assms atoi_digits by (fastforce simp: fit_token_def)
    moreover have "p < q" using assms dw by (cases p; cases q) (auto simp: fit_token_def ascii_digit_def)
    ultimately show ?thesis using atoi_word [OF dw(3)] by (simp add: compare_part_def part_key_def cmp3_def)
  next
    case wd
    then obtain m where "atoi_runes q = Some m" using assms atoi_digits by (fastforce simp: fit_token_def)
    moreover have "q < p" using assms wd by (cases p; cases q) (auto simp: fit_token_def ascii_digit_def)
    moreover from this have "\<not> p < q" by simp
    ultimately show ?thesis using atoi_word [OF wd(1)] by (simp add: compare_part_def part_key_def cmp3_def)
  next
    case ww
    then show ?thesis by (auto simp: atoi_word compare_part_def part_key_def cmp3_def)
  qed
qed

lemma atoi_empty: "atoi_runes [] = None"
  by (simp add: atoi_runes_def atoi_def)

lemma compare_part_absent: "fit_token p \<Longrightarrow> compare_part [] p = -1 \<and> compare_part p [] = 1"
  by (cases p) (auto simp: compare_part_def atoi_empty fit_token_def split: option.splits)

lemma compare_parts_key:
  "list_all fit_token ps \<Longrightarrow> list_all fit_token qs \<Longrightarrow>
     compare_parts ps qs = cmp3 (map part_key ps) (map part_key qs)"
proof (induction ps qs rule: compare_parts.induct)
  case (4 p ps q qs)
  then have c: "compare_part p q = cmp3 (part_key p) (part_key q)" by (simp add: compare_part_key)
  show ?case
  proof (cases "part_key p = part_key q")
    case True
    then show ?thesis using 4 c by (simp add: cmp3_def)
  next
    case False
    then consider "part_key p < part_key q" | "part_key q < part_key p" by fastforce
    then show ?thesis by cases (auto simp: c cmp3_def)
  qed
qed (auto simp: cmp3_def compare_part_absent)

lemma tokenizer_fit:
  assumes "unicode_ok u" and "list_all (\<lambda>r. is_rune r \<and> (uc_digit u r \<longrightarrow> r < 128)) s"
  shows "\<exists>parts. tokenizer u s = Some parts
    \<and> list_all (\<lambda>p. p \<noteq> [] \<and> (list_all ascii_digit p \<or> list_all (\<lambda>r. 65 \<le> r) p)) parts"
  using assms(2)
proof (induction "length s" arbitrary: s rule: less_induct)
  case less
  have runes: "list_all is_rune s" using less.prems by (auto simp: list_all_iff)
  have asc: "uc_digit u r = ascii_digit r" if "r \<in> set s" for r
    using that less.prems assms(1) by (auto simp: list_all_iff unicode_ok_def ascii_digit_def)
  show ?case
  proof (cases rule: tokenizer_split [OF assms(1) runes])
    case 1
    then show ?thesis by simp
  next
    case 2
    have "\<not> stuck_digit u d s" for d
      using less.prems by (induction s arbitrary: d) auto
    then show ?thesis using 2 by simp
  next
    case (3 gap part rest)
    obtain parts where IH: "tokenizer u rest = Some parts"
        "list_all (\<lambda>p. p \<noteq> [] \<and> (list_all ascii_digit p \<or> list_all (\<lambda>r. 65 \<le> r) p)) parts"
      using less.hyps [of rest] 3(1,2) less.prems by auto
    have "list_all ascii_digit part \<or> list_all (\<lambda>r. 65 \<le> r) part"
      using 3(5) asc 3(1) assms(1) by (auto simp: list_all_iff unicode_ok_def)
    then show ?thesis using IH 3(2,3) by simp
  qed
qed

lemma ordinary_tokens:
  assumes "unicode_ok u" and "ordinary u v"
  obtains parts where "tokenizer u v = Some parts" "list_all fit_token parts"
proof -
  obtain parts where "tokenizer u v = Some parts"
      "list_all (\<lambda>p. p \<noteq> [] \<and> (list_all ascii_digit p \<or> list_all (\<lambda>r. 65 \<le> r) p)) parts"
    using tokenizer_fit [of u v] assms by (auto simp: ordinary_def)
  moreover from this have "list_all fit_token parts"
    using assms(2) by (auto simp: ordinary_def fit_token_def list_all_iff)
  ultimately show ?thesis using that by blast
qed

lemma CompareVersions_key:
  assumes "unicode_ok u" and "ordinary u v1" and "ordinary u v2"
  shows "CompareVersions u v1 v2 = Some (cmp3 (version_key u v1) (version_key u v2))"
proof -
  obtain ps where "tokenizer u v1 = Some ps" "list_all fit_token ps" using ordinary_tokens [OF assms(1,2)] .
  moreover obtain qs where "tokenizer u v2 = Some qs" "list_all fit_token qs" using ordinary_tokens [OF assms(1,3)] .
  ultimately show ?thesis by (simp add: CompareVersions_def version_key_def compare_parts_key)
qed


subsection \<open>Affected ranges\<close>

text \<open>The events of a range in schema order: pairs of an introduced and a fixed version,
  and possibly a last introduced version that is not fixed yet.\<close>

type_synonym osv_span = "(runes \<times> runes) list \<times> runes option"

definition span_events :: "osv_span \<Rightarrow> osvEvent list" where
  "span_events = (\<lambda>(pairs, open_end).
     concat (map (\<lambda>(a, b). [\<lparr>ev_Introduced = a, ev_Fixed = []\<rparr>, \<lparr>ev_Introduced = [], ev_Fixed = b\<rparr>]) pairs)
     @ (case open_end of None \<Rightarrow> [] | Some a \<Rightarrow> [\<lparr>ev_Introduced = a, ev_Fixed = []\<rparr>]))"

definition span_bounds :: "osv_span \<Rightarrow> runes list" where
  "span_bounds = (\<lambda>(pairs, open_end).
     concat (map (\<lambda>(a, b). [a, b]) pairs) @ (case open_end of None \<Rightarrow> [] | Some a \<Rightarrow> [a]))"

definition span_ok :: "unicode \<Rightarrow> osv_span \<Rightarrow> bool" where
  "span_ok u sp \<longleftrightarrow> list_all (\<lambda>b. ordinary u b \<and> b \<noteq> []) (span_bounds sp)
     \<and> sorted (map (version_key u) (span_bounds sp))"

definition in_span :: "unicode \<Rightarrow> runes \<Rightarrow> osv_span \<Rightarrow> bool" where
  "in_span u v = (\<lambda>(pairs, open_end).
     (\<exists>(a, b) \<in> set pairs. version_key u a \<le> version_key u v \<and> version_key u v < version_key u b)
     \<or> (\<exists>a. open_end = Some a \<and> version_key u a \<le> version_key u v))"

lemma reaches_key:
  assumes "unicode_ok u" and "ordinary u t"
  shows "b \<noteq> [] \<Longrightarrow> ordinary u b \<Longrightarrow> reaches u t b = Some (version_key u b \<le> version_key u t)"
    and "reaches u t [] = Some False"
  by (auto simp: reaches_def CompareVersions_key [OF assms] cmp3_def)

lemma walk_before:
  assumes "unicode_ok u" and "ordinary u t" and "list_all (\<lambda>b. ordinary u b \<and> b \<noteq> []) (span_bounds (pairs, open_end))"
    and "\<forall>b \<in> set (span_bounds (pairs, open_end)). version_key u t < version_key u b"
  shows "walk_events u t (span_events (pairs, open_end)) flag = Some flag"
  using assms(3,4)
proof (induction pairs arbitrary: flag)
  case Nil
  then show ?case
    by (cases open_end) (auto simp: span_events_def span_bounds_def event_step_def reaches_key [OF assms(1,2)])
next
  case (Cons ab pairs)
  obtain a b where ab: "ab = (a, b)" by (cases ab)
  have "span_events (ab # pairs, open_end)
      = \<lparr>ev_Introduced = a, ev_Fixed = []\<rparr> # \<lparr>ev_Introduced = [], ev_Fixed = b\<rparr> # span_events (pairs, open_end)"
    by (simp add: span_events_def ab)
  moreover have "span_bounds (ab # pairs, open_end) = a # b # span_bounds (pairs, open_end)"
    by (simp add: span_bounds_def ab)
  ultimately show ?case using Cons by (auto simp: event_step_def reaches_key [OF assms(1,2)])
qed

lemma walk_span:
  assumes "unicode_ok u" and "ordinary u t" and "span_ok u (pairs, open_end)"
  shows "walk_events u t (span_events (pairs, open_end)) False = Some (in_span u t (pairs, open_end))"
  using assms(3)
proof (induction pairs)
  case Nil
  then show ?case
    by (cases open_end) (auto simp: span_ok_def in_span_def span_events_def span_bounds_def event_step_def
        reaches_key [OF assms(1,2)])
next
  case (Cons ab pairs)
  obtain a b where ab: "ab = (a, b)" by (cases ab)
  let ?key = "version_key u"
  have ev: "span_events (ab # pairs, open_end)
      = \<lparr>ev_Introduced = a, ev_Fixed = []\<rparr> # \<lparr>ev_Introduced = [], ev_Fixed = b\<rparr> # span_events (pairs, open_end)"
    by (simp add: span_events_def ab)
  have bs: "span_bounds (ab # pairs, open_end) = a # b # span_bounds (pairs, open_end)"
    by (simp add: span_bounds_def ab)
  have ord: "ordinary u a" "a \<noteq> []" "ordinary u b" "b \<noteq> []" "?key a \<le> ?key b"
      "\<forall>c \<in> set (span_bounds (pairs, open_end)). ?key b \<le> ?key c" and rest: "span_ok u (pairs, open_end)"
    using Cons.prems by (auto simp: span_ok_def bs)
  show ?case
  proof (cases "?key b \<le> ?key t")
    case True
    then have "walk_events u t (span_events (ab # pairs, open_end)) False
        = walk_events u t (span_events (pairs, open_end)) False"
      using ord by (simp add: ev event_step_def reaches_key [OF assms(1,2)])
    moreover have "in_span u t (ab # pairs, open_end) = in_span u t (pairs, open_end)"
      using True by (auto simp: in_span_def ab)
    ultimately show ?thesis using Cons.IH [OF rest] by simp
  next
    case False
    then have lt: "\<forall>c \<in> set (span_bounds (pairs, open_end)). ?key t < ?key c" using ord(6) by fastforce
    have "walk_events u t (span_events (pairs, open_end)) flag = Some flag" for flag
      using walk_before [OF assms(1,2) _ lt] rest by (simp add: span_ok_def)
    then have walked: "walk_events u t (span_events (ab # pairs, open_end)) False = Some (?key a \<le> ?key t)"
      using ord False by (simp add: ev event_step_def reaches_key [OF assms(1,2)])
    have "c \<in> set (span_bounds (pairs, open_end))" if "(c, d) \<in> set pairs" for c d
      using that by (force simp: span_bounds_def)
    then have "\<not> ?key c \<le> ?key t" if "(c, d) \<in> set pairs" for c d using lt that by (simp add: not_le)
    moreover have "\<not> ?key c \<le> ?key t" if "open_end = Some c" for c
      using lt that by (simp add: span_bounds_def not_le)
    ultimately have "in_span u t (ab # pairs, open_end) \<longleftrightarrow> ?key a \<le> ?key t"
      using False by (fastforce simp: in_span_def ab not_le dest: leD)
    with walked show ?thesis by simp
  qed
qed

definition osv_ranges :: "(string \<times> osv_span) list \<Rightarrow> osvRange list" where
  "osv_ranges = map (\<lambda>(ty, sp). \<lparr>rng_Type = ty, rng_Events = span_events sp\<rparr>)"

definition osv_entries :: "(runes list \<times> osvSeverity list \<times> (string \<times> osv_span) list) list \<Rightarrow> osvAffected list" where
  "osv_entries = map (\<lambda>(vs, sevs, rs). \<lparr>aff_Ranges = osv_ranges rs, aff_Versions = vs, aff_Severity = sevs\<rparr>)"

definition hits_range :: "unicode \<Rightarrow> runes \<Rightarrow> string \<times> osv_span \<Rightarrow> bool" where
  "hits_range u v = (\<lambda>(ty, sp). (ty = ''SEMVER'' \<or> ty = ''ECOSYSTEM'') \<and> in_span u v sp)"

lemma ranges_hit:
  assumes "unicode_ok u" and "ordinary u t" and "\<forall>(ty, sp) \<in> set rs. span_ok u sp"
  shows "affected_ranges u t (osv_ranges rs) = Some (\<exists>r \<in> set rs. hits_range u t r)"
  using assms(3) by (induction rs) (auto simp: osv_ranges_def hits_range_def walk_span [OF assms(1,2)])

lemma entries_hit:
  assumes "unicode_ok u" and "ordinary u t" and "\<forall>(vs, sevs, rs) \<in> set es. \<forall>(ty, sp) \<in> set rs. span_ok u sp"
  shows "affected_entries u t (osv_entries es) = Some (\<exists>(vs, sevs, rs) \<in> set es. t \<in> set vs \<or> (\<exists>r \<in> set rs. hits_range u t r))"
  using assms(3) by (induction es) (auto simp: osv_entries_def ranges_hit [OF assms(1,2)])

subsection \<open>Properties\<close>

text \<open>The tables of a small alphabet: ASCII, and the Arabic-Indic digits.\<close>

definition small_unicode :: unicode where
  "small_unicode = \<lparr>uc_digit = \<lambda>r. ascii_digit r \<or> 0x660 \<le> r \<and> r \<le> 0x669,
     uc_letter = \<lambda>r. 65 \<le> r \<and> r \<le> 90 \<or> 97 \<le> r \<and> r \<le> 122\<rparr>"

lemma small_unicode_ok: "unicode_ok small_unicode"
  by (auto simp: unicode_ok_def small_unicode_def ascii_digit_def)

definition runes_of :: "string \<Rightarrow> runes" where
  "runes_of s = map of_char s"

lemmas small_eval = runes_of_def is_rune_def small_unicode_def ascii_digit_def ordinary_def tokenizer.simps Let_def
  first_byte_def token_char_def span_ok_def span_bounds_def hits_range_def in_span_def version_key_def part_key_def
  atoi_runes_def atoi_def is_digit_def less_eq_char_def digit_val_def max_int64_def min_int64_def char_no_sign

text \<open>C24: comparing two versions returns unless one of them has a decimal digit outside
  ASCII that no digit precedes; on such a version the tokenizer never returns.\<close>

theorem version_comparison_returns_iff:
  assumes "unicode_ok u" and "list_all is_rune v1" and "list_all is_rune v2"
  shows "CompareVersions u v1 v2 = None \<longleftrightarrow> stuck_digit u False v1 \<or> stuck_digit u False v2"
  using tokenizer_None_iff [OF assms(1,2)] tokenizer_None_iff [OF assms(1,3)]
  by (cases "tokenizer u v1"; cases "tokenizer u v2") (simp_all add: CompareVersions_def)

theorem version_comparison_returns_iff_witness:
  "CompareVersions small_unicode (runes_of ''8.'' @ [0x663]) (runes_of ''8.3'') = None
   \<and> CompareVersions small_unicode (runes_of ''8.9p1'') (runes_of ''8.10'') \<noteq> None"
proof -
  have "list_all is_rune (runes_of ''8.'' @ [0x663])" "list_all is_rune (runes_of ''8.3'')"
      "list_all is_rune (runes_of ''8.9p1'')" "list_all is_rune (runes_of ''8.10'')"
      "stuck_digit small_unicode False (runes_of ''8.'' @ [0x663])"
      "\<not> stuck_digit small_unicode False (runes_of ''8.9p1'')" "\<not> stuck_digit small_unicode False (runes_of ''8.10'')"
    by (simp_all add: runes_of_def is_rune_def small_unicode_def ascii_digit_def)
  then show ?thesis
    using version_comparison_returns_iff [OF small_unicode_ok] by blast
qed

text \<open>C23: for ordinary versions an OSV entry affects a version exactly when it is listed or
  lies in one of the half-open spans from an introduced to the next fixed version of a
  SEMVER or ECOSYSTEM range, in the order that compares numbers by value.\<close>

theorem affected_iff_in_a_span:
  assumes "unicode_ok u" and "ordinary u v" and "es \<noteq> []"
    and "\<forall>(vs, sevs, rs) \<in> set es. \<forall>(ty, sp) \<in> set rs. span_ok u sp"
  shows "IsVersionAffected u v (osv_entries es)
    = Some (\<exists>(vs, sevs, rs) \<in> set es. v \<in> set vs \<or> (\<exists>r \<in> set rs. hits_range u v r))"
  using entries_hit [OF assms(1,2,4)] assms(3) by (auto simp: IsVersionAffected_def osv_entries_def)


theorem affected_iff_in_a_span_witness:
  "IsVersionAffected small_unicode (runes_of ''8.10'')
     (osv_entries [([], [], [(''SEMVER'', ([(runes_of ''8.9'', runes_of ''9.3'')], None))])]) = Some True"
proof -
  let ?es = "[([], [], [(''SEMVER'', ([(runes_of ''8.9'', runes_of ''9.3'')], None))])]"
  have "ordinary small_unicode (runes_of ''8.10'')"
      "\<forall>(vs, sevs, rs) \<in> set ?es. \<forall>(ty, sp) \<in> set rs. span_ok small_unicode sp"
      "\<exists>(vs, sevs, rs) \<in> set ?es. runes_of ''8.10'' \<in> set vs \<or> (\<exists>r \<in> set rs. hits_range small_unicode (runes_of ''8.10'') r)"
    by (simp_all add: small_eval)
  then show ?thesis
    using affected_iff_in_a_span [OF small_unicode_ok, of "runes_of ''8.10''" ?es] by simp
qed

text \<open>A number that does not fit an \<open>int64\<close> is compared as text, and the comparison is no
  longer an order: 9 before 10, 10 before \<open>10 ^ 19\<close>, and \<open>10 ^ 19\<close> before 9.\<close>

theorem version_overflow_cycle:
  "CompareVersions small_unicode (runes_of ''9'') (runes_of ''10'') = Some (-1)
   \<and> CompareVersions small_unicode (runes_of ''10'') (runes_of ''10000000000000000000'') = Some (-1)
   \<and> CompareVersions small_unicode (runes_of ''10000000000000000000'') (runes_of ''9'') = Some (-1)"
  by (simp add: CompareVersions_def small_eval compare_part_def)

end
