(* ===== verification/Vulns.thy ===== *)
theory Vulns
  imports Versions
begin

text \<open>
  \<open>internal/vuln\<close>: the identifiers, the merging of the OSV entries into rows, the
  distribution packages, the offline table, the filters and the exploitability order
  (\<open>osv.go\<close>, \<open>scanner.go\<close>, \<open>distro.go\<close>, \<open>offline.go\<close>, \<open>prioritize.go\<close>).

  The answers of the OSV, KEV and EPSS services are arguments, already decoded; the
  score of a CVSS vector (\<open>cvss.go\<close>, floating point) is the argument \<open>cvss3\<close>.
  A score is only compared and stored, and is a rational.
\<close>

subsection \<open>Identifiers\<close>

text \<open>\<open>cveIDPattern.FindString\<close>: the leftmost match of \<open>CVE-\<close>, four digits, a hyphen and a
  run of digits.\<close>

definition cve_match :: "string \<Rightarrow> string option" where
  "cve_match s =
     (if has_prefix s ''CVE-'' \<and> length s > 9 \<and> list_all is_digit (take 4 (drop 4 s)) \<and> s ! 8 = CHR ''-''
        \<and> is_digit (s ! 9)
      then Some (take 9 s @ takeWhile is_digit (drop 9 s)) else None)"

fun cve_find :: "string \<Rightarrow> string" where
  "cve_find [] = []"
| "cve_find (c # cs) = (case cve_match (c # cs) of Some m \<Rightarrow> m | None \<Rightarrow> cve_find cs)"

record osvVulnerability =
  ov_ID :: string
  ov_Aliases :: "string list"
  ov_Summary :: string
  ov_Details :: string
  ov_Severity :: "osvSeverity list"
  ov_DatabaseScore :: "rat option"
  ov_Affected :: "osvAffected list"

fun first_alias :: "string list \<Rightarrow> string option" where
  "first_alias [] = None"
| "first_alias (a # as) = (if cve_find a \<noteq> [] then Some (cve_find a) else first_alias as)"

definition canonicalCVEID :: "osvVulnerability \<Rightarrow> string" where
  "canonicalCVEID v =
     (if cve_find (ov_ID v) \<noteq> [] then cve_find (ov_ID v)
      else (case first_alias (ov_Aliases v) of Some m \<Rightarrow> m | None \<Rightarrow> ov_ID v))"

subsection \<open>Scores and rows\<close>

definition maxCVSSV3 :: "(string \<Rightarrow> rat) \<Rightarrow> osvSeverity list \<Rightarrow> rat" where
  "maxCVSSV3 cvss3 severities =
     fold (\<lambda>s best. if sev_Type s = ''CVSS_V3'' \<and> sev_Score s \<noteq> [] \<and> cvss3 (sev_Score s) > best
                     then cvss3 (sev_Score s) else best) severities 0"

fun first_affected_score :: "(string \<Rightarrow> rat) \<Rightarrow> osvAffected list \<Rightarrow> rat" where
  "first_affected_score cvss3 [] = 0"
| "first_affected_score cvss3 (a # as) =
     (if maxCVSSV3 cvss3 (aff_Severity a) > 0 then maxCVSSV3 cvss3 (aff_Severity a)
      else first_affected_score cvss3 as)"

definition extractCVSSScore :: "(string \<Rightarrow> rat) \<Rightarrow> osvVulnerability \<Rightarrow> rat" where
  "extractCVSSScore cvss3 v =
     (case ov_DatabaseScore v of
        Some score \<Rightarrow> if score > 0 then score
          else if maxCVSSV3 cvss3 (ov_Severity v) > 0 then maxCVSSV3 cvss3 (ov_Severity v)
          else first_affected_score cvss3 (ov_Affected v)
      | None \<Rightarrow> if maxCVSSV3 cvss3 (ov_Severity v) > 0 then maxCVSSV3 cvss3 (ov_Severity v)
          else first_affected_score cvss3 (ov_Affected v))"

definition osv_title :: "osvVulnerability \<Rightarrow> string" where
  "osv_title v =
     (let title = (if ov_Summary v = [] then ov_Details v else ov_Summary v)
      in if length title > 100 then take 97 title @ ''...'' else title)"

definition vuln_row :: "string \<Rightarrow> string \<Rightarrow> rat \<Rightarrow> Vulnerability" where
  "vuln_row i title cvss =
     \<lparr>vuln_ID = i, vuln_Title = title, vuln_CVSS = cvss, vuln_Severity = [], vuln_Remediation = [],
      vuln_Confidence = [], vuln_Applicability = [], vuln_KnownExploited = False, vuln_EPSS = 0, vuln_EPSSPercentile = 0\<rparr>"

text \<open>The row an entry merges into: the one with its identifier, if there is one.\<close>

definition merge_row :: "string \<Rightarrow> rat \<Rightarrow> Vulnerability \<Rightarrow> Vulnerability" where
  "merge_row title cvss row =
     row\<lparr>vuln_CVSS := (if cvss > vuln_CVSS row then cvss else vuln_CVSS row),
         vuln_Title := (if vuln_Title row = [] then title else vuln_Title row)\<rparr>"

definition add_row :: "string \<Rightarrow> string \<Rightarrow> rat \<Rightarrow> Vulnerability list \<Rightarrow> Vulnerability list" where
  "add_row i title cvss rows =
     (if i \<in> set (map vuln_ID rows)
      then map (\<lambda>row. if vuln_ID row = i then merge_row title cvss row else row) rows
      else rows @ [vuln_row i title cvss])"

fun query_rows :: "unicode \<Rightarrow> (string \<Rightarrow> rat) \<Rightarrow> runes \<Rightarrow> osvVulnerability list \<Rightarrow> Vulnerability list
    \<Rightarrow> Vulnerability list option" where
  "query_rows u cvss3 version [] rows = Some rows"
| "query_rows u cvss3 version (v # vs) rows =
     Option.bind (IsVersionAffected u version (ov_Affected v)) (\<lambda>affected.
       query_rows u cvss3 version vs
         (if affected then add_row (canonicalCVEID v) (osv_title v) (extractCVSSScore cvss3 v) rows else rows))"

definition query :: "unicode \<Rightarrow> (string \<Rightarrow> rat) \<Rightarrow> runes \<Rightarrow> osvVulnerability list \<Rightarrow> Vulnerability list option" where
  "query u cvss3 version vulns = query_rows u cvss3 version vulns []"


subsection \<open>Severity, applicability and relevance\<close>

definition SeverityForCVSS :: "rat \<Rightarrow> string" where
  "SeverityForCVSS score =
     (if score \<ge> 9 then ''critical'' else if score \<ge> 7 then ''high'' else if score \<ge> 4 then ''medium''
      else if score > 0 then ''low'' else ''info'')"

definition Enrich :: "Vulnerability list \<Rightarrow> Vulnerability list" where
  "Enrich = map (\<lambda>v. v\<lparr>vuln_Severity := SeverityForCVSS (vuln_CVSS v),
     vuln_Remediation := ''Update the affected software to a vendor-supported version and verify the remediation.'',
     vuln_Confidence := (if vuln_Confidence v = [] then ''version-based'' else vuln_Confidence v)\<rparr>)"

definition osFamily :: "string \<Rightarrow> string" where
  "osFamily name =
     (let n = to_lower name in
      if n = ''windows'' then ''windows''
      else if n \<in> {''macos'', ''mac os'', ''mac os x'', ''darwin''} then ''macos''
      else if n = ''freebsd'' then ''freebsd''
      else if n \<in> {''ubuntu'', ''debian'', ''alpine'', ''centos'', ''amazon'', ''linux''} then ''linux''
      else [])"

definition word_char :: "char \<Rightarrow> bool" where
  "word_char c \<longleftrightarrow> is_digit c \<or> is_letter c \<or> c = CHR ''_''"

text \<open>\<open>\b\<close> between the byte before a position and the bytes from it on.\<close>

definition word_boundary :: "char option \<Rightarrow> string \<Rightarrow> bool" where
  "word_boundary before s \<longleftrightarrow>
     (case before of None \<Rightarrow> False | Some c \<Rightarrow> word_char c) \<noteq> (case s of [] \<Rightarrow> False | c # cs \<Rightarrow> word_char c)"

text \<open>The alternatives of a case-insensitive group at a position, in the order the pattern
  lists them; \<open>whole\<close> asks for a word boundary after the match.\<close>

fun match_word :: "bool \<Rightarrow> string list \<Rightarrow> string \<Rightarrow> string option" where
  "match_word whole [] s = None"
| "match_word whole (w # ws) s =
     (if has_prefix (to_lower s) w \<and> (whole \<longrightarrow> word_boundary (Some (s ! (length w - 1))) (drop (length w) s))
      then Some (take (length w) s) else match_word whole ws s)"

fun find_word :: "bool \<Rightarrow> string list \<Rightarrow> char option \<Rightarrow> string \<Rightarrow> string option" where
  "find_word whole ws before [] = None"
| "find_word whole ws before (c # cs) =
     (case (if word_boundary before (c # cs) then match_word whole ws (c # cs) else None) of
        Some m \<Rightarrow> Some m
      | None \<Rightarrow> find_word whole ws (Some c) cs)"

text \<open>\<open>Mac OS X?\<close>: the optional letter is tried first, and the space before it is not optional.\<close>

definition os_mention :: "string \<Rightarrow> string option" where
  "os_mention = find_word True [''windows'', ''macos'', ''mac os x'', ''mac os '', ''darwin'', ''freebsd''] None"

definition component_mention :: "string \<Rightarrow> string option" where
  "component_mention = find_word False [''wsrep'', ''galera''] None"

definition annotate :: "string \<Rightarrow> Vulnerability \<Rightarrow> Vulnerability" where
  "annotate detectedOS v =
     (let detected = osFamily detectedOS;
          mentioned = (case os_mention (vuln_Title v) of Some m \<Rightarrow> osFamily m | None \<Rightarrow> [])
      in if os_mention (vuln_Title v) \<noteq> None \<and> detected \<noteq> [] \<and> mentioned \<noteq> [] \<and> mentioned \<noteq> detected
         then v\<lparr>vuln_Applicability := ''not_applicable_os:'' @ mentioned\<rparr>
         else (case component_mention (vuln_Title v) of
                 Some m \<Rightarrow> v\<lparr>vuln_Applicability := ''requires_component:'' @ to_lower m\<rparr>
               | None \<Rightarrow> v))"

definition AnnotateApplicability :: "Vulnerability list \<Rightarrow> string \<Rightarrow> Vulnerability list" where
  "AnnotateApplicability vulns detectedOS = map (annotate detectedOS) vulns"

definition relevant_prefixes :: "string \<Rightarrow> string list" where
  "relevant_prefixes detectedOS =
     (if detectedOS = ''ubuntu'' then [''UBUNTU-''] else if detectedOS = ''debian'' then [''DEBIAN-'']
      else if detectedOS = ''alpine'' then [''ALPINE-''] else if detectedOS = ''amazon'' then [''ALSA-'', ''AZL-'']
      else []) @ [''CVE-'', ''GHSA-'']"

definition FilterRelevantCVEs :: "Vulnerability list \<Rightarrow> string \<Rightarrow> Vulnerability list" where
  "FilterRelevantCVEs vulns detectedOS =
     (if detectedOS = ''unknown'' then filter (\<lambda>v. vuln_CVSS v \<ge> 5) vulns
      else filter (\<lambda>v. list_ex (has_prefix (vuln_ID v)) (relevant_prefixes detectedOS)) vulns)"

subsection \<open>Distribution packages\<close>

record DistroPackage =
  dp_Ecosystem :: string
  dp_Name :: string
  dp_Version :: string

definition deb_match :: "string \<Rightarrow> string option" where
  "deb_match s =
     (let m = takeWhile is_digit (drop 4 s); rest = drop (4 + length m) s in
      if has_prefix s ''+deb'' \<and> m \<noteq> [] \<and> has_prefix rest ''u'' \<and> takeWhile is_digit (drop 1 rest) \<noteq> []
      then Some m else None)"

definition ubu_match :: "string \<Rightarrow> string option" where
  "ubu_match s =
     (if has_prefix s ''~ubu'' \<and> length s \<ge> 8 \<and> list_all is_digit (take 4 (drop 4 s))
      then Some (take 2 (drop 4 s) @ ''.'' @ take 2 (drop 6 s)) else None)"

fun find_first :: "(string \<Rightarrow> string option) \<Rightarrow> string \<Rightarrow> string option" where
  "find_first m [] = None"
| "find_first m (c # cs) = (case m (c # cs) of Some r \<Rightarrow> Some r | None \<Rightarrow> find_first m cs)"

definition dpkgVersionFromBanner :: "string \<Rightarrow> string \<Rightarrow> string" where
  "dpkgVersionFromBanner upstreamVersion banner =
     (case index_str banner ''-MariaDB-'' of
        None \<Rightarrow> banner
      | Some i \<Rightarrow>
          (let suffix = drop (i + 9) banner in
           if upstreamVersion \<noteq> [] \<and> \<not> contains_str suffix upstreamVersion
           then upstreamVersion @ ''-'' @ suffix else suffix))"

definition DetectDistroPackage :: "string \<Rightarrow> string \<Rightarrow> string \<Rightarrow> DistroPackage option" where
  "DetectDistroPackage software upstreamVersion banner =
     (let name = (if software = ''apache'' then ''apache2'' else software);
          version = dpkgVersionFromBanner upstreamVersion banner
      in case find_first deb_match banner of
           Some m \<Rightarrow> Some \<lparr>dp_Ecosystem = ''Debian:'' @ m, dp_Name = name, dp_Version = version\<rparr>
         | None \<Rightarrow>
             (case find_first ubu_match banner of
                Some m \<Rightarrow> Some \<lparr>dp_Ecosystem = ''Ubuntu:'' @ m, dp_Name = name, dp_Version = version\<rparr>
              | None \<Rightarrow> None))"

subsection \<open>The offline table\<close>

type_synonym offline_db = "string \<rightharpoonup> string \<rightharpoonup> Vulnerability list"

definition OfflineScanner_GetForSoftware :: "offline_db \<Rightarrow> string \<Rightarrow> string \<Rightarrow> Vulnerability list" where
  "OfflineScanner_GetForSoftware db software version =
     (case db (to_lower software) of
        None \<Rightarrow> []
      | Some versions \<Rightarrow> (case versions version of None \<Rightarrow> [] | Some vs \<Rightarrow> vs))"

definition AddSoftwareToOfflineDB :: "string \<Rightarrow> string \<Rightarrow> Vulnerability list \<Rightarrow> offline_db \<Rightarrow> offline_db" where
  "AddSoftwareToOfflineDB software version newVulns db =
     (let s = to_lower software;
          versions = (case db s of None \<Rightarrow> Map.empty | Some vs \<Rightarrow> vs)
      in db(s \<mapsto> versions(version \<mapsto> newVulns)))"

subsection \<open>Exploitability\<close>

fun uniqueCVEIDs :: "string list \<Rightarrow> Vulnerability list \<Rightarrow> string list" where
  "uniqueCVEIDs seen [] = []"
| "uniqueCVEIDs seen (v # vs) =
     (let i = cve_find (vuln_ID v) in
      if i = [] \<or> List.member seen i then uniqueCVEIDs seen vs else i # uniqueCVEIDs (i # seen) vs)"

text \<open>The slices of at most \<open>epssBatchSize\<close> identifiers that are sent in one query.\<close>

function epss_batches :: "string list \<Rightarrow> string list list" where
  "epss_batches ids = (if ids = [] then [] else take 100 ids # epss_batches (drop 100 ids))"
  by auto
termination by (relation "measure length") auto

declare epss_batches.simps [simp del]

definition exploit_enrich ::
  "(string \<Rightarrow> bool) \<Rightarrow> (string \<Rightarrow> (rat \<times> rat) option) \<Rightarrow> Vulnerability list \<Rightarrow> Vulnerability list" where
  "exploit_enrich kev epss vulns =
     (if uniqueCVEIDs [] vulns = [] then vulns
      else map (\<lambda>v.
        let i = cve_find (vuln_ID v) in
        if i = [] then v
        else
          (let v1 = (if kev i then v\<lparr>vuln_KnownExploited := True\<rparr> else v) in
           case epss i of
             Some (score, percentile) \<Rightarrow> v1\<lparr>vuln_EPSS := score, vuln_EPSSPercentile := percentile\<rparr>
           | None \<Rightarrow> v1)) vulns)"

definition more_urgent :: "Vulnerability \<Rightarrow> Vulnerability \<Rightarrow> bool" where
  "more_urgent a b =
     (if vuln_KnownExploited a \<noteq> vuln_KnownExploited b then vuln_KnownExploited a
      else if vuln_EPSS a \<noteq> vuln_EPSS b then vuln_EPSS a > vuln_EPSS b
      else vuln_CVSS a > vuln_CVSS b)"

definition PrioritizeExploitability :: "Vulnerability list \<Rightarrow> Vulnerability list" where
  "PrioritizeExploitability vulns = sort_by more_urgent vulns"

interpretation urgency: weak_order more_urgent
  by unfold_locales (auto simp: more_urgent_def split: if_splits)


subsection \<open>Properties\<close>

lemma dedup_from_snoc:
  "dedup_from seen (xs @ [x]) = dedup_from seen xs @ (if x \<in> set seen \<union> set xs then [] else [x])"
  by (induction seen xs rule: dedup_from.induct) auto

lemma dedup_snoc: "dedup (xs @ [x]) = dedup xs @ (if x \<in> set xs then [] else [x])"
  by (simp add: dedup_def dedup_from_snoc)

definition rows_of :: "(string \<Rightarrow> rat) \<Rightarrow> osvVulnerability list \<Rightarrow> Vulnerability list" where
  "rows_of cvss3 vs = fold (\<lambda>v. add_row (canonicalCVEID v) (osv_title v) (extractCVSSScore cvss3 v)) vs []"

lemma query_rows_fold:
  "\<forall>v \<in> set vs. IsVersionAffected u version (ov_Affected v) = Some (hit v) \<Longrightarrow>
     query_rows u cvss3 version vs rows
       = Some (fold (\<lambda>v. add_row (canonicalCVEID v) (osv_title v) (extractCVSSScore cvss3 v)) (filter hit vs) rows)"
  by (induction vs arbitrary: rows) auto

lemma merge_row_ID [simp]: "vuln_ID (merge_row t c row) = vuln_ID row"
  by (simp add: merge_row_def)

lemma add_row_IDs: "map vuln_ID (add_row i t c rows) = map vuln_ID rows @ (if i \<in> set (map vuln_ID rows) then [] else [i])"
  by (auto simp: add_row_def vuln_row_def)

lemma rows_of_IDs: "map vuln_ID (rows_of cvss3 vs) = dedup (map canonicalCVEID vs)"
proof (induction vs rule: rev_induct)
  case Nil
  then show ?case by (simp add: rows_of_def dedup_def)
next
  case (snoc v vs)
  then have "set (map vuln_ID (rows_of cvss3 vs)) = set (map canonicalCVEID vs)" by (metis set_dedup)
  then show ?case using snoc by (simp add: rows_of_def add_row_IDs dedup_snoc del: set_map)
qed

definition best_score :: "(string \<Rightarrow> rat) \<Rightarrow> osvVulnerability list \<Rightarrow> string \<Rightarrow> rat" where
  "best_score cvss3 vs i = Max (extractCVSSScore cvss3 ` {v \<in> set vs. canonicalCVEID v = i})"

lemma best_score_snoc:
  "best_score cvss3 (vs @ [v]) i =
     (if canonicalCVEID v \<noteq> i then best_score cvss3 vs i
      else if i \<in> canonicalCVEID ` set vs then max (extractCVSSScore cvss3 v) (best_score cvss3 vs i)
      else extractCVSSScore cvss3 v)"
proof (cases "canonicalCVEID v = i")
  case True
  then have "{w \<in> set (vs @ [v]). canonicalCVEID w = i} = insert v {w \<in> set vs. canonicalCVEID w = i}" by auto
  then have new: "best_score cvss3 (vs @ [v]) i
      = Max (insert (extractCVSSScore cvss3 v) (extractCVSSScore cvss3 ` {w \<in> set vs. canonicalCVEID w = i}))"
    by (simp only: best_score_def image_insert)
  show ?thesis
  proof (cases "i \<in> canonicalCVEID ` set vs")
    case yes: True
    then have "{w \<in> set vs. canonicalCVEID w = i} \<noteq> {}" by auto
    then show ?thesis unfolding new using True yes by (subst Max_insert) (simp_all add: best_score_def)
  next
    case no: False
    then have none: "{w \<in> set vs. canonicalCVEID w = i} = {}" by auto
    show ?thesis unfolding new none using True no by simp
  qed
next
  case False
  then have "{w \<in> set (vs @ [v]). canonicalCVEID w = i} = {w \<in> set vs. canonicalCVEID w = i}" by auto
  then show ?thesis using False by (simp add: best_score_def)
qed

lemma rows_of_scores: "row \<in> set (rows_of cvss3 vs) \<Longrightarrow> vuln_CVSS row = best_score cvss3 vs (vuln_ID row)"
proof (induction vs arbitrary: row rule: rev_induct)
  case Nil
  then show ?case by (simp add: rows_of_def)
next
  case (snoc v vs)
  have IDs: "vuln_ID ` set (rows_of cvss3 vs) = canonicalCVEID ` set vs"
    using rows_of_IDs [of cvss3 vs] by (metis list.set_map set_dedup)
  have *: "row \<in> set (add_row (canonicalCVEID v) (osv_title v) (extractCVSSScore cvss3 v) (rows_of cvss3 vs))"
    using snoc.prems by (simp add: rows_of_def)
  then consider (merged) r where "r \<in> set (rows_of cvss3 vs)" "vuln_ID r = canonicalCVEID v" "canonicalCVEID v \<in> canonicalCVEID ` set vs"
      "row = merge_row (osv_title v) (extractCVSSScore cvss3 v) r"
    | (kept) "row \<in> set (rows_of cvss3 vs)" "vuln_ID row \<noteq> canonicalCVEID v"
    | (new) "canonicalCVEID v \<notin> canonicalCVEID ` set vs" "row = vuln_row (canonicalCVEID v) (osv_title v) (extractCVSSScore cvss3 v)"
  proof (cases "canonicalCVEID v \<in> canonicalCVEID ` set vs")
    case True
    then show ?thesis using * IDs merged kept by (auto simp: add_row_def split: if_splits)
  next
    case False
    then have "row \<in> set (rows_of cvss3 vs) \<Longrightarrow> vuln_ID row \<noteq> canonicalCVEID v" using IDs by (metis imageI)
    then show ?thesis using * IDs False kept new by (auto simp: add_row_def)
  qed
  then show ?case
  proof cases
    case merged
    then show ?thesis using snoc.IH [of r] by (auto simp: best_score_snoc merge_row_def max_def)
  next
    case kept
    then show ?thesis using snoc.IH [of row] by (simp add: best_score_snoc)
  next
    case new
    then show ?thesis by (simp add: best_score_snoc vuln_row_def)
  qed
qed

text \<open>The OSV answer becomes one row per canonical identifier of an affected entry, in
  first-seen order, with the highest score any of the entries under that identifier has.\<close>

theorem osv_rows_merge_feeds:
  assumes "\<forall>v \<in> set vulns. IsVersionAffected u version (ov_Affected v) = Some (hit v)"
  shows "\<exists>rows. query u cvss3 version vulns = Some rows
    \<and> map vuln_ID rows = dedup (map canonicalCVEID (filter hit vulns))
    \<and> (\<forall>row \<in> set rows. vuln_CVSS row
         = Max (extractCVSSScore cvss3 ` {v \<in> set (filter hit vulns). canonicalCVEID v = vuln_ID row}))"
proof -
  have "query u cvss3 version vulns = Some (rows_of cvss3 (filter hit vulns))"
    using query_rows_fold [OF assms] by (simp add: query_def rows_of_def)
  then show ?thesis
    using rows_of_IDs [of cvss3 "filter hit vulns"] rows_of_scores [of _ cvss3 "filter hit vulns"]
    by (simp add: best_score_def)
qed

theorem osv_rows_merge_feeds_witness:
  "\<exists>rows. query small_unicode (\<lambda>_. 0) (runes_of ''1'')
     [\<lparr>ov_ID = ''ALPINE-CVE-2016-10009'', ov_Aliases = [], ov_Summary = ''a'', ov_Details = [], ov_Severity = [],
        ov_DatabaseScore = Some 5, ov_Affected = []\<rparr>,
      \<lparr>ov_ID = ''BIT-ssh-1'', ov_Aliases = [''CVE-2016-10009''], ov_Summary = ''b'', ov_Details = [], ov_Severity = [],
        ov_DatabaseScore = Some 7, ov_Affected = []\<rparr>] = Some rows
     \<and> map vuln_ID rows = [''CVE-2016-10009'']"
proof -
  let ?a = "\<lparr>ov_ID = ''ALPINE-CVE-2016-10009'', ov_Aliases = [], ov_Summary = ''a'', ov_Details = [], ov_Severity = [],
        ov_DatabaseScore = Some 5, ov_Affected = []\<rparr>"
  let ?b = "\<lparr>ov_ID = ''BIT-ssh-1'', ov_Aliases = [''CVE-2016-10009''], ov_Summary = ''b'', ov_Details = [], ov_Severity = [],
        ov_DatabaseScore = Some 7, ov_Affected = []\<rparr>"
  have "canonicalCVEID ?a = ''CVE-2016-10009''" "canonicalCVEID ?b = ''CVE-2016-10009''"
    by (simp_all add: canonicalCVEID_def cve_match_def has_prefix_def is_digit_def less_eq_char_def)
  moreover have "\<forall>v \<in> set [?a, ?b]. IsVersionAffected small_unicode (runes_of ''1'') (ov_Affected v) = Some True"
    by (simp add: IsVersionAffected_def)
  ultimately show ?thesis
    using osv_rows_merge_feeds [of "[?a, ?b]" small_unicode "runes_of ''1''" "\<lambda>_. True" "\<lambda>_. 0"]
    by (auto simp: dedup_def)
qed

lemma epss_batches_cover: "concat (epss_batches ids) = ids \<and> (\<forall>b \<in> set (epss_batches ids). b \<noteq> [] \<and> length b \<le> 100)"
proof (induction ids rule: epss_batches.induct)
  case (1 ids)
  then show ?case by (subst (1 2) epss_batches.simps) auto
qed

text \<open>The order the report shows: known exploited vulnerabilities first, then by predicted
  probability, then by score, and ties keep their order.\<close>

theorem priority_is_stable:
  "mset (PrioritizeExploitability vs) = mset vs
   \<and> sorted_wrt (\<lambda>a b. \<not> more_urgent b a) (PrioritizeExploitability vs)
   \<and> sort_by more_urgent (PrioritizeExploitability vs) = PrioritizeExploitability vs"
  by (simp add: PrioritizeExploitability_def urgency.ordered_sort urgency.sort_idem)

text \<open>An entry added to the offline table is found again under any spelling of the name,
  and every other entry stays.\<close>

lemma to_lower_idem [simp]: "to_lower (to_lower s) = to_lower s"
proof -
  have "lower_char (lower_char c) = lower_char c" for c
  proof (cases "CHR ''A'' \<le> c \<and> c \<le> CHR ''Z''")
    case True
    then have "(65 :: nat) \<le> of_char c" by (simp add: less_eq_char_def)
    moreover have "of_char c \<le> (90 :: nat)" using True by (simp add: less_eq_char_def)
    ultimately have "\<not> char_of (of_char c + 32 :: nat) \<le> CHR ''Z''" by (simp add: less_eq_char_def)
    then show ?thesis using True by (simp add: lower_char_def)
  next
    case False
    then have "lower_char c = c" by (auto simp: lower_char_def)
    then show ?thesis by simp
  qed
  then show ?thesis by (simp add: to_lower_def)
qed

theorem offline_lookup_after_add:
  "OfflineScanner_GetForSoftware (AddSoftwareToOfflineDB software version vs db) name v =
     (if to_lower name = to_lower software \<and> v = version then vs else OfflineScanner_GetForSoftware db name v)"
  by (auto simp: OfflineScanner_GetForSoftware_def AddSoftwareToOfflineDB_def Let_def split: option.splits)

end
