(* ===== verification/HostInventory.thy ===== *)
theory HostInventory
  imports Hex NetAddr Ordering
begin

text \<open>
  \<open>internal/inventory\<close>: the listening sockets of a host and who owns them
  (\<open>inventory.go\<close>, \<open>parse.go\<close>, and the parts of \<open>collect_linux.go\<close> that are not
  system calls).  The texts of \<open>/proc\<close>, \<open>docker ps\<close> and \<open>kubectl\<close> are arguments.
  While an inventory is collected the owners are shared: several sockets point to the
  same process, so a socket holds an index into the list of owners.
\<close>

record Owner =
  own_PID :: int
  own_Process :: string
  own_Cmdline :: string
  own_Unit :: string
  own_Container :: string
  own_ContainerName :: string
  own_PodUID :: string
  own_Pod :: string
  own_ForwardsTo :: string

record Listener =
  lst_Address :: string
  lst_Port :: int
  lst_Inode :: nat
  lst_Owner :: "Owner option"

record KubeService =
  ks_Name :: string
  ks_Type :: string
  ks_Port :: int
  ks_NodePort :: int

record Inventory =
  inv_Hostname :: string
  inv_CollectedAt :: int
  inv_Addresses :: "string list"
  inv_Listeners :: "Listener list"
  inv_Services :: "KubeService list"

subsection \<open>The kernel's socket tables\<close>

datatype inventory_error = BadAddress string | BadPort string

text \<open>Each 32-bit word of the address is in the host's little-endian order.\<close>

fun swap_words :: "bytes \<Rightarrow> bytes" where
  "swap_words (a # b # c # d # bs) = d # c # b # a # swap_words bs"
| "swap_words bs = bs"

definition decodeProcAddr :: "string \<Rightarrow> bool \<Rightarrow> inventory_error + ip" where
  "decodeProcAddr h ipv6 =
     (case hex_decode h of
        None \<Rightarrow> Inl (BadAddress h)
      | Some raw \<Rightarrow>
          if length raw \<noteq> (if ipv6 then 16 else 4) then Inl (BadAddress h)
          else
            (let i = swap_words raw in
             case to4 i of
               Some v4 \<Rightarrow> if ipv6 \<and> \<not> contains_char (ip_string i) (CHR '':'') then Inr v4 else Inr i
             | None \<Rightarrow> Inr i))"

text \<open>\<open>strconv.ParseUint\<close>: at least one digit of the base, and no more than the given
  bound; on a number that is too large the returned value is the bound.\<close>

fun uint_val :: "nat \<Rightarrow> nat \<Rightarrow> string \<Rightarrow> nat option" where
  "uint_val base acc [] = Some acc"
| "uint_val base acc (c # cs) =
     (case hex_val c of
        Some d \<Rightarrow> if d < base then uint_val base (base * acc + d) cs else None
      | None \<Rightarrow> None)"

definition parse_uint :: "nat \<Rightarrow> nat \<Rightarrow> string \<Rightarrow> nat \<times> bool" where
  "parse_uint base bound s =
     (if s = [] then (0, False)
      else (case uint_val base 0 s of
              None \<Rightarrow> (0, False)
            | Some n \<Rightarrow> if n > bound then (bound, False) else (n, True)))"

text \<open>One line of the table: \<open>Inr None\<close> is a line that is skipped.\<close>

definition proc_line :: "bool \<Rightarrow> string \<Rightarrow> inventory_error + Listener option" where
  "proc_line ipv6 line =
     (let fields = split_fields line in
      if length fields < 10 \<or> fields ! 3 \<noteq> ''0A'' then Inr None
      else
        (case cut_char (CHR '':'') (fields ! 1) of
           (hostHex, portHex, found) \<Rightarrow>
             if \<not> found then Inr None
             else
               (case decodeProcAddr hostHex ipv6 of
                  Inl e \<Rightarrow> Inl e
                | Inr i \<Rightarrow>
                    (case parse_uint 16 65535 portHex of
                       (port, valid) \<Rightarrow>
                         if \<not> valid then Inl (BadPort portHex)
                         else Inr (Some \<lparr>lst_Address = ip_string i, lst_Port = int port,
                                lst_Inode = fst (parse_uint 10 18446744073709551615 (fields ! 9)), lst_Owner = None\<rparr>)))))"

fun proc_lines :: "bool \<Rightarrow> string list \<Rightarrow> inventory_error + Listener list" where
  "proc_lines ipv6 [] = Inr []"
| "proc_lines ipv6 (l # ls) =
     (case proc_line ipv6 l of
        Inl e \<Rightarrow> Inl e
      | Inr r \<Rightarrow>
          (case proc_lines ipv6 ls of
             Inl e \<Rightarrow> Inl e
           | Inr out \<Rightarrow> Inr ((case r of None \<Rightarrow> [] | Some l \<Rightarrow> [l]) @ out)))"

definition ParseProcNetTCP :: "string \<Rightarrow> bool \<Rightarrow> inventory_error + Listener list" where
  "ParseProcNetTCP data ipv6 = proc_lines ipv6 (drop 1 (split_on (CHR 0x0A) data))"

subsection \<open>Control groups\<close>

definition unit_char :: "char \<Rightarrow> bool" where
  "unit_char c \<longleftrightarrow> is_digit c \<or> is_letter c
     \<or> c \<in> {CHR ''_'', CHR ''@'', CHR ''.'', CHR ''-'', CHR 0x5C}"

text \<open>The unit pattern: a run of unit characters that ends in \<open>.service\<close>, before a slash or the end.\<close>

definition unit_at :: "string \<Rightarrow> string option" where
  "unit_at s =
     (let run = takeWhile unit_char s; rest = dropWhile unit_char s in
      if has_suffix run ''.service'' \<and> length run > 8 \<and> (rest = [] \<or> hd rest = CHR ''/'') then Some run else None)"

definition lower_hex :: "char \<Rightarrow> bool" where
  "lower_hex c \<longleftrightarrow> is_digit c \<or> CHR ''a'' \<le> c \<and> c \<le> CHR ''f''"

text \<open>The container pattern: 64 hex digits, an optional \<open>.scope\<close>, then a slash or the end.  The
  optional runtime prefix only moves the start of the match, not the captured group.\<close>

definition container_at :: "string \<Rightarrow> string option" where
  "container_at s =
     (let rest = drop 64 s; rest1 = trim_prefix rest ''.scope'' in
      if length s \<ge> 64 \<and> list_all lower_hex (take 64 s) \<and> (rest1 = [] \<or> hd rest1 = CHR ''/'')
      then Some (take 64 s) else None)"

fun hex_runs :: "nat list \<Rightarrow> string \<Rightarrow> string option" where
  "hex_runs [] s = Some []"
| "hex_runs (n # ns) s =
     (if length s \<ge> n \<and> list_all lower_hex (take n s)
      then (if ns = [] then Some (take n s)
            else (case drop n s of
                    [] \<Rightarrow> None
                  | c # cs \<Rightarrow> if c = CHR ''-'' \<or> c = CHR ''_'' then map_option (\<lambda>r. take n s @ [c] @ r) (hex_runs ns cs) else None))
      else None)"

definition pod_at :: "string \<Rightarrow> string option" where
  "pod_at s = (if has_prefix s ''pod'' then hex_runs [8, 4, 4, 4, 12] (drop 3 s) else None)"

fun leftmost :: "(string \<Rightarrow> string option) \<Rightarrow> string \<Rightarrow> string option" where
  "leftmost m [] = m []"
| "leftmost m (c # cs) = (case m (c # cs) of Some r \<Rightarrow> Some r | None \<Rightarrow> leftmost m cs)"

definition cgroup_path :: "string \<Rightarrow> string option" where
  "cgroup_path line =
     (case cut_char (CHR '':'') line of
        (a, rest, found) \<Rightarrow>
          if \<not> found then None
          else (case cut_char (CHR '':'') rest of (b, path, found2) \<Rightarrow> if found2 then Some path else None))"

definition cgroup_line :: "string \<Rightarrow> string \<times> string \<times> string \<Rightarrow> string \<times> string \<times> string" where
  "cgroup_line line = (\<lambda>(unit, container, podUID).
     case cgroup_path line of
       None \<Rightarrow> (unit, container, podUID)
     | Some path \<Rightarrow>
         (let podUID1 = (case leftmost pod_at path of
                           Some m \<Rightarrow> if podUID = [] then map (\<lambda>c. if c = CHR ''_'' then CHR ''-'' else c) m else podUID
                         | None \<Rightarrow> podUID);
              container1 = (case leftmost container_at path of
                              Some m \<Rightarrow> if container = [] then m else container
                            | None \<Rightarrow> container);
              unit1 = (case leftmost unit_at path of
                         Some m \<Rightarrow> if unit = [] \<and> container1 = [] then m else unit
                       | None \<Rightarrow> unit)
          in (unit1, container1, podUID1)))"

definition ParseCgroup :: "string \<Rightarrow> string \<times> string \<times> string" where
  "ParseCgroup data = fold cgroup_line (split_on (CHR 0x0A) data) ([], [], [])"


subsection \<open>Command lines\<close>

text \<open>\<open>docker-proxy\<close>'s arguments: the last value of each flag wins.\<close>

fun proxy_flags :: "string list \<Rightarrow> string \<times> string \<Rightarrow> string \<times> string" where
  "proxy_flags (a # b # args) (ip, port) =
     proxy_flags (b # args)
       (if a = ''-container-ip'' then (b, port) else if a = ''-container-port'' then (ip, b) else (ip, port))"
| "proxy_flags _ acc = acc"

definition dockerProxyTarget :: "string list \<Rightarrow> string" where
  "dockerProxyTarget args =
     (case proxy_flags args ([], []) of
        (ip, port) \<Rightarrow> if ip = [] \<or> port = [] then [] else join_host_port ip port)"

definition secret_words :: "string list" where
  "secret_words = [''pass'', ''secret'', ''token'', ''key'', ''auth'', ''credential'']"

definition names_secret :: "string list \<Rightarrow> string \<Rightarrow> bool" where
  "names_secret ws s = list_ex (contains_str (to_lower s)) ws"

text \<open>The redaction loop, over the test for a secret flag name.\<close>

fun redact :: "(string \<Rightarrow> bool) \<Rightarrow> string list \<Rightarrow> string list" where
  "redact secret [] = []"
| "redact secret [a] =
     (if \<not> has_prefix a ''-'' then [a]
      else (case cut_char (CHR ''='') a of
              (name, v, has) \<Rightarrow> if has \<and> secret name then [name @ ''=REDACTED''] else [a]))"
| "redact secret (a # b # args) =
     (if \<not> has_prefix a ''-'' then a # redact secret (b # args)
      else (case cut_char (CHR ''='') a of
              (name, v, has) \<Rightarrow>
                if has then (if secret name then name @ ''=REDACTED'' else a) # redact secret (b # args)
                else if secret a \<and> \<not> has_prefix b ''-'' then a # ''REDACTED'' # redact secret args
                else a # redact secret (b # args)))"

definition ellipsis :: string where
  "ellipsis = [CHR 0xE2, CHR 0x80, CHR 0xA6]"

definition RedactCmdline :: "string list \<Rightarrow> string" where
  "RedactCmdline args =
     (let s = join_str '' '' (redact (names_secret secret_words) args)
      in if length s > 240 then take 240 s @ ellipsis else s)"

subsection \<open>Docker and Kubernetes\<close>

text \<open>The bytes after the last colon.\<close>

definition after_colon :: "string \<Rightarrow> string option" where
  "after_colon s =
     (if contains_char s (CHR '':'') then Some (rev (takeWhile (\<lambda>c. c \<noteq> CHR '':'') (rev s))) else None)"

definition published_range :: "string \<Rightarrow> int list" where
  "published_range entry =
     (case cut_str ''->'' (trim_space entry) of
        (hostSide, inner, found) \<Rightarrow>
          if \<not> found then []
          else
            (case after_colon hostSide of
               None \<Rightarrow> []
             | Some spec \<Rightarrow>
                 (case cut_char (CHR ''-'') spec of
                    (lo, hi, isRange) \<Rightarrow>
                      (case atoi lo of
                         None \<Rightarrow> []
                       | Some start \<Rightarrow>
                           if \<not> isRange then [start]
                           else (case atoi hi of
                                   None \<Rightarrow> []
                                 | Some stop \<Rightarrow> if stop < start \<or> stop - start > 1024 then [] else [start..stop])))))"

definition PublishedHostPorts :: "string \<Rightarrow> int list" where
  "PublishedHostPorts ports = dedup (concat (map published_range (split_on (CHR '','') ports)))"

definition kube_pair :: "string \<Rightarrow> string \<Rightarrow> string \<Rightarrow> KubeService list" where
  "kube_pair name ty pair =
     (case cut_char (CHR '':'') pair of
        (portStr, nodeStr, found) \<Rightarrow>
          (case atoi portStr of
             None \<Rightarrow> []
           | Some port \<Rightarrow>
               [\<lparr>ks_Name = name, ks_Type = ty, ks_Port = port,
                 ks_NodePort = (case atoi nodeStr of Some n \<Rightarrow> n | None \<Rightarrow> 0)\<rparr>]))"

definition kube_line :: "string \<Rightarrow> KubeService list" where
  "kube_line line =
     (case split_on (CHR 0x09) line of
        [name, ty, ports] \<Rightarrow>
          if ty = ''NodePort'' \<or> ty = ''LoadBalancer''
          then concat (map (kube_pair name ty) (split_on (CHR '','') ports)) else []
      | _ \<Rightarrow> [])"

definition ParseKubeServices :: "string \<Rightarrow> KubeService list" where
  "ParseKubeServices out = concat (map kube_line (split_on (CHR 0x0A) out))"

subsection \<open>Owners\<close>

text \<open>What \<open>/proc/<pid>\<close> holds: each file may be unreadable.\<close>

record process =
  pr_pid :: int
  pr_comm :: "string option"
  pr_cmdline :: "string option"
  pr_cgroup :: "string option"
  pr_inodes :: "nat list"

definition describeProcess :: "process \<Rightarrow> Owner" where
  "describeProcess p =
     (let name = (case pr_comm p of Some c \<Rightarrow> trim_space c | None \<Rightarrow> []);
          args = (case pr_cmdline p of Some raw \<Rightarrow> split_on (CHR 0x00) (trim_right_by (\<lambda>c. c = CHR 0x00) raw) | None \<Rightarrow> []);
          (unit, container, podUID) = (case pr_cgroup p of Some cg \<Rightarrow> ParseCgroup cg | None \<Rightarrow> ([], [], []))
      in \<lparr>own_PID = pr_pid p, own_Process = name,
          own_Cmdline = (if pr_cmdline p = None then [] else RedactCmdline args),
          own_Unit = unit, own_Container = container, own_ContainerName = [], own_PodUID = podUID, own_Pod = [],
          own_ForwardsTo = (if pr_cmdline p \<noteq> None \<and> name = ''docker-proxy'' then dockerProxyTarget args else [])\<rparr>)"

text \<open>The first process found holding a socket owns it; a process is described at most once,
  and only if it owns some socket.\<close>

type_synonym owner_table = "Owner list \<times> (nat \<rightharpoonup> nat)"

definition own_sockets :: "process \<Rightarrow> owner_table \<Rightarrow> owner_table" where
  "own_sockets p = (\<lambda>(owners, byInode).
     (let new = filter (\<lambda>i. byInode i = None) (pr_inodes p) in
      if new = [] then (owners, byInode)
      else (owners @ [describeProcess p], (\<lambda>i. if i \<in> set new then Some (length owners) else byInode i))))"

definition socketOwners :: "process list \<Rightarrow> owner_table" where
  "socketOwners procs = fold own_sockets procs ([], Map.empty)"

text \<open>A collected socket: the listener and the index of its owner.\<close>

type_synonym socket = "Listener \<times> nat option"

definition docker_owner :: "(string \<rightharpoonup> string) \<Rightarrow> (int \<rightharpoonup> string) \<Rightarrow> int \<Rightarrow> Owner \<Rightarrow> Owner" where
  "docker_owner names published port o1 =
     (let o2 = (if own_Container o1 \<noteq> [] \<and> own_ContainerName o1 = []
                then o1\<lparr>own_ContainerName := (case names (own_Container o1) of Some n \<Rightarrow> n | None \<Rightarrow> [])\<rparr> else o1)
      in if own_Process o2 = ''docker-proxy'' \<and> own_ContainerName o2 = []
         then o2\<lparr>own_ContainerName := (case published port of Some n \<Rightarrow> n | None \<Rightarrow> [])\<rparr> else o2)"

definition update_owner :: "(Listener \<Rightarrow> Owner \<Rightarrow> Owner) \<Rightarrow> socket \<Rightarrow> Owner list \<Rightarrow> Owner list" where
  "update_owner f = (\<lambda>(l, k) owners. case k of None \<Rightarrow> owners | Some i \<Rightarrow> owners[i := f l (owners ! i)])"

definition docker_line :: "string \<Rightarrow> (string \<rightharpoonup> string) \<times> (int \<rightharpoonup> string) \<Rightarrow> (string \<rightharpoonup> string) \<times> (int \<rightharpoonup> string)" where
  "docker_line line = (\<lambda>(names, published).
     (case cut_char (CHR 0x09) line of
        (i, rest, found) \<Rightarrow>
          if \<not> found then (names, published)
          else
            (case cut_char (CHR 0x09) rest of
               (name, ports, found2) \<Rightarrow>
                 (names(i \<mapsto> name),
                  if found2 then fold (\<lambda>p m. m(p \<mapsto> name)) (PublishedHostPorts ports) published else published))))"

definition enrichDocker :: "string option \<Rightarrow> socket list \<Rightarrow> Owner list \<Rightarrow> Owner list" where
  "enrichDocker out sockets owners =
     (case out of
        None \<Rightarrow> owners
      | Some text \<Rightarrow>
          (let (names, published) = fold docker_line (split_on (CHR 0x0A) (trim_space text)) (Map.empty, Map.empty)
           in fold (update_owner (\<lambda>l. docker_owner names published (lst_Port l))) sockets owners))"

definition pods_by_uid :: "string \<Rightarrow> string \<rightharpoonup> string" where
  "pods_by_uid pods =
     fold (\<lambda>line m. case cut_char (CHR 0x09) line of (uid, name, found) \<Rightarrow> if found then m(uid \<mapsto> name) else m)
       (split_on (CHR 0x0A) pods) Map.empty"

definition enrichKubernetes ::
  "string option \<Rightarrow> string option \<Rightarrow> socket list \<Rightarrow> Owner list \<Rightarrow> Owner list \<times> KubeService list" where
  "enrichKubernetes pods svcs sockets owners =
     (case pods of
        None \<Rightarrow> (owners, [])
      | Some text \<Rightarrow>
          (fold (update_owner (\<lambda>l o1. if own_PodUID o1 = [] then o1
               else o1\<lparr>own_Pod := (case pods_by_uid text (own_PodUID o1) of Some n \<Rightarrow> n | None \<Rightarrow> [])\<rparr>)) sockets owners,
           case svcs of Some out \<Rightarrow> ParseKubeServices out | None \<Rightarrow> []))"

definition with_owner :: "Owner list \<Rightarrow> socket \<Rightarrow> Listener" where
  "with_owner owners = (\<lambda>(l, k). l\<lparr>lst_Owner := map_option (\<lambda>i. owners ! i) k\<rparr>)"

text \<open>A host as \<open>Collect\<close> finds it; \<open>h_tcp6\<close> is absent when IPv6 is disabled.\<close>

record host =
  h_name :: string
  h_addresses :: "string list"
  h_tcp :: string
  h_tcp6 :: "string option"
  h_procs :: "process list"
  h_docker :: "string option"
  h_pods :: "string option"
  h_services :: "string option"

definition Collect :: "host \<Rightarrow> int \<Rightarrow> inventory_error + Inventory" where
  "Collect h now =
     (case ParseProcNetTCP (h_tcp h) False of
        Inl e \<Rightarrow> Inl e
      | Inr l4 \<Rightarrow>
          (case (case h_tcp6 h of None \<Rightarrow> Inr [] | Some d \<Rightarrow> ParseProcNetTCP d True) of
             Inl e \<Rightarrow> Inl e
           | Inr l6 \<Rightarrow>
               (let (owners, byInode) = socketOwners (h_procs h);
                    sockets = map (\<lambda>l. (l, byInode (lst_Inode l))) (l4 @ l6);
                    owners1 = enrichDocker (h_docker h) sockets owners;
                    (owners2, svcs) = enrichKubernetes (h_pods h) (h_services h) sockets owners1
                in Inr \<lparr>inv_Hostname = h_name h, inv_CollectedAt = now, inv_Addresses = h_addresses h,
                        inv_Listeners = map (with_owner owners2) sockets, inv_Services = svcs\<rparr>)))"


subsection \<open>Laws of the tables\<close>

lemma fields_acc_word: "\<forall>c \<in> set w. \<not> sep c \<Longrightarrow> fields_acc sep cur (w @ s) = fields_acc sep (rev w @ cur) s"
  by (induction w arbitrary: cur) auto

lemma fields_acc_join:
  "\<forall>w \<in> set ws. w \<noteq> [] \<and> (\<forall>c \<in> set w. \<not> is_space c) \<Longrightarrow> fields_acc is_space [] (join_str '' '' ws) = ws"
proof (induction ws rule: induct_list012)
  case (2 w)
  then show ?case using fields_acc_word [of w is_space "[]" "[]"] by simp
next
  case (3 w v ws)
  have "fields_acc is_space [] (w @ '' '' @ join_str '' '' (v # ws)) = w # fields_acc is_space [] (join_str '' '' (v # ws))"
    using 3 fields_acc_word [of w is_space "[]" "'' '' @ join_str '' '' (v # ws)"] by (simp add: is_space_def)
  then show ?case using 3 by simp
qed simp

lemma split_fields_join:
  "\<forall>w \<in> set ws. w \<noteq> [] \<and> (\<forall>c \<in> set w. \<not> is_space c) \<Longrightarrow> split_fields (join_str '' '' ws) = ws"
  by (simp add: split_fields_def fields_by_def fields_acc_join)

lemma hex_val_upper_nibble: "d < 16 \<Longrightarrow> hex_val (upper_char (nibble_char d)) = Some (unat d)"
proof -
  assume "d < 16"
  then have "unat d \<in> {0..<16}" by (simp add: word_less_nat_alt)
  then have "unat d \<in> {0, 1, 2, 3, 4, 5, 6, 7, 8, 9, 10, 11, 12, 13, 14, 15}"
    by (simp only: atLeastLessThan_iff insert_iff empty_iff) presburger
  moreover have "d = of_nat (unat d)" by simp
  ultimately show ?thesis by (elim insertE emptyE; simp only:; code_simp)
qed

lemma uint_val_hex: "uint_val 16 acc (to_upper (hex_encode bs)) = Some (acc * 256 ^ length bs + be_val bs)"
proof (induction bs arbitrary: acc)
  case Nil
  then show ?case by (simp add: to_upper_def be_val_def)
next
  case (Cons b bs)
  have n: "unat (b div 16) < 16" "unat (b mod 16) < 16" using nibbles_less [of b] by (simp_all add: word_less_nat_alt)
  have "16 * unat (b div 16) + unat (b mod 16) = unat b" by (simp add: unat_div unat_mod mult_div_mod_eq)
  moreover have "16 * (16 * acc + x) + y = 256 * acc + u" if "16 * x + y = u" for x y u :: nat using that by simp
  ultimately have e: "16 * (16 * acc + unat (b div 16)) + unat (b mod 16) = 256 * acc + unat b" by blast
  have "uint_val 16 acc (to_upper (hex_encode (b # bs)))
      = uint_val 16 (16 * (16 * acc + unat (b div 16)) + unat (b mod 16)) (to_upper (hex_encode bs))"
    using n by (simp add: to_upper_def hex_val_upper_nibble nibbles_less)
  also have "\<dots> = Some ((256 * acc + unat b) * 256 ^ length bs + be_val bs)" unfolding e by (rule Cons.IH)
  finally show ?case by (simp add: be_val_Cons algebra_simps)
qed

lemma uint_val_digits: "list_all is_digit s \<Longrightarrow> uint_val 10 acc s = digits_val acc s"
proof (induction s arbitrary: acc)
  case (Cons c s)
  then have "digit_val c < 10" by (auto simp: is_digit_def digit_val_def less_eq_char_def)
  then show ?case using Cons by (simp add: hex_val_def)
qed simp

lemma parse_uint_digits: "n \<le> bound \<Longrightarrow> parse_uint 10 bound (nat_digits n) = (n, True)"
proof -
  have "list_all is_digit (nat_digits n)" using nat_digits_is_digit by (auto simp: list_all_iff)
  moreover assume "n \<le> bound"
  ultimately show ?thesis by (simp add: parse_uint_def uint_val_digits digits_val_nat_digits)
qed

lemma swap_words_twice [simp]: "swap_words (swap_words bs) = bs"
  by (induction bs rule: swap_words.induct) simp_all

lemma length_swap_words [simp]: "length (swap_words bs) = length bs"
  by (induction bs rule: swap_words.induct) simp_all

lemma hex_char_range: "d < 16 \<Longrightarrow> upper_char (nibble_char d) \<in> set ''0123456789ABCDEF''"
proof -
  assume "d < 16"
  then have "unat d \<in> {0..<16}" by (simp add: word_less_nat_alt)
  then have "unat d \<in> {0, 1, 2, 3, 4, 5, 6, 7, 8, 9, 10, 11, 12, 13, 14, 15}"
    by (simp only: atLeastLessThan_iff insert_iff empty_iff) presburger
  moreover have "d = of_nat (unat d)" by simp
  ultimately show ?thesis by (elim insertE emptyE; simp only:; code_simp)
qed

lemma hex_text_chars: "set (to_upper (hex_encode bs)) \<subseteq> set ''0123456789ABCDEF''"
proof (induction bs)
  case (Cons b bs)
  then show ?case using hex_char_range [OF nibbles_less(1) [of b]] hex_char_range [OF nibbles_less(2) [of b]]
    by (simp only: hex_encode.simps to_upper_def list.map set_simps insert_subset simp_thms)
qed (simp add: to_upper_def)

text \<open>A row as the kernel prints it: the local address and port in upper-case hexadecimal,
  each word of the address in host order, and the inode in the tenth column.\<close>

record kernel_row =
  k_sl :: string
  k_addr :: ip
  k_port :: bytes
  k_remote :: string
  k_more :: "string list"
  k_inode :: nat

definition kernel_fields :: "kernel_row \<Rightarrow> string list" where
  "kernel_fields r =
     [k_sl r, to_upper (hex_encode (swap_words (k_addr r))) @ '':'' @ to_upper (hex_encode (k_port r)), k_remote r, ''0A'']
     @ k_more r @ [nat_digits (k_inode r)]"

definition plain_word :: "string \<Rightarrow> bool" where
  "plain_word w \<longleftrightarrow> w \<noteq> [] \<and> list_all (\<lambda>c. \<not> is_space c) w"

definition kernel_row_ok :: "bool \<Rightarrow> kernel_row \<Rightarrow> bool" where
  "kernel_row_ok ipv6 r \<longleftrightarrow> length (k_addr r) = (if ipv6 then 16 else 4) \<and> length (k_port r) = 2
     \<and> length (k_more r) = 5 \<and> k_inode r \<le> 18446744073709551615
     \<and> plain_word (k_sl r) \<and> plain_word (k_remote r) \<and> list_all plain_word (k_more r)"

definition kernel_table :: "kernel_row list \<Rightarrow> string" where
  "kernel_table rows = join_str [CHR 0x0A] (''sl local_address rem_address st'' # map (\<lambda>r. join_str '' '' (kernel_fields r)) rows)"

definition row_listener :: "kernel_row \<Rightarrow> Listener" where
  "row_listener r = \<lparr>lst_Address = ip_string (k_addr r), lst_Port = int (be_val (k_port r)), lst_Inode = k_inode r, lst_Owner = None\<rparr>"

lemma hex_no_space: "c \<in> set (to_upper (hex_encode bs)) \<Longrightarrow> \<not> is_space c \<and> c \<noteq> CHR '':''"
  using hex_text_chars [of bs] by (fastforce simp: is_space_def)

lemma digits_no_space: "c \<in> set (nat_digits n) \<Longrightarrow> \<not> is_space c"
  using nat_digits_is_digit [of c n] by (auto simp: is_digit_def is_space_def less_eq_char_def)

lemma kernel_fields_words:
  "kernel_row_ok ipv6 r \<Longrightarrow> \<forall>w \<in> set (kernel_fields r). w \<noteq> [] \<and> (\<forall>c \<in> set w. \<not> is_space c)"
  using hex_no_space digits_no_space
  by (auto simp: kernel_fields_def kernel_row_ok_def plain_word_def list_all_iff is_space_def)

lemma cut_char_first: "sep \<notin> set a \<Longrightarrow> cut_char sep (a @ [sep] @ b) = (a, b, True)"
proof -
  assume "sep \<notin> set a"
  then have "takeWhile (\<lambda>c. c \<noteq> sep) (a @ sep # b) = a" by (subst takeWhile_append2) auto
  then show ?thesis by (simp add: cut_char_def)
qed

lemma decode_address:
  assumes "length a = (if ipv6 then 16 else 4)"
  shows "\<exists>i. decodeProcAddr (to_upper (hex_encode (swap_words a))) ipv6 = Inr i \<and> ip_string i = ip_string a"
proof (cases "to4 a")
  case None
  then show ?thesis using assms by (simp add: decodeProcAddr_def)
next
  case (Some v4)
  then have "to4 v4 = Some v4" using assms by (auto simp: to4_def split: if_splits)
  then have "ip_string v4 = ip_string a" using Some by (simp add: ip_string_def)
  then show ?thesis using Some assms by (simp add: decodeProcAddr_def)
qed

lemma proc_line_row:
  assumes "kernel_row_ok ipv6 r"
  shows "proc_line ipv6 (join_str '' '' (kernel_fields r)) = Inr (Some (row_listener r))"
proof -
  have fs: "split_fields (join_str '' '' (kernel_fields r)) = kernel_fields r"
    using kernel_fields_words [OF assms] by (rule split_fields_join)
  obtain a b c d e where j: "k_more r = [a, b, c, d, e]"
  proof -
    have "length (k_more r) = 5" using assms by (simp add: kernel_row_ok_def)
    then show ?thesis using that by (auto simp: length_Suc_conv numeral_eq_Suc)
  qed
  obtain i where i: "decodeProcAddr (to_upper (hex_encode (swap_words (k_addr r)))) ipv6 = Inr i"
      "ip_string i = ip_string (k_addr r)"
    using decode_address assms by (auto simp: kernel_row_ok_def)
  have "to_upper (hex_encode (k_port r)) \<noteq> []"
    using assms by (cases "k_port r") (auto simp: kernel_row_ok_def to_upper_def)
  moreover have "length (k_port r) = 2" using assms by (simp add: kernel_row_ok_def)
  then have "be_val (k_port r) < 65536" using be_val_less [of "k_port r"] by simp
  ultimately have port: "parse_uint 16 65535 (to_upper (hex_encode (k_port r))) = (be_val (k_port r), True)"
    by (simp add: parse_uint_def uint_val_hex)
  have "cut_char (CHR '':'') (to_upper (hex_encode (swap_words (k_addr r))) @ '':'' @ to_upper (hex_encode (k_port r)))
      = (to_upper (hex_encode (swap_words (k_addr r))), to_upper (hex_encode (k_port r)), True)"
    by (rule cut_char_first) (use hex_no_space in blast)
  then show ?thesis
    using i port parse_uint_digits [of "k_inode r" 18446744073709551615] assms
    by (simp add: proc_line_def fs Let_def) (simp add: kernel_fields_def j row_listener_def kernel_row_ok_def)
qed

lemma ParseProcNetTCP_table:
  assumes "\<forall>r \<in> set rows. kernel_row_ok ipv6 r"
  shows "ParseProcNetTCP (kernel_table rows) ipv6 = Inr (map row_listener rows)"
proof -
  have nl: "CHR 0x0A \<notin> set (join_str '' '' ws)" if "\<forall>w \<in> set ws. \<forall>c \<in> set w. \<not> is_space c" for ws
    using that by (induction ws rule: induct_list012) (auto simp: is_space_def)
  have "split_on (CHR 0x0A) (kernel_table rows)
      = ''sl local_address rem_address st'' # map (\<lambda>r. join_str '' '' (kernel_fields r)) rows"
    unfolding kernel_table_def
  proof (rule split_on_join)
    fix p
    assume "p \<in> set (''sl local_address rem_address st'' # map (\<lambda>r. join_str '' '' (kernel_fields r)) rows)"
    then consider "p = ''sl local_address rem_address st''"
      | r where "r \<in> set rows" "p = join_str '' '' (kernel_fields r)" by auto
    then show "CHR 0x0A \<notin> set p"
    proof cases
      case 2
      then show ?thesis using nl kernel_fields_words assms by blast
    qed simp
  qed simp
  moreover have "proc_lines ipv6 (map (\<lambda>r. join_str '' '' (kernel_fields r)) rows) = Inr (map row_listener rows)"
    using assms by (induction rows) (auto simp: proc_line_row)
  ultimately show ?thesis by (simp add: ParseProcNetTCP_def)
qed


text \<open>The process that owns a socket: the first that holds it.\<close>

definition first_holder :: "process list \<Rightarrow> nat \<Rightarrow> Owner option" where
  "first_holder procs i = map_option describeProcess (List.find (\<lambda>p. i \<in> set (pr_inodes p)) procs)"

definition owner_of :: "owner_table \<Rightarrow> nat \<Rightarrow> Owner option" where
  "owner_of = (\<lambda>(owners, byInode) i. map_option (\<lambda>k. owners ! k) (byInode i))"

definition owners_ok :: "owner_table \<Rightarrow> bool" where
  "owners_ok = (\<lambda>(owners, byInode). \<forall>i k. byInode i = Some k \<longrightarrow> k < length owners)"

lemma own_sockets_step:
  assumes "owners_ok t"
  shows "owners_ok (own_sockets p t)"
    and "owner_of (own_sockets p t) i =
      (case owner_of t i of Some o1 \<Rightarrow> Some o1 | None \<Rightarrow> if i \<in> set (pr_inodes p) then Some (describeProcess p) else None)"
proof -
  obtain owners m where t: "t = (owners, m)" by (cases t)
  show "owners_ok (own_sockets p t)"
    using assms by (fastforce simp: t own_sockets_def owners_ok_def Let_def split: if_splits)
  have old: "k < length owners" if "m j = Some k" for j k using that assms by (auto simp: t owners_ok_def)
  show "owner_of (own_sockets p t) i =
      (case owner_of t i of Some o1 \<Rightarrow> Some o1 | None \<Rightarrow> if i \<in> set (pr_inodes p) then Some (describeProcess p) else None)"
    using old [of i] by (auto simp: t own_sockets_def owner_of_def Let_def nth_append filter_empty_conv split: option.splits)
qed

lemma fold_own_sockets:
  "owners_ok t \<Longrightarrow> owner_of (fold own_sockets procs t) i =
     (case owner_of t i of Some o1 \<Rightarrow> Some o1 | None \<Rightarrow> first_holder procs i)"
proof (induction procs arbitrary: t)
  case Nil
  then show ?case by (simp add: first_holder_def split: option.splits)
next
  case (Cons p procs)
  then show ?case using own_sockets_step [OF Cons.prems, of p]
    by (auto simp: first_holder_def split: option.splits)
qed

lemma socketOwners_first: "owner_of (socketOwners procs) i = first_holder procs i"
  by (simp add: socketOwners_def fold_own_sockets owners_ok_def) (simp add: owner_of_def)

subsection \<open>Properties\<close>


definition sshd_row :: kernel_row where
  "sshd_row = \<lparr>k_sl = ''0:'', k_addr = [127, 0, 0, 1], k_port = [0, 22], k_remote = ''00000000:0000'',
     k_more = [''00000000:00000000'', ''00:00000000'', ''00000000'', ''0'', ''0''], k_inode = 1234\<rparr>"


text \<open>A secret that starts with a hyphen is taken for the next flag and stays in the inventory.\<close>

theorem dash_secret_not_redacted:
  "RedactCmdline [''mysqld'', ''--password'', ''-hunter2''] = ''mysqld --password -hunter2''
   \<and> RedactCmdline [''mysqld'', ''--password'', ''hunter2''] = ''mysqld --password REDACTED''"
  by code_simp

end
