(* ===== verification/Drift.thy ===== *)
theory Drift
  imports HostInventory
begin

text \<open>
  \<open>internal/drift\<close>: how the exposure of a host changed between two inventories.  The
  maps from ports to views are iterated along a list of their keys that is an argument;
  the sort at the end makes the report independent of it.
\<close>

datatype drift_kind = Appeared | Disappeared | Widened | Narrowed | OwnerChanged

record Change =
  ch_Kind :: drift_kind
  ch_Port :: int
  ch_Severity :: string
  ch_Before :: string
  ch_After :: string
  ch_Note :: string

record drift_report =
  dr_Host :: string
  dr_From :: int
  dr_To :: int
  dr_Changes :: "Change list"

definition NewlyExposed :: "drift_report \<Rightarrow> nat" where
  "NewlyExposed r = length (filter (\<lambda>c. ch_Severity c = ''high'') (dr_Changes r))"

definition reach :: "string \<Rightarrow> nat" where
  "reach addr =
     (if addr \<in> {''0.0.0.0'', ''::'', []} then 2
      else (case parse_ip addr of Some i \<Rightarrow> if is_loopback i then 0 else 1 | None \<Rightarrow> 1))"

definition reachWord :: "nat \<Rightarrow> string" where
  "reachWord level = (if level = 2 then ''every interface'' else if level = 0 then ''loopback only'' else ''one interface'')"

record portView =
  pv_reach :: nat
  pv_addr :: string
  pv_owner :: "Owner option"

definition fold_listener :: "Listener \<Rightarrow> (int \<rightharpoonup> portView) \<Rightarrow> (int \<rightharpoonup> portView)" where
  "fold_listener l byPort =
     (if (case byPort (lst_Port l) of None \<Rightarrow> True | Some cur \<Rightarrow> reach (lst_Address l) > pv_reach cur)
      then byPort(lst_Port l \<mapsto> \<lparr>pv_reach = reach (lst_Address l), pv_addr = lst_Address l, pv_owner = lst_Owner l\<rparr>)
      else byPort)"

definition fold_ports :: "Listener list \<Rightarrow> (int \<rightharpoonup> portView)" where
  "fold_ports listeners = fold fold_listener listeners Map.empty"

definition ownerName :: "Owner option \<Rightarrow> string" where
  "ownerName oo = (case oo of None \<Rightarrow> []
     | Some o1 \<Rightarrow>
         if own_ContainerName o1 \<noteq> [] then own_Process o1 @ '' in '' @ own_ContainerName o1
         else if own_Pod o1 \<noteq> [] then own_Process o1 @ '' in pod '' @ own_Pod o1
         else if own_Unit o1 \<noteq> [] then own_Process o1 @ '' ('' @ own_Unit o1 @ '')''
         else own_Process o1)"

definition ownerIdentity :: "Owner option \<Rightarrow> string" where
  "ownerIdentity oo = (case oo of None \<Rightarrow> []
     | Some o1 \<Rightarrow> own_Process o1 @ [CHR 0x00] @ own_Unit o1 @ [CHR 0x00] @ own_Container o1 @ [CHR 0x00] @ own_Pod o1)"

definition em_dash :: string where
  "em_dash = [CHR 0xE2, CHR 0x80, CHR 0x94]"

definition describe :: "portView \<Rightarrow> string" where
  "describe v =
     (let s = pv_addr v @ '' ('' @ reachWord (pv_reach v) @ '')''; name = ownerName (pv_owner v)
      in if name \<noteq> [] then s @ '' '' @ em_dash @ '' '' @ name else s)"

text \<open>The change of a port that listens now.\<close>

definition current_change :: "(int \<rightharpoonup> portView) \<Rightarrow> int \<Rightarrow> portView \<Rightarrow> Change option" where
  "current_change old port a =
     (case old port of
        None \<Rightarrow>
          Some \<lparr>ch_Kind = Appeared, ch_Port = port, ch_Severity = (if pv_reach a = 2 then ''high'' else ''medium''),
            ch_Before = [], ch_After = describe a,
            ch_Note = (if pv_reach a = 2
                       then ''a service now listens on every interface '' @ em_dash @ '' reachable from outside''
                       else ''a service now listens on '' @ reachWord (pv_reach a))\<rparr>
      | Some b \<Rightarrow>
          if pv_reach a > pv_reach b then
            Some \<lparr>ch_Kind = Widened, ch_Port = port, ch_Severity = (if pv_reach a = 2 then ''high'' else ''medium''),
              ch_Before = describe b, ch_After = describe a,
              ch_Note = ''reach widened from '' @ reachWord (pv_reach b) @ '' to '' @ reachWord (pv_reach a)\<rparr>
          else if pv_reach a < pv_reach b then
            Some \<lparr>ch_Kind = Narrowed, ch_Port = port, ch_Severity = ''info'',
              ch_Before = describe b, ch_After = describe a,
              ch_Note = ''reach narrowed from '' @ reachWord (pv_reach b) @ '' to '' @ reachWord (pv_reach a)\<rparr>
          else if ownerIdentity (pv_owner a) \<noteq> ownerIdentity (pv_owner b) then
            Some \<lparr>ch_Kind = OwnerChanged, ch_Port = port, ch_Severity = (if pv_reach a = 2 then ''medium'' else ''info''),
              ch_Before = describe b, ch_After = describe a, ch_Note = ''a different program owns this port now''\<rparr>
          else None)"

definition gone_change :: "(int \<rightharpoonup> portView) \<Rightarrow> int \<Rightarrow> portView \<Rightarrow> Change option" where
  "gone_change cur port b =
     (if cur port = None
      then Some \<lparr>ch_Kind = Disappeared, ch_Port = port, ch_Severity = ''info'',
             ch_Before = describe b, ch_After = [], ch_Note = ''no longer listening''\<rparr>
      else None)"

definition severity_rank :: "string \<Rightarrow> nat" where
  "severity_rank s = (if s = ''medium'' then 1 else if s = ''info'' then 2 else 0)"

definition change_less :: "Change \<Rightarrow> Change \<Rightarrow> bool" where
  "change_less a b =
     (if severity_rank (ch_Severity a) \<noteq> severity_rank (ch_Severity b)
      then severity_rank (ch_Severity a) < severity_rank (ch_Severity b)
      else ch_Port a < ch_Port b)"

definition raw_changes :: "int list \<Rightarrow> int list \<Rightarrow> (int \<rightharpoonup> portView) \<Rightarrow> (int \<rightharpoonup> portView) \<Rightarrow> Change list" where
  "raw_changes curKeys oldKeys old cur =
     List.map_filter (\<lambda>p. Option.bind (cur p) (current_change old p)) curKeys
     @ List.map_filter (\<lambda>p. Option.bind (old p) (gone_change cur p)) oldKeys"

definition Diff :: "int list \<Rightarrow> int list \<Rightarrow> Inventory \<Rightarrow> Inventory \<Rightarrow> drift_report" where
  "Diff curKeys oldKeys before after =
     (let old = fold_ports (inv_Listeners before); cur = fold_ports (inv_Listeners after)
      in \<lparr>dr_Host = inv_Hostname after, dr_From = inv_CollectedAt before, dr_To = inv_CollectedAt after,
          dr_Changes = sort_by change_less (raw_changes curKeys oldKeys old cur)\<rparr>)"

text \<open>The orders Go may iterate a map in.\<close>

definition key_order :: "int list \<Rightarrow> (int \<rightharpoonup> 'v) \<Rightarrow> bool" where
  "key_order ks m \<longleftrightarrow> distinct ks \<and> set ks = dom m"

interpretation change_order: weak_order change_less
  by unfold_locales (auto simp: change_less_def split: if_splits)

subsection \<open>Laws\<close>

lemma fold_ports_snoc: "fold_ports (ls @ [l]) = fold_listener l (fold_ports ls)"
  by (simp add: fold_ports_def)

text \<open>The view of a port is made of its own listeners: the first of those that reach furthest.\<close>

definition view_of :: "Listener \<Rightarrow> portView" where
  "view_of l = \<lparr>pv_reach = reach (lst_Address l), pv_addr = lst_Address l, pv_owner = lst_Owner l\<rparr>"

definition widest_step :: "Listener \<Rightarrow> portView option \<Rightarrow> portView option" where
  "widest_step l v = (if (case v of None \<Rightarrow> True | Some cur \<Rightarrow> reach (lst_Address l) > pv_reach cur) then Some (view_of l) else v)"

definition at_port :: "int \<Rightarrow> Listener list \<Rightarrow> Listener list" where
  "at_port port = filter (\<lambda>l. lst_Port l = port)"

lemma fold_ports_at: "fold_ports ls port = fold widest_step (at_port port ls) None"
proof (induction ls rule: rev_induct)
  case Nil
  then show ?case by (simp add: fold_ports_def at_port_def)
next
  case (snoc l ls)
  then show ?case
    by (cases "lst_Port l = port") (simp_all add: fold_ports_snoc fold_listener_def widest_step_def view_of_def at_port_def)
qed

lemma widest_view:
  "ls \<noteq> [] \<Longrightarrow> \<exists>l \<in> set ls. fold widest_step ls None = Some (view_of l) \<and> (\<forall>k \<in> set ls. reach (lst_Address k) \<le> reach (lst_Address l))"
proof (induction ls rule: rev_induct)
  case (snoc l ls)
  show ?case
  proof (cases "ls = []")
    case True
    then show ?thesis by (simp add: widest_step_def)
  next
    case False
    then obtain m where m: "m \<in> set ls" "fold widest_step ls None = Some (view_of m)"
        "\<forall>k \<in> set ls. reach (lst_Address k) \<le> reach (lst_Address m)" using snoc.IH by blast
    have reach: "pv_reach (view_of m) = reach (lst_Address m)" by (simp add: view_of_def)
    show ?thesis
    proof (cases "reach (lst_Address l) > reach (lst_Address m)")
      case True
      then have "fold widest_step (ls @ [l]) None = Some (view_of l)" by (simp add: m(2) widest_step_def reach)
      moreover have "\<forall>k \<in> set (ls @ [l]). reach (lst_Address k) \<le> reach (lst_Address l)" using True m(3) by force
      ultimately show ?thesis by auto
    next
      case False
      then have "fold widest_step (ls @ [l]) None = Some (view_of m)" by (simp add: m(2) widest_step_def reach)
      moreover have "\<forall>k \<in> set (ls @ [l]). reach (lst_Address k) \<le> reach (lst_Address m)" using False m(3) by force
      ultimately show ?thesis using m(1) by auto
    qed
  qed
qed simp

lemma fold_ports_None: "fold_ports ls port = None \<longleftrightarrow> at_port port ls = []"
  using widest_view [of "at_port port ls"] by (cases "at_port port ls = []") (auto simp: fold_ports_at)

text \<open>The reach of a port in an inventory: that of its widest listener, and nothing if none listens.\<close>

definition port_reach :: "Listener list \<Rightarrow> int \<Rightarrow> nat option" where
  "port_reach ls port = (if at_port port ls = [] then None
     else Some (Max (reach ` lst_Address ` set (at_port port ls))))"

lemma port_reach_view: "map_option pv_reach (fold_ports ls port) = port_reach ls port"
proof (cases "at_port port ls = []")
  case True
  then show ?thesis using fold_ports_None [of ls port] by (simp add: port_reach_def)
next
  case False
  then obtain l where l: "l \<in> set (at_port port ls)" "fold widest_step (at_port port ls) None = Some (view_of l)"
      "\<forall>k \<in> set (at_port port ls). reach (lst_Address k) \<le> reach (lst_Address l)"
    using widest_view [OF False] by blast
  have "Max (reach ` lst_Address ` set (at_port port ls)) = reach (lst_Address l)"
    using l by (intro Max_eqI) auto
  then show ?thesis using False l(2) by (simp add: port_reach_def fold_ports_at view_of_def)
qed

lemma dom_fold_ports: "dom (fold_ports ls) = lst_Port ` set ls"
proof (rule set_eqI)
  fix p
  have "p \<in> dom (fold_ports ls) \<longleftrightarrow> at_port p ls \<noteq> []" by (simp add: domIff fold_ports_None)
  then show "p \<in> dom (fold_ports ls) \<longleftrightarrow> p \<in> lst_Port ` set ls" by (auto simp: at_port_def filter_empty_conv)
qed

lemma current_change_port: "current_change old p a = Some c \<Longrightarrow> ch_Port c = p"
  by (auto simp: current_change_def split: option.splits if_splits)

lemma gone_change_port: "gone_change cur p b = Some c \<Longrightarrow> ch_Port c = p"
  by (auto simp: gone_change_def split: if_splits)

text \<open>What the report says of one port.\<close>

definition port_change :: "(int \<rightharpoonup> portView) \<Rightarrow> (int \<rightharpoonup> portView) \<Rightarrow> int \<Rightarrow> Change option" where
  "port_change old cur p =
     (case cur p of Some a \<Rightarrow> current_change old p a | None \<Rightarrow> Option.bind (old p) (gone_change cur p))"

lemma port_change_port: "port_change old cur p = Some c \<Longrightarrow> ch_Port c = p"
  by (auto simp: port_change_def current_change_port gone_change_port split: option.splits bind_splits)

lemma map_filter_cong_set: "(\<And>x. x \<in> set xs \<Longrightarrow> f x = g x) \<Longrightarrow> List.map_filter f xs = List.map_filter g xs"
  by (induction xs) (auto simp: map_filter_simps split: option.splits)

lemma mset_map_filter: "mset (List.map_filter f xs) = image_mset (the \<circ> f) (filter_mset (\<lambda>x. f x \<noteq> None) (mset xs))"
  by (induction xs) (auto simp: map_filter_simps split: option.splits)

lemma raw_changes_mset:
  assumes "key_order curKeys cur" and "key_order oldKeys old"
  shows "mset (raw_changes curKeys oldKeys old cur)
    = mset (List.map_filter (port_change old cur) (curKeys @ filter (\<lambda>p. cur p = None) oldKeys))"
proof -
  have 1: "List.map_filter (\<lambda>p. Option.bind (cur p) (current_change old p)) curKeys
      = List.map_filter (port_change old cur) curKeys"
    using assms(1) by (intro map_filter_cong_set) (auto simp: port_change_def key_order_def)
  have 2: "List.map_filter (\<lambda>p. Option.bind (old p) (gone_change cur p)) ks
      = List.map_filter (port_change old cur) (filter (\<lambda>p. cur p = None) ks)" if "set ks \<subseteq> dom old" for ks
    using that by (induction ks) (auto simp: map_filter_simps port_change_def gone_change_def split: option.splits if_splits)
  have "List.map_filter f (xs @ ys) = List.map_filter f xs @ List.map_filter f ys" for f :: "int \<Rightarrow> Change option" and xs ys
    by (simp add: map_filter_def)
  then show ?thesis using assms(2) by (simp add: raw_changes_def 1 2 key_order_def)
qed

lemma all_ports:
  assumes "key_order curKeys cur" and "key_order oldKeys old"
  shows "mset (curKeys @ filter (\<lambda>p. cur p = None) oldKeys) = mset_set (dom cur \<union> dom old)"
proof -
  have "distinct (curKeys @ filter (\<lambda>p. cur p = None) oldKeys)"
    using assms by (auto simp: key_order_def dom_def)
  moreover have "set (curKeys @ filter (\<lambda>p. cur p = None) oldKeys) = dom cur \<union> dom old"
    using assms by (auto simp: key_order_def)
  ultimately show ?thesis by (metis mset_set_set)
qed

lemma changes_mset:
  assumes "key_order curKeys (fold_ports (inv_Listeners after))" and "key_order oldKeys (fold_ports (inv_Listeners before))"
  shows "mset (dr_Changes (Diff curKeys oldKeys before after))
    = image_mset (the \<circ> port_change (fold_ports (inv_Listeners before)) (fold_ports (inv_Listeners after)))
        (filter_mset (\<lambda>p. port_change (fold_ports (inv_Listeners before)) (fold_ports (inv_Listeners after)) p \<noteq> None)
          (mset_set (lst_Port ` set (inv_Listeners before @ inv_Listeners after))))"
proof -
  let ?cur = "fold_ports (inv_Listeners after)" and ?old = "fold_ports (inv_Listeners before)"
  let ?ps = "curKeys @ filter (\<lambda>p. ?cur p = None) oldKeys"
  have ps: "mset ?ps = mset_set (lst_Port ` set (inv_Listeners before @ inv_Listeners after))"
    using all_ports [OF assms] by (simp only: dom_fold_ports set_append image_Un Un_commute)
  have "mset (dr_Changes (Diff curKeys oldKeys before after)) = mset (raw_changes curKeys oldKeys ?old ?cur)"
    by (simp add: Diff_def)
  also have "\<dots> = mset (List.map_filter (port_change ?old ?cur) ?ps)" by (rule raw_changes_mset [OF assms])
  also have "\<dots> = image_mset (the \<circ> port_change ?old ?cur) (filter_mset (\<lambda>p. port_change ?old ?cur p \<noteq> None) (mset ?ps))"
    by (rule mset_map_filter)
  finally show ?thesis unfolding ps .
qed

text \<open>The change reported for a port between two inventories.\<close>

definition change_of :: "Inventory \<Rightarrow> Inventory \<Rightarrow> int \<Rightarrow> Change option" where
  "change_of before after = port_change (fold_ports (inv_Listeners before)) (fold_ports (inv_Listeners after))"

lemma change_outside: "p \<notin> lst_Port ` set (inv_Listeners before @ inv_Listeners after) \<Longrightarrow> change_of before after p = None"
proof -
  assume "p \<notin> lst_Port ` set (inv_Listeners before @ inv_Listeners after)"
  then have "p \<notin> dom (fold_ports (inv_Listeners before))" "p \<notin> dom (fold_ports (inv_Listeners after))"
    unfolding dom_fold_ports by auto
  then show ?thesis by (simp add: change_of_def port_change_def domIff)
qed

lemma change_of_port: "change_of before after p = Some c \<Longrightarrow> ch_Port c = p"
  by (simp add: change_of_def port_change_port)

lemma changes_set:
  assumes "key_order curKeys (fold_ports (inv_Listeners after))" and "key_order oldKeys (fold_ports (inv_Listeners before))"
  shows "set (dr_Changes (Diff curKeys oldKeys before after)) = {c. \<exists>p. change_of before after p = Some c}"
proof -
  let ?f = "change_of before after"
  let ?P = "lst_Port ` set (inv_Listeners before @ inv_Listeners after)"
  have "set (dr_Changes (Diff curKeys oldKeys before after)) = (the \<circ> ?f) ` {p \<in> ?P. ?f p \<noteq> None}"
    using arg_cong [OF changes_mset [OF assms, folded change_of_def], of set_mset] by simp
  also have "\<dots> = {c. \<exists>p. ?f p = Some c}"
  proof (intro set_eqI iffI)
    fix c
    assume "c \<in> (the \<circ> ?f) ` {p \<in> ?P. ?f p \<noteq> None}"
    then obtain p where "?f p \<noteq> None" "c = the (?f p)" by auto
    then show "c \<in> {c. \<exists>p. ?f p = Some c}" by (simp add: option.expand) (metis option.collapse)
  next
    fix c
    assume "c \<in> {c. \<exists>p. ?f p = Some c}"
    then obtain p where p: "?f p = Some c" by blast
    then have "p \<in> ?P" using change_outside [of p before after] by fastforce
    then have "p \<in> {p \<in> ?P. ?f p \<noteq> None}" using p by simp
    moreover have "c = (the \<circ> ?f) p" using p by simp
    ultimately show "c \<in> (the \<circ> ?f) ` {p \<in> ?P. ?f p \<noteq> None}" by (rule image_eqI [rotated])
  qed
  finally show ?thesis .
qed

lemma reach_le_2: "reach a \<le> 2"
  by (simp add: reach_def split: option.splits)

lemma view_reach_le_2: "fold_ports ls p = Some v \<Longrightarrow> pv_reach v \<le> 2"
  using widest_view [of "at_port p ls"] by (cases "at_port p ls = []") (auto simp: fold_ports_at view_of_def reach_le_2)

lemma high_change:
  "(\<exists>c. change_of before after p = Some c \<and> ch_Severity c = ''high'') \<longleftrightarrow>
     port_reach (inv_Listeners after) p = Some 2 \<and> port_reach (inv_Listeners before) p \<noteq> Some 2"
proof -
  let ?a = "fold_ports (inv_Listeners after) p" and ?b = "fold_ports (inv_Listeners before) p"
  have "(\<exists>c. change_of before after p = Some c \<and> ch_Severity c = ''high'') \<longleftrightarrow>
      (\<exists>v. ?a = Some v \<and> pv_reach v = 2) \<and> \<not> (\<exists>v. ?b = Some v \<and> pv_reach v = 2)"
  proof (cases ?a)
    case None
    then show ?thesis by (cases ?b) (simp_all add: change_of_def port_change_def gone_change_def)
  next
    case (Some a)
    show ?thesis
    proof (cases ?b)
      case None
      then show ?thesis using Some by (simp add: change_of_def port_change_def current_change_def)
    next
      case b: (Some b)
      then show ?thesis using Some view_reach_le_2 [OF b] view_reach_le_2 [OF Some]
        by (auto simp: change_of_def port_change_def current_change_def)
    qed
  qed
  then show ?thesis by (simp add: port_reach_view [symmetric] map_option_case split: option.splits)
qed


lemma newly_exposed_count:
  assumes "key_order curKeys (fold_ports (inv_Listeners after))" and "key_order oldKeys (fold_ports (inv_Listeners before))"
  shows "NewlyExposed (Diff curKeys oldKeys before after)
    = card {p. port_reach (inv_Listeners after) p = Some 2 \<and> port_reach (inv_Listeners before) p \<noteq> Some 2}"
proof -
  let ?f = "change_of before after"
  let ?M = "mset_set (lst_Port ` set (inv_Listeners before @ inv_Listeners after))"
  let ?high = "\<lambda>c. ch_Severity c = ''high''"
  have "NewlyExposed (Diff curKeys oldKeys before after)
      = size (filter_mset ?high (mset (dr_Changes (Diff curKeys oldKeys before after))))"
    by (simp add: NewlyExposed_def flip: mset_filter)
  also have "\<dots> = size (filter_mset (\<lambda>p. ?high (the (?f p))) (filter_mset (\<lambda>p. ?f p \<noteq> None) ?M))"
    unfolding changes_mset [OF assms, folded change_of_def] by (simp add: filter_mset_image_mset comp_def)
  also have "\<dots> = card {p \<in> lst_Port ` set (inv_Listeners before @ inv_Listeners after). \<exists>c. ?f p = Some c \<and> ?high c}"
    by (simp add: filter_filter_mset filter_mset_mset_set) (rule arg_cong [of _ _ card], auto)
  also have "{p \<in> lst_Port ` set (inv_Listeners before @ inv_Listeners after). \<exists>c. ?f p = Some c \<and> ?high c}
      = {p. \<exists>c. ?f p = Some c \<and> ?high c}"
    using change_outside [of _ before after] by force
  finally show ?thesis unfolding high_change .
qed

subsection \<open>Properties\<close>


definition one_listener :: "string \<Rightarrow> Inventory" where
  "one_listener addr = \<lparr>inv_Hostname = ''a'', inv_CollectedAt = 0, inv_Addresses = [],
     inv_Listeners = [\<lparr>lst_Address = addr, lst_Port = 5432, lst_Inode = 1, lst_Owner = None\<rparr>], inv_Services = []\<rparr>"


text \<open>A change of reach hides a change of owner: a port whose program was replaced while it
  was also rebound is reported as widened only.\<close>

theorem reach_change_hides_owner_change:
  assumes "fold_ports (inv_Listeners before) p = Some b" and "fold_ports (inv_Listeners after) p = Some a"
    and "pv_reach a \<noteq> pv_reach b" and "change_of before after p = Some c"
  shows "ch_Kind c \<noteq> OwnerChanged"
  using assms by (auto simp: change_of_def port_change_def current_change_def split: if_splits)

end
