(* ===== verification/Explain.thy ===== *)
theory Explain
  imports HostInventory Results
begin

text \<open>
  \<open>internal/explain\<close>: the join of an inventory with a scan of the same host
  (\<open>explain.go\<close>), and the choice of the ports to probe from outside (\<open>auto.go\<close>).
  The map of ports is iterated along a list that is an argument; a slice expression
  out of range is a panic, \<open>None\<close>.
\<close>

datatype port_class = Exposed | Forwarded | Shielded | Refused | LocalOnly | Untested

record Entry =
  en_Port :: int
  en_Class :: port_class
  en_Expected :: bool
  en_Severity :: string
  en_Listeners :: "string list"
  en_Owner :: "Owner option"
  en_Service :: string
  en_Kube :: "KubeService option"
  en_Why :: string
  en_Fix :: string

record explain_report =
  er_Host :: string
  er_Target :: string
  er_Entries :: "Entry list"

subsection \<open>The scanned address\<close>

datatype select_error = NoResultFor string | SeveralAddresses "string list" | NotAnAddress string | NoneBelongs

definition SelectTarget :: "Inventory \<Rightarrow> TargetResult list \<Rightarrow> string \<Rightarrow> select_error + string" where
  "SelectTarget iv results given =
     (let scanned = set (map res_IP results);
          matches = filter (\<lambda>a. a \<in> scanned) (inv_Addresses iv)
      in if given \<noteq> [] then (if given \<in> scanned then Inr given else Inl (NoResultFor given))
         else (case matches of
                 [a] \<Rightarrow> Inr a
               | a # b # as \<Rightarrow> Inl (SeveralAddresses matches)
               | [] \<Rightarrow> (case dedup (map res_IP results) of
                          [ip] \<Rightarrow> Inl (NotAnAddress ip)
                        | _ \<Rightarrow> Inl NoneBelongs)))"

definition covers :: "string \<Rightarrow> string \<Rightarrow> bool" where
  "covers bound target =
     (if bound = target then True
      else if bound = ''0.0.0.0'' then (case parse_ip target of Some t \<Rightarrow> to4 t \<noteq> None | None \<Rightarrow> False)
      else bound = ''::'')"

subsection \<open>Labels and advice\<close>

definition ownerLabel :: "Owner option \<Rightarrow> string option" where
  "ownerLabel oo =
     (case oo of
        None \<Rightarrow> Some ''an unidentified process''
      | Some o1 \<Rightarrow>
          map_option (\<lambda>tag. own_Process o1 @ '' (pid '' @ itoa (own_PID o1) @ tag @ '')'')
            (if own_ContainerName o1 \<noteq> [] then Some ('', container '' @ own_ContainerName o1)
             else if own_Pod o1 \<noteq> [] then Some ('', pod '' @ own_Pod o1)
             else if own_Container o1 \<noteq> [] then map_option (\<lambda>c. '', container '' @ c) (slice (own_Container o1) 0 12)
             else if own_Unit o1 \<noteq> [] then Some ('', unit '' @ own_Unit o1)
             else Some []))"

definition kubeServiceFor :: "KubeService list \<Rightarrow> int \<Rightarrow> KubeService option" where
  "kubeServiceFor svcs port =
     List.find (\<lambda>s. ks_NodePort s = port \<or> ks_Type s = ''LoadBalancer'' \<and> ks_Port s = port) svcs"

definition bindFixes :: "string \<rightharpoonup> string" where
  "bindFixes = map_of [
    (''sshd'', ''set ListenAddress in /etc/ssh/sshd_config, or allow port 22 only from your admin addresses in the firewall''),
    (''redis-server'', ''set `bind 127.0.0.1 ::1` and `protected-mode yes` in redis.conf''),
    (''postgres'', ''set listen_addresses = 'localhost' in postgresql.conf (and tighten pg_hba.conf)''),
    (''mysqld'', ''set bind-address = 127.0.0.1 in the [mysqld] section of my.cnf''),
    (''mariadbd'', ''set bind-address = 127.0.0.1 in the [mysqld] section of my.cnf''),
    (''mongod'', ''set net.bindIp: 127.0.0.1 in mongod.conf''),
    (''memcached'', ''start it with -l 127.0.0.1''),
    (''dockerd'', ''never expose the Docker API on TCP without TLS client auth: remove -H tcp://... or bind it to 127.0.0.1''),
    (''etcd'', ''set --listen-client-urls to https://127.0.0.1:2379 (and require client certificates)''),
    (''elasticsearch'', ''set network.host: 127.0.0.1 in elasticsearch.yml''),
    (''rpcbind'', ''disable rpcbind if NFS is not used (systemctl disable --now rpcbind.socket rpcbind)''),
    (''cupsd'', ''set Listen localhost:631 in cupsd.conf''),
    (''node_exporter'', ''start it with --web.listen-address=127.0.0.1:9100 and scrape through a private network''),
    (''prometheus'', ''start it with --web.listen-address=127.0.0.1:9090 or put it behind an authenticating proxy''),
    (''grafana'', ''set http_addr = 127.0.0.1 in grafana.ini and serve it through your reverse proxy''),
    (''kubelet'', ''keep the kubelet ports firewalled to the cluster network''),
    (''containerd'', ''keep containerd's ports firewalled to the host''),
    (''java'', ''bind the application to 127.0.0.1 (e.g. server.address=127.0.0.1 for Spring Boot) and publish it through a reverse proxy''),
    (''node'', ''bind the server to 127.0.0.1 (e.g. app.listen(port, '127.0.0.1')) and publish it through a reverse proxy''),
    (''gunicorn'', ''bind it to 127.0.0.1 (--bind 127.0.0.1:PORT) and publish it through a reverse proxy''),
    (''uvicorn'', ''start it with --host 127.0.0.1 and publish it through a reverse proxy''),
    (''python'', ''bind the application to 127.0.0.1 (e.g. --host 127.0.0.1 / --bind 127.0.0.1) and publish it through a reverse proxy''),
    (''nginx'', ''if this port is meant to be public, pass it with --expect; otherwise restrict its `listen` directive to 127.0.0.1''),
    (''apache2'', ''if this port is meant to be public, pass it with --expect; otherwise use `Listen 127.0.0.1:PORT`''),
    (''httpd'', ''if this port is meant to be public, pass it with --expect; otherwise use `Listen 127.0.0.1:PORT`''),
    (''caddy'', ''if this port is meant to be public, pass it with --expect; otherwise bind the site to 127.0.0.1'')
  ]"

definition lookupBindFix :: "string \<Rightarrow> string option" where
  "lookupBindFix process =
     (case bindFixes process of
        Some fix \<Rightarrow> Some fix
      | None \<Rightarrow> if has_prefix process ''python'' then bindFixes ''python'' else None)"

text \<open>\<open>net.SplitHostPort\<close>: the port, or \<open>None\<close> for an address that is malformed.\<close>

definition split_port :: "string \<Rightarrow> string option" where
  "split_port s =
     (if \<not> contains_char s (CHR '':'') then None
      else
        (let port = rev (takeWhile (\<lambda>c. c \<noteq> CHR '':'') (rev s)); i = length s - length port - 1 in
         if hd s = CHR ''['' then
           (let stop = length (takeWhile (\<lambda>c. c \<noteq> CHR '']'') s) in
            if stop = length s \<or> stop + 1 \<noteq> i \<or> contains_char (drop 1 s) (CHR ''['') \<or> contains_char (drop (stop + 1) s) (CHR '']'')
            then None else Some port)
         else if contains_char (take i s) (CHR '':'') \<or> contains_char s (CHR ''['') \<or> contains_char s (CHR '']'') then None
         else Some port))"

definition containerPort :: "string \<Rightarrow> string" where
  "containerPort addr = (case split_port addr of Some p \<Rightarrow> p | None \<Rightarrow> ''PORT'')"


definition fixExposed :: "Owner option \<Rightarrow> int \<Rightarrow> string" where
  "fixExposed oo port =
     (case oo of
        None \<Rightarrow> ''Run `tcpcat inventory` as root on the host to identify the owner. If it already ran as root, the socket is held outside the host's process view (e.g. by a container runtime): check `docker ps` and `ss -ltnp`.''
      | Some o1 \<Rightarrow>
          if own_Process o1 = ''docker-proxy'' then
            (let name = (if own_ContainerName o1 = [] then ''the container'' else own_ContainerName o1)
             in ''Published by Docker for '' @ name @ '' (-> '' @ own_ForwardsTo o1 @ ''). Publish it on loopback only (`-p 127.0.0.1:'' @ itoa port @ '':'' @ containerPort (own_ForwardsTo o1) @ ''`, or `\"127.0.0.1:'' @ itoa port @ '':...\"` in compose) or drop the port mapping if nothing outside needs it.'')
          else
            (let fix = (case lookupBindFix (own_Process o1) of
                          Some f \<Rightarrow> f
                        | None \<Rightarrow> ''configure it to listen on 127.0.0.1 only, or allow this port only from the addresses that need it in the firewall'');
                 hint = (if own_Pod o1 \<noteq> [] then '' It runs in pod '' @ own_Pod o1 @ '': check for hostNetwork: true or a hostPort in its spec.''
                          else if own_Unit o1 \<noteq> [] then '' Its configuration: `systemctl cat '' @ own_Unit o1 @ ''`.''
                          else [])
             in to_upper (take 1 fix) @ drop 1 fix @ ''.'' @ hint))"

definition fixForwarded :: "KubeService option \<Rightarrow> int \<Rightarrow> string" where
  "fixForwarded kk port =
     (case kk of
        Some k \<Rightarrow>
          if ks_NodePort k = port \<and> ks_Port k \<noteq> port then
            ''NodePort '' @ itoa port @ '' of Kubernetes Service '' @ ks_Name k @ '' ('' @ ks_Type k @ ''): every node accepts it, a duplicate entry next to the Service's own port '' @ itoa (ks_Port k) @ ''. Firewall the NodePort range (30000-32767), or set `allocateLoadBalancerNodePorts: false` on a LoadBalancer Service.''
          else
            ''Kubernetes Service '' @ ks_Name k @ '' ('' @ ks_Type k @ '') maps this port. If it must not be public, make it ClusterIP, or set loadBalancerSourceRanges / a NetworkPolicy.''
      | None \<Rightarrow>
          ''Find the forwarding rule: `iptables -t nat -S | grep -- '--dport '' @ itoa port @ [CHR 0x27] @ ''` or `nft list ruleset | grep '' @ itoa port @ ''`, `docker ps` (published ports), `kubectl get svc -A`. If the host is behind a cloud load balancer or 1:1 NAT, check its listener/security group.'')"

definition fixShielded :: "Owner option \<Rightarrow> int \<Rightarrow> string" where
  "fixShielded oo port =
     (let process = (case oo of None \<Rightarrow> [] | Some o1 \<Rightarrow> own_Process o1);
          how = ''make it listen on 127.0.0.1 only'' @
            (case lookupBindFix process of
               Some fix \<Rightarrow> if \<not> contains_str fix ''reverse proxy'' \<and> \<not> contains_str fix ''--expect''
                            then '' ('' @ fix @ '')'' else []
             | None \<Rightarrow> [])
      in ''Defense in depth: if nothing remote needs port '' @ itoa port @ '', '' @ how @ '', so a firewall mistake can't expose it.'')"

subsection \<open>Classification\<close>

definition sensitivePorts :: "int list" where
  "sensitivePorts = [21, 22, 23, 135, 139, 445, 1433, 1521, 2375, 2376, 2379, 2380, 3306, 3389, 5000,
     5432, 5900, 5984, 6379, 6443, 8086, 9090, 9200, 10250, 11211, 27017]"

definition severity :: "Entry \<Rightarrow> string" where
  "severity e =
     (if en_Class e = Exposed \<or> en_Class e = Forwarded then
        (if en_Expected e then ''info'' else if en_Port e \<in> set sensitivePorts then ''high'' else ''medium'')
      else if en_Class e = Shielded then (if en_Port e \<in> set sensitivePorts then ''low'' else ''info'')
      else ''info'')"

text \<open>The last result of each port of the target.\<close>

definition scan_state :: "TargetResult list \<Rightarrow> string \<Rightarrow> int \<rightharpoonup> TargetResult" where
  "scan_state results target =
     fold (\<lambda>r m. if res_IP r = target then m(res_Port r \<mapsto> r) else m) results Map.empty"

definition is_open :: "(int \<rightharpoonup> TargetResult) \<Rightarrow> int \<Rightarrow> bool" where
  "is_open state port = (case state port of Some r \<Rightarrow> res_State r = StateOpen | None \<Rightarrow> False)"

definition reachable_side :: "Inventory \<Rightarrow> string \<Rightarrow> int \<Rightarrow> Listener list" where
  "reachable_side iv target port =
     filter (\<lambda>l. lst_Port l = port \<and> covers (lst_Address l) target) (inv_Listeners iv)"

definition other_side :: "Inventory \<Rightarrow> string \<Rightarrow> int \<Rightarrow> Listener list" where
  "other_side iv target port =
     filter (\<lambda>l. lst_Port l = port \<and> \<not> covers (lst_Address l) target) (inv_Listeners iv)"

fun first_owner :: "Listener list \<Rightarrow> Owner option" where
  "first_owner [] = None"
| "first_owner (l # ls) = (case lst_Owner l of Some o1 \<Rightarrow> Some o1 | None \<Rightarrow> first_owner ls)"

text \<open>The switch: class, reason, advice and service of one port.\<close>

definition verdict :: "Inventory \<Rightarrow> string \<Rightarrow> (int \<rightharpoonup> TargetResult) \<Rightarrow> int
    \<Rightarrow> (port_class \<times> string \<times> string \<times> KubeService option) option" where
  "verdict iv target state port =
     (let reachable = reachable_side iv target port; other = other_side iv target port;
          owned = (if reachable = [] then other else reachable);
          owner = first_owner owned; bound = join_str '', '' (map lst_Address owned);
          kube = kubeServiceFor (inv_Services iv) port; label = ownerLabel owner
      in if is_open state port \<and> kube \<noteq> None then
           (let k = the kube;
                why = ''reachable from the scanner through Kubernetes Service '' @ ks_Name k @ '' ('' @ ks_Type k @ ''): external connections are redirected into the cluster''
            in if reachable \<noteq> []
               then map_option (\<lambda>lab. (Forwarded, why @ ''; '' @ lab @ '' also listens on '' @ bound @ '' but does not receive this traffic'', fixForwarded kube port, kube)) label
               else Some (Forwarded, why, fixForwarded kube port, kube))
         else if is_open state port \<and> reachable \<noteq> [] then
           map_option (\<lambda>lab. (Exposed, ''reachable from the scanner, and '' @ lab @ '' listens on '' @ bound, fixExposed owner port, None)) label
         else if is_open state port then
           (let why = ''reachable from the scanner, but no process on this host listens on it for this address: the connection is forwarded''
            in if other \<noteq> []
               then map_option (\<lambda>lab. (Forwarded, why @ '' ('' @ lab @ '' listens on '' @ bound @ '' only)'', fixForwarded None port, None)) label
               else Some (Forwarded, why, fixForwarded None port, None))
         else if reachable \<noteq> [] \<and> (case state port of Some r \<Rightarrow> res_State r = StateClosed | None \<Rightarrow> False) then
           (case owner of
              Some o1 \<Rightarrow>
                if own_Process o1 = ''docker-proxy''
                then map_option (\<lambda>lab. (Refused, lab @ '' publishes this port, but connections are refused: nothing listens on '' @ own_ForwardsTo o1 @ '' inside the container'',
                       ''Remove the stale port mapping, or fix the service inside the container so it listens on the published port.'', None)) label
                else map_option (\<lambda>lab. (Refused, lab @ '' listens on '' @ bound @ '', but connections are refused (a firewall REJECT rule, or a service that turns them away)'', fixShielded owner port, None)) label
            | None \<Rightarrow> map_option (\<lambda>lab. (Refused, lab @ '' listens on '' @ bound @ '', but connections are refused (a firewall REJECT rule, or a service that turns them away)'', fixShielded owner port, None)) label)
         else if reachable \<noteq> [] \<and> state port \<noteq> None then
           map_option (\<lambda>lab. (Shielded, lab @ '' listens on '' @ bound @ '', but the scan found it '' @ to_lower (res_State (the (state port))) @ '': only the firewall keeps it off the network'', fixShielded owner port, None)) label
         else if reachable \<noteq> [] then
           map_option (\<lambda>lab. (Untested, lab @ '' listens on '' @ bound @ '', but the scan did not probe this port'',
             ''Re-scan with this port included (e.g. -p 1-65535) to know whether it is reachable.'', None)) label
         else map_option (\<lambda>lab. (LocalOnly, lab @ '' listens on '' @ bound @ '' only'', [], None)) label)"

definition explain_entry :: "Inventory \<Rightarrow> string \<Rightarrow> (int \<rightharpoonup> TargetResult) \<Rightarrow> (int \<Rightarrow> bool) \<Rightarrow> int \<Rightarrow> Entry option" where
  "explain_entry iv target state expected port =
     (let reachable = reachable_side iv target port;
          owned = (if reachable = [] then other_side iv target port else reachable)
      in map_option (\<lambda>(c, why, fix, kube).
           let e = \<lparr>en_Port = port, en_Class = c, en_Expected = expected port, en_Severity = [],
                en_Listeners = map lst_Address owned, en_Owner = first_owner owned,
                en_Service = (case state port of Some r \<Rightarrow> res_Service r | None \<Rightarrow> []),
                en_Kube = kube, en_Why = why, en_Fix = fix\<rparr>
           in e\<lparr>en_Severity := severity e\<rparr>) (verdict iv target state port))"

definition class_order :: "port_class \<Rightarrow> nat" where
  "class_order c = (case c of Exposed \<Rightarrow> 0 | Forwarded \<Rightarrow> 1 | Shielded \<Rightarrow> 2 | Refused \<Rightarrow> 3 | Untested \<Rightarrow> 4 | LocalOnly \<Rightarrow> 5)"

definition entry_less :: "Entry \<Rightarrow> Entry \<Rightarrow> bool" where
  "entry_less a b =
     (if en_Expected a \<noteq> en_Expected b then \<not> en_Expected a
      else if class_order (en_Class a) \<noteq> class_order (en_Class b) then class_order (en_Class a) < class_order (en_Class b)
      else en_Port a < en_Port b)"

fun explain_entries :: "(int \<Rightarrow> Entry option) \<Rightarrow> int list \<Rightarrow> Entry list option" where
  "explain_entries entry [] = Some []"
| "explain_entries entry (p # ps) =
     Option.bind (entry p) (\<lambda>e. map_option ((#) e) (explain_entries entry ps))"

text \<open>The ports seen from either side.\<close>

definition explained_ports :: "Inventory \<Rightarrow> TargetResult list \<Rightarrow> string \<Rightarrow> int set" where
  "explained_ports iv results target =
     lst_Port ` set (inv_Listeners iv) \<union> {p. is_open (scan_state results target) p}"

definition Explain :: "int list \<Rightarrow> Inventory \<Rightarrow> TargetResult list \<Rightarrow> string \<Rightarrow> (int \<Rightarrow> bool) \<Rightarrow> explain_report option" where
  "Explain ports iv results target expected =
     map_option (\<lambda>es. \<lparr>er_Host = inv_Hostname iv, er_Target = target, er_Entries = sort_by entry_less es\<rparr>)
       (explain_entries (explain_entry iv target (scan_state results target) expected) ports)"

definition is_problem :: "Entry \<Rightarrow> bool" where
  "is_problem e \<longleftrightarrow> (en_Class e = Exposed \<or> en_Class e = Forwarded) \<and> \<not> en_Expected e"

definition Problems :: "explain_report \<Rightarrow> nat" where
  "Problems r = length (filter is_problem (er_Entries r))"


interpretation entry_order: weak_order entry_less
proof
  fix x y z
  show "entry_less x y \<Longrightarrow> \<not> entry_less y x" by (auto simp: entry_less_def split: if_splits)
  show "\<not> entry_less y x \<Longrightarrow> \<not> entry_less z y \<Longrightarrow> \<not> entry_less z x"
    by (auto simp: entry_less_def not_less split: if_splits)
qed

subsection \<open>Choosing the ports to probe\<close>

definition nonPublic :: "ipnet list" where
  "nonPublic = List.map_filter parse_cidr
     [''10.0.0.0/8'', ''172.16.0.0/12'', ''192.168.0.0/16'', ''100.64.0.0/10'',
      ''127.0.0.0/8'', ''169.254.0.0/16'', ''::1/128'', ''fe80::/10'', ''fc00::/7'']"

text \<open>\<open>net.IP.IsGlobalUnicast\<close>.\<close>

definition is_global_unicast :: "ip \<Rightarrow> bool" where
  "is_global_unicast b =
     (case to4 b of
        Some v4 \<Rightarrow> v4 \<noteq> [0xff, 0xff, 0xff, 0xff] \<and> v4 \<noteq> [0, 0, 0, 0] \<and> v4 ! 0 \<noteq> 127
          \<and> v4 ! 0 AND 0xf0 \<noteq> 0xe0 \<and> \<not> (v4 ! 0 = 169 \<and> v4 ! 1 = 254)
      | None \<Rightarrow> length b = 16 \<and> b \<noteq> replicate 16 0 \<and> b \<noteq> replicate 15 0 @ [1]
          \<and> b ! 0 \<noteq> 0xff \<and> \<not> (b ! 0 = 0xfe \<and> b ! 1 AND 0xc0 = 0x80))"

definition IsPublic :: "ip option \<Rightarrow> bool" where
  "IsPublic i = (case i of None \<Rightarrow> False
     | Some b \<Rightarrow> is_global_unicast b \<and> \<not> list_ex (\<lambda>n. net_contains n b) nonPublic)"

definition PublicAddresses :: "Inventory \<Rightarrow> string list" where
  "PublicAddresses iv =
     (let public = filter (\<lambda>a. IsPublic (parse_ip a)) (inv_Addresses iv);
          v4 = (\<lambda>a. case parse_ip a of Some b \<Rightarrow> to4 b \<noteq> None | None \<Rightarrow> False)
      in filter v4 public @ filter (\<lambda>a. \<not> v4 a) public)"

definition PortsToProbe :: "Inventory \<Rightarrow> int list \<Rightarrow> int list" where
  "PortsToProbe iv extra =
     sort_ints (dedup (
       map lst_Port (filter (\<lambda>l. \<not> (case parse_ip (lst_Address l) of Some b \<Rightarrow> is_loopback b | None \<Rightarrow> False)) (inv_Listeners iv))
       @ concat (map (\<lambda>s. if ks_NodePort s > 0 then [ks_Port s, ks_NodePort s] else [ks_Port s]) (inv_Services iv))
       @ extra))"

datatype port_list_error = InvalidPort string

definition port_entry :: "string \<Rightarrow> port_list_error + int list" where
  "port_entry raw =
     (let entry = trim_suffix (trim_space raw) ''/tcp'' in
      if entry = [] then Inr []
      else
        (case cut_char (CHR ''-'') entry of
           (lo, hi, isRange) \<Rightarrow>
             (case (atoi lo, if isRange then atoi hi else atoi lo) of
                (Some start, Some stop) \<Rightarrow>
                  if start < 1 \<or> stop > 65535 \<or> stop < start then Inl (InvalidPort raw) else Inr [start..stop]
              | _ \<Rightarrow> Inl (InvalidPort raw))))"

fun port_entries :: "string list \<Rightarrow> port_list_error + int list" where
  "port_entries [] = Inr []"
| "port_entries (e # es) =
     (case port_entry e of
        Inl err \<Rightarrow> Inl err
      | Inr ps \<Rightarrow> (case port_entries es of Inl err \<Rightarrow> Inl err | Inr qs \<Rightarrow> Inr (ps @ qs)))"

definition ParsePortList :: "string \<Rightarrow> port_list_error + int list" where
  "ParsePortList spec = port_entries (split_on (CHR '','') spec)"

definition canaries :: "int list" where
  "canaries = [47231, 51873, 58419, 49157, 53987, 61243, 45589, 56701]"

definition CanaryPorts :: "Inventory \<Rightarrow> int list \<Rightarrow> nat \<Rightarrow> int list" where
  "CanaryPorts iv avoid n =
     (let used = set (map lst_Port (inv_Listeners iv)) \<union> set (map ks_Port (inv_Services iv))
                 \<union> set (map ks_NodePort (inv_Services iv)) \<union> set avoid
      in take n (filter (\<lambda>p. p \<notin> used) canaries))"

subsection \<open>Laws\<close>

lemma explain_entries_Some:
  "explain_entries entry ps = Some es \<longleftrightarrow> list_all (\<lambda>p. entry p \<noteq> None) ps \<and> es = map (the \<circ> entry) ps"
  by (induction ps arbitrary: es) (auto simp: bind_eq_Some_conv)

lemma explain_entry_fields:
  assumes "explain_entry iv target state expected p = Some e"
  shows "en_Port e = p" and "en_Expected e = expected p"
    and "map_option fst (verdict iv target state p) = Some (en_Class e)"
  using assms by (auto simp: explain_entry_def Let_def)

text \<open>The class depends on reachability and on the listeners only.\<close>

definition class_of :: "Inventory \<Rightarrow> string \<Rightarrow> (int \<rightharpoonup> TargetResult) \<Rightarrow> int \<Rightarrow> port_class" where
  "class_of iv target state p =
     (if is_open state p
      then (if kubeServiceFor (inv_Services iv) p = None \<and> reachable_side iv target p \<noteq> [] then Exposed else Forwarded)
      else if reachable_side iv target p = [] then LocalOnly
      else (case state p of None \<Rightarrow> Untested | Some r \<Rightarrow> if res_State r = StateClosed then Refused else Shielded))"

lemma verdict_class: "verdict iv target state p = Some (c, x) \<Longrightarrow> c = class_of iv target state p"
  by (cases "state p")
    (auto simp: verdict_def class_of_def is_open_def Let_def state_defs split: if_splits option.splits)

text \<open>No panic: every owner that is labelled by a container identifier has one of 12 bytes.\<close>

definition labels_ok :: "Inventory \<Rightarrow> bool" where
  "labels_ok iv = list_all (\<lambda>l. ownerLabel (lst_Owner l) \<noteq> None) (inv_Listeners iv)"

lemma first_owner_in: "first_owner ls = Some o1 \<Longrightarrow> \<exists>l \<in> set ls. lst_Owner l = Some o1"
  by (induction ls) (auto split: option.splits)

lemma label_defined:
  assumes "labels_ok iv" and "set ls \<subseteq> set (inv_Listeners iv)"
  shows "ownerLabel (first_owner ls) \<noteq> None"
proof (cases "first_owner ls")
  case None
  then show ?thesis by (simp add: ownerLabel_def)
next
  case (Some o1)
  then obtain l where l: "l \<in> set ls" "lst_Owner l = Some o1" using first_owner_in by blast
  then have "l \<in> set (inv_Listeners iv)" using assms(2) by blast
  then have "ownerLabel (lst_Owner l) \<noteq> None" using assms(1) unfolding labels_ok_def list_all_iff by blast
  then show ?thesis using Some l(2) by (simp del: not_None_eq)
qed

lemma verdict_defined:
  assumes "labels_ok iv"
  shows "verdict iv target state p \<noteq> None"
proof -
  have "set (reachable_side iv target p) \<subseteq> set (inv_Listeners iv)" "set (other_side iv target p) \<subseteq> set (inv_Listeners iv)"
    by (auto simp: reachable_side_def other_side_def)
  then have "ownerLabel (first_owner (reachable_side iv target p)) \<noteq> None" "ownerLabel (first_owner (other_side iv target p)) \<noteq> None"
    using label_defined [OF assms] by blast+
  then show ?thesis
    by (cases "reachable_side iv target p = []"; cases "is_open state p")
      (auto simp: verdict_def Let_def split: option.splits)
qed


lemma class_open: "class_of iv target state p \<in> {Exposed, Forwarded} \<longleftrightarrow> is_open state p"
  by (auto simp: class_of_def split: option.splits)

lemma explain_entry_defined:
  assumes "labels_ok iv"
  obtains e where "explain_entry iv target state expected p = Some e" "en_Port e = p"
    "en_Class e = class_of iv target state p" "en_Expected e = expected p"
proof -
  obtain c x where v: "verdict iv target state p = Some (c, x)" using verdict_defined [OF assms] by fastforce
  then obtain e where e: "explain_entry iv target state expected p = Some e"
    by (simp add: explain_entry_def Let_def)
  have "en_Class e = class_of iv target state p"
    using explain_entry_fields(3) [OF e] v verdict_class [OF v] by simp
  then show ?thesis using that e explain_entry_fields(1,2) [OF e] by blast
qed

text \<open>The entry of one port.\<close>

definition entry_at :: "Inventory \<Rightarrow> TargetResult list \<Rightarrow> string \<Rightarrow> (int \<Rightarrow> bool) \<Rightarrow> int \<Rightarrow> Entry" where
  "entry_at iv results target expected p = the (explain_entry iv target (scan_state results target) expected p)"

lemma entry_at_fields:
  assumes "labels_ok iv"
  shows "en_Port (entry_at iv results target expected p) = p"
    and "en_Class (entry_at iv results target expected p) = class_of iv target (scan_state results target) p"
    and "en_Expected (entry_at iv results target expected p) = expected p"
  by (rule explain_entry_defined [OF assms, of target "scan_state results target" expected p]; simp add: entry_at_def)+

lemma Explain_entries:
  assumes "labels_ok iv"
  shows "Explain ports iv results target expected =
    Some \<lparr>er_Host = inv_Hostname iv, er_Target = target,
      er_Entries = sort_by entry_less (map (entry_at iv results target expected) ports)\<rparr>"
proof -
  have "list_all (\<lambda>p. explain_entry iv target (scan_state results target) expected p \<noteq> None) ports"
    unfolding list_all_iff
  proof
    fix p
    show "explain_entry iv target (scan_state results target) expected p \<noteq> None"
      by (rule explain_entry_defined [OF assms, of target "scan_state results target" expected p]) simp
  qed
  then have "explain_entries (explain_entry iv target (scan_state results target) expected) ports
      = Some (map (entry_at iv results target expected) ports)"
    by (simp add: explain_entries_Some entry_at_def comp_def)
  then show ?thesis by (simp add: Explain_def)
qed

lemma problems_count:
  assumes "labels_ok iv" and "distinct ports" and "set ports = explained_ports iv results target"
  shows "length (filter is_problem (map (entry_at iv results target expected) ports))
    = card {p. is_open (scan_state results target) p \<and> \<not> expected p}"
proof -
  have "is_problem (entry_at iv results target expected p) \<longleftrightarrow> is_open (scan_state results target) p \<and> \<not> expected p" for p
    using class_open [of iv target "scan_state results target" p] by (auto simp: is_problem_def entry_at_fields [OF assms(1)])
  then have "length (filter is_problem (map (entry_at iv results target expected) ports))
      = length (filter (\<lambda>p. is_open (scan_state results target) p \<and> \<not> expected p) ports)"
    by (simp add: filter_map comp_def)
  also have "\<dots> = card {p \<in> set ports. is_open (scan_state results target) p \<and> \<not> expected p}"
    using distinct_card [OF distinct_filter [OF assms(2)], of "\<lambda>p. is_open (scan_state results target) p \<and> \<not> expected p"] by simp
  also have "{p \<in> set ports. is_open (scan_state results target) p \<and> \<not> expected p}
      = {p. is_open (scan_state results target) p \<and> \<not> expected p}"
    using assms(3) by (auto simp: explained_ports_def)
  finally show ?thesis .
qed

subsection \<open>Properties\<close>

text \<open>C26: the explanation lists every port seen from inside or outside exactly once, in the
  documented class, counts as problems exactly the open ports that were not expected,
  and does not depend on the order in which Go iterates the ports.\<close>

theorem explain_classifies_every_port:
  assumes "labels_ok iv" and "distinct ports" and "set ports = explained_ports iv results target"
    and "distinct ports'" and "set ports' = explained_ports iv results target"
  shows "\<exists>rep. Explain ports iv results target expected = Some rep
    \<and> mset (map (\<lambda>e. (en_Port e, en_Class e, en_Expected e)) (er_Entries rep))
        = image_mset (\<lambda>p. (p, class_of iv target (scan_state results target) p, expected p))
            (mset_set (explained_ports iv results target))
    \<and> Problems rep = card {p. is_open (scan_state results target) p \<and> \<not> expected p}
    \<and> Explain ports' iv results target expected = Some rep"
proof -
  let ?f = "entry_at iv results target expected"
  have ms: "mset ports' = mset ports" using assms(2-5) by (metis mset_set_set)
  have inj: "e = d" if "e \<in> set (map ?f ports')" "d \<in> set (map ?f ports')" "\<not> entry_less e d" "\<not> entry_less d e" for e d
    using that by (auto simp: entry_less_def entry_at_fields [OF assms(1)] split: if_splits)
  have "sort_by entry_less (map ?f ports') = sort_by entry_less (map ?f ports)"
    by (rule entry_order.sort_order_irrelevant_on) (use inj ms in \<open>simp_all\<close>)
  moreover have "mset (map (\<lambda>e. (en_Port e, en_Class e, en_Expected e)) (sort_by entry_less (map ?f ports)))
      = image_mset (\<lambda>p. (p, class_of iv target (scan_state results target) p, expected p)) (mset_set (explained_ports iv results target))"
    using assms(2,3) by (simp add: entry_at_fields [OF assms(1)] multiset.map_comp comp_def flip: mset_set_set)
  moreover have "Problems \<lparr>er_Host = inv_Hostname iv, er_Target = target, er_Entries = sort_by entry_less (map ?f ports)\<rparr>
      = card {p. is_open (scan_state results target) p \<and> \<not> expected p}"
  proof -
    have "length (filter is_problem (sort_by entry_less (map ?f ports))) = length (filter is_problem (map ?f ports))"
      by (metis mset_filter mset_sort_by size_mset)
    then show ?thesis using problems_count [OF assms(1-3), of expected] by (simp add: Problems_def)
  qed
  ultimately show ?thesis using Explain_entries [OF assms(1)] by simp
qed

definition web_host :: Inventory where
  "web_host = \<lparr>inv_Hostname = ''a'', inv_CollectedAt = 0, inv_Addresses = [''10.0.0.2''],
     inv_Listeners = [\<lparr>lst_Address = ''0.0.0.0'', lst_Port = 80, lst_Inode = 1, lst_Owner = None\<rparr>], inv_Services = []\<rparr>"

theorem explain_classifies_every_port_witness:
  "\<exists>rep. Explain [80, 443] web_host [(new_result ''10.0.0.2'' 443)\<lparr>res_State := StateOpen\<rparr>] ''10.0.0.2'' (\<lambda>_. False) = Some rep
     \<and> Problems rep = 1"
proof -
  let ?rs = "[(new_result ''10.0.0.2'' 443)\<lparr>res_State := StateOpen\<rparr>]"
  have ok: "labels_ok web_host" by (simp add: labels_ok_def web_host_def ownerLabel_def)
  have op: "is_open (scan_state ?rs ''10.0.0.2'') p \<longleftrightarrow> p = 443" for p
    by (simp add: is_open_def scan_state_def new_result_def)
  then have ps: "explained_ports web_host ?rs ''10.0.0.2'' = {80, 443}"
    by (auto simp: explained_ports_def web_host_def)
  have "card {p. is_open (scan_state ?rs ''10.0.0.2'') p \<and> \<not> False} = 1" by (simp add: op)
  then show ?thesis
    using explain_classifies_every_port [OF ok, of "[80, 443]" ?rs "''10.0.0.2''" "[80, 443]" "\<lambda>_. False"]
    by (auto simp: ps)
qed

text \<open>A container identifier shorter than 12 bytes, which a hand-written or foreign inventory
  may hold, is a slice out of range.\<close>

theorem short_container_panics:
  assumes "own_ContainerName o1 = []" and "own_Pod o1 = []" and "own_Container o1 \<noteq> []" and "length (own_Container o1) < 12"
  shows "ownerLabel (Some o1) = None"
  using assms by (simp add: ownerLabel_def slice_def)

end
