(* ===== verification/Base64.thy ===== *)
theory Base64
  imports Prelude
begin

text \<open>
  The standard encoding of the package \<open>encoding/base64\<close>, which the signature files of
  the evidence bundles use.  \<open>DecodeString\<close> skips carriage returns and line feeds,
  wants the padding, and does not look at the bits a padded quantum leaves over.
\<close>

definition b64_char :: "nat \<Rightarrow> char" where
  "b64_char d =
     (if d < 26 then char_of (65 + d)
      else if d < 52 then char_of (97 + (d - 26))
      else if d < 62 then char_of (48 + (d - 52))
      else if d = 62 then CHR ''+'' else CHR ''/'')"

definition b64_val :: "char \<Rightarrow> nat option" where
  "b64_val c =
     (if char_between (CHR ''A'') (CHR ''Z'') c then Some (of_char c - 65)
      else if char_between (CHR ''a'') (CHR ''z'') c then Some (of_char c - 97 + 26)
      else if is_digit c then Some (of_char c - 48 + 52)
      else if c = CHR ''+'' then Some 62
      else if c = CHR ''/'' then Some 63
      else None)"

text \<open>Three bytes as a 24-bit quantum, written as four digits.\<close>

definition quantum :: "nat \<Rightarrow> nat \<Rightarrow> nat \<Rightarrow> nat" where
  "quantum a b c = a * 65536 + b * 256 + c"

fun b64_encode :: "bytes \<Rightarrow> string" where
  "b64_encode [] = []"
| "b64_encode [a] = (let n = quantum (unat a) 0 0 in
     [b64_char (n div 262144), b64_char (n div 4096 mod 64), CHR ''='', CHR ''=''])"
| "b64_encode [a, b] = (let n = quantum (unat a) (unat b) 0 in
     [b64_char (n div 262144), b64_char (n div 4096 mod 64), b64_char (n div 64 mod 64), CHR ''=''])"
| "b64_encode (a # b # c # bs) = (let n = quantum (unat a) (unat b) (unat c) in
     b64_char (n div 262144) # b64_char (n div 4096 mod 64) # b64_char (n div 64 mod 64) # b64_char (n mod 64)
       # b64_encode bs)"

text \<open>The quanta of a text without line breaks.\<close>

fun b64_quanta :: "string \<Rightarrow> bytes option" where
  "b64_quanta [] = Some []"
| "b64_quanta (p # q # r # s # cs) =
     (case (b64_val p, b64_val q) of
        (Some a, Some b) \<Rightarrow>
          (if r = CHR ''='' then
             (if s = CHR ''='' \<and> cs = [] then Some [of_nat ((a * 262144 + b * 4096) div 65536)] else None)
           else
             (case b64_val r of
                None \<Rightarrow> None
              | Some c \<Rightarrow>
                  (if s = CHR ''='' then
                     (if cs = [] then
                        (let n = a * 262144 + b * 4096 + c * 64 in Some [of_nat (n div 65536), of_nat (n div 256 mod 256)])
                      else None)
                   else
                     (case b64_val s of
                        None \<Rightarrow> None
                      | Some d \<Rightarrow>
                          (let n = a * 262144 + b * 4096 + c * 64 + d
                           in map_option (\<lambda>bs. of_nat (n div 65536) # of_nat (n div 256 mod 256) # of_nat (n mod 256) # bs)
                                (b64_quanta cs))))))
      | _ \<Rightarrow> None)"
| "b64_quanta cs = None"

definition b64_decode :: "string \<Rightarrow> bytes option" where
  "b64_decode s = b64_quanta (filter (\<lambda>c. c \<noteq> CHR 0x0D \<and> c \<noteq> CHR 0x0A) s)"

subsection \<open>Decoding what was encoded\<close>

lemma b64_chars: "d < 64 \<Longrightarrow> b64_val (b64_char d) = Some d \<and> b64_char d \<notin> {CHR ''='', CHR 0x0D, CHR 0x0A} \<and> \<not> is_space (b64_char d)"
proof -
  assume "d < 64"
  then have "d \<in> set [0..<64]" by simp
  moreover have "list_all (\<lambda>d. b64_val (b64_char d) = Some d \<and> b64_char d \<notin> {CHR ''='', CHR 0x0D, CHR 0x0A} \<and> \<not> is_space (b64_char d)) [0..<64]"
    by code_simp
  ultimately show ?thesis unfolding list_all_iff by (rule bspec [rotated])
qed

lemma byte_lt: "unat (b :: byte) < 256"
  using unsigned_less [of b, where ?'a = nat] by simp

text \<open>Four digits to the base 64 give the quantum back.\<close>

lemma quantum_digits:
  fixes n :: nat
  assumes "n < 64 * 64 * 64 * 64"
  shows "n div (64 * 64 * 64) < 64"
    and "n div (64 * 64 * 64) * (64 * 64 * 64) + n div (64 * 64) mod 64 * (64 * 64) + n div 64 mod 64 * 64 + n mod 64 = n"
proof -
  show "n div (64 * 64 * 64) < 64" using assms by (intro less_mult_imp_div_less) simp
  have 1: "n = n div 64 * 64 + n mod 64" by (rule div_mult_mod_eq [symmetric])
  have 2: "n div 64 = n div (64 * 64) * 64 + n div 64 mod 64" unfolding div_mult2_eq by (rule div_mult_mod_eq [symmetric])
  have 3: "n div (64 * 64) = n div (64 * 64 * 64) * 64 + n div (64 * 64) mod 64"
    unfolding div_mult2_eq [of n "64 * 64" 64] by (rule div_mult_mod_eq [symmetric])
  show "n div (64 * 64 * 64) * (64 * 64 * 64) + n div (64 * 64) mod 64 * (64 * 64) + n div 64 mod 64 * 64 + n mod 64 = n"
    using 1 2 3 by linarith
qed

lemma three_bytes:
  fixes a b c :: nat
  assumes "a < 256" "b < 256" "c < 256" and n: "n = a * 65536 + b * 256 + c"
  shows "n < 16777216" and "n div 65536 = a" and "n div 256 mod 256 = b" and "n mod 256 = c"
proof -
  show "n < 16777216" using assms by linarith
  have l: "b * 256 + c < 65536" using assms(2,3) by linarith
  have "n = 65536 * a + (b * 256 + c)" using n by simp
  then show "n div 65536 = a" using l by (metis add_cancel_right_right div_less div_mult_self4 zero_neq_numeral)
  have m: "n = 256 * (256 * a + b) + c" using n by simp
  then show "n mod 256 = c" using assms(3) by (metis mod_less mod_mult_self4)
  have "n div 256 = 256 * a + b" using m assms(3) by (metis add_cancel_right_right div_less div_mult_self4 zero_neq_numeral)
  then show "n div 256 mod 256 = b" using assms(2) by simp
qed

lemma quantum_facts:
  assumes "n = quantum (unat a) (unat b) (unat (c :: byte))"
  shows "n div 262144 < 64"
    and "n div 262144 * 262144 + n div 4096 mod 64 * 4096 + n div 64 mod 64 * 64 + n mod 64 = n"
    and "of_nat (n div 65536) = (a :: byte)" and "of_nat (n div 256 mod 256) = (b :: byte)" and "of_nat (n mod 256) = c"
  using quantum_digits [of n] three_bytes [OF byte_lt [of a] byte_lt [of b] byte_lt [of c], of n] assms
  by (simp_all add: quantum_def)

lemma low_digits:
  assumes "n = quantum a 0 0" shows "n div 64 mod 64 = 0" and "n mod 64 = 0"
  using assms by (simp_all add: quantum_def)

lemma low_digit:
  assumes "n = quantum a b 0" shows "n mod 64 = 0"
proof -
  have "n = 64 * (a * 1024 + b * 4)" using assms by (simp add: quantum_def)
  then show ?thesis by (metis mod_mult_self1_is_0)
qed

lemmas b64_steps = b64_encode.simps b64_quanta.simps option.case prod.case Let_def if_True if_False
  b64_chars [of "_ mod 64", simplified]

lemma b64_not_pad: "d < 64 \<Longrightarrow> (b64_char d = CHR ''='') = False"
  using b64_chars by blast

lemma b64_quanta_encode: "b64_quanta (b64_encode bs) = Some bs"
proof (induction bs rule: b64_encode.induct)
  case (2 a)
  define n where n: "n = quantum (unat a) 0 0"
  note q = quantum_facts [of n a 0 0, unfolded unsigned_0, OF n] and z = low_digits [OF n]
  have d: "n div 262144 * 262144 + n div 4096 mod 64 * 4096 = n" using q(2) z by linarith
  show ?case unfolding b64_encode.simps n [symmetric]
    by (simp only: b64_steps b64_chars [OF q(1)] d q(3) simp_thms)
next
  case (3 a b)
  define n where n: "n = quantum (unat a) (unat b) 0"
  note q = quantum_facts [of n a b 0, unfolded unsigned_0, OF n] and z = low_digit [OF n]
  have d: "n div 262144 * 262144 + n div 4096 mod 64 * 4096 + n div 64 mod 64 * 64 = n" using q(2) z by linarith
  show ?case unfolding b64_encode.simps n [symmetric]
    by (simp only: b64_steps b64_chars [OF q(1)] b64_not_pad [of "_ mod 64", simplified] d q(3,4) simp_thms)
next
  case (4 a b c bs)
  define n where n: "n = quantum (unat a) (unat b) (unat c)"
  note q = quantum_facts [OF n]
  have ih: "b64_quanta (b64_encode bs) = Some bs" using 4 by blast
  show ?case unfolding b64_encode.simps n [symmetric]
    by (simp only: b64_steps b64_chars [OF q(1)] b64_not_pad [of "_ mod 64", simplified] q(2-5) ih option.map simp_thms)
qed simp

lemma b64_encode_chars: "c \<in> set (b64_encode bs) \<Longrightarrow> \<not> is_space c"
proof (induction bs rule: b64_encode.induct)
  case (2 a)
  note q = quantum_facts(1) [of _ a 0 0, unfolded unsigned_0, OF refl]
  show ?case using 2 b64_chars [OF q] b64_chars [of "_ mod 64", simplified]
    by (auto simp: Let_def is_space_def)
next
  case (3 a b)
  note q = quantum_facts(1) [of _ a b 0, unfolded unsigned_0, OF refl]
  show ?case using 3 b64_chars [OF q] b64_chars [of "_ mod 64", simplified]
    by (auto simp: Let_def is_space_def)
next
  case (4 a b c' bs)
  note q = quantum_facts(1) [of _ a b c', OF refl]
  show ?case using 4 b64_chars [OF q] b64_chars [of "_ mod 64", simplified] by (auto simp: Let_def)
qed simp

lemma b64_decode_encode [simp]: "b64_decode (b64_encode bs) = Some bs"
proof -
  have "filter (\<lambda>c. c \<noteq> CHR 0x0D \<and> c \<noteq> CHR 0x0A) (b64_encode bs) = b64_encode bs"
    using b64_encode_chars by (fastforce simp: filter_id_conv is_space_def)
  then show ?thesis by (simp add: b64_decode_def b64_quanta_encode)
qed

end
