(* ===== verification/Signing.thy ===== *)
theory Signing
  imports Base64 Hex
begin

text \<open>
  The signature scheme the evidence bundles and the remediation attestations share:
  \<open>sg_sign\<close> and \<open>sg_verify\<close> of \<open>crypto/ed25519\<close>, which are arguments of the model.
\<close>

record signature_scheme =
  sg_sign :: "bytes \<Rightarrow> string \<Rightarrow> bytes"
  sg_verify :: "bytes \<Rightarrow> string \<Rightarrow> bytes \<Rightarrow> bool"

text \<open>What the package documents of a key pair: sizes, and that a signature verifies.\<close>

definition key_pair_ok :: "signature_scheme \<Rightarrow> bytes \<Rightarrow> bytes \<Rightarrow> bool" where
  "key_pair_ok sg key pub \<longleftrightarrow> length key = 64 \<and> length pub = 32
     \<and> (\<forall>m. length (sg_sign sg key m) = 64 \<and> sg_verify sg pub m (sg_sign sg key m))"

text \<open>A concrete scheme for examples: the key, and a check sum of the message.\<close>

definition toy_scheme :: signature_scheme where
  "toy_scheme = \<lparr>sg_sign = \<lambda>k m. take 32 k @ replicate 32 (of_nat (sum_list (map of_char m))),
     sg_verify = \<lambda>pub m s. s = pub @ replicate 32 (of_nat (sum_list (map of_char m)))\<rparr>"

lemma toy_scheme_ok [simp]: "key_pair_ok toy_scheme (replicate 64 7) (replicate 32 7)"
  by (simp add: key_pair_ok_def toy_scheme_def)

end
