(* ===== verification/Remediate.thy ===== *)
theory Remediate
  imports Explain Signing
begin

text \<open>
  \<open>internal/remediate\<close>: the configuration that closes an exposure, and its attestation.
  Ed25519 and the formatting of a time are arguments of the model; the laws the
  properties use are hypotheses: a signature made with a key verifies under its
  public half.
\<close>

definition Format :: string where "Format = ''tcpcat-remediation/v1''"

record Bundle =
  bd_Format :: string
  bd_Address :: string
  bd_Port :: int
  bd_Class :: port_class
  bd_Summary :: string
  bd_Nftables :: string
  bd_Systemd :: string
  bd_KubePolicy :: string
  bd_Rebind :: string
  bd_GeneratedAt :: int
  bd_Attestation :: string

definition class_text :: "port_class \<Rightarrow> string" where
  "class_text c = (case c of Exposed \<Rightarrow> ''EXPOSED'' | Forwarded \<Rightarrow> ''FORWARDED'' | Shielded \<Rightarrow> ''SHIELDED''
     | Refused \<Rightarrow> ''REFUSED'' | LocalOnly \<Rightarrow> ''LOCAL'' | Untested \<Rightarrow> ''UNTESTED'')"

definition actionable :: "Entry \<Rightarrow> bool" where
  "actionable e \<longleftrightarrow> (en_Class e = Exposed \<or> en_Class e = Forwarded) \<and> \<not> en_Expected e"

definition summarize :: "string \<Rightarrow> Entry \<Rightarrow> string" where
  "summarize target e =
     (let who = (case en_Owner e of
                   Some o1 \<Rightarrow> if own_Process o1 = [] then ''a service''
                     else if own_PID o1 \<noteq> 0 then own_Process o1 @ '' (pid '' @ itoa (own_PID o1) @ '')'' else own_Process o1
                 | None \<Rightarrow> ''a service'');
          svc = (if en_Service e \<noteq> [] then '' ['' @ en_Service e @ '']'' else [])
      in if en_Class e = Forwarded
         then ''port '' @ itoa (en_Port e) @ ''/tcp on '' @ target @ '' is forwarded to '' @ who @ svc @ '' but no policy allows it''
         else ''port '' @ itoa (en_Port e) @ ''/tcp on '' @ target @ '' is exposed by '' @ who @ svc @ '' but no policy allows it'')"

definition nftablesRule :: "string \<Rightarrow> Entry \<Rightarrow> string" where
  "nftablesRule target e =
     (let family = (case parse_ip target of Some i \<Rightarrow> if to4 i = None then ''ip6'' else ''ip'' | None \<Rightarrow> ''ip'');
          who = (case en_Owner e of Some o1 \<Rightarrow> if own_Process o1 \<noteq> [] then own_Process o1 else ''exposed service''
                 | None \<Rightarrow> ''exposed service'');
          port = itoa (en_Port e)
      in ''# Close '' @ who @ '' on port '' @ port @ ''. Review the allow line, then apply both in order.'' @
      [CHR 0x0A] @
      ''# nft add rule inet filter input '' @ family @ '' saddr { 10.0.0.0/8 } tcp dport '' @ port @ '' accept comment \"tcpcat: allow '' @ who @ '' from trusted nets\"'' @
      [CHR 0x0A] @
      ''nft add rule inet filter input iifname != \"lo\" tcp dport '' @ port @ '' ct state new counter drop comment \"tcpcat: close '' @ port @ ''\"'')"

definition systemdDropIn :: "string \<Rightarrow> int \<Rightarrow> string" where
  "systemdDropIn unit port =
     ''# /etc/systemd/system/'' @ unit @ ''.d/10-tcpcat-hardening.conf'' @
      [CHR 0x0A] @
      ''# Add the trusted source networks to IPAddressAllow, then:'' @
      [CHR 0x0A] @
      ''#   systemctl daemon-reload && systemctl restart '' @ unit @
      [CHR 0x0A] @
      ''[Service]'' @
      [CHR 0x0A] @
      ''IPAccounting=yes'' @
      [CHR 0x0A] @
      ''IPAddressDeny=any'' @
      [CHR 0x0A] @
      ''IPAddressAllow=localhost'' @
      [CHR 0x0A]"

definition kubeNetworkPolicy :: "string \<Rightarrow> int \<Rightarrow> string" where
  "kubeNetworkPolicy pod port =
     (case cut_char (CHR ''/'') pod of
        (before, rest, found) \<Rightarrow>
          (let namespace = (if found then before else ''default''); name = (if found then rest else pod) in
           ''# Fill podSelector.matchLabels with the labels of '' @ name @ '', then kubectl apply.'' @
      [CHR 0x0A] @
      ''apiVersion: networking.k8s.io/v1'' @
      [CHR 0x0A] @
      ''kind: NetworkPolicy'' @
      [CHR 0x0A] @
      ''metadata:'' @
      [CHR 0x0A] @
      ''  name: tcpcat-restrict-'' @ itoa port @
      [CHR 0x0A] @
      ''  namespace: '' @ namespace @
      [CHR 0x0A] @
      ''spec:'' @
      [CHR 0x0A] @
      ''  podSelector:'' @
      [CHR 0x0A] @
      ''    matchLabels: {} # TODO: the labels of pod '' @ name @
      [CHR 0x0A] @
      ''  policyTypes:'' @
      [CHR 0x0A] @
      ''  - Ingress'' @
      [CHR 0x0A] @
      ''  ingress: [] # deny all ingress until an explicit rule is added'' @
      [CHR 0x0A]))"

definition unit_separator :: string where
  "unit_separator = [CHR 0x1F]"

definition signingPayload :: "(int \<Rightarrow> string) \<Rightarrow> Bundle \<Rightarrow> string" where
  "signingPayload fmt_time b =
     join_str unit_separator
       [bd_Format b, bd_Address b, itoa (bd_Port b), class_text (bd_Class b),
        bd_Summary b, bd_Nftables b, bd_Systemd b, bd_KubePolicy b, fmt_time (bd_GeneratedAt b)]"

text \<open>The bundle before it is signed.\<close>

definition unsigned_bundle :: "string \<Rightarrow> int \<Rightarrow> Entry \<Rightarrow> Bundle" where
  "unsigned_bundle target now e =
     \<lparr>bd_Format = Format, bd_Address = target, bd_Port = en_Port e, bd_Class = en_Class e, bd_Summary = summarize target e,
      bd_Nftables = nftablesRule target e,
      bd_Systemd = (case en_Owner e of Some o1 \<Rightarrow> if own_Unit o1 \<noteq> [] then systemdDropIn (own_Unit o1) (en_Port e) else []
                    | None \<Rightarrow> []),
      bd_KubePolicy = (case en_Owner e of Some o1 \<Rightarrow> if own_Pod o1 \<noteq> [] then kubeNetworkPolicy (own_Pod o1) (en_Port e) else []
                       | None \<Rightarrow> []),
      bd_Rebind = en_Fix e, bd_GeneratedAt = now, bd_Attestation = []\<rparr>"

definition For ::
  "signature_scheme \<Rightarrow> (int \<Rightarrow> string) \<Rightarrow> string \<Rightarrow> bytes \<Rightarrow> int \<Rightarrow> Entry \<Rightarrow> Bundle option" where
  "For sg fmt_time target key now e =
     (if \<not> actionable e then None
      else
        (let b = unsigned_bundle target now e
         in Some (if length key = 64
                  then b\<lparr>bd_Attestation := hex_encode (sg_sign sg key (signingPayload fmt_time b))\<rparr> else b)))"

definition FromReport ::
  "signature_scheme \<Rightarrow> (int \<Rightarrow> string) \<Rightarrow> bytes \<Rightarrow> int \<Rightarrow> explain_report \<Rightarrow> Bundle list" where
  "FromReport sg fmt_time key now r = List.map_filter (For sg fmt_time (er_Target r) key now) (er_Entries r)"

definition Verify :: "signature_scheme \<Rightarrow> (int \<Rightarrow> string) \<Rightarrow> bytes \<Rightarrow> Bundle \<Rightarrow> bool" where
  "Verify sg fmt_time pub b =
     (case hex_decode (bd_Attestation b) of
        None \<Rightarrow> False
      | Some s \<Rightarrow> length pub = 32 \<and> sg_verify sg pub (signingPayload fmt_time b) s)"

subsection \<open>Properties\<close>

lemma actionable_problem: "actionable = is_problem"
  by (rule ext) (simp add: actionable_def is_problem_def)

lemma For_Some: "is_problem e \<Longrightarrow> \<exists>b. For sg fmt_time target key now e = Some b \<and> bd_Port b = en_Port e"
  by (auto simp: For_def actionable_problem Let_def unsigned_bundle_def)

lemma For_None: "\<not> is_problem e \<Longrightarrow> For sg fmt_time target key now e = None"
  by (simp add: For_def actionable_problem)

lemma FromReport_ports: "map bd_Port (FromReport sg fmt_time key now r) = map en_Port (filter is_problem (er_Entries r))"
proof -
  have "map bd_Port (List.map_filter (For sg fmt_time t key now) es) = map en_Port (filter is_problem es)" for t es
  proof (induction es)
    case (Cons e es)
    then show ?case
      using For_Some [of e sg fmt_time t key now] For_None [of e sg fmt_time t key now]
      by (cases "is_problem e") (auto simp: map_filter_simps)
  qed (simp add: map_filter_simps)
  then show ?thesis by (simp add: FromReport_def)
qed

text \<open>C29: remediation writes one bundle for every problem of the report and for nothing else;
  every bundle made with a key verifies under its public half, and so does any copy of
  it whose rebind advice was edited, since the attestation does not cover that field.\<close>

theorem remediation_covers_every_problem:
  assumes "key_pair_ok sg key pub"
  shows "map bd_Port (FromReport sg fmt_time key now r) = map en_Port (filter is_problem (er_Entries r))
    \<and> length (FromReport sg fmt_time key now r) = Problems r
    \<and> (\<forall>b \<in> set (FromReport sg fmt_time key now r). Verify sg fmt_time pub b \<and> Verify sg fmt_time pub (b\<lparr>bd_Rebind := advice\<rparr>))"
proof (intro conjI ballI)
  show ports: "map bd_Port (FromReport sg fmt_time key now r) = map en_Port (filter is_problem (er_Entries r))"
    by (rule FromReport_ports)
  then show "length (FromReport sg fmt_time key now r) = Problems r"
    unfolding Problems_def by (metis length_map)
  fix b
  assume "b \<in> set (FromReport sg fmt_time key now r)"
  then obtain e where "For sg fmt_time (er_Target r) key now e = Some b"
    by (auto simp: FromReport_def map_filter_def)
  then obtain b0 where b0: "b = b0\<lparr>bd_Attestation := hex_encode (sg_sign sg key (signingPayload fmt_time b0))\<rparr>"
    using assms by (auto simp: For_def key_pair_ok_def Let_def split: if_splits)
  have same: "signingPayload fmt_time b = signingPayload fmt_time b0" unfolding b0 by (simp add: signingPayload_def)
  have att: "bd_Attestation b = hex_encode (sg_sign sg key (signingPayload fmt_time b))" unfolding same by (simp add: b0)
  show "Verify sg fmt_time pub b" using assms by (simp add: Verify_def att key_pair_ok_def)
  have "signingPayload fmt_time (b\<lparr>bd_Rebind := advice\<rparr>) = signingPayload fmt_time b" by (simp add: signingPayload_def)
  then show "Verify sg fmt_time pub (b\<lparr>bd_Rebind := advice\<rparr>)" using assms by (simp add: Verify_def att key_pair_ok_def)
qed

theorem remediation_covers_every_problem_witness:
  "\<exists>r. Problems r = 1 \<and> length (FromReport toy_scheme (\<lambda>_. []) (replicate 64 7) 0 r) = 1
     \<and> (\<forall>b \<in> set (FromReport toy_scheme (\<lambda>_. []) (replicate 64 7) 0 r). Verify toy_scheme (\<lambda>_. []) (replicate 32 7) b)"
proof -
  let ?e = "\<lparr>en_Port = 80, en_Class = Exposed, en_Expected = False, en_Severity = [], en_Listeners = [], en_Owner = None,
      en_Service = [], en_Kube = None, en_Why = [], en_Fix = []\<rparr>"
  let ?r = "\<lparr>er_Host = [], er_Target = ''10.0.0.2'', er_Entries = [?e]\<rparr>"
  have p: "Problems ?r = 1" by (simp add: Problems_def is_problem_def)
  then show ?thesis
    using remediation_covers_every_problem [OF toy_scheme_ok, of "\<lambda>_. []" 0 ?r] by auto
qed

text \<open>The signed fields are joined by a separator that they may contain, so two different
  bundles can have the same payload.\<close>

theorem payload_is_ambiguous:
  "\<exists>b c. b \<noteq> c \<and> signingPayload fmt_time b = signingPayload fmt_time c \<and> bd_Systemd b \<noteq> bd_Systemd c"
proof -
  let ?b = "\<lparr>bd_Format = Format, bd_Address = [], bd_Port = 1, bd_Class = Exposed, bd_Summary = [], bd_Nftables = [], bd_Systemd = ''x'' @ unit_separator,
      bd_KubePolicy = [], bd_Rebind = [], bd_GeneratedAt = 0, bd_Attestation = []\<rparr>"
  let ?c = "?b\<lparr>bd_Systemd := ''x'', bd_KubePolicy := unit_separator\<rparr>"
  have "signingPayload fmt_time ?b = signingPayload fmt_time ?c"
    by (simp add: signingPayload_def unit_separator_def)
  moreover have "bd_Systemd ?b \<noteq> bd_Systemd ?c" by (simp add: unit_separator_def)
  ultimately show ?thesis by metis
qed

end
