(* ===== verification/Policy.thy ===== *)
theory Policy
  imports Ports NetAddr
begin

text \<open>
  \<open>internal/policy\<close>: validation of a segmentation policy, the checks it gives for a
  vantage point, and the evaluation of the endpoints a scan found open (\<open>policy.go\<close>,
  \<open>report.go\<close>).  The YAML and JSON encodings are not modelled; resolving the members
  of a zone to addresses is an argument, as it is in the code.
\<close>

record Rule =
  rl_Name :: string
  rl_From :: string
  rl_To :: string
  rl_Ports :: string
  rl_Allow :: "string list"
  rl_Require :: "string list"

record policy =
  pl_Version :: int
  pl_Name :: string
  pl_Zones :: "(string \<times> string list) list"
  pl_Rules :: "Rule list"

datatype policy_error =
    UnsupportedVersion int | NoRules | EmptyZone | FromToRequired nat string
  | InvalidPorts string | OnlyTCP string | InvalidPortEntry string
  | ResolveFailed string | ResolvesToNothing string

definition DefaultPorts :: string where "DefaultPorts = ''top-1000''"

definition parseRulePorts :: "string \<Rightarrow> policy_error + int list" where
  "parseRulePorts spec0 =
     (let spec = trim_space spec0 in
      if has_prefix spec ''top-'' then
        (case atoi (trim_prefix spec ''top-'') of
           None \<Rightarrow> Inl (InvalidPorts spec)
         | Some n \<Rightarrow> if n \<le> 0 then Inl (InvalidPorts spec)
             else (case ParsePorts [] n of Inl e \<Rightarrow> Inl (InvalidPorts spec) | Inr ps \<Rightarrow> Inr ps))
      else (case ParsePorts spec 0 of Inl e \<Rightarrow> Inl (InvalidPorts spec) | Inr ps \<Rightarrow> Inr ps))"

definition port_item :: "string \<Rightarrow> policy_error + int" where
  "port_item entry =
     (let v = trim_space entry in
      case cut_char (CHR ''/'') v of
        (before, after, found) \<Rightarrow>
          if found \<and> \<not> equal_fold after ''tcp'' then Inl (OnlyTCP entry)
          else
            (case atoi (if found then before else v) of
               None \<Rightarrow> Inl (InvalidPortEntry entry)
             | Some p \<Rightarrow> if p < 1 \<or> p > 65535 then Inl (InvalidPortEntry entry) else Inr p))"

fun parsePortList :: "string list \<Rightarrow> policy_error + int list" where
  "parsePortList [] = Inr []"
| "parsePortList (e # es) =
     (case port_item e of
        Inl err \<Rightarrow> Inl err
      | Inr p \<Rightarrow> (case parsePortList es of Inl err \<Rightarrow> Inl err | Inr ps \<Rightarrow> Inr (p # ps)))"

definition mergePorts :: "int list \<Rightarrow> int list \<Rightarrow> int list" where
  "mergePorts base extra = sort_ints (dedup (base @ extra))"

text \<open>One rule, with its defaults filled in.\<close>

definition validate_rule :: "nat \<Rightarrow> Rule \<Rightarrow> policy_error + Rule" where
  "validate_rule i r =
     (let r1 = (if rl_Name r = [] then r\<lparr>rl_Name := rl_From r @ '' -> '' @ rl_To r\<rparr> else r) in
      if rl_From r1 = [] \<or> rl_To r1 = [] then Inl (FromToRequired (i + 1) (rl_Name r1))
      else
        (let r2 = (if rl_Ports r1 = [] then r1\<lparr>rl_Ports := DefaultPorts\<rparr> else r1) in
         case parseRulePorts (rl_Ports r2) of
           Inl e \<Rightarrow> Inl e
         | Inr ps \<Rightarrow>
             (case parsePortList (rl_Allow r2) of
                Inl e \<Rightarrow> Inl e
              | Inr al \<Rightarrow> (case parsePortList (rl_Require r2) of Inl e \<Rightarrow> Inl e | Inr rq \<Rightarrow> Inr r2))))"

fun validate_rules :: "nat \<Rightarrow> Rule list \<Rightarrow> policy_error + Rule list" where
  "validate_rules i [] = Inr []"
| "validate_rules i (r # rs) =
     (case validate_rule i r of
        Inl e \<Rightarrow> Inl e
      | Inr r' \<Rightarrow> (case validate_rules (Suc i) rs of Inl e \<Rightarrow> Inl e | Inr rs' \<Rightarrow> Inr (r' # rs')))"

definition validate :: "policy \<Rightarrow> policy_error + policy" where
  "validate p =
     (if pl_Version p \<noteq> 1 then Inl (UnsupportedVersion (pl_Version p))
      else if pl_Rules p = [] then Inl NoRules
      else if list_ex (\<lambda>(name, members). members = []) (pl_Zones p) then Inl EmptyZone
      else (case validate_rules 0 (pl_Rules p) of Inl e \<Rightarrow> Inl e | Inr rs \<Rightarrow> Inr (p\<lparr>pl_Rules := rs\<rparr>)))"

definition Vantages :: "policy \<Rightarrow> string list" where
  "Vantages p = sort_strings (dedup (map rl_From (pl_Rules p)))"

record Check =
  ck_Rule :: Rule
  ck_Targets :: "string list"
  ck_Ports :: "int list"
  ck_allow :: "int set"
  ck_require :: "int list"

definition ports_or_none :: "policy_error + int list \<Rightarrow> int list" where
  "ports_or_none r = (case r of Inr ps \<Rightarrow> ps | Inl e \<Rightarrow> [])"

definition plan_rule :: "policy \<Rightarrow> (string list \<Rightarrow> string list option) \<Rightarrow> Rule \<Rightarrow> policy_error + Check" where
  "plan_rule p resolve r =
     (let members = (case map_of (pl_Zones p) (rl_To r) of Some ms \<Rightarrow> ms | None \<Rightarrow> [rl_To r]) in
      case resolve members of
        None \<Rightarrow> Inl (ResolveFailed (rl_Name r))
      | Some targets \<Rightarrow>
          if targets = [] then Inl (ResolvesToNothing (rl_Name r))
          else
            (let require = ports_or_none (parsePortList (rl_Require r))
             in Inr \<lparr>ck_Rule = r, ck_Targets = targets,
                     ck_Ports = mergePorts (ports_or_none (parseRulePorts (rl_Ports r))) require,
                     ck_allow = set (ports_or_none (parsePortList (rl_Allow r))), ck_require = require\<rparr>))"

fun plan_rules :: "policy \<Rightarrow> string \<Rightarrow> (string list \<Rightarrow> string list option) \<Rightarrow> Rule list \<Rightarrow> policy_error + Check list" where
  "plan_rules p vantage resolve [] = Inr []"
| "plan_rules p vantage resolve (r # rs) =
     (if rl_From r \<noteq> vantage then plan_rules p vantage resolve rs
      else
        (case plan_rule p resolve r of
           Inl e \<Rightarrow> Inl e
         | Inr c \<Rightarrow> (case plan_rules p vantage resolve rs of Inl e \<Rightarrow> Inl e | Inr cs \<Rightarrow> Inr (c # cs))))"

definition Plan :: "policy \<Rightarrow> string \<Rightarrow> (string list \<Rightarrow> string list option) \<Rightarrow> policy_error + Check list" where
  "Plan p vantage resolve = plan_rules p vantage resolve (pl_Rules p)"

type_synonym endpoint = "string \<times> int"

datatype violation_kind = UnexpectedOpen | RequiredClosed

record Violation =
  vi_Kind :: violation_kind
  vi_IP :: string
  vi_Port :: int

definition violation_less :: "Violation \<Rightarrow> Violation \<Rightarrow> bool" where
  "violation_less a b =
     (if vi_Kind a \<noteq> vi_Kind b then vi_Kind a = UnexpectedOpen
      else if vi_IP a \<noteq> vi_IP b then vi_IP a < vi_IP b
      else vi_Port a < vi_Port b)"

definition found_violations :: "Check \<Rightarrow> endpoint list \<Rightarrow> Violation list" where
  "found_violations c open1 =
     map (\<lambda>(ip, p). \<lparr>vi_Kind = UnexpectedOpen, vi_IP = ip, vi_Port = p\<rparr>) (filter (\<lambda>(ip, p). p \<notin> ck_allow c) open1)
     @ map (\<lambda>(ip, p). \<lparr>vi_Kind = RequiredClosed, vi_IP = ip, vi_Port = p\<rparr>)
         (filter (\<lambda>ep. ep \<notin> set open1) (List.product (ck_Targets c) (ck_require c)))"

definition Evaluate :: "Check \<Rightarrow> endpoint list \<Rightarrow> Violation list" where
  "Evaluate c open1 = sort_by violation_less (found_violations c open1)"

record CheckResult =
  cr_Rule :: string
  cr_From :: string
  cr_To :: string
  cr_Targets :: nat
  cr_Ports :: nat
  cr_Status :: string
  cr_Open :: "endpoint list"
  cr_Violations :: "Violation list"

definition StatusPass :: string where "StatusPass = ''pass''"
definition StatusFail :: string where "StatusFail = ''fail''"

definition endpoint_less :: "endpoint \<Rightarrow> endpoint \<Rightarrow> bool" where
  "endpoint_less a b = (if fst a \<noteq> fst b then fst a < fst b else snd a < snd b)"

definition NewCheckResult :: "Check \<Rightarrow> endpoint list \<Rightarrow> CheckResult" where
  "NewCheckResult c open0 =
     (let open1 = sort_by endpoint_less open0; violations = Evaluate c open1 in
      \<lparr>cr_Rule = rl_Name (ck_Rule c), cr_From = rl_From (ck_Rule c), cr_To = rl_To (ck_Rule c),
       cr_Targets = length (ck_Targets c), cr_Ports = length (ck_Ports c),
       cr_Status = (if violations \<noteq> [] then StatusFail else StatusPass), cr_Open = open1, cr_Violations = violations\<rparr>)"

text \<open>The status of a whole report, as \<open>Finalize\<close> sets it.\<close>

definition Finalize :: "CheckResult list \<Rightarrow> string" where
  "Finalize checks = (if list_ex (\<lambda>c. cr_Status c = StatusFail) checks then StatusFail else StatusPass)"

fun slug_acc :: "string \<Rightarrow> string \<Rightarrow> string" where
  "slug_acc b [] = trim_suffix b ''-''"
| "slug_acc b (c # cs) =
     (if CHR ''a'' \<le> c \<and> c \<le> CHR ''z'' \<or> is_digit c then slug_acc (b @ [c]) cs
      else if b \<noteq> [] \<and> \<not> has_suffix b ''-'' then slug_acc (b @ ''-'') cs
      else slug_acc b cs)"

definition slug :: "string \<Rightarrow> string" where
  "slug s = slug_acc [] (to_lower s)"

definition joinHostPort :: "string \<Rightarrow> int \<Rightarrow> string" where
  "joinHostPort ip port = join_host_port ip (itoa port)"

text \<open>The SARIF results: rule identifier and location of every violation.\<close>

definition sarif_results :: "CheckResult list \<Rightarrow> (string \<times> string) list" where
  "sarif_results checks =
     concat (map (\<lambda>c. map (\<lambda>v. (''POLICY-'' @ slug (cr_Rule c), ''tcp://'' @ joinHostPort (vi_IP v) (vi_Port v)))
       (cr_Violations c)) checks)"

text \<open>The detail column of the matrix.\<close>

definition matrix_detail :: "CheckResult \<Rightarrow> string" where
  "matrix_detail c =
     (if cr_Status c = StatusFail
      then join_str '', '' (map (\<lambda>v. (if vi_Kind v = RequiredClosed then ''MISSING'' else ''OPEN'') @ '' '' @ joinHostPort (vi_IP v) (vi_Port v))
             (cr_Violations c))
      else itoa (int (length (cr_Open c))) @ '' reachable, as allowed'')"


interpretation violation_order: total_comparator violation_less
proof
  fix x y z
  show "violation_less x y \<Longrightarrow> \<not> violation_less y x" by (auto simp: violation_less_def split: if_splits)
  show "\<not> violation_less y x \<Longrightarrow> \<not> violation_less z y \<Longrightarrow> \<not> violation_less z x"
    by (cases "vi_Kind x"; cases "vi_Kind y"; cases "vi_Kind z") (auto simp: violation_less_def not_less split: if_splits)
  show "\<not> violation_less x y \<Longrightarrow> \<not> violation_less y x \<Longrightarrow> x = y"
    by (cases "vi_Kind x"; cases "vi_Kind y") (auto simp: violation_less_def not_less split: if_splits)
qed

subsection \<open>Laws\<close>

lemma ParsePorts_valid: "ParsePorts s n = Inr qs \<Longrightarrow> q \<in> set qs \<Longrightarrow> valid_port q"
  using GetTopPorts_bounds [of n] GetTopPorts_bounds [of 100] parse_parts_valid [of "split_on (CHR '','') s"]
  by (auto simp: ParsePorts_def Let_def split: sum.splits if_splits)

lemma parseRulePorts_valid: "parseRulePorts spec = Inr ps \<Longrightarrow> p \<in> set ps \<Longrightarrow> valid_port p"
  by (auto simp: parseRulePorts_def Let_def dest: ParsePorts_valid split: if_splits option.splits sum.splits)

lemma port_item_valid: "port_item e = Inr p \<Longrightarrow> valid_port p"
  by (auto simp: port_item_def Let_def valid_port_def split: prod.splits option.splits if_splits)

lemma parsePortList_valid: "parsePortList es = Inr ps \<Longrightarrow> p \<in> set ps \<Longrightarrow> valid_port p"
  by (induction es arbitrary: ps) (auto simp: port_item_valid split: sum.splits)

text \<open>A rule of a validated policy: nothing in it fails to parse.\<close>

definition rule_ok :: "Rule \<Rightarrow> bool" where
  "rule_ok r \<longleftrightarrow> rl_Name r \<noteq> [] \<and> rl_From r \<noteq> [] \<and> rl_To r \<noteq> []
     \<and> isl (parseRulePorts (rl_Ports r)) = False \<and> isl (parsePortList (rl_Allow r)) = False
     \<and> isl (parsePortList (rl_Require r)) = False"

lemma validate_rule_ok: "validate_rule i r = Inr r' \<Longrightarrow> rule_ok r'"
  by (auto simp: validate_rule_def rule_ok_def Let_def split: if_splits sum.splits)

lemma validate_rules_ok: "validate_rules i rs = Inr rs' \<Longrightarrow> list_all rule_ok rs'"
  by (induction i rs arbitrary: rs' rule: validate_rules.induct) (auto simp: validate_rule_ok split: sum.splits)

lemma validate_ok: "validate p = Inr p' \<Longrightarrow> list_all rule_ok (pl_Rules p')"
  by (auto simp: validate_def validate_rules_ok split: if_splits sum.splits)

lemma plan_rules_checks:
  "plan_rules p v resolve rs = Inr cs \<Longrightarrow>
     map ck_Rule cs = filter (\<lambda>r. rl_From r = v) rs
     \<and> (\<forall>c \<in> set cs. plan_rule p resolve (ck_Rule c) = Inr c)"
proof (induction p v resolve rs arbitrary: cs rule: plan_rules.induct)
  case (2 p v resolve r rs)
  show ?case
  proof (cases "rl_From r = v")
    case True
    then obtain c cs' where c: "plan_rule p resolve r = Inr c" "plan_rules p v resolve rs = Inr cs'" "cs = c # cs'"
      using "2.prems" by (auto split: sum.splits)
    have "ck_Rule c = r" using c(1) by (auto simp: plan_rule_def Let_def split: option.splits if_splits)
    then show ?thesis using "2.IH"(2) [of c cs'] True c by auto
  qed (use 2 in simp)
qed simp

lemma plan_rule_fields:
  assumes "plan_rule p resolve r = Inr c" and "rule_ok r"
  shows "ck_Rule c = r" and "ck_Targets c \<noteq> []"
    and "parsePortList (rl_Require r) = Inr (ck_require c)"
    and "\<exists>allow. parsePortList (rl_Allow r) = Inr allow \<and> ck_allow c = set allow"
    and "\<exists>ps. parseRulePorts (rl_Ports r) = Inr ps \<and> set (ck_Ports c) = set ps \<union> set (ck_require c)"
    and "sorted_wrt (<) (ck_Ports c)"
proof -
  obtain ps al rq where "parseRulePorts (rl_Ports r) = Inr ps" "parsePortList (rl_Allow r) = Inr al"
      "parsePortList (rl_Require r) = Inr rq"
    using assms(2) unfolding rule_ok_def by (metis isl_def sum.exhaust_sel)
  then show "ck_Rule c = r" "ck_Targets c \<noteq> []" "parsePortList (rl_Require r) = Inr (ck_require c)"
      "\<exists>allow. parsePortList (rl_Allow r) = Inr allow \<and> ck_allow c = set allow"
      "\<exists>ps. parseRulePorts (rl_Ports r) = Inr ps \<and> set (ck_Ports c) = set ps \<union> set (ck_require c)"
      "sorted_wrt (<) (ck_Ports c)"
    using assms(1) by (auto simp: plan_rule_def Let_def ports_or_none_def mergePorts_def strict_sorted_iff sort_ints_sorted
        split: option.splits if_splits)
qed

lemma check_status:
  "cr_Status (NewCheckResult c open0) = StatusPass \<longleftrightarrow>
     (\<forall>ep \<in> set open0. snd ep \<in> ck_allow c) \<and> set (List.product (ck_Targets c) (ck_require c)) \<subseteq> set open0"
proof -
  have "found_violations c (sort_by endpoint_less open0) = [] \<longleftrightarrow>
      (\<forall>ep \<in> set open0. snd ep \<in> ck_allow c) \<and> set (List.product (ck_Targets c) (ck_require c)) \<subseteq> set open0"
    by (auto simp: found_violations_def filter_empty_conv)
  moreover have "Evaluate c es = [] \<longleftrightarrow> found_violations c es = []" for es
    unfolding Evaluate_def by (metis length_0_conv length_sort_by)
  ultimately show ?thesis by (simp add: NewCheckResult_def StatusPass_def StatusFail_def Let_def)
qed

subsection \<open>Properties\<close>

text \<open>C27: a validated policy is planned faithfully: the vantage gets one check per rule of its own,
  in order, that probes every port the rule names or requires, the parse errors the
  planner ignores cannot occur, and the check passes exactly when every open endpoint
  is allowed and every required one is open.\<close>

theorem policy_check_is_the_rule:
  assumes "validate p0 = Inr p" and "Plan p vantage resolve = Inr checks" and "c \<in> set checks"
  shows "map ck_Rule checks = filter (\<lambda>r. rl_From r = vantage) (pl_Rules p)
    \<and> parsePortList (rl_Require (ck_Rule c)) = Inr (ck_require c)
    \<and> (\<exists>allow. parsePortList (rl_Allow (ck_Rule c)) = Inr allow \<and> ck_allow c = set allow)
    \<and> (\<exists>ps. parseRulePorts (rl_Ports (ck_Rule c)) = Inr ps \<and> set (ck_Ports c) = set ps \<union> set (ck_require c))
    \<and> sorted_wrt (<) (ck_Ports c) \<and> (\<forall>q \<in> set (ck_Ports c). valid_port q)
    \<and> (cr_Status (NewCheckResult c open0) = StatusPass \<longleftrightarrow>
         (\<forall>ep \<in> set open0. snd ep \<in> ck_allow c)
         \<and> set (List.product (ck_Targets c) (ck_require c)) \<subseteq> set open0)"
proof -
  have checks: "map ck_Rule checks = filter (\<lambda>r. rl_From r = vantage) (pl_Rules p)"
      "plan_rule p resolve (ck_Rule c) = Inr c"
    using plan_rules_checks [of p vantage resolve "pl_Rules p" checks] assms(2,3) by (auto simp: Plan_def)
  have "ck_Rule c \<in> set (pl_Rules p)" using checks(1) assms(3) by (metis filter_is_subset image_eqI list.set_map subsetD)
  then have ok: "rule_ok (ck_Rule c)" using validate_ok [OF assms(1)] by (simp add: list_all_iff)
  note f = plan_rule_fields [OF checks(2) ok]
  have "\<forall>q \<in> set (ck_Ports c). valid_port q"
    using f(3,5) parseRulePorts_valid parsePortList_valid by blast
  then show ?thesis using checks(1) f check_status by blast
qed

definition guest_policy :: policy where
  "guest_policy = \<lparr>pl_Version = 1, pl_Name = ''p'', pl_Zones = [(''db'', [''10.0.0.2''])],
     pl_Rules = [\<lparr>rl_Name = ''r'', rl_From = ''guest'', rl_To = ''db'', rl_Ports = ''22'', rl_Allow = [''443/tcp''], rl_Require = [''443'']\<rparr>]\<rparr>"

theorem policy_check_is_the_rule_witness:
  "\<exists>c. Plan guest_policy ''guest'' Some = Inr [c] \<and> set (ck_Ports c) = {22, 443}
     \<and> cr_Status (NewCheckResult c [(''10.0.0.2'', 443)]) = StatusPass"
proof -
  have v: "validate guest_policy = Inr guest_policy" by code_simp
  obtain c where c: "Plan guest_policy ''guest'' Some = Inr [c]" "ck_Targets c = [''10.0.0.2'']"
      "ck_require c = [443]" "ck_allow c = {443}" "ck_Ports c = [22, 443]"
  proof -
    have "Plan guest_policy ''guest'' Some = Inr [\<lparr>ck_Rule = hd (pl_Rules guest_policy), ck_Targets = [''10.0.0.2''],
        ck_Ports = [22, 443], ck_allow = set [443], ck_require = [443]\<rparr>]"
      by code_simp
    then show ?thesis using that by auto
  qed
  then show ?thesis
    using policy_check_is_the_rule [OF v c(1), of c "[(''10.0.0.2'', 443)]"] by simp
qed

text \<open>The violations listed are sorted, and independent of the order the scan reports its
  endpoints in.\<close>

theorem violations_order_irrelevant:
  "mset open1 = mset open2 \<Longrightarrow> Evaluate c open1 = Evaluate c open2"
proof -
  assume ms: "mset open1 = mset open2"
  then have "set open1 = set open2" by (metis set_mset_mset)
  then have "mset (found_violations c open1) = mset (found_violations c open2)"
    using ms by (simp add: found_violations_def mset_filter)
  then show ?thesis unfolding Evaluate_def by (rule violation_order.sort_order_irrelevant)
qed

end
