(* ===== verification/Dualstack.thy ===== *)
theory Dualstack
  imports NetAddr Results
begin

text \<open>
  \<open>internal/dualstack\<close>: services that are open on one address family of a name and not
  on the other.  The resolver is an argument, as it is in the code; the maps of open
  ports are iterated along lists that are arguments.
\<close>

record Pair =
  dp_Pair_Name :: string
  dp_IPv4 :: string
  dp_IPv6 :: string

record resolver =
  rs_LookupAddr :: "string \<Rightarrow> string list option"
  rs_LookupIP6 :: "string \<Rightarrow> ip list option"

text \<open>The name a target is looked up under: the one it was given as, or its reverse name.\<close>

definition pair_name :: "(string \<rightharpoonup> string) \<Rightarrow> resolver \<Rightarrow> string \<Rightarrow> string option" where
  "pair_name names r ip =
     (case names ip of
        Some n \<Rightarrow> if n \<noteq> [] then Some n
          else (case rs_LookupAddr r ip of Some (p # ps) \<Rightarrow> Some (trim_suffix p ''.'') | _ \<Rightarrow> None)
      | None \<Rightarrow> (case rs_LookupAddr r ip of Some (p # ps) \<Rightarrow> Some (trim_suffix p ''.'') | _ \<Rightarrow> None))"

definition pairs_of :: "(string \<rightharpoonup> string) \<Rightarrow> resolver \<Rightarrow> string \<Rightarrow> Pair list" where
  "pairs_of names r ip =
     (case Option.bind (parse_ip ip) to4 of
        None \<Rightarrow> []
      | Some v4 \<Rightarrow>
          (case pair_name names r ip of
             None \<Rightarrow> []
           | Some name \<Rightarrow>
               (case rs_LookupIP6 r name of
                  None \<Rightarrow> []
                | Some addrs \<Rightarrow>
                    map (\<lambda>a. \<lparr>dp_Pair_Name = name, dp_IPv4 = ip, dp_IPv6 = ip_string a\<rparr>)
                      (filter (\<lambda>a. to4 a = None) addrs))))"

text \<open>A pair whose key was seen is skipped.\<close>

definition pair_key :: "Pair \<Rightarrow> string" where
  "pair_key p = dp_IPv4 p @ ''|'' @ dp_IPv6 p"

fun new_pairs :: "string list \<Rightarrow> Pair list \<Rightarrow> Pair list" where
  "new_pairs seen [] = []"
| "new_pairs seen (p # ps) =
     (if List.member seen (pair_key p) then new_pairs seen ps else p # new_pairs (pair_key p # seen) ps)"

definition FindPairs :: "string list \<Rightarrow> (string \<rightharpoonup> string) \<Rightarrow> resolver \<Rightarrow> Pair list" where
  "FindPairs ipv4Targets names r = new_pairs [] (concat (map (pairs_of names r) ipv4Targets))"

definition IPv6Targets :: "Pair list \<Rightarrow> string list" where
  "IPv6Targets pairs = sort_strings (dedup (map dp_IPv6 pairs))"

datatype gap_kind = IPv6Only | IPv4Only

record Gap =
  gp_Pair :: Pair
  gp_Port :: int
  gp_Kind :: gap_kind
  gp_Sensitive :: bool

definition sensitivePorts :: "int list" where
  "sensitivePorts = [21, 22, 23, 135, 139, 445, 1433, 1521, 2375, 2379, 3306, 3389, 5432,
     5900, 5984, 6379, 8086, 9200, 10250, 11211, 27017]"

definition IsSensitive :: "int \<Rightarrow> bool" where
  "IsSensitive port = (port \<in> set sensitivePorts)"

text \<open>The ports found open on an address, in the results of either family.\<close>

definition open_ports :: "TargetResult list \<Rightarrow> string \<Rightarrow> int set" where
  "open_ports results ip = res_Port ` {r \<in> set results. res_State r = StateOpen \<and> res_IP r = ip}"

definition gap_less :: "Gap \<Rightarrow> Gap \<Rightarrow> bool" where
  "gap_less a b =
     (if gp_Kind a \<noteq> gp_Kind b then gp_Kind a = IPv6Only
      else if dp_IPv4 (gp_Pair a) \<noteq> dp_IPv4 (gp_Pair b) then dp_IPv4 (gp_Pair a) < dp_IPv4 (gp_Pair b)
      else if dp_IPv6 (gp_Pair a) \<noteq> dp_IPv6 (gp_Pair b) then dp_IPv6 (gp_Pair a) < dp_IPv6 (gp_Pair b)
      else gp_Port a < gp_Port b)"

text \<open>The gaps of one pair; \<open>order\<close> is the order in which Go iterates the ports of an address.\<close>

definition pair_gaps :: "(string \<Rightarrow> int list) \<Rightarrow> TargetResult list \<Rightarrow> Pair \<Rightarrow> Gap list" where
  "pair_gaps order results p =
     map (\<lambda>port. \<lparr>gp_Pair = p, gp_Port = port, gp_Kind = IPv6Only, gp_Sensitive = IsSensitive port\<rparr>)
       (filter (\<lambda>port. port \<notin> open_ports results (dp_IPv4 p)) (order (dp_IPv6 p)))
     @ map (\<lambda>port. \<lparr>gp_Pair = p, gp_Port = port, gp_Kind = IPv4Only, gp_Sensitive = IsSensitive port\<rparr>)
       (filter (\<lambda>port. port \<notin> open_ports results (dp_IPv6 p)) (order (dp_IPv4 p)))"

definition Compare :: "(string \<Rightarrow> int list) \<Rightarrow> Pair list \<Rightarrow> TargetResult list \<Rightarrow> TargetResult list \<Rightarrow> Gap list" where
  "Compare order pairs v4 v6 = sort_by gap_less (concat (map (pair_gaps order (v4 @ v6)) pairs))"

definition severityRank :: "string \<Rightarrow> nat" where
  "severityRank s = (if s = ''critical'' then 4 else if s = ''high'' then 3 else if s = ''medium'' then 2
     else if s = ''low'' then 1 else 0)"

text \<open>What \<open>Annotate\<close> sets on a result: the dual-stack mark, a finding and the severity.  The
  mark and the finding are outside the result record of the model and are listed beside it.\<close>

record DualStackInfo =
  ds_Gap :: gap_kind
  ds_Name :: string
  ds_Counterpart :: string
  ds_Sensitive :: bool

definition endpoint_key :: "string \<Rightarrow> int \<Rightarrow> string" where
  "endpoint_key ip port = ip @ ''|'' @ itoa port"

text \<open>The last IPv6-only gap of an endpoint wins.\<close>

definition gap_at :: "Gap list \<Rightarrow> string \<rightharpoonup> Gap" where
  "gap_at gaps = fold (\<lambda>g m. if gp_Kind g = IPv6Only then m(endpoint_key (dp_IPv6 (gp_Pair g)) (gp_Port g) \<mapsto> g) else m) gaps Map.empty"

definition annotate_result :: "Gap list \<Rightarrow> TargetResult \<Rightarrow> TargetResult \<times> DualStackInfo option" where
  "annotate_result gaps r =
     (case gap_at gaps (endpoint_key (res_IP r) (res_Port r)) of
        None \<Rightarrow> (r, None)
      | Some g \<Rightarrow>
          (let severity = (if gp_Sensitive g then ''high'' else ''medium'') in
           (if severityRank severity > severityRank (res_RiskSeverity r) then r\<lparr>res_RiskSeverity := severity\<rparr> else r,
            Some \<lparr>ds_Gap = gp_Kind g, ds_Name = dp_Pair_Name (gp_Pair g), ds_Counterpart = dp_IPv4 (gp_Pair g),
                  ds_Sensitive = gp_Sensitive g\<rparr>)))"

definition Annotate :: "TargetResult list \<Rightarrow> Gap list \<Rightarrow> (TargetResult \<times> DualStackInfo option) list \<times> nat" where
  "Annotate v6 gaps =
     (let out = map (annotate_result gaps) v6 in (out, length (filter (\<lambda>(r, i). i \<noteq> None) out)))"

interpretation gap_order: weak_order gap_less
proof
  fix x y z
  show "gap_less x y \<Longrightarrow> \<not> gap_less y x" by (auto simp: gap_less_def split: if_splits)
  show "\<not> gap_less y x \<Longrightarrow> \<not> gap_less z y \<Longrightarrow> \<not> gap_less z x"
    by (cases "gp_Kind x"; cases "gp_Kind y"; cases "gp_Kind z") (auto simp: gap_less_def not_less split: if_splits)
qed

subsection \<open>Properties\<close>

lemma gaps_set:
  assumes "\<And>ip. set (order ip) = open_ports (v4 @ v6) ip"
  shows "g \<in> set (Compare order pairs v4 v6) \<longleftrightarrow>
    gp_Pair g \<in> set pairs \<and> gp_Sensitive g = IsSensitive (gp_Port g)
    \<and> (gp_Kind g = IPv6Only \<and> gp_Port g \<in> open_ports (v4 @ v6) (dp_IPv6 (gp_Pair g)) - open_ports (v4 @ v6) (dp_IPv4 (gp_Pair g))
       \<or> gp_Kind g = IPv4Only \<and> gp_Port g \<in> open_ports (v4 @ v6) (dp_IPv4 (gp_Pair g)) - open_ports (v4 @ v6) (dp_IPv6 (gp_Pair g)))"
  by (cases g) (auto simp: Compare_def pair_gaps_def assms)

lemma gap_at_endpoint:
  "gap_at gaps k = Some g \<Longrightarrow> g \<in> set gaps \<and> gp_Kind g = IPv6Only \<and> k = endpoint_key (dp_IPv6 (gp_Pair g)) (gp_Port g)"
proof (induction gaps rule: rev_induct)
  case Nil
  then show ?case by (simp add: gap_at_def)
next
  case (snoc h gaps)
  then show ?case by (auto simp: gap_at_def split: if_splits)
qed

lemma gap_at_None:
  "gap_at gaps k = None \<longleftrightarrow> \<not> (\<exists>g \<in> set gaps. gp_Kind g = IPv6Only \<and> endpoint_key (dp_IPv6 (gp_Pair g)) (gp_Port g) = k)"
proof (induction gaps rule: rev_induct)
  case Nil
  then show ?case by (simp add: gap_at_def)
next
  case (snoc h gaps)
  then show ?case by (auto simp: gap_at_def split: if_splits)
qed

lemma endpoint_key_eq: "endpoint_key a p = endpoint_key b q \<longleftrightarrow> a = b \<and> p = q"
  using text_number_inj [of "CHR ''|''" a p b q] by (simp add: endpoint_key_def is_digit_def less_eq_char_def)

text \<open>C30: the gaps between the two families are exactly the ports open on one address of a
  pair and not on the other, sorted with the IPv6-only ones first; annotating marks
  exactly the IPv6 results behind an IPv6-only gap, and never lowers a severity.\<close>

theorem dual_stack_gaps_are_exact:
  assumes "\<And>ip. set (order ip) = open_ports (v4 @ v6) ip"
  shows "(g \<in> set (Compare order pairs v4 v6) \<longleftrightarrow>
      gp_Pair g \<in> set pairs \<and> gp_Sensitive g = IsSensitive (gp_Port g)
      \<and> (gp_Kind g = IPv6Only \<and> gp_Port g \<in> open_ports (v4 @ v6) (dp_IPv6 (gp_Pair g)) - open_ports (v4 @ v6) (dp_IPv4 (gp_Pair g))
         \<or> gp_Kind g = IPv4Only \<and> gp_Port g \<in> open_ports (v4 @ v6) (dp_IPv4 (gp_Pair g)) - open_ports (v4 @ v6) (dp_IPv6 (gp_Pair g))))
    \<and> sorted_wrt (\<lambda>a b. \<not> gap_less b a) (Compare order pairs v4 v6)
    \<and> (\<forall>r \<in> set v6. snd (annotate_result (Compare order pairs v4 v6) r) \<noteq> None \<longleftrightarrow>
         (\<exists>p \<in> set pairs. dp_IPv6 p = res_IP r \<and> res_Port r \<in> open_ports (v4 @ v6) (dp_IPv6 p) - open_ports (v4 @ v6) (dp_IPv4 p)))
    \<and> (\<forall>r \<in> set v6. severityRank (res_RiskSeverity r) \<le> severityRank (res_RiskSeverity (fst (annotate_result (Compare order pairs v4 v6) r))))"
proof (intro conjI ballI)
  let ?gaps = "Compare order pairs v4 v6"
  note gs = gaps_set [OF assms, of _ pairs]
  show "g \<in> set ?gaps \<longleftrightarrow>
      gp_Pair g \<in> set pairs \<and> gp_Sensitive g = IsSensitive (gp_Port g)
      \<and> (gp_Kind g = IPv6Only \<and> gp_Port g \<in> open_ports (v4 @ v6) (dp_IPv6 (gp_Pair g)) - open_ports (v4 @ v6) (dp_IPv4 (gp_Pair g))
         \<or> gp_Kind g = IPv4Only \<and> gp_Port g \<in> open_ports (v4 @ v6) (dp_IPv4 (gp_Pair g)) - open_ports (v4 @ v6) (dp_IPv6 (gp_Pair g)))"
    by (rule gs)
  show "sorted_wrt (\<lambda>a b. \<not> gap_less b a) ?gaps" unfolding Compare_def by (rule gap_order.ordered_sort)
  fix r
  have "snd (annotate_result ?gaps r) \<noteq> None \<longleftrightarrow> gap_at ?gaps (endpoint_key (res_IP r) (res_Port r)) \<noteq> None"
    by (auto simp: annotate_result_def Let_def split: option.splits)
  also have "\<dots> \<longleftrightarrow> (\<exists>g \<in> set ?gaps. gp_Kind g = IPv6Only \<and> dp_IPv6 (gp_Pair g) = res_IP r \<and> gp_Port g = res_Port r)"
    unfolding gap_at_None endpoint_key_eq by (simp add: conj_left_commute)
  also have "\<dots> \<longleftrightarrow> (\<exists>p \<in> set pairs. dp_IPv6 p = res_IP r \<and> res_Port r \<in> open_ports (v4 @ v6) (dp_IPv6 p) - open_ports (v4 @ v6) (dp_IPv4 p))"
    (is "?l \<longleftrightarrow> ?r")
  proof
    assume ?l
    then obtain g where g: "g \<in> set ?gaps" "gp_Kind g = IPv6Only" "dp_IPv6 (gp_Pair g) = res_IP r" "gp_Port g = res_Port r"
      by blast
    then have "gp_Pair g \<in> set pairs"
        "gp_Port g \<in> open_ports (v4 @ v6) (dp_IPv6 (gp_Pair g)) - open_ports (v4 @ v6) (dp_IPv4 (gp_Pair g))"
      using gs [of g] by simp_all
    then show ?r using g(3,4) by metis
  next
    assume ?r
    then obtain p where p: "p \<in> set pairs" "dp_IPv6 p = res_IP r"
        "res_Port r \<in> open_ports (v4 @ v6) (dp_IPv6 p) - open_ports (v4 @ v6) (dp_IPv4 p)" by blast
    let ?g = "\<lparr>gp_Pair = p, gp_Port = res_Port r, gp_Kind = IPv6Only, gp_Sensitive = IsSensitive (res_Port r)\<rparr>"
    have "?g \<in> set ?gaps" using p gs [of ?g] by simp
    then show ?l using p(2) by (intro bexI [of _ ?g]) simp_all
  qed
  finally show "snd (annotate_result ?gaps r) \<noteq> None \<longleftrightarrow>
      (\<exists>p \<in> set pairs. dp_IPv6 p = res_IP r \<and> res_Port r \<in> open_ports (v4 @ v6) (dp_IPv6 p) - open_ports (v4 @ v6) (dp_IPv4 p))" .
  show "severityRank (res_RiskSeverity r) \<le> severityRank (res_RiskSeverity (fst (annotate_result ?gaps r)))"
    by (auto simp: annotate_result_def Let_def split: option.splits)
qed

lemma open_ports_single: "open_ports [r] ip = (if res_State r = StateOpen \<and> res_IP r = ip then {res_Port r} else {})"
proof -
  have "{s \<in> set [r]. res_State s = StateOpen \<and> res_IP s = ip} = (if res_State r = StateOpen \<and> res_IP r = ip then {r} else {})"
    by auto
  then show ?thesis by (simp add: open_ports_def)
qed

theorem dual_stack_gaps_are_exact_witness:
  "\<exists>order. \<exists>g \<in> set (Compare order [\<lparr>dp_Pair_Name = ''h'', dp_IPv4 = ''192.0.2.1'', dp_IPv6 = ''2001:db8::1''\<rparr>] []
     [(new_result ''2001:db8::1'' 22)\<lparr>res_State := StateOpen\<rparr>]). gp_Kind g = IPv6Only \<and> gp_Sensitive g"
proof -
  let ?p = "\<lparr>dp_Pair_Name = ''h'', dp_IPv4 = ''192.0.2.1'', dp_IPv6 = ''2001:db8::1''\<rparr>"
  let ?v6 = "[(new_result ''2001:db8::1'' 22)\<lparr>res_State := StateOpen\<rparr>]"
  let ?order = "\<lambda>ip. if ip = ''2001:db8::1'' then [22] else []"
  let ?g = "\<lparr>gp_Pair = ?p, gp_Port = 22, gp_Kind = IPv6Only, gp_Sensitive = True\<rparr>"
  have o1: "set (?order ip) = open_ports ([] @ ?v6) ip" for ip
    by (simp add: open_ports_single)
  have "?g \<in> set (Compare ?order [?p] [] ?v6)"
    using dual_stack_gaps_are_exact [OF o1, of ?g "[?p]"] by (simp add: open_ports_single IsSensitive_def sensitivePorts_def)
  then show ?thesis by (intro exI [of _ ?order] bexI [of _ ?g]) simp_all
qed

end
