(* ===== verification/Evidence.thy ===== *)
theory Evidence
  imports Results HostInventory Signing
begin

text \<open>
  \<open>internal/evidence\<close>: the bundle of what a scan observed (\<open>evidence.go\<close>), its digest,
  signature and key files (\<open>sign.go\<close>), and the replay that probes the recorded endpoints
  again (\<open>replay.go\<close>).  SHA-256, Ed25519, the JSON and PEM encodings, the host name, the
  route lookup and the network are arguments; the file system is a map from paths to
  contents, with a test for the paths that cannot be written.
\<close>

subsection \<open>Bundles\<close>

record Tool =
  tool_Name :: string
  tool_Version :: string
  tool_Commit :: string

record Finding =
  fi_ID :: string
  fi_IP :: string
  fi_Port :: int
  fi_State :: string
  fi_Reason :: string
  fi_SourceIP :: string
  fi_LatencyMs :: rat
  fi_Service :: string
  fi_Version :: string
  fi_Banner :: string
  fi_BannerSHA256 :: string
  fi_TLSCert :: string
  fi_RiskSeverity :: string
  fi_Vulnerabilities :: "string list"
  fi_Notes :: "string list"

record Bundle =
  eb_Format :: string
  eb_Tool :: Tool
  eb_CreatedAt :: int
  eb_Hostname :: string
  eb_Command :: "string list"
  eb_Findings :: "Finding list"

definition Format :: string where "Format = ''tcpcat-evidence/v1''"

text \<open>The fields of a result that only the bundle reads, beside those of \<open>TargetResult\<close>:
  the latency in milliseconds, the certificate (subject, issuer, expiry) and the findings.\<close>

record ScanRow = TargetResult +
  row_LatencyMs :: rat
  row_TLS :: "(string \<times> string \<times> string) option"
  row_Findings :: "string list"

definition maxBanner :: nat where "maxBanner = 512"

definition FindingID :: "(string \<Rightarrow> bytes) \<Rightarrow> string \<Rightarrow> int \<Rightarrow> string" where
  "FindingID sha256 ip port = take 12 (hex_encode (sha256 (join_host_port ip (itoa port))))"

definition BannerHash :: "(string \<Rightarrow> bytes) \<Rightarrow> string \<Rightarrow> string" where
  "BannerHash sha256 banner = (if banner = [] then [] else hex_encode (sha256 banner))"

definition truncate_text :: "string \<Rightarrow> nat \<Rightarrow> string" where
  "truncate_text s n = (if length s \<le> n then s else take n s @ ellipsis)"

definition tls_text :: "(string \<times> string \<times> string) option \<Rightarrow> string" where
  "tls_text t =
     (case t of
        None \<Rightarrow> []
      | Some (subject, issuer, expires) \<Rightarrow>
          if subject = [] then []
          else subject @ '' (issuer '' @ issuer @ '', expires '' @ expires @ '')'')"

definition finding_of :: "(string \<Rightarrow> bytes) \<Rightarrow> string \<Rightarrow> ScanRow \<Rightarrow> Finding" where
  "finding_of sha256 source r =
     \<lparr>fi_ID = FindingID sha256 (res_IP r) (res_Port r), fi_IP = res_IP r, fi_Port = res_Port r,
      fi_State = res_State r, fi_Reason = res_Reason r, fi_SourceIP = source, fi_LatencyMs = row_LatencyMs r,
      fi_Service = res_Service r, fi_Version = res_Version r, fi_Banner = truncate_text (res_Banner r) maxBanner,
      fi_BannerSHA256 = BannerHash sha256 (res_Banner r), fi_TLSCert = tls_text (row_TLS r),
      fi_RiskSeverity = res_RiskSeverity r, fi_Vulnerabilities = map vuln_ID (res_Vulnerabilities r),
      fi_Notes = row_Findings r\<rparr>"

text \<open>The loop over the results: the source address is looked up once per host.  The lookup
  is told how many were made before, since its answer may change between two of them.\<close>

fun build_findings ::
  "(string \<Rightarrow> bytes) \<Rightarrow> (nat \<Rightarrow> string \<Rightarrow> string) \<Rightarrow> nat \<Rightarrow> (string \<rightharpoonup> string) \<Rightarrow> ScanRow list \<Rightarrow> Finding list" where
  "build_findings sha256 sourceIPFor n sources [] = []"
| "build_findings sha256 sourceIPFor n sources (r # rs) =
     (if res_State r \<noteq> StateOpen then build_findings sha256 sourceIPFor n sources rs
      else
        (case sources (res_IP r) of
           Some src \<Rightarrow> finding_of sha256 src r # build_findings sha256 sourceIPFor n sources rs
         | None \<Rightarrow>
             (let src = sourceIPFor n (res_IP r)
              in finding_of sha256 src r # build_findings sha256 sourceIPFor (Suc n) (sources(res_IP r \<mapsto> src)) rs)))"

definition finding_less :: "Finding \<Rightarrow> Finding \<Rightarrow> bool" where
  "finding_less a b = (if fi_IP a \<noteq> fi_IP b then fi_IP a < fi_IP b else fi_Port a < fi_Port b)"

definition secretFlags :: "string list" where
  "secretFlags = [''apikey'', ''webhook'', ''token'', ''password'', ''secret'', ''key'']"

definition isSecret :: "string \<Rightarrow> bool" where
  "isSecret flagName = names_secret secretFlags (dropWhile (\<lambda>c. c = CHR ''-'') flagName)"

definition RedactArgs :: "string list \<Rightarrow> string list" where
  "RedactArgs args = redact isSecret args"

definition Build ::
  "(string \<Rightarrow> bytes) \<Rightarrow> (nat \<Rightarrow> string \<Rightarrow> string) \<Rightarrow> string \<Rightarrow> ScanRow list \<Rightarrow> Tool \<Rightarrow> string list \<Rightarrow> int \<Rightarrow> Bundle" where
  "Build sha256 sourceIPFor host results tool args now =
     \<lparr>eb_Format = Format, eb_Tool = tool, eb_CreatedAt = now, eb_Hostname = host, eb_Command = RedactArgs args,
      eb_Findings = sort_by finding_less (build_findings sha256 sourceIPFor 0 Map.empty results)\<rparr>"

subsection \<open>Writing and verifying\<close>

type_synonym files = "string \<rightharpoonup> string"

text \<open>\<open>os.WriteFile\<close> of a list of files, in order, up to the first that fails.\<close>

fun write_files :: "(string \<Rightarrow> bool) \<Rightarrow> files \<Rightarrow> (string \<times> string) list \<Rightarrow> files \<times> bool" where
  "write_files writable fs [] = (fs, True)"
| "write_files writable fs ((path, text1) # ws) =
     (if writable path then write_files writable (fs(path \<mapsto> text1)) ws else (fs, False))"

definition newline :: string where "newline = [CHR 0x0A]"

definition baseName :: "string \<Rightarrow> string" where
  "baseName path = rev (takeWhile (\<lambda>c. c \<noteq> CHR ''/'' \<and> c \<noteq> CHR 0x5C) (rev path))"

definition Sign :: "signature_scheme \<Rightarrow> bytes \<Rightarrow> string \<Rightarrow> string" where
  "Sign sg key text1 = b64_encode (sg_sign sg key text1)"

definition digest_line :: "(string \<Rightarrow> bytes) \<Rightarrow> string \<Rightarrow> string \<Rightarrow> string" where
  "digest_line sha256 path text1 = hex_encode (sha256 text1) @ ''  '' @ baseName path @ newline"

definition Marshal :: "(Bundle \<Rightarrow> string option) \<Rightarrow> Bundle \<Rightarrow> string option" where
  "Marshal to_json b = map_option (\<lambda>text1. text1 @ newline) (to_json b)"

definition Write ::
  "(string \<Rightarrow> bytes) \<Rightarrow> signature_scheme \<Rightarrow> (Bundle \<Rightarrow> string option) \<Rightarrow> (string \<Rightarrow> bool) \<Rightarrow> files \<Rightarrow> string \<Rightarrow> Bundle
     \<Rightarrow> bytes option \<Rightarrow> files \<times> bool" where
  "Write sha256 sg to_json writable fs path b signer =
     (case Marshal to_json b of
        None \<Rightarrow> (fs, False)
      | Some text1 \<Rightarrow>
          write_files writable fs
            ((path, text1) # (path @ ''.sha256'', digest_line sha256 path text1)
             # (case signer of None \<Rightarrow> [] | Some key \<Rightarrow> [(path @ ''.sig'', Sign sg key text1 @ newline)])))"

datatype load_error = ReadFailed | ParseFailed | UnsupportedFormat string

definition Load :: "(string \<Rightarrow> Bundle option) \<Rightarrow> files \<Rightarrow> string \<Rightarrow> load_error + Bundle \<times> string" where
  "Load from_json fs path =
     (case fs path of
        None \<Rightarrow> Inl ReadFailed
      | Some text1 \<Rightarrow>
          (case from_json text1 of
             None \<Rightarrow> Inl ParseFailed
           | Some b \<Rightarrow> if eb_Format b \<noteq> Format then Inl (UnsupportedFormat (eb_Format b)) else Inr (b, text1)))"

datatype verify_error = MalformedSignature | ErrBadSignature | EmptyDigest | DigestMismatch

text \<open>\<open>None\<close> is the nil error.\<close>

definition Verify :: "signature_scheme \<Rightarrow> bytes \<Rightarrow> string \<Rightarrow> string \<Rightarrow> verify_error option" where
  "Verify sg pub text1 sigText =
     (case b64_decode (trim_space sigText) of
        None \<Rightarrow> Some MalformedSignature
      | Some sig \<Rightarrow>
          if length sig \<noteq> 64 then Some MalformedSignature
          else if \<not> sg_verify sg pub text1 sig then Some ErrBadSignature else None)"

definition VerifyDigest :: "(string \<Rightarrow> bytes) \<Rightarrow> string \<Rightarrow> string \<Rightarrow> verify_error option" where
  "VerifyDigest sha256 text1 digestText =
     (case split_fields digestText of
        [] \<Rightarrow> Some EmptyDigest
      | f # fs \<Rightarrow> if equal_fold f (hex_encode (sha256 text1)) then None else Some DigestMismatch)"

subsection \<open>Key files\<close>

text \<open>\<open>O_CREATE | O_EXCL\<close>: an existing file is an error and is not touched.\<close>

definition writeNew :: "(string \<Rightarrow> bool) \<Rightarrow> files \<Rightarrow> string \<Rightarrow> string \<Rightarrow> files option" where
  "writeNew writable fs path text1 =
     (if fs path = None \<and> writable path then Some (fs(path \<mapsto> text1)) else None)"

text \<open>The PEM texts of a fresh key pair, private first, are an argument; \<open>None\<close> when the
  generator or an encoder fails.  The result has the paths, public first, when it succeeded.\<close>

definition GenerateKeyPair ::
  "(string \<Rightarrow> bool) \<Rightarrow> files \<Rightarrow> string \<Rightarrow> (string \<times> string) option \<Rightarrow> files \<times> (string \<times> string) option" where
  "GenerateKeyPair writable fs prefix pems =
     (case pems of
        None \<Rightarrow> (fs, None)
      | Some (privPEM, pubPEM) \<Rightarrow>
          (let keyPath = prefix @ ''.key''; pubPath = prefix @ ''.pub'' in
           case writeNew writable fs keyPath privPEM of
             None \<Rightarrow> (fs, None)
           | Some fs1 \<Rightarrow>
               (case writeNew writable fs1 pubPath pubPEM of
                  None \<Rightarrow> (fs1, None)
                | Some fs2 \<Rightarrow> (fs2, Some (pubPath, keyPath)))))"

subsection \<open>Replay\<close>

datatype outcome_result = Reproduced | Changed | Fixed

record Outcome =
  oc_Finding :: Finding
  oc_Result :: outcome_result
  oc_Detail :: string

datatype probe_answer = ProbeError string | NotOpen | OpenWith string

definition trimLine :: "string \<Rightarrow> string" where
  "trimLine s = trim_right_by (\<lambda>c. c \<in> {CHR 0x0A, CHR 0x0D, CHR '' ''}) s"

definition bannerMatches :: "(string \<Rightarrow> bytes) \<Rightarrow> Finding \<Rightarrow> string \<Rightarrow> bool" where
  "bannerMatches sha256 f banner \<longleftrightarrow>
     BannerHash sha256 banner = fi_BannerSHA256 f
     \<or> (let trimmed = trimLine banner
        in trimmed \<noteq> [] \<and> (BannerHash sha256 trimmed = fi_BannerSHA256 f \<or> trimmed = trimLine (fi_Banner f)))"

definition replay_one :: "(string \<Rightarrow> bytes) \<Rightarrow> Finding \<Rightarrow> probe_answer \<Rightarrow> Outcome" where
  "replay_one sha256 f answer =
     (case answer of
        ProbeError e \<Rightarrow> \<lparr>oc_Finding = f, oc_Result = Reproduced, oc_Detail = ''probe error, treated as not fixed: '' @ e\<rparr>
      | NotOpen \<Rightarrow> \<lparr>oc_Finding = f, oc_Result = Fixed, oc_Detail = ''port no longer accepts connections''\<rparr>
      | OpenWith banner \<Rightarrow>
          if fi_BannerSHA256 f \<noteq> [] \<and> banner \<noteq> [] \<and> \<not> bannerMatches sha256 f banner
          then \<lparr>oc_Finding = f, oc_Result = Changed, oc_Detail = ''port still open, but the service answers differently''\<rparr>
          else \<lparr>oc_Finding = f, oc_Result = Reproduced, oc_Detail = ''port still accepts connections''\<rparr>)"

definition Replay :: "(string \<Rightarrow> bytes) \<Rightarrow> Finding list \<Rightarrow> (string \<Rightarrow> int \<Rightarrow> probe_answer) \<Rightarrow> Outcome list" where
  "Replay sha256 findings probe = map (\<lambda>f. replay_one sha256 f (probe (fi_IP f) (fi_Port f))) findings"

text \<open>The production probe, over the result of the dial and of reading a line.\<close>

definition TCPProbe :: "string option \<Rightarrow> probe_answer" where
  "TCPProbe dialled = (case dialled of None \<Rightarrow> NotOpen | Some line \<Rightarrow> OpenWith line)"

subsection \<open>No secret of the command line is recorded\<close>

lemma cut_absent: "sep \<notin> set s \<Longrightarrow> cut_char sep s = (s, [], False)"
proof -
  assume "sep \<notin> set s"
  then have "takeWhile (\<lambda>c. c \<noteq> sep) s = s" by (subst takeWhile_eq_all_conv) blast
  then show ?thesis by (simp only: cut_char_def Let_def less_irrefl if_False)
qed

lemma redact_append:
  "has_prefix flag ''-'' \<Longrightarrow> redact secret (pre @ flag # rest) = redact secret pre @ redact secret (flag # rest)"
proof (induction secret pre rule: redact.induct)
  case (2 secret a)
  then show ?case by (auto split: prod.splits)
next
  case (3 secret a b args)
  then show ?case by (auto split: prod.splits)
qed simp

lemma redact_flag:
  assumes "has_prefix flag ''-''" "CHR ''='' \<notin> set flag" "secret flag" "\<not> has_prefix v ''-''"
  shows "redact secret (flag # v # post) = flag # ''REDACTED'' # redact secret post"
  using assms by (simp add: cut_absent)

lemma redact_assignment:
  assumes "has_prefix name ''-''" "CHR ''='' \<notin> set name" "secret name"
  shows "redact secret ((name @ ''='' @ v) # post) = (name @ ''=REDACTED'') # redact secret post"
proof -
  have p: "has_prefix (name @ ''='' @ v) ''-''" using assms(1) by (auto simp: has_prefix_iff)
  have "cut_char (CHR ''='') (name @ ''='' @ v) = (name, v, True)"
    using assms(2) by (rule cut_char_first)
  then show ?thesis using p assms(3) by (cases post) simp_all
qed

text \<open>C31: the recorded command line does not depend on the value of a secret flag, wherever
  the flag stands and in either of its forms, unless the value starts with a hyphen;
  the arguments around it are recorded as they would be without it.\<close>

theorem evidence_hides_secrets:
  assumes "has_prefix flag ''-''" and "CHR ''='' \<notin> set flag" and "isSecret flag"
  shows "RedactArgs (pre @ [flag @ ''='' @ w] @ post) = RedactArgs pre @ [flag @ ''=REDACTED''] @ RedactArgs post
    \<and> (\<not> has_prefix v ''-'' \<longrightarrow>
        RedactArgs (pre @ [flag, v] @ post) = RedactArgs pre @ [flag, ''REDACTED''] @ RedactArgs post)"
proof (intro conjI impI)
  have "has_prefix (flag @ ''='' @ w) ''-''" using assms(1) by (auto simp: has_prefix_iff)
  then show "RedactArgs (pre @ [flag @ ''='' @ w] @ post) = RedactArgs pre @ [flag @ ''=REDACTED''] @ RedactArgs post"
    using redact_append [of "flag @ ''='' @ w"] redact_assignment [of flag isSecret w, OF assms] by (simp add: RedactArgs_def)
  assume "\<not> has_prefix v ''-''"
  then show "RedactArgs (pre @ [flag, v] @ post) = RedactArgs pre @ [flag, ''REDACTED''] @ RedactArgs post"
    using redact_append [OF assms(1)] redact_flag [of flag isSecret, OF assms] by (simp add: RedactArgs_def)
qed

theorem evidence_hides_secrets_witness:
  "RedactArgs ([''-p'', ''80''] @ [''--vulners-apikey'', ''s3cret''] @ [''10.0.0.1''])
     = [''-p'', ''80'', ''--vulners-apikey'', ''REDACTED'', ''10.0.0.1'']"
proof -
  have s: "has_prefix ''--vulners-apikey'' ''-''" "CHR ''='' \<notin> set ''--vulners-apikey''" "isSecret ''--vulners-apikey''"
      "\<not> has_prefix ''s3cret'' ''-''"
    by code_simp+
  have "RedactArgs [''-p'', ''80''] = [''-p'', ''80'']" "RedactArgs [''10.0.0.1''] = [''10.0.0.1'']" by code_simp+
  then show ?thesis
    using evidence_hides_secrets [OF s(1-3), of "[''-p'', ''80'']" _ "[''10.0.0.1'']" "''s3cret''"] s(4) by simp
qed

subsection \<open>What was written verifies\<close>

lemma nibble_text: "d < 16 \<Longrightarrow> \<not> is_space (nibble_char d) \<and> lower_char (nibble_char d) = nibble_char d"
proof -
  assume "d < 16"
  then have "unat d \<in> set [0..<16]" by (simp add: word_less_nat_alt)
  moreover have "list_all (\<lambda>n. \<not> is_space (nibble_char (of_nat n)) \<and> lower_char (nibble_char (of_nat n)) = nibble_char (of_nat n)) [0..<16]"
    by code_simp
  ultimately have "\<not> is_space (nibble_char (of_nat (unat d))) \<and> lower_char (nibble_char (of_nat (unat d))) = nibble_char (of_nat (unat d))"
    unfolding list_all_iff by (rule bspec [rotated])
  then show ?thesis by simp
qed

lemma hex_encode_text: "(\<forall>c \<in> set (hex_encode bs). \<not> is_space c) \<and> to_lower (hex_encode bs) = hex_encode bs"
  by (induction bs) (use nibble_text nibbles_less in \<open>simp_all add: to_lower_def\<close>)

lemma hex_encode_inj: "hex_encode a = hex_encode b \<longleftrightarrow> a = b"
  by (metis hex_decode_encode option.inject)

lemma first_field:
  assumes "\<forall>c \<in> set w. \<not> is_space c" and "w \<noteq> []"
  shows "\<exists>more. split_fields (w @ '' '' @ s) = w # more"
  using assms fields_acc_word [of w is_space "[]" "'' '' @ s"] by (simp add: split_fields_def fields_by_def is_space_def)

lemma VerifyDigest_line:
  assumes "\<And>m. sha256 m \<noteq> []"
  shows "VerifyDigest sha256 m (digest_line sha256 path text1) = None \<longleftrightarrow> sha256 m = sha256 text1"
proof -
  have "hex_encode (sha256 text1) \<noteq> []" using assms [of text1] by (cases "sha256 text1") simp_all
  then obtain more1 where "split_fields (hex_encode (sha256 text1) @ '' '' @ '' '' @ baseName path @ newline) = hex_encode (sha256 text1) # more1"
    using first_field [of "hex_encode (sha256 text1)"] hex_encode_text by blast
  then show ?thesis
    using hex_encode_text hex_encode_inj by (auto simp: VerifyDigest_def digest_line_def equal_fold_def)
qed

lemma trim_sig: "x \<noteq> [] \<Longrightarrow> \<forall>c \<in> set x. \<not> is_space c \<Longrightarrow> trim_space (x @ newline) = x"
proof -
  assume x: "x \<noteq> []" "\<forall>c \<in> set x. \<not> is_space c"
  then have "dropWhile is_space (x @ newline) = x @ newline" by (cases x) simp_all
  moreover have "dropWhile is_space (rev x) = rev x" using x hd_in_set [of "rev x"] by (cases "rev x") auto
  ultimately show ?thesis by (simp add: trim_space_def trim_right_by_def newline_def is_space_def)
qed

lemma Verify_sig:
  assumes "key_pair_ok sg key pub"
  shows "Verify sg pub m (Sign sg key text1 @ newline) = None \<longleftrightarrow> sg_verify sg pub m (sg_sign sg key text1)"
proof -
  have len: "length (sg_sign sg key text1) = 64" using assms by (simp add: key_pair_ok_def)
  then have "b64_encode (sg_sign sg key text1) \<noteq> []" using b64_decode_encode [of "sg_sign sg key text1"] by (metis b64_decode_encode b64_encode.simps(1) list.size(3) option.inject zero_neq_numeral)
  then have "trim_space (Sign sg key text1 @ newline) = b64_encode (sg_sign sg key text1)"
    using trim_sig [of "b64_encode (sg_sign sg key text1)"] b64_encode_chars by (auto simp: Sign_def)
  then show ?thesis using len by (simp add: Verify_def)
qed

text \<open>C32: a signed bundle that was written is read back as it was, its digest and its
  signature verify, no other text passes unless it has the same digest or carries a
  signature that verifies, and no other file is touched.\<close>

theorem written_evidence_verifies:
  assumes "key_pair_ok sg key pub" and "\<And>m. sha256 m \<noteq> []"
    and "to_json b = Some text0" and "from_json (text0 @ newline) = Some b" and "eb_Format b = Format"
    and "Write sha256 sg to_json writable fs path b (Some key) = (fs', True)"
  shows "\<exists>digest sig. fs' (path @ ''.sha256'') = Some digest \<and> fs' (path @ ''.sig'') = Some sig
    \<and> Load from_json fs' path = Inr (b, text0 @ newline)
    \<and> (\<forall>m. VerifyDigest sha256 m digest = None \<longleftrightarrow> sha256 m = sha256 (text0 @ newline))
    \<and> (\<forall>m. Verify sg pub m sig = None \<longleftrightarrow> sg_verify sg pub m (sg_sign sg key (text0 @ newline)))
    \<and> Verify sg pub (text0 @ newline) sig = None
    \<and> (\<forall>p. p \<notin> {path, path @ ''.sha256'', path @ ''.sig''} \<longrightarrow> fs' p = fs p)"
proof (intro exI conjI)
  let ?text = "text0 @ newline"
  have fs': "fs' = fs(path \<mapsto> ?text, path @ ''.sha256'' \<mapsto> digest_line sha256 path ?text, path @ ''.sig'' \<mapsto> Sign sg key ?text @ newline)"
    using assms(6) by (auto simp: Write_def Marshal_def assms(3) split: if_splits)
  show "fs' (path @ ''.sha256'') = Some (digest_line sha256 path ?text)" by (simp add: fs')
  show "fs' (path @ ''.sig'') = Some (Sign sg key ?text @ newline)" by (simp add: fs')
  show "Load from_json fs' path = Inr (b, ?text)" using assms(4,5) by (simp add: Load_def fs')
  show "\<forall>m. VerifyDigest sha256 m (digest_line sha256 path ?text) = None \<longleftrightarrow> sha256 m = sha256 ?text"
    using VerifyDigest_line [of sha256, OF assms(2)] by blast
  show sig: "\<forall>m. Verify sg pub m (Sign sg key ?text @ newline) = None \<longleftrightarrow> sg_verify sg pub m (sg_sign sg key ?text)"
    using Verify_sig [OF assms(1)] by blast
  then show "Verify sg pub ?text (Sign sg key ?text @ newline) = None" using assms(1) by (simp add: key_pair_ok_def)
  show "\<forall>p. p \<notin> {path, path @ ''.sha256'', path @ ''.sig''} \<longrightarrow> fs' p = fs p" by (simp add: fs')
qed

definition small_bundle :: Bundle where
  "small_bundle = Build (\<lambda>_. [1]) (\<lambda>_ _. []) ''host'' [] \<lparr>tool_Name = ''tcpcat'', tool_Version = ''1'', tool_Commit = []\<rparr> [] 0"

theorem written_evidence_verifies_witness:
  "\<exists>fs' sig. Write (\<lambda>_. [1]) toy_scheme (\<lambda>_. Some ''{}'') (\<lambda>_. True) Map.empty ''scan.json'' small_bundle (Some (replicate 64 7)) = (fs', True)
     \<and> fs' ''scan.json.sig'' = Some sig \<and> Verify toy_scheme (replicate 32 7) (''{}'' @ newline) sig = None"
proof -
  obtain fs' where w: "Write (\<lambda>_. [1]) toy_scheme (\<lambda>_. Some ''{}'') (\<lambda>_. True) Map.empty ''scan.json'' small_bundle (Some (replicate 64 7)) = (fs', True)"
    by (simp add: Write_def Marshal_def)
  have "eb_Format small_bundle = Format" by (simp add: small_bundle_def Build_def)
  then show ?thesis
    using written_evidence_verifies [OF toy_scheme_ok, of "\<lambda>_. [1]" "\<lambda>_. Some ''{}''" small_bundle "''{}''" "\<lambda>_. Some small_bundle", OF _ _ _ _ w]
    by (auto simp: w)
qed

text \<open>Generating a key pair never overwrites a file.  It may leave a private key without its
  public half: when the public file exists already, the private one has been written.\<close>

theorem keygen_keeps_files:
  "fs p = Some c \<Longrightarrow> fst (GenerateKeyPair writable fs prefix pems) p = Some c"
  by (auto simp: GenerateKeyPair_def writeNew_def Let_def split: option.splits if_splits)

theorem keygen_may_orphan_a_key:
  "GenerateKeyPair (\<lambda>_. True) [''k.pub'' \<mapsto> ''old''] ''k'' (Some (''priv'', ''pub''))
     = ([''k.pub'' \<mapsto> ''old'', ''k.key'' \<mapsto> ''priv''], None)"
  by (simp add: GenerateKeyPair_def writeNew_def)

subsection \<open>What a replay says\<close>

interpretation finding_order: weak_order finding_less
proof
  fix x y z
  show "finding_less x y \<Longrightarrow> \<not> finding_less y x" by (auto simp: finding_less_def split: if_splits)
  show "\<not> finding_less y x \<Longrightarrow> \<not> finding_less z y \<Longrightarrow> \<not> finding_less z x"
    by (auto simp: finding_less_def not_less split: if_splits)
qed

definition expected_verdict :: "ScanRow \<Rightarrow> probe_answer \<Rightarrow> outcome_result" where
  "expected_verdict r answer =
     (case answer of
        ProbeError e \<Rightarrow> Reproduced
      | NotOpen \<Rightarrow> Fixed
      | OpenWith banner \<Rightarrow>
          if res_Banner r \<noteq> [] \<and> banner \<noteq> [] \<and> trimLine banner \<noteq> trimLine (res_Banner r) then Changed else Reproduced)"

text \<open>The banner fits the bundle, is not blank, and the digest tells the banner sent now and
  its trimmed form from it.\<close>

definition comparable :: "(string \<Rightarrow> bytes) \<Rightarrow> ScanRow \<Rightarrow> probe_answer \<Rightarrow> bool" where
  "comparable sha256 r answer \<longleftrightarrow>
     (case answer of
        OpenWith banner \<Rightarrow>
          res_Banner r \<noteq> [] \<longrightarrow>
            length (res_Banner r) \<le> maxBanner \<and> trimLine (res_Banner r) \<noteq> []
            \<and> (\<forall>t \<in> {banner, trimLine banner}. sha256 t = sha256 (res_Banner r) \<longrightarrow> t = res_Banner r)
      | _ \<Rightarrow> True)"

lemma trimLine_idem [simp]: "trimLine (trimLine s) = trimLine s"
  by (simp add: trimLine_def trim_right_by_def)

lemma BannerHash_Nil_iff: "sha256 s \<noteq> [] \<Longrightarrow> BannerHash sha256 s = [] \<longleftrightarrow> s = []"
  by (cases "sha256 s") (auto simp: BannerHash_def)

lemma replay_verdict:
  assumes "\<And>m. sha256 m \<noteq> []" and "comparable sha256 r answer"
  shows "oc_Result (replay_one sha256 (finding_of sha256 src r) answer) = expected_verdict r answer"
proof (cases answer)
  case (OpenWith banner)
  let ?f = "finding_of sha256 src r"
  have "bannerMatches sha256 ?f banner \<longleftrightarrow> trimLine banner = trimLine (res_Banner r)"
    if rec: "res_Banner r \<noteq> []" and ans: "banner \<noteq> []"
  proof -
    have c: "length (res_Banner r) \<le> maxBanner" "trimLine (res_Banner r) \<noteq> []"
        "\<And>t. t \<in> {banner, trimLine banner} \<Longrightarrow> sha256 t = sha256 (res_Banner r) \<Longrightarrow> t = res_Banner r"
      using assms(2) OpenWith rec by (auto simp: comparable_def)
    have h: "BannerHash sha256 t = fi_BannerSHA256 ?f \<longleftrightarrow> sha256 t = sha256 (res_Banner r)" if "t \<noteq> []" for t
      using that rec hex_encode_inj by (simp add: finding_of_def BannerHash_def)
    have b: "fi_Banner ?f = res_Banner r" using c(1) by (simp add: finding_of_def truncate_text_def)
    show ?thesis
    proof
      assume "bannerMatches sha256 ?f banner"
      then consider "sha256 banner = sha256 (res_Banner r)" | "sha256 (trimLine banner) = sha256 (res_Banner r)"
        | "trimLine banner = trimLine (res_Banner r)"
        using h [OF ans] h [of "trimLine banner"] b by (auto simp: bannerMatches_def Let_def)
      then show "trimLine banner = trimLine (res_Banner r)"
      proof cases
        case 2
        then have "trimLine banner = res_Banner r" using c(3) [of "trimLine banner"] by simp
        then show ?thesis by (metis trimLine_idem)
      qed (use c(3) [of banner] in auto)
    next
      assume "trimLine banner = trimLine (res_Banner r)"
      then show "bannerMatches sha256 ?f banner" using b c(2) by (simp add: bannerMatches_def Let_def)
    qed
  qed
  moreover have "fi_BannerSHA256 ?f = [] \<longleftrightarrow> res_Banner r = []"
    using BannerHash_Nil_iff [OF assms(1)] by (simp add: finding_of_def)
  ultimately show ?thesis by (auto simp: replay_one_def expected_verdict_def OpenWith)
qed (simp_all add: replay_one_def expected_verdict_def)

lemma finding_of_address [simp]:
  "fi_IP (finding_of sha256 src r) = res_IP r" "fi_Port (finding_of sha256 src r) = res_Port r"
  by (simp_all add: finding_of_def)

lemma build_findings_open:
  "\<exists>srcs. build_findings sha256 sourceIPFor n sources rs = map2 (\<lambda>src r. finding_of sha256 src r) srcs (filter (\<lambda>r. res_State r = StateOpen) rs)
     \<and> length srcs = length (filter (\<lambda>r. res_State r = StateOpen) rs)"
proof (induction rs arbitrary: n sources)
  case (Cons r rs)
  show ?case
  proof (cases "res_State r = StateOpen")
    case True
    show ?thesis
    proof (cases "sources (res_IP r)")
      case None
      obtain srcs where "build_findings sha256 sourceIPFor (Suc n) (sources(res_IP r \<mapsto> sourceIPFor n (res_IP r))) rs
            = map2 (\<lambda>src r. finding_of sha256 src r) srcs (filter (\<lambda>r. res_State r = StateOpen) rs)
          \<and> length srcs = length (filter (\<lambda>r. res_State r = StateOpen) rs)" using Cons by blast
      then show ?thesis using True None by (intro exI [of _ "sourceIPFor n (res_IP r) # srcs"]) simp
    next
      case (Some src)
      obtain srcs where "build_findings sha256 sourceIPFor n sources rs
            = map2 (\<lambda>src r. finding_of sha256 src r) srcs (filter (\<lambda>r. res_State r = StateOpen) rs)
          \<and> length srcs = length (filter (\<lambda>r. res_State r = StateOpen) rs)" using Cons by blast
      then show ?thesis using True Some by (intro exI [of _ "src # srcs"]) simp
    qed
  qed (use Cons in simp)
qed simp

lemma map2_verdicts:
  assumes "length srcs = length rs" and "\<And>r src. r \<in> set rs \<Longrightarrow> g (f src r) = h r"
  shows "map g (map2 f srcs rs) = map h rs"
  using assms by (induction srcs rs rule: list_induct2) simp_all

text \<open>Replaying the bundle of a scan gives one verdict for every open port of the scan, in
  the order of their addresses: fixed when the port no longer accepts connections,
  changed exactly when a service that sent a banner then sends a different first line
  now, up to the white space at its end, and reproduced otherwise.\<close>

theorem replay_tells_what_changed:
  assumes "\<And>m. sha256 m \<noteq> []"
    and "\<forall>r \<in> set results. res_State r = StateOpen \<longrightarrow> comparable sha256 r (probe (res_IP r) (res_Port r))"
  shows "mset (map (\<lambda>x. (fi_IP (oc_Finding x), fi_Port (oc_Finding x), oc_Result x))
        (Replay sha256 (eb_Findings (Build sha256 sourceIPFor host results tool args now)) probe))
      = image_mset (\<lambda>r. (res_IP r, res_Port r, expected_verdict r (probe (res_IP r) (res_Port r))))
          (filter_mset (\<lambda>r. res_State r = StateOpen) (mset results))
    \<and> sorted_wrt (\<lambda>x y. \<not> finding_less (oc_Finding y) (oc_Finding x))
        (Replay sha256 (eb_Findings (Build sha256 sourceIPFor host results tool args now)) probe)"
proof
  let ?fs = "build_findings sha256 sourceIPFor 0 Map.empty results"
  let ?open = "filter (\<lambda>r. res_State r = StateOpen) results"
  let ?v = "\<lambda>f. (fi_IP f, fi_Port f, oc_Result (replay_one sha256 f (probe (fi_IP f) (fi_Port f))))"
  have fi [simp]: "oc_Finding (replay_one sha256 f a) = f" for f a
    by (simp add: replay_one_def split: probe_answer.splits)
  obtain srcs where s: "?fs = map2 (\<lambda>src r. finding_of sha256 src r) srcs ?open" "length srcs = length ?open"
    using build_findings_open by blast
  have "map ?v ?fs = map (\<lambda>r. (res_IP r, res_Port r, expected_verdict r (probe (res_IP r) (res_Port r)))) ?open"
    unfolding s(1)
  proof (rule map2_verdicts [OF s(2)])
    fix r src
    assume "r \<in> set ?open"
    then have "comparable sha256 r (probe (res_IP r) (res_Port r))" using assms(2) by simp
    from replay_verdict [of sha256, OF assms(1) this]
    show "?v (finding_of sha256 src r) = (res_IP r, res_Port r, expected_verdict r (probe (res_IP r) (res_Port r)))"
      by (simp only: finding_of_address)
  qed
  from arg_cong [OF this, of mset]
  have "image_mset ?v (mset ?fs) = image_mset (\<lambda>r. (res_IP r, res_Port r, expected_verdict r (probe (res_IP r) (res_Port r)))) (mset ?open)"
    by (simp only: mset_map)
  then show "mset (map (\<lambda>x. (fi_IP (oc_Finding x), fi_Port (oc_Finding x), oc_Result x))
        (Replay sha256 (eb_Findings (Build sha256 sourceIPFor host results tool args now)) probe))
      = image_mset (\<lambda>r. (res_IP r, res_Port r, expected_verdict r (probe (res_IP r) (res_Port r))))
          (filter_mset (\<lambda>r. res_State r = StateOpen) (mset results))"
    by (simp add: Replay_def Build_def multiset.map_comp comp_def mset_filter)
  show "sorted_wrt (\<lambda>x y. \<not> finding_less (oc_Finding y) (oc_Finding x))
        (Replay sha256 (eb_Findings (Build sha256 sourceIPFor host results tool args now)) probe)"
    using finding_order.ordered_sort [of ?fs] by (simp add: Replay_def Build_def sorted_wrt_map)
qed

lemma mset_single_list: "mset xs = mset [x] \<Longrightarrow> xs = [x]"
  by (cases xs) auto

definition ssh_row :: ScanRow where
  "ssh_row = TargetResult.extend (new_result ''10.0.0.1'' 22\<lparr>res_State := StateOpen, res_Banner := ''SSH-2.0-x''\<rparr>)
     (ScanRow.fields 0 None [])"

theorem replay_tells_what_changed_witness:
  "map oc_Result (Replay (\<lambda>m. 0 # map (of_nat \<circ> of_char) m)
       (eb_Findings (Build (\<lambda>m. 0 # map (of_nat \<circ> of_char) m) (\<lambda>_ _. []) [] [ssh_row] tool [] 0))
       (\<lambda>_ _. OpenWith (''SSH-2.0-x'' @ newline))) = [Reproduced]"
proof -
  let ?sha = "\<lambda>m. 0 # map (of_nat \<circ> of_char) m :: bytes"
  let ?b = "''SSH-2.0-x'' @ newline"
  have r: "res_State ssh_row = StateOpen" "res_Banner ssh_row = ''SSH-2.0-x''"
    by (simp_all add: ssh_row_def TargetResult.defs ScanRow.defs new_result_def)
  have t: "trimLine ?b = ''SSH-2.0-x''" "trimLine ''SSH-2.0-x'' = ''SSH-2.0-x''" by code_simp+
  have sha: "?sha ?b \<noteq> ?sha ''SSH-2.0-x''" by (simp add: newline_def)
  have c: "comparable ?sha ssh_row (OpenWith ?b)" using sha t [simplified] by (simp add: comparable_def r maxBanner_def)
  have v: "expected_verdict ssh_row (OpenWith ?b) = Reproduced" using t [simplified] by (simp add: expected_verdict_def r)
  let ?out = "Replay ?sha (eb_Findings (Build ?sha (\<lambda>_ _. []) [] [ssh_row] tool [] 0)) (\<lambda>_ _. OpenWith ?b)"
  have "mset (map (\<lambda>x. (fi_IP (oc_Finding x), fi_Port (oc_Finding x), oc_Result x)) ?out)
      = mset [(res_IP ssh_row, res_Port ssh_row, Reproduced)]"
    using replay_tells_what_changed [of ?sha "[ssh_row]" "\<lambda>_ _. OpenWith ?b", OF _ _] c r(1) v by simp
  then have "map (\<lambda>x. (fi_IP (oc_Finding x), fi_Port (oc_Finding x), oc_Result x)) ?out = [(res_IP ssh_row, res_Port ssh_row, Reproduced)]"
    by (rule mset_single_list)
  from arg_cong [OF this, of "map (\<lambda>(a, b, c). c)"] show ?thesis by (simp add: comp_def)
qed

end
