(* ===== verification/Baseline.thy ===== *)
theory Baseline
  imports Results
begin

text \<open>
  \<open>internal/compare\<close> and \<open>internal/notify\<close>: what is new in a scan with respect to a
  recorded one, and the text and payload of the alert about it.  The JSON encodings, the
  parser of the webhook's URL and the HTTP exchange are arguments or left out.
\<close>

subsection \<open>The comparison\<close>

record PortChange =
  pc_IP :: string
  pc_Port :: int

record ServiceChange =
  sc_IP :: string
  sc_Port :: int
  sc_OldService :: string
  sc_OldVersion :: string
  sc_NewService :: string
  sc_NewVersion :: string

record VulnerabilityChange =
  vc_IP :: string
  vc_Port :: int
  vc_NewVulnerability :: string

record compare_report =
  cmp_NewOpenPorts :: "PortChange list"
  cmp_ServiceChanges :: "ServiceChange list"
  cmp_NewVulnerabilities :: "VulnerabilityChange list"

definition addressKey :: "TargetResult \<Rightarrow> string" where
  "addressKey r = res_IP r @ '':'' @ itoa (res_Port r)"

definition baseline_by_address :: "TargetResult list \<Rightarrow> string \<rightharpoonup> TargetResult" where
  "baseline_by_address baseline = fold (\<lambda>r m. m(addressKey r \<mapsto> r)) baseline Map.empty"

text \<open>The changes one result of the current scan adds; \<open>previous\<close> is the zero value when the
  address was not in the baseline.\<close>

definition new_open_port :: "TargetResult option \<Rightarrow> TargetResult \<Rightarrow> PortChange list" where
  "new_open_port found r =
     (if res_State r = StateOpen \<and> (case found of None \<Rightarrow> True | Some previous \<Rightarrow> res_State previous \<noteq> StateOpen)
      then [\<lparr>pc_IP = res_IP r, pc_Port = res_Port r\<rparr>] else [])"

definition service_change :: "TargetResult option \<Rightarrow> TargetResult \<Rightarrow> ServiceChange list" where
  "service_change found r =
     (case found of
        None \<Rightarrow> []
      | Some previous \<Rightarrow>
          if res_State previous = StateOpen \<and> res_State r = StateOpen
             \<and> (res_Service previous \<noteq> res_Service r \<or> res_Version previous \<noteq> res_Version r)
          then [\<lparr>sc_IP = res_IP r, sc_Port = res_Port r, sc_OldService = res_Service previous,
                 sc_OldVersion = res_Version previous, sc_NewService = res_Service r, sc_NewVersion = res_Version r\<rparr>]
          else [])"

definition vulnerability_IDs :: "TargetResult \<Rightarrow> string list" where
  "vulnerability_IDs r = map vuln_ID (res_Vulnerabilities r)"

definition new_vulnerabilities :: "TargetResult option \<Rightarrow> TargetResult \<Rightarrow> VulnerabilityChange list" where
  "new_vulnerabilities found r =
     (let old = (case found of None \<Rightarrow> {} | Some previous \<Rightarrow> set (vulnerability_IDs previous))
      in map (\<lambda>v. \<lparr>vc_IP = res_IP r, vc_Port = res_Port r, vc_NewVulnerability = v\<rparr>)
           (filter (\<lambda>v. v \<notin> old) (vulnerability_IDs r)))"

definition Compare :: "TargetResult list \<Rightarrow> TargetResult list \<Rightarrow> compare_report" where
  "Compare current baseline =
     (let found = (\<lambda>r. baseline_by_address baseline (addressKey r))
      in \<lparr>cmp_NewOpenPorts = concat (map (\<lambda>r. new_open_port (found r) r) current),
          cmp_ServiceChanges = concat (map (\<lambda>r. service_change (found r) r) current),
          cmp_NewVulnerabilities = concat (map (\<lambda>r. new_vulnerabilities (found r) r) current)\<rparr>)"

subsection \<open>The alert\<close>

definition maxLines :: nat where "maxLines = 20"
definition discordContentLimit :: nat where "discordContentLimit = 2000"

definition HasChanges :: "compare_report \<Rightarrow> bool" where
  "HasChanges r \<longleftrightarrow> cmp_NewOpenPorts r \<noteq> [] \<or> cmp_ServiceChanges r \<noteq> [] \<or> cmp_NewVulnerabilities r \<noteq> []"

definition bullet :: string where "bullet = [CHR 0xE2, CHR 0x80, CHR 0xA2, CHR '' '']"
definition arrow :: string where "arrow = [CHR '' '', CHR 0xE2, CHR 0x86, CHR 0x92, CHR '' '']"
definition dots :: string where "dots = [CHR 0xE2, CHR 0x80, CHR 0xA6]"
definition line_feed :: string where "line_feed = [CHR 0x0A]"

definition describe :: "string \<Rightarrow> string \<Rightarrow> string" where
  "describe service version =
     (let s = (if service = [] then ''unknown'' else service)
      in if version = [] then s else s @ '' '' @ version)"

definition endpoint_text :: "string \<Rightarrow> int \<Rightarrow> string" where
  "endpoint_text ip port = ip @ '':'' @ itoa port"

definition change_lines :: "compare_report \<Rightarrow> string list" where
  "change_lines r =
     map (\<lambda>p. bullet @ ''New open port: '' @ endpoint_text (pc_IP p) (pc_Port p)) (cmp_NewOpenPorts r)
     @ map (\<lambda>s. bullet @ ''Service changed on '' @ endpoint_text (sc_IP s) (sc_Port s) @ '': ''
                 @ describe (sc_OldService s) (sc_OldVersion s) @ arrow @ describe (sc_NewService s) (sc_NewVersion s))
         (cmp_ServiceChanges r)
     @ map (\<lambda>v. bullet @ ''New CVE on '' @ endpoint_text (vc_IP v) (vc_Port v) @ '': '' @ vc_NewVulnerability v)
         (cmp_NewVulnerabilities r)"

definition capped_lines :: "string list \<Rightarrow> string list" where
  "capped_lines lines =
     (if length lines > maxLines
      then take maxLines lines @ [dots @ '' and '' @ itoa (int (length lines - maxLines)) @ '' more'']
      else lines)"

definition FormatText :: "string \<Rightarrow> compare_report \<Rightarrow> string" where
  "FormatText target r =
     (let total = length (cmp_NewOpenPorts r) + length (cmp_ServiceChanges r) + length (cmp_NewVulnerabilities r)
      in ''tcpcat: '' @ itoa (int total) @ '' change(s) detected on '' @ target @ line_feed
         @ join_str line_feed (capped_lines (change_lines r)))"

datatype payload = Discord string | Slack string | Generic string string compare_report

text \<open>The URL has been parsed to its host and its host name, \<open>None\<close> when it is malformed.\<close>

definition buildPayload :: "(string \<times> string) option \<Rightarrow> string \<Rightarrow> compare_report \<Rightarrow> payload option" where
  "buildPayload url target r =
     (case url of
        None \<Rightarrow> None
      | Some (urlHost, hostname) \<Rightarrow>
          if urlHost = [] then None
          else
            (let text1 = FormatText target r; host = to_lower hostname in
             Some
               (if host = ''discord.com'' \<or> host = ''discordapp.com''
                   \<or> has_suffix host ''.discord.com'' \<or> has_suffix host ''.discordapp.com''
                then Discord (if length text1 > discordContentLimit
                              then take (discordContentLimit - 4) text1 @ line_feed @ dots else text1)
                else if host = ''hooks.slack.com'' then Slack text1
                else Generic text1 target r)))"

text \<open>The reply of the webhook decides: no reply is an error, and so is any status that is
  not 2xx.\<close>

definition SendAlert :: "(string \<times> string) option \<Rightarrow> string \<Rightarrow> compare_report \<Rightarrow> (payload \<Rightarrow> int option) \<Rightarrow> bool" where
  "SendAlert url target r post =
     (case buildPayload url target r of
        None \<Rightarrow> False
      | Some body \<Rightarrow> (case post body of None \<Rightarrow> False | Some status \<Rightarrow> 200 \<le> status \<and> status \<le> 299))"

subsection \<open>What the comparison says\<close>

lemma addressKey_inj: "addressKey a = addressKey b \<longleftrightarrow> res_key a = res_key b"
proof
  assume "addressKey a = addressKey b"
  then show "res_key a = res_key b"
    using text_number_inj [of "CHR '':''" "res_IP a" "res_Port a" "res_IP b" "res_Port b"]
    by (simp add: addressKey_def res_key_def is_digit_def)
qed (simp add: addressKey_def res_key_def)

lemma fold_update_other: "k \<notin> f ` set rs \<Longrightarrow> fold (\<lambda>r m. m(f r \<mapsto> r)) rs m k = m k"
  by (induction rs arbitrary: m) auto

lemma fold_update_distinct:
  "distinct (map f rs) \<Longrightarrow> fold (\<lambda>r m. m(f r \<mapsto> r)) rs m k = Some b \<longleftrightarrow>
     (b \<in> set rs \<and> f b = k) \<or> (k \<notin> f ` set rs \<and> m k = Some b)"
proof (induction rs arbitrary: m)
  case (Cons r rs)
  show ?case
  proof (cases "k = f r")
    case True
    then have "k \<notin> f ` set rs" using Cons.prems by simp
    then have "fold (\<lambda>r m. m(f r \<mapsto> r)) (r # rs) m k = Some r"
      using fold_update_other [of k f rs "m(f r \<mapsto> r)"] True by (simp only: fold_simps comp_apply) simp
    then have "fold (\<lambda>r m. m(f r \<mapsto> r)) (r # rs) m k = Some b \<longleftrightarrow> b = r" by (metis option.inject)
    moreover have "(b \<in> set (r # rs) \<and> f b = k \<or> k \<notin> f ` set (r # rs) \<and> m k = Some b) \<longleftrightarrow> b = r"
      using True Cons.prems by (auto simp: image_iff)
    ultimately show ?thesis by (rule trans [OF _ sym])
  qed (use Cons in auto)
qed simp

lemma baseline_lookup:
  assumes "distinct (map res_key baseline)"
  shows "baseline_by_address baseline (addressKey r) = Some b \<longleftrightarrow> b \<in> set baseline \<and> res_key b = res_key r"
proof -
  have "distinct (map addressKey baseline)"
    using assms unfolding distinct_map inj_on_def addressKey_inj by blast
  then show ?thesis using addressKey_inj by (simp add: baseline_by_address_def fold_update_distinct)
qed

lemma baseline_lookup_None:
  assumes "distinct (map res_key baseline)"
  shows "baseline_by_address baseline (addressKey r) = None \<longleftrightarrow> res_key r \<notin> res_key ` set baseline"
  using baseline_lookup [OF assms, of r] by (metis (no_types, lifting) image_iff not_None_eq option.exhaust)

definition open_at :: "TargetResult list \<Rightarrow> string \<times> int \<Rightarrow> TargetResult \<Rightarrow> bool" where
  "open_at rs e r \<longleftrightarrow> r \<in> set rs \<and> res_key r = e \<and> res_State r = StateOpen"

lemma new_open_ports_iff:
  assumes "distinct (map res_key baseline)"
  shows "\<lparr>pc_IP = ip, pc_Port = port\<rparr> \<in> set (cmp_NewOpenPorts (Compare current baseline))
    \<longleftrightarrow> (\<exists>r. open_at current (ip, port) r) \<and> (\<nexists>b. open_at baseline (ip, port) b)"
proof -
  have one: "p \<in> set (new_open_port (baseline_by_address baseline (addressKey r)) r)
      \<longleftrightarrow> res_State r = StateOpen \<and> (\<nexists>b. open_at baseline (res_key r) b) \<and> p = \<lparr>pc_IP = res_IP r, pc_Port = res_Port r\<rparr>" for p r
  proof (cases "baseline_by_address baseline (addressKey r)")
    case None
    then have "\<nexists>b. open_at baseline (res_key r) b"
      using baseline_lookup_None [OF assms] by (auto simp: open_at_def image_iff)
    then show ?thesis by (auto simp: new_open_port_def None)
  next
    case (Some b)
    then have b: "b \<in> set baseline" "res_key b = res_key r" using baseline_lookup [OF assms] by auto
    have "b' = b" if "open_at baseline (res_key r) b'" for b'
      using that b assms by (metis distinct_map inj_on_def open_at_def)
    then have "(\<exists>b. open_at baseline (res_key r) b) \<longleftrightarrow> res_State b = StateOpen"
      using b by (metis open_at_def)
    then show ?thesis by (auto simp: new_open_port_def Some)
  qed
  show ?thesis by (auto simp: Compare_def one open_at_def res_key_def)
qed

lemma service_changes_iff:
  assumes "distinct (map res_key baseline)"
  shows "c \<in> set (cmp_ServiceChanges (Compare current baseline)) \<longleftrightarrow>
    (\<exists>r b. open_at current (sc_IP c, sc_Port c) r \<and> open_at baseline (sc_IP c, sc_Port c) b
       \<and> (sc_OldService c, sc_OldVersion c) = (res_Service b, res_Version b)
       \<and> (sc_NewService c, sc_NewVersion c) = (res_Service r, res_Version r)
       \<and> (sc_OldService c, sc_OldVersion c) \<noteq> (sc_NewService c, sc_NewVersion c))"
proof -
  have "c \<in> set (service_change (baseline_by_address baseline (addressKey r)) r) \<longleftrightarrow>
      res_key r = (sc_IP c, sc_Port c) \<and> res_State r = StateOpen
      \<and> (\<exists>b. open_at baseline (sc_IP c, sc_Port c) b
         \<and> (sc_OldService c, sc_OldVersion c) = (res_Service b, res_Version b)
         \<and> (sc_NewService c, sc_NewVersion c) = (res_Service r, res_Version r)
         \<and> (sc_OldService c, sc_OldVersion c) \<noteq> (sc_NewService c, sc_NewVersion c))" for r
  proof (cases "baseline_by_address baseline (addressKey r)")
    case None
    then have "\<nexists>b. open_at baseline (res_key r) b"
      using baseline_lookup_None [OF assms] by (auto simp: open_at_def image_iff)
    then show ?thesis by (auto simp: service_change_def None)
  next
    case (Some b)
    then have b: "b \<in> set baseline" "res_key b = res_key r" using baseline_lookup [OF assms] by auto
    have "open_at baseline (res_key r) b' \<longleftrightarrow> b' = b \<and> res_State b = StateOpen" for b'
      using b assms by (metis distinct_map inj_on_def open_at_def)
    then show ?thesis by (cases c) (auto simp: service_change_def Some res_key_def)
  qed
  then show ?thesis by (auto simp: Compare_def open_at_def [of current])
qed

lemma new_vulnerabilities_iff:
  assumes "distinct (map res_key baseline)"
  shows "v \<in> set (cmp_NewVulnerabilities (Compare current baseline)) \<longleftrightarrow>
    (\<exists>r \<in> set current. res_key r = (vc_IP v, vc_Port v) \<and> vc_NewVulnerability v \<in> set (vulnerability_IDs r))
    \<and> (\<nexists>b. b \<in> set baseline \<and> res_key b = (vc_IP v, vc_Port v) \<and> vc_NewVulnerability v \<in> set (vulnerability_IDs b))"
proof -
  have "v \<in> set (new_vulnerabilities (baseline_by_address baseline (addressKey r)) r) \<longleftrightarrow>
      res_key r = (vc_IP v, vc_Port v) \<and> vc_NewVulnerability v \<in> set (vulnerability_IDs r)
      \<and> (\<nexists>b. b \<in> set baseline \<and> res_key b = res_key r \<and> vc_NewVulnerability v \<in> set (vulnerability_IDs b))" for r
  proof (cases "baseline_by_address baseline (addressKey r)")
    case None
    then have "\<nexists>b. b \<in> set baseline \<and> res_key b = res_key r" using baseline_lookup_None [OF assms] by (metis image_eqI)
    then show ?thesis by (cases v) (auto simp: new_vulnerabilities_def None res_key_def)
  next
    case (Some b)
    then have b: "b \<in> set baseline" "res_key b = res_key r" using baseline_lookup [OF assms] by auto
    have "b' \<in> set baseline \<and> res_key b' = res_key r \<longleftrightarrow> b' = b" for b'
      using b assms by (metis distinct_map inj_on_def)
    then have "(\<exists>b'. b' \<in> set baseline \<and> res_key b' = res_key r \<and> vc_NewVulnerability v \<in> set (vulnerability_IDs b'))
        \<longleftrightarrow> vc_NewVulnerability v \<in> set (vulnerability_IDs b)" by metis
    then show ?thesis by (cases v) (auto simp: new_vulnerabilities_def Some res_key_def)
  qed
  then show ?thesis by (auto simp: Compare_def)
qed

text \<open>Against a baseline with one result per address, the comparison reports exactly the
  ports that are open now and were not, the services of ports open both times that answer
  differently, and the vulnerabilities no earlier result of the address has; a scan
  compared with itself raises no alert.\<close>

theorem comparison_is_the_difference:
  assumes "distinct (map res_key baseline)"
  shows "(\<lparr>pc_IP = ip, pc_Port = port\<rparr> \<in> set (cmp_NewOpenPorts (Compare current baseline))
        \<longleftrightarrow> (\<exists>r. open_at current (ip, port) r) \<and> (\<nexists>b. open_at baseline (ip, port) b))
    \<and> (c \<in> set (cmp_ServiceChanges (Compare current baseline)) \<longleftrightarrow>
        (\<exists>r b. open_at current (sc_IP c, sc_Port c) r \<and> open_at baseline (sc_IP c, sc_Port c) b
           \<and> (sc_OldService c, sc_OldVersion c) = (res_Service b, res_Version b)
           \<and> (sc_NewService c, sc_NewVersion c) = (res_Service r, res_Version r)
           \<and> (sc_OldService c, sc_OldVersion c) \<noteq> (sc_NewService c, sc_NewVersion c)))
    \<and> (v \<in> set (cmp_NewVulnerabilities (Compare current baseline)) \<longleftrightarrow>
        (\<exists>r \<in> set current. res_key r = (vc_IP v, vc_Port v) \<and> vc_NewVulnerability v \<in> set (vulnerability_IDs r))
        \<and> (\<nexists>b. b \<in> set baseline \<and> res_key b = (vc_IP v, vc_Port v) \<and> vc_NewVulnerability v \<in> set (vulnerability_IDs b)))
    \<and> \<not> HasChanges (Compare baseline baseline)"
proof (intro conjI)
  show "\<not> HasChanges (Compare baseline baseline)"
  proof -
    have "p \<notin> set (cmp_NewOpenPorts (Compare baseline baseline))" for p
    proof -
      obtain ip port where "p = \<lparr>pc_IP = ip, pc_Port = port\<rparr>" by (cases p)
      then show ?thesis using new_open_ports_iff [OF assms, of ip port baseline] by blast
    qed
    moreover have "s \<notin> set (cmp_ServiceChanges (Compare baseline baseline))" for s
    proof -
      have "r = b" if "open_at baseline e r" "open_at baseline e b" for e r b
        using that assms by (metis distinct_map inj_on_def open_at_def)
      then show ?thesis unfolding service_changes_iff [OF assms] by metis
    qed
    moreover have "x \<notin> set (cmp_NewVulnerabilities (Compare baseline baseline))" for x
      unfolding new_vulnerabilities_iff [OF assms] by blast
    ultimately show ?thesis by (simp add: HasChanges_def) (metis list.set_intros(1) neq_Nil_conv)
  qed
qed (rule new_open_ports_iff [OF assms] service_changes_iff [OF assms] new_vulnerabilities_iff [OF assms])+

theorem comparison_is_the_difference_witness:
  "\<lparr>pc_IP = ''10.0.0.1'', pc_Port = 23\<rparr> \<in> set (cmp_NewOpenPorts
     (Compare [new_result ''10.0.0.1'' 22\<lparr>res_State := StateOpen\<rparr>, new_result ''10.0.0.1'' 23\<lparr>res_State := StateOpen\<rparr>]
              [new_result ''10.0.0.1'' 22\<lparr>res_State := StateOpen\<rparr>, new_result ''10.0.0.1'' 23\<lparr>res_State := StateClosed\<rparr>]))"
proof -
  let ?r = "\<lambda>p s. new_result ''10.0.0.1'' p\<lparr>res_State := s\<rparr>"
  have d: "distinct (map res_key [?r 22 StateOpen, ?r 23 StateClosed])" by (simp add: res_key_def)
  have "open_at [?r 22 StateOpen, ?r 23 StateOpen] (''10.0.0.1'', 23) (?r 23 StateOpen)"
      "\<nexists>b. open_at [?r 22 StateOpen, ?r 23 StateClosed] (''10.0.0.1'', 23) b"
    by (auto simp: open_at_def res_key_def state_defs)
  then show ?thesis using comparison_is_the_difference [OF d] by blast
qed

subsection \<open>The alert is bounded\<close>

lemma length_capped_lines: "length (capped_lines ls) \<le> Suc maxLines"
  by (simp add: capped_lines_def)

lemma change_lines_empty: "change_lines r = [] \<longleftrightarrow> \<not> HasChanges r"
  by (auto simp: change_lines_def HasChanges_def)

text \<open>An alert has at most 21 lines after its title and names every change when there are
  at most 20; what is sent to Discord never exceeds its limit of 2000 bytes and agrees
  with the full text on its first 1996.\<close>

theorem alert_is_bounded:
  "length (capped_lines (change_lines r)) \<le> 21
   \<and> (length (change_lines r) \<le> 20 \<longrightarrow> capped_lines (change_lines r) = change_lines r)
   \<and> (\<forall>t. buildPayload url target r = Some (Discord t) \<longrightarrow>
        length t \<le> 2000 \<and> take 1996 t = take 1996 (FormatText target r))"
proof (intro conjI allI impI)
  show "length (capped_lines (change_lines r)) \<le> 21"
    using length_capped_lines [of "change_lines r"] by (simp add: maxLines_def)
  show "capped_lines (change_lines r) = change_lines r" if "length (change_lines r) \<le> 20"
    using that by (simp add: capped_lines_def maxLines_def)
  fix t
  assume "buildPayload url target r = Some (Discord t)"
  then have t: "t = (if length (FormatText target r) > discordContentLimit
      then take (discordContentLimit - 4) (FormatText target r) @ line_feed @ dots else FormatText target r)"
    by (auto simp: buildPayload_def Let_def split: option.splits if_splits)
  show "length t \<le> 2000" by (simp add: t discordContentLimit_def line_feed_def dots_def)
  show "take 1996 t = take 1996 (FormatText target r)" by (simp add: t discordContentLimit_def)
qed

theorem alert_is_bounded_witness:
  "\<exists>t. buildPayload (Some (''discord.com'', ''discord.com'')) (replicate 3000 CHR ''a'')
      \<lparr>cmp_NewOpenPorts = [], cmp_ServiceChanges = [], cmp_NewVulnerabilities = []\<rparr> = Some (Discord t) \<and> length t \<le> 2000"
proof -
  let ?r = "\<lparr>cmp_NewOpenPorts = [], cmp_ServiceChanges = [], cmp_NewVulnerabilities = []\<rparr> :: compare_report"
  obtain t where t: "buildPayload (Some (''discord.com'', ''discord.com'')) (replicate 3000 CHR ''a'') ?r = Some (Discord t)"
    by (simp add: buildPayload_def Let_def to_lower_def lower_char_def)
  then show ?thesis using alert_is_bounded [of ?r "Some (''discord.com'', ''discord.com'')"] by blast
qed

end
