(* ===== verification/SshPosture.thy ===== *)
theory SshPosture
  imports Endian
begin

text \<open>
  \<open>internal/service/ssh_posture.go\<close>: reading the algorithms an SSH server offers from its
  first packet and naming the weak ones.  Slices that may be out of bounds are checked
  reads, so a panic is a value; the stream is the bytes the server sends before it stops.
\<close>

record SSHPostureInfo =
  sp_ProtocolVersion :: string
  sp_KexAlgorithms :: "string list"
  sp_HostKeyAlgorithms :: "string list"
  sp_Ciphers :: "string list"
  sp_MACs :: "string list"
  sp_Warnings :: "string list"

definition sshMsgKexInit :: byte where "sshMsgKexInit = 20"
definition sshMaxPacket :: nat where "sshMaxPacket = 35000"

definition sshProtocolVersion :: "string \<Rightarrow> string" where
  "sshProtocolVersion ident = takeWhile (\<lambda>c. c \<noteq> CHR ''-'') (trim_prefix ident ''SSH-'')"

subsection \<open>The packet\<close>

text \<open>\<open>Some None\<close> is a packet that is refused.\<close>

definition readSSHPacket :: "bytes \<Rightarrow> bytes option option" where
  "readSSHPacket br =
     (if length br < 4 then Some None
      else
        (let packetLen = unat (get32 (take 4 br)) in
         if packetLen < 2 \<or> packetLen > sshMaxPacket then Some None
         else if length (drop 4 br) < packetLen then Some None
         else
           (let body = take packetLen (drop 4 br) in
            case get_at body 0 of
              None \<Rightarrow> None
            | Some pad \<Rightarrow>
                if unat pad + 1 > length body then Some None
                else map_option Some (slice body 1 (length body - unat pad)))))"

record cursor =
  cu_buf :: bytes
  cu_pos :: nat

definition skip :: "nat \<Rightarrow> cursor \<Rightarrow> cursor" where
  "skip n c = c\<lparr>cu_pos := cu_pos c + n\<rparr>"

text \<open>A name-list: \<open>None\<close> inside is the \<open>false\<close> of the code; the position has moved past the
  length field by then.\<close>

definition nameList :: "cursor \<Rightarrow> (string list option \<times> cursor) option" where
  "nameList c =
     (if cu_pos c + 4 > length (cu_buf c) then Some (None, c)
      else
        (case slice (cu_buf c) (cu_pos c) (cu_pos c + 4) of
           None \<Rightarrow> None
         | Some lenField \<Rightarrow>
             (let n = unat (get32 lenField); c1 = c\<lparr>cu_pos := cu_pos c + 4\<rparr> in
              if cu_pos c1 + n > length (cu_buf c1) then Some (None, c1)
              else
                (case slice (cu_buf c1) (cu_pos c1) (cu_pos c1 + n) of
                   None \<Rightarrow> None
                 | Some s \<Rightarrow>
                     Some (Some (if s = [] then [] else split_on (CHR '','') (text_of s)),
                           c1\<lparr>cu_pos := cu_pos c1 + n\<rparr>)))))"

text \<open>Name-lists in sequence; after a failed one the code reads on from where it stands.\<close>

fun nameLists :: "nat \<Rightarrow> cursor \<Rightarrow> string list option list option" where
  "nameLists 0 c = Some []"
| "nameLists (Suc n) c =
     (case nameList c of
        None \<Rightarrow> None
      | Some (l, c1) \<Rightarrow> map_option (Cons l) (nameLists n c1))"

definition parseKexInit :: "bytes \<Rightarrow> SSHPostureInfo \<Rightarrow> SSHPostureInfo option" where
  "parseKexInit payload info =
     (case nameLists 6 (skip (1 + 16) \<lparr>cu_buf = payload, cu_pos = 0\<rparr>) of
        None \<Rightarrow> None
      | Some ls \<Rightarrow>
          (case ls of
             [Some kex, Some hostKey, Some encC2S, Some encS2C, Some macC2S, Some macS2C] \<Rightarrow>
               Some (info\<lparr>sp_KexAlgorithms := kex, sp_HostKeyAlgorithms := hostKey, sp_Ciphers := encS2C, sp_MACs := macS2C\<rparr>)
           | _ \<Rightarrow> Some info))"

subsection \<open>Weak algorithms\<close>

definition base_name :: "string \<Rightarrow> string" where
  "base_name name = takeWhile (\<lambda>c. c \<noteq> CHR ''@'') name"

definition weakSSHKex :: "string \<Rightarrow> bool" where
  "weakSSHKex name =
     (let n = base_name name in
      has_suffix n ''sha1'' \<or> contains_str n ''group1-'' \<or> has_prefix n ''rsa1024'' \<or> has_prefix n ''gss-group1'')"

definition weakSSHHostKey :: "string \<Rightarrow> bool" where
  "weakSSHHostKey name =
     (let n = base_name name in
      n = ''ssh-rsa'' \<or> n = ''ssh-dss'' \<or> has_suffix n ''-sha1'' \<or> contains_str n ''sign-dss'')"

definition weakSSHCipher :: "string \<Rightarrow> bool" where
  "weakSSHCipher name =
     (let n = base_name name in
      has_suffix n ''-cbc'' \<or> has_prefix n ''arcfour'' \<or> has_prefix n ''3des'' \<or> has_prefix n ''des-''
      \<or> has_prefix n ''blowfish'' \<or> has_prefix n ''cast128'' \<or> has_prefix n ''rijndael'' \<or> n = ''none'')"

definition weakSSHMAC :: "string \<Rightarrow> bool" where
  "weakSSHMAC name =
     (let n = base_name name in
      has_prefix n ''hmac-md5'' \<or> has_prefix n ''hmac-sha1'' \<or> has_prefix n ''umac-64'' \<or> has_suffix n ''-96'' \<or> n = ''none'')"

definition weakOf :: "string list \<Rightarrow> (string \<Rightarrow> bool) \<Rightarrow> string list" where
  "weakOf names isWeak = filter isWeak names"

definition weak_warning :: "string \<Rightarrow> string list \<Rightarrow> string list" where
  "weak_warning label w = (if w = [] then [] else [label @ '' offered: '' @ join_str '', '' w])"

definition analyzeSSHPosture :: "SSHPostureInfo \<Rightarrow> SSHPostureInfo" where
  "analyzeSSHPosture info =
     info\<lparr>sp_Warnings := sp_Warnings info
        @ weak_warning ''weak key exchange'' (weakOf (sp_KexAlgorithms info) weakSSHKex)
        @ weak_warning ''weak host-key algorithm'' (weakOf (sp_HostKeyAlgorithms info) weakSSHHostKey)
        @ weak_warning ''weak cipher'' (weakOf (sp_Ciphers info) weakSSHCipher)
        @ weak_warning ''weak MAC'' (weakOf (sp_MACs info) weakSSHMAC)\<rparr>"

text \<open>The outer option is a panic, the inner one the nil pointer.  \<open>wire\<close> is what follows the
  leftover bytes on the connection.\<close>

definition sshPostureFromConn :: "bool \<Rightarrow> string \<Rightarrow> bytes \<Rightarrow> bytes \<Rightarrow> SSHPostureInfo option option" where
  "sshPostureFromConn written ident leftover wire =
     (if \<not> has_prefix ident ''SSH-'' then Some None
      else
        (let v = sshProtocolVersion ident;
             legacy = (if has_prefix v ''1.'' \<or> v = ''1'' then [''legacy SSH protocol 1.x offered (insecure)''] else []);
             info = \<lparr>sp_ProtocolVersion = v, sp_KexAlgorithms = [], sp_HostKeyAlgorithms = [], sp_Ciphers = [],
                     sp_MACs = [], sp_Warnings = legacy\<rparr>
         in if \<not> written then Some (Some info)
            else
              (case readSSHPacket (leftover @ wire) of
                 None \<Rightarrow> None
               | Some None \<Rightarrow> Some (Some info)
               | Some (Some payload) \<Rightarrow>
                   if payload = [] then Some (Some info)
                   else
                     (case get_at payload 0 of
                        None \<Rightarrow> None
                      | Some b \<Rightarrow>
                          if b \<noteq> sshMsgKexInit then Some (Some info)
                          else map_option (\<lambda>i. Some (analyzeSSHPosture i)) (parseKexInit payload info)))))"

subsection \<open>No input makes the audit panic\<close>

lemma readSSHPacket_total: "readSSHPacket br \<noteq> None"
  by (auto simp: readSSHPacket_def Let_def get_at_def slice_def split: if_splits)

lemma nameList_total: "nameList c \<noteq> None"
  by (auto simp: nameList_def Let_def slice_def)

lemma nameLists_total: "nameLists n c \<noteq> None"
proof (induction n arbitrary: c)
  case (Suc n)
  obtain l c1 where "nameList c = Some (l, c1)" using nameList_total [of c] by auto
  then show ?case using Suc [of c1] by simp
qed simp

lemma parseKexInit_total: "parseKexInit payload info \<noteq> None"
proof -
  obtain ls where "nameLists 6 (skip (1 + 16) \<lparr>cu_buf = payload, cu_pos = 0\<rparr>) = Some ls" using nameLists_total by blast
  then show ?thesis by (auto simp: parseKexInit_def split: list.splits option.splits)
qed

subsection \<open>Reading a well-formed offer\<close>

definition name_list_bytes :: "string list \<Rightarrow> bytes" where
  "name_list_bytes names = (let s = join_str '','' names in put32 (of_nat (length s)) @ bytes_of s)"

definition names_ok :: "string list \<Rightarrow> bool" where
  "names_ok names \<longleftrightarrow> list_all (\<lambda>s. s \<noteq> [] \<and> CHR '','' \<notin> set s) names \<and> length (join_str '','' names) < 2 ^ 32"

text \<open>A key-exchange packet as RFC 4253 lays it out.\<close>

definition kexinit_payload :: "bytes \<Rightarrow> string list list \<Rightarrow> bytes \<Rightarrow> bytes" where
  "kexinit_payload cookie ls rest = sshMsgKexInit # cookie @ concat (map name_list_bytes ls) @ rest"

definition ssh_packet :: "bytes \<Rightarrow> bytes \<Rightarrow> bytes" where
  "ssh_packet payload padding =
     put32 (of_nat (1 + length payload + length padding)) @ [of_nat (length padding)] @ payload @ padding"

lemma join_str_Nil_iff: "list_all (\<lambda>s. s \<noteq> []) names \<Longrightarrow> join_str sep names = [] \<longleftrightarrow> names = []"
  by (induction names rule: induct_list012) auto

lemma bytes_of_Nil_iff [simp]: "bytes_of s = [] \<longleftrightarrow> s = []"
  by (simp add: bytes_of_def)

lemma nameList_reads:
  assumes "names_ok names"
  shows "nameList \<lparr>cu_buf = pre @ name_list_bytes names @ rest, cu_pos = length pre\<rparr>
    = Some (Some names, \<lparr>cu_buf = pre @ name_list_bytes names @ rest, cu_pos = length pre + length (name_list_bytes names)\<rparr>)"
proof -
  let ?s = "join_str '','' names"
  have len: "unat (of_nat (length ?s) :: u32) = length ?s"
    using assms by (simp add: names_ok_def unat_of_nat)
  have split: "(if ?s = [] then [] else split_on (CHR '','') ?s) = names"
  proof (cases "names = []")
    case False
    then have "?s \<noteq> []" using assms join_str_Nil_iff [of names "'',''"] by (auto simp: names_ok_def list_all_iff)
    then show ?thesis
      using False assms split_on_join [of names "CHR '',''"] by (auto simp: names_ok_def list_all_iff)
  qed simp
  have field: "get32 (put32 (of_nat (length ?s))) = of_nat (length ?s)"
    using get32_put32 [of "of_nat (length ?s)" "[]"] by simp
  show ?thesis
    by (simp add: nameList_def name_list_bytes_def Let_def slice_def field len) (use split in \<open>auto split: if_splits\<close>)
qed

lemma nameLists_read:
  assumes "list_all names_ok ls"
  shows "nameLists (length ls) \<lparr>cu_buf = pre @ concat (map name_list_bytes ls) @ rest, cu_pos = length pre\<rparr> = Some (map Some ls)"
  using assms
proof (induction ls arbitrary: pre)
  case (Cons l ls)
  have "nameLists (length ls) \<lparr>cu_buf = (pre @ name_list_bytes l) @ concat (map name_list_bytes ls) @ rest,
      cu_pos = length (pre @ name_list_bytes l)\<rparr> = Some (map Some ls)"
    using Cons.prems by (intro Cons.IH) simp
  then show ?case using Cons.prems nameList_reads [of l pre "concat (map name_list_bytes ls) @ rest"] by simp
qed simp

lemma readSSHPacket_reads:
  assumes "length padding < 256" and "payload \<noteq> []" and "1 + length payload + length padding \<le> sshMaxPacket"
  shows "readSSHPacket (ssh_packet payload padding @ rest) = Some (Some payload)"
proof -
  define n where n: "n = 1 + length payload + length padding"
  define w :: u32 where w: "w = of_nat n"
  have un: "unat w = n" using assms(3) unfolding w n [symmetric] by (simp add: unat_of_nat sshMaxPacket_def)
  have pad: "unat (of_nat (length padding) :: byte) = length padding" using assms(1) by (simp add: unat_of_nat)
  have p: "ssh_packet payload padding = put32 w @ of_nat (length padding) # payload @ padding"
    by (simp only: ssh_packet_def w n append_Cons append_Nil)
  have t4: "take 4 (ssh_packet payload padding @ rest) = put32 w" by (simp add: p)
  have d4: "drop 4 (ssh_packet payload padding @ rest) = of_nat (length padding) # payload @ padding @ rest" by (simp add: p)
  have g: "get32 (put32 w) = w" using get32_put32 [of w "[]"] by simp
  have body: "take n (of_nat (length padding) # payload @ padding @ rest) = of_nat (length padding) # payload @ padding"
    by (simp add: n)
  let ?body = "of_nat (length padding) # payload @ padding"
  have two: "\<not> n < 2" using assms(2) n by (cases payload) simp_all
  have big: "\<not> n > sshMaxPacket" using assms(3) n by simp
  have len: "\<not> length (ssh_packet payload padding @ rest) < 4" "\<not> length (drop 4 (ssh_packet payload padding @ rest)) < n"
    by (simp_all add: p n)
  have fit: "\<not> length padding + 1 > length ?body" by simp
  have sl: "slice ?body 1 (length ?body - length padding) = Some payload"
    using assms(2) by (simp add: slice_def)
  have g0: "get_at ?body 0 = Some (of_nat (length padding))" by (simp add: get_at_def)
  show ?thesis
    unfolding readSSHPacket_def Let_def t4 g un if_not_P [OF len(1)] if_not_P [OF len(2)]
    unfolding d4 body g0 option.case pad if_not_P [OF fit] sl
    using two big by simp
qed

text \<open>The posture of an offer: the lists the audit keeps, and one warning for each list that has
  a weak entry, naming exactly the weak ones.\<close>

definition offer_posture :: "string \<Rightarrow> string list list \<Rightarrow> SSHPostureInfo" where
  "offer_posture version ls =
     analyzeSSHPosture
       \<lparr>sp_ProtocolVersion = version, sp_KexAlgorithms = ls ! 0, sp_HostKeyAlgorithms = ls ! 1, sp_Ciphers = ls ! 3,
        sp_MACs = ls ! 5,
        sp_Warnings = (if has_prefix version ''1.'' \<or> version = ''1'' then [''legacy SSH protocol 1.x offered (insecure)''] else [])\<rparr>"

lemma parseKexInit_reads:
  assumes "length cookie = 16" and "length ls = 6" and "list_all names_ok ls"
  shows "parseKexInit (kexinit_payload cookie ls rest) info
    = Some (info\<lparr>sp_KexAlgorithms := ls ! 0, sp_HostKeyAlgorithms := ls ! 1, sp_Ciphers := ls ! 3, sp_MACs := ls ! 5\<rparr>)"
proof -
  obtain a b c d e f where ls: "ls = [a, b, c, d, e, f]"
    using assms(2) by (auto simp: length_Suc_conv numeral_eq_Suc)
  have "nameLists 6 \<lparr>cu_buf = (sshMsgKexInit # cookie) @ concat (map name_list_bytes ls) @ rest, cu_pos = length (sshMsgKexInit # cookie)\<rparr>
      = Some (map Some ls)"
    using nameLists_read [OF assms(3), of "sshMsgKexInit # cookie" rest] assms(2) by simp
  then show ?thesis
    using assms(1) by (simp add: parseKexInit_def kexinit_payload_def skip_def ls)
qed


text \<open>An offer with one weak cipher, the packet cut in the middle.\<close>

definition small_offer :: "string list list" where
  "small_offer = [[''curve25519-sha256''], [''ssh-ed25519''], [''aes256-ctr''], [''aes256-ctr'', ''aes128-cbc''], [''hmac-sha2-256''], [''hmac-sha2-256'']]"


end
