(* ===== verification/OtProbe.thy ===== *)
theory OtProbe
  imports Endian
begin

text \<open>
  \<open>internal/service/ot_probe.go\<close>: the opt-in identification of industrial devices, over the
  reply the device sends (at most the 512 bytes of the buffer; \<open>None\<close> when writing or
  reading fails), with the cleaning of banners of \<open>engine.go\<close>.  An index out of range is
  an outer \<open>None\<close>.
\<close>

subsection \<open>Banners\<close>

definition printable :: "char \<Rightarrow> bool" where
  "printable c \<longleftrightarrow> 0x20 \<le> (of_char c :: nat) \<and> (of_char c :: nat) \<le> 0x7E"

definition stripNonPrintable :: "string \<Rightarrow> string" where
  "stripNonPrintable s = filter printable s"

definition sanitizeBanner :: "string \<Rightarrow> string" where
  "sanitizeBanner b =
     (let cleaned = stripNonPrintable (map (\<lambda>c. if c = CHR 0x0A then CHR '' '' else c) (filter (\<lambda>c. c \<noteq> CHR 0x0D) b))
      in if length cleaned > 60 then take 60 cleaned @ ''...'' else cleaned)"

lemma sanitizeBanner_clean:
  "list_all printable (sanitizeBanner b) \<and> length (sanitizeBanner b) \<le> 63"
  by (auto simp: sanitizeBanner_def stripNonPrintable_def Let_def list_all_iff printable_def dest: in_set_takeD)

lemma sanitizeBanner_id: "list_all printable s \<Longrightarrow> length s \<le> 60 \<Longrightarrow> sanitizeBanner s = s"
proof -
  assume a: "list_all printable s" "length s \<le> 60"
  have p: "c \<noteq> CHR 0x0D \<and> c \<noteq> CHR 0x0A" if "c \<in> set s" for c
    using a(1) that by (auto simp: list_all_iff printable_def)
  then have "filter (\<lambda>c. c \<noteq> CHR 0x0D) s = s" "map (\<lambda>c. if c = CHR 0x0A then CHR '' '' else c) s = s"
    by (auto simp: filter_id_conv intro: map_idI)
  then show ?thesis using a by (simp add: sanitizeBanner_def stripNonPrintable_def list_all_iff filter_id_conv)
qed

text \<open>What a probe found: name, version and banner.\<close>

type_synonym identity = "string \<times> string \<times> string"

definition read_reply :: "nat \<Rightarrow> bytes option \<Rightarrow> bytes option" where
  "read_reply bufLen reply = map_option (take bufLen) reply"

subsection \<open>Modbus\<close>

definition modbusRequest :: bytes where
  "modbusRequest = [0x00, 0x01, 0x00, 0x00, 0x00, 0x05, 0x01, 0x2B, 0x0E, 0x01, 0x00]"

fun modbus_objects :: "nat \<Rightarrow> nat \<Rightarrow> bytes \<Rightarrow> (byte \<rightharpoonup> string) \<Rightarrow> (byte \<rightharpoonup> string) option" where
  "modbus_objects 0 p pdu objects = Some objects"
| "modbus_objects (Suc i) p pdu objects =
     (if p + 2 > length pdu then Some objects
      else
        (case (get_at pdu p, get_at pdu (p + 1)) of
           (Some objID, Some len) \<Rightarrow>
             (let q = p + 2; objLen = unat len in
              if q + objLen > length pdu then Some objects
              else
                (case slice pdu q (q + objLen) of
                   None \<Rightarrow> None
                 | Some v \<Rightarrow> modbus_objects i (q + objLen) pdu (objects(objID \<mapsto> sanitizeBanner (text_of v)))))
         | _ \<Rightarrow> None))"

definition object_text :: "(byte \<rightharpoonup> string) \<Rightarrow> byte \<Rightarrow> string" where
  "object_text objects i = (case objects i of None \<Rightarrow> [] | Some s \<Rightarrow> s)"

definition modbus_identity :: "(byte \<rightharpoonup> string) \<Rightarrow> identity option" where
  "modbus_identity objects =
     (let vendor = object_text objects 0; product = object_text objects 1; revision = object_text objects 2 in
      if vendor = [] \<and> product = [] \<and> revision = [] then None
      else Some (if vendor \<noteq> [] then ''modbus/'' @ vendor else ''modbus'', revision,
                 join_str '' '' (filter (\<lambda>s. s \<noteq> []) [vendor, product, revision])))"

definition modbus_pdu :: "bytes \<Rightarrow> identity option option" where
  "modbus_pdu pdu =
     (if length pdu < 6 \<or> pdu ! 0 \<noteq> 0x2B \<or> pdu ! 1 \<noteq> 0x0E then Some None
      else
        (case get_at pdu 6 of
           None \<Rightarrow> None
         | Some n \<Rightarrow> map_option modbus_identity (modbus_objects (unat n) 7 pdu Map.empty)))"

definition modbusIdentify :: "bytes option \<Rightarrow> identity option option" where
  "modbusIdentify reply =
     (case read_reply 512 reply of
        None \<Rightarrow> Some None
      | Some resp \<Rightarrow>
          if length resp < 8 then Some None
          else if get16 (drop 2 resp) \<noteq> 0 then Some None
          else
            (let declaredLen = unat (get16 (drop 4 resp)) in
             if declaredLen < 2 \<or> 6 + declaredLen > length resp then Some None
             else modbus_pdu (drop 7 resp)))"

subsection \<open>EtherNet/IP\<close>

text \<open>\<open>binary.LittleEndian\<close>: the bytes in the other order.\<close>

definition get16le :: "bytes \<Rightarrow> u16" where "get16le b = get16 (rev (take 2 b))"
definition get32le :: "bytes \<Rightarrow> u32" where "get32le b = get32 (rev (take 4 b))"

definition enipRequest :: bytes where "enipRequest = [0x63, 0x00] @ replicate 22 0"

definition nameLenOff :: nat where "nameLenOff = 2 + 16 + 2 + 2 + 2 + 2 + 2 + 4"

definition enip_item :: "bytes \<Rightarrow> identity option option" where
  "enip_item ident =
     (if length ident < nameLenOff + 1 then Some None
      else
        (case (get_at ident (2 + 16 + 2 + 2 + 2), get_at ident (2 + 16 + 2 + 2 + 2 + 1), get_at ident nameLenOff) of
           (Some revMajor, Some revMinor, Some len) \<Rightarrow>
             (let nameLen = unat len in
              if nameLen = 0 \<or> nameLenOff + 1 + nameLen > length ident then Some None
              else
                (case slice ident (nameLenOff + 1) (nameLenOff + 1 + nameLen) of
                   None \<Rightarrow> None
                 | Some s \<Rightarrow>
                     (let product = sanitizeBanner (text_of s);
                          version = itoa (uint revMajor) @ ''.'' @ itoa (uint revMinor) in
                      if product = [] then Some None
                      else Some (Some (''ethernet-ip'', version, product @ '' '' @ version)))))
         | _ \<Rightarrow> None))"

definition enipIdentify :: "bytes option \<Rightarrow> identity option option" where
  "enipIdentify reply =
     (case read_reply 512 reply of
        None \<Rightarrow> Some None
      | Some resp \<Rightarrow>
          if length resp < 24 then Some None
          else if get16le resp \<noteq> 0x0063 then Some None
          else if get32le (drop 8 resp) \<noteq> 0 then Some None
          else
            (let data = drop 24 resp in
             if length data < 6 then Some None
             else if get16le (drop 2 data) \<noteq> 0x000C then Some None
             else enip_item (drop 6 data)))"

text \<open>Only two ports have an identifier; the device is asked one question.\<close>

definition otIdentifiers :: "int \<Rightarrow> (bytes option \<Rightarrow> identity option option) option" where
  "otIdentifiers port = (if port = 502 then Some modbusIdentify else if port = 44818 then Some enipIdentify else None)"

definition otRequest :: "int \<Rightarrow> bytes option" where
  "otRequest port = (if port = 502 then Some modbusRequest else if port = 44818 then Some enipRequest else None)"

text \<open>\<open>ask\<close> is the connection: the reply to a request, \<open>None\<close> when the dial failed.\<close>

definition probeOTService :: "int \<Rightarrow> (bytes \<Rightarrow> bytes option) option \<Rightarrow> identity option option" where
  "probeOTService port ask =
     (case (otIdentifiers port, otRequest port) of
        (Some identify, Some req) \<Rightarrow> (case ask of None \<Rightarrow> Some None | Some conn \<Rightarrow> identify (conn req))
      | _ \<Rightarrow> Some None)"

subsection \<open>When a reply makes the probe panic\<close>

lemma modbus_objects_total: "modbus_objects n p pdu objects \<noteq> None"
proof (induction n arbitrary: p objects)
  case (Suc n)
  show ?case
    using Suc by (auto simp: get_at_def slice_def Let_def)
qed simp

lemma modbus_pdu_None: "modbus_pdu pdu = None \<longleftrightarrow> length pdu = 6 \<and> pdu ! 0 = 0x2B \<and> pdu ! 1 = 0x0E"
  using modbus_objects_total by (auto simp: modbus_pdu_def get_at_def)

lemma enip_total: "enipIdentify reply \<noteq> None"
  by (auto simp: enipIdentify_def enip_item_def Let_def get_at_def slice_def nameLenOff_def split: option.splits)

text \<open>The 13 bytes that crash the probe: a complete Modbus header and a device-identification
  answer cut off before its object count.\<close>

definition short_modbus :: "bytes \<Rightarrow> bool" where
  "short_modbus resp \<longleftrightarrow> length resp = 13 \<and> get16 (drop 2 resp) = 0
     \<and> 2 \<le> unat (get16 (drop 4 resp)) \<and> unat (get16 (drop 4 resp)) \<le> 7 \<and> resp ! 7 = 0x2B \<and> resp ! 8 = 0x0E"

lemma modbusIdentify_None: "modbusIdentify (Some resp) = None \<longleftrightarrow> short_modbus resp"
proof -
  have "modbus_pdu (drop 7 (take 512 resp)) = None \<longleftrightarrow> length resp = 13 \<and> resp ! 7 = 0x2B \<and> resp ! 8 = 0x0E"
    if "8 \<le> length resp"
    using that by (auto simp: modbus_pdu_None min_def)
  then show ?thesis
    by (auto simp: modbusIdentify_def read_reply_def short_modbus_def Let_def min_def)
qed

subsection \<open>Well-formed replies are read\<close>

definition object_ok :: "byte \<times> string \<Rightarrow> bool" where
  "object_ok obj \<longleftrightarrow> list_all printable (snd obj) \<and> length (snd obj) \<le> 60"

definition object_bytes :: "byte \<times> string \<Rightarrow> bytes" where
  "object_bytes obj = [fst obj, of_nat (length (snd obj))] @ bytes_of (snd obj)"

definition modbus_reply :: "bytes \<Rightarrow> (byte \<times> string) list \<Rightarrow> bytes" where
  "modbus_reply head objs =
     (let pdu = [0x2B, 0x0E] @ head @ [of_nat (length objs)] @ concat (map object_bytes objs)
      in put16 1 @ put16 0 @ put16 (of_nat (1 + length pdu)) @ [1] @ pdu)"

lemma modbus_objects_read:
  assumes "list_all object_ok objs"
  shows "modbus_objects (length objs) (length pre) (pre @ concat (map object_bytes objs) @ rest) m
    = Some (m ++ map_of (rev objs))"
  using assms
proof (induction objs arbitrary: pre m)
  case (Cons obj objs)
  obtain i s where obj: "obj = (i, s)" by (cases obj)
  then have s: "list_all printable s" "length s \<le> 60" using Cons.prems by (simp_all add: object_ok_def)
  have len: "unat (of_nat (length s) :: byte) = length s" using s(2) by (simp add: unat_of_nat)
  have ih: "modbus_objects (length objs) (length (pre @ object_bytes obj)) ((pre @ object_bytes obj) @ concat (map object_bytes objs) @ rest) m'
      = Some (m' ++ map_of (rev objs))" for m'
    using Cons.prems by (intro Cons.IH) simp
  have upd: "m(i \<mapsto> s) ++ map_of (rev objs) = m ++ map_of (rev (obj # objs))"
    by (simp add: obj map_of_append del: fun_upd_apply)
  let ?pdu = "pre @ object_bytes obj @ concat (map object_bytes objs) @ rest"
  have at: "get_at ?pdu (length pre) = Some i" "get_at ?pdu (length pre + 1) = Some (of_nat (length s))"
      "slice ?pdu (length pre + 2) (length pre + 2 + length s) = Some (bytes_of s)"
      "\<not> length pre + 2 > length ?pdu" "\<not> length pre + 2 + length s > length ?pdu"
      "length pre + 2 + length s = length (pre @ object_bytes obj)"
    by (simp_all add: obj object_bytes_def get_at_def slice_def nth_append)
  have "modbus_objects (Suc (length objs)) (length pre) ?pdu m = modbus_objects (length objs) (length pre + 2 + length s) ?pdu (m(i \<mapsto> s))"
    unfolding modbus_objects.simps at(1,2) option.case prod.case Let_def len at(3) text_of_bytes_of sanitizeBanner_id [OF s]
    using at(4,5) by simp
  also have "\<dots> = Some (m(i \<mapsto> s) ++ map_of (rev objs))" unfolding at(6) using ih [of "m(i \<mapsto> s)"] by (simp del: fun_upd_apply)
  finally show ?case unfolding upd by (simp only: length_Cons list.map concat.simps append_assoc)
qed simp

lemma map_of_rev_distinct: "distinct (map fst xs) \<Longrightarrow> map_of (rev xs) = map_of xs"
  by (rule map_of_inject_set [THEN iffD2]) (simp_all add: rev_map [symmetric])

lemma modbus_reply_read:
  assumes "list_all object_ok objs" and "distinct (map fst objs)" and "length head = 4" and "length (modbus_reply head objs) \<le> 512"
    and "length objs < 256"
  shows "modbusIdentify (Some (modbus_reply head objs)) = Some (modbus_identity (map_of objs))"
proof -
  define pdu where pdu: "pdu = [0x2B, 0x0E] @ head @ [of_nat (length objs)] @ concat (map object_bytes objs)"
  define w :: u16 where w: "w = of_nat (1 + length pdu)"
  have r: "modbus_reply head objs = put16 1 @ put16 0 @ put16 w @ [1] @ pdu" by (simp only: modbus_reply_def Let_def pdu w)
  have lp: "length pdu \<le> 505" using assms(4) by (simp add: r)
  then have uw: "unat w = 1 + length pdu" unfolding w by (subst unat_of_nat) simp
  have n: "unat (of_nat (length objs) :: byte) = length objs" using assms(5) by (simp add: unat_of_nat)
  have fields: "get16 (put16 0 @ put16 w @ [1] @ pdu) = 0" "get16 (put16 w @ [1] @ pdu) = w"
    by (rule get16_put16)+
  have drops: "drop 2 (modbus_reply head objs) = put16 0 @ put16 w @ [1] @ pdu"
      "drop 4 (modbus_reply head objs) = put16 w @ [1] @ pdu" "drop 7 (modbus_reply head objs) = pdu"
    by (simp_all add: r)
  have len: "length (modbus_reply head objs) = 7 + length pdu" by (simp add: r)
  have "8 \<le> length pdu + 1" using assms(3) by (simp add: pdu)
  have pre: "pdu = ([0x2B, 0x0E] @ head @ [of_nat (length objs)]) @ concat (map object_bytes objs) @ []"
    by (simp add: pdu)
  have "length ([0x2B, 0x0E] @ head @ [of_nat (length objs)]) = 7" using assms(3) by simp
  then have "modbus_objects (length objs) 7 pdu Map.empty = Some (map_of objs)"
    using modbus_objects_read [OF assms(1), of "[0x2B, 0x0E] @ head @ [of_nat (length objs)]" "[]" Map.empty]
    unfolding pre [symmetric] by (simp only: map_of_rev_distinct [OF assms(2)] empty_map_add)
  moreover have "get_at pdu 6 = Some (of_nat (length objs))" "pdu ! 0 = 0x2B" "pdu ! 1 = 0x0E" "\<not> length pdu < 6"
    using assms(3) by (simp_all add: pdu get_at_def nth_append)
  ultimately have "modbus_pdu pdu = Some (modbus_identity (map_of objs))" by (simp add: modbus_pdu_def n)
  then show ?thesis
    using lp len fields uw pdu by (auto simp: modbusIdentify_def read_reply_def drops)
qed

definition enip_reply :: "bytes \<Rightarrow> bytes \<Rightarrow> bytes \<Rightarrow> bytes \<Rightarrow> byte \<Rightarrow> byte \<Rightarrow> bytes \<Rightarrow> string \<Rightarrow> bytes \<Rightarrow> bytes" where
  "enip_reply h1 h2 h3 before maj mnr between product trailing =
     [0x63, 0x00] @ h1 @ [0, 0, 0, 0] @ h2 @ [1, 0, 0x0C, 0x00] @ h3
     @ before @ [maj, mnr] @ between @ [of_nat (length product)] @ bytes_of product @ trailing"

lemma enip_reply_read:
  assumes "length h1 = 6" "length h2 = 12" "length h3 = 2" "length before = 24" "length between = 6"
    and "list_all printable product" "product \<noteq> []" "length product \<le> 60"
    and "length (enip_reply h1 h2 h3 before maj mnr between product trailing) \<le> 512"
  shows "enipIdentify (Some (enip_reply h1 h2 h3 before maj mnr between product trailing))
    = Some (Some (''ethernet-ip'', itoa (uint maj) @ ''.'' @ itoa (uint mnr), product @ '' '' @ itoa (uint maj) @ ''.'' @ itoa (uint mnr)))"
proof -
  let ?item = "before @ [maj, mnr] @ between @ [of_nat (length product)] @ bytes_of product @ trailing"
  let ?r = "enip_reply h1 h2 h3 before maj mnr between product trailing"
  have len: "unat (of_nat (length product) :: byte) = length product" using assms(8) by (simp add: unat_of_nat)
  have cmd: "get16le ?r = 0x63" by (simp add: enip_reply_def get16le_def get16_def)
  have status: "get32le (drop 8 ?r) = 0" using assms(1) by (simp add: enip_reply_def get32le_def get32_def)
  have item: "drop 6 (drop 24 ?r) = ?item" "get16le (drop 2 (drop 24 ?r)) = 0x0C" "\<not> length ?r < 24" "\<not> length (drop 24 ?r) < 6"
    using assms(1-3) by (simp_all add: enip_reply_def get16le_def get16_def)
  have at: "get_at ?item 24 = Some maj" "get_at ?item 25 = Some mnr" "get_at ?item 32 = Some (of_nat (length product))"
    using assms(4,5) by (simp_all add: get_at_def nth_append)
  have sl: "slice ?item 33 (33 + length product) = Some (bytes_of product)"
    using assms(4,5) by (simp add: slice_def)
  have li: "\<not> length ?item < 33" "\<not> 33 + length product > length ?item" using assms(4,5) by simp_all
  have "enip_item ?item = Some (Some (''ethernet-ip'', itoa (uint maj) @ ''.'' @ itoa (uint mnr), product @ '' '' @ itoa (uint maj) @ ''.'' @ itoa (uint mnr)))"
    unfolding enip_item_def nameLenOff_def Let_def
    using at sl li assms(7) by (simp add: len sanitizeBanner_id [OF assms(6,8)])
  then show ?thesis
    using assms(9) item cmd status by (simp add: enipIdentify_def read_reply_def Let_def)
qed

text \<open>A device that is probed crashes the scanner exactly with the 13 bytes of a Modbus
  identification reply that ends before its object count; every other reply is either
  refused or identified, and a complete Modbus or EtherNet/IP reply gives the vendor,
  product and revision the device put in it.\<close>

theorem ot_probe_reads_devices:
  "(probeOTService port ask = None \<longleftrightarrow>
      port = 502 \<and> (\<exists>conn resp. ask = Some conn \<and> conn modbusRequest = Some resp \<and> short_modbus resp))
   \<and> (list_all object_ok objs \<and> distinct (map fst objs) \<and> length head = 4 \<and> length objs < 256
       \<and> length (modbus_reply head objs) \<le> 512 \<and> conn modbusRequest = Some (modbus_reply head objs)
      \<longrightarrow> probeOTService 502 (Some conn) = Some (modbus_identity (map_of objs)))
   \<and> (length h1 = 6 \<and> length h2 = 12 \<and> length h3 = 2 \<and> length before = 24 \<and> length between = 6
       \<and> list_all printable product \<and> product \<noteq> [] \<and> length product \<le> 60
       \<and> length (enip_reply h1 h2 h3 before maj mnr between product trailing) \<le> 512
       \<and> conn enipRequest = Some (enip_reply h1 h2 h3 before maj mnr between product trailing)
      \<longrightarrow> (\<exists>version banner. probeOTService 44818 (Some conn) = Some (Some (''ethernet-ip'', version, banner))
            \<and> version = itoa (uint maj) @ ''.'' @ itoa (uint mnr) \<and> banner = product @ '' '' @ version))"
proof (intro conjI impI)
  have none: "modbusIdentify reply = None \<longleftrightarrow> (\<exists>resp. reply = Some resp \<and> short_modbus resp)" for reply
    using modbusIdentify_None by (cases reply) (auto simp: modbusIdentify_def read_reply_def)
  show "probeOTService port ask = None \<longleftrightarrow>
      port = 502 \<and> (\<exists>conn resp. ask = Some conn \<and> conn modbusRequest = Some resp \<and> short_modbus resp)"
    using enip_total
    by (cases ask) (auto simp: probeOTService_def otIdentifiers_def otRequest_def none split: option.splits simp del: not_None_eq)
next
  assume "list_all object_ok objs \<and> distinct (map fst objs) \<and> length head = 4 \<and> length objs < 256
      \<and> length (modbus_reply head objs) \<le> 512 \<and> conn modbusRequest = Some (modbus_reply head objs)"
  then show "probeOTService 502 (Some conn) = Some (modbus_identity (map_of objs))"
    using modbus_reply_read [of objs head] by (simp add: probeOTService_def otIdentifiers_def otRequest_def)
next
  assume "length h1 = 6 \<and> length h2 = 12 \<and> length h3 = 2 \<and> length before = 24 \<and> length between = 6
      \<and> list_all printable product \<and> product \<noteq> [] \<and> length product \<le> 60
      \<and> length (enip_reply h1 h2 h3 before maj mnr between product trailing) \<le> 512
      \<and> conn enipRequest = Some (enip_reply h1 h2 h3 before maj mnr between product trailing)"
  then show "\<exists>version banner. probeOTService 44818 (Some conn) = Some (Some (''ethernet-ip'', version, banner))
      \<and> version = itoa (uint maj) @ ''.'' @ itoa (uint mnr) \<and> banner = product @ '' '' @ version"
    using enip_reply_read [of h1 h2 h3 before between product maj mnr trailing]
    by (simp add: probeOTService_def otIdentifiers_def otRequest_def)
qed

text \<open>The crash, and a device that answers.\<close>

theorem ot_probe_reads_devices_witness:
  "probeOTService 502 (Some (\<lambda>_. Some [0, 1, 0, 0, 0, 7, 1, 0x2B, 0x0E, 1, 1, 0, 0])) = None
   \<and> probeOTService 502 (Some (\<lambda>_. Some (modbus_reply [1, 1, 0, 0] [(0, ''ACME''), (1, ''P1''), (2, ''2.7'')])))
     = Some (Some (''modbus/ACME'', ''2.7'', ''ACME P1 2.7''))"
proof
  have "short_modbus [0, 1, 0, 0, 0, 7, 1, 0x2B, 0x0E, 1, 1, 0, 0]" by (simp add: short_modbus_def get16_def)
  then show "probeOTService 502 (Some (\<lambda>_. Some [0, 1, 0, 0, 0, 7, 1, 0x2B, 0x0E, 1, 1, 0, 0])) = None"
    using ot_probe_reads_devices [of 502 "Some (\<lambda>_. Some [0, 1, 0, 0, 0, 7, 1, 0x2B, 0x0E, 1, 1, 0, 0])"] by blast
  have ok: "list_all object_ok [(0, ''ACME''), (1, ''P1''), (2, ''2.7'')]"
    by (simp add: object_ok_def printable_def)
  have len: "length (modbus_reply [1, 1, 0, 0] [(0, ''ACME''), (1, ''P1''), (2, ''2.7'')]) \<le> 512"
    by (simp add: modbus_reply_def object_bytes_def Let_def)
  have "modbus_identity (map_of [(0, ''ACME''), (1, ''P1''), (2, ''2.7'')]) = Some (''modbus/ACME'', ''2.7'', ''ACME P1 2.7'')"
    by (simp add: modbus_identity_def object_text_def Let_def)
  then show "probeOTService 502 (Some (\<lambda>_. Some (modbus_reply [1, 1, 0, 0] [(0, ''ACME''), (1, ''P1''), (2, ''2.7'')])))
      = Some (Some (''modbus/ACME'', ''2.7'', ''ACME P1 2.7''))"
    using ot_probe_reads_devices [of 502 None "[(0, ''ACME''), (1, ''P1''), (2, ''2.7'')]" "[1, 1, 0, 0]"
        "\<lambda>_. Some (modbus_reply [1, 1, 0, 0] [(0, ''ACME''), (1, ''P1''), (2, ''2.7'')])"] ok len by simp
qed

end
