(* ===== verification/Regex.thy ===== *)
theory Regex
  imports "HOL-Library.Sublist" Prelude
begin

text \<open>
  The part of package \<open>regexp\<close> (and of \<open>unicode/utf8\<close>) the banner readers use: a string is decoded
  to runes, an invalid byte to U+FFFD, and an expression is matched leftmost-first, with the
  alternatives of a backtracking search in the order of preference.
\<close>

subsection \<open>Runes\<close>

type_synonym rune = nat
type_synonym runes = "(rune \<times> string) list"

definition bad_rune :: "rune \<times> nat" where "bad_rune = (0xFFFD, 1)"

definition cont :: "nat \<Rightarrow> nat \<Rightarrow> nat \<Rightarrow> bool" where "cont lo hi b \<longleftrightarrow> lo \<le> b \<and> b \<le> hi"

text \<open>\<open>utf8.DecodeRune\<close>: the rune and the number of bytes it takes; the second byte's range
  excludes overlong forms, surrogates and what lies beyond U+10FFFF.\<close>

definition second_range :: "nat \<Rightarrow> nat \<times> nat" where
  "second_range b0 =
     (if b0 = 0xE0 then (0xA0, 0xBF) else if b0 = 0xED then (0x80, 0x9F)
      else if b0 = 0xF0 then (0x90, 0xBF) else if b0 = 0xF4 then (0x80, 0x8F) else (0x80, 0xBF))"

definition decode_rune :: "nat list \<Rightarrow> rune \<times> nat" where
  "decode_rune bs =
     (case bs of
        [] \<Rightarrow> (0xFFFD, 0)
      | b0 # rest \<Rightarrow>
          if b0 < 0x80 then (b0, 1)
          else if 0xC2 \<le> b0 \<and> b0 \<le> 0xDF then
            (case rest of b1 # _ \<Rightarrow> if cont 0x80 0xBF b1 then (b0 mod 32 * 64 + b1 mod 64, 2) else bad_rune
             | _ \<Rightarrow> bad_rune)
          else if 0xE0 \<le> b0 \<and> b0 \<le> 0xEF then
            (case rest of
               b1 # b2 # _ \<Rightarrow>
                 if cont (fst (second_range b0)) (snd (second_range b0)) b1 \<and> cont 0x80 0xBF b2
                 then (b0 mod 16 * 4096 + b1 mod 64 * 64 + b2 mod 64, 3) else bad_rune
             | _ \<Rightarrow> bad_rune)
          else if 0xF0 \<le> b0 \<and> b0 \<le> 0xF4 then
            (case rest of
               b1 # b2 # b3 # _ \<Rightarrow>
                 if cont (fst (second_range b0)) (snd (second_range b0)) b1 \<and> cont 0x80 0xBF b2 \<and> cont 0x80 0xBF b3
                 then (b0 mod 8 * 262144 + b1 mod 64 * 4096 + b2 mod 64 * 64 + b3 mod 64, 4) else bad_rune
             | _ \<Rightarrow> bad_rune)
          else bad_rune)"

fun decode :: "string \<Rightarrow> runes" where
  "decode [] = []"
| "decode (c # cs) =
     (case decode_rune (map of_char (take 4 (c # cs))) of
        (r, w) \<Rightarrow> (r, c # take (w - 1) cs) # decode (drop (w - 1) cs))"

definition source :: "runes \<Rightarrow> string" where "source rs = concat (map snd rs)"

definition encode_rune :: "rune \<Rightarrow> string" where
  "encode_rune r = map char_of
     (if r < 0x80 then [r]
      else if r < 0x800 then [0xC0 + r div 64, 0x80 + r mod 64]
      else if r < 0x10000 then [0xE0 + r div 4096, 0x80 + r div 64 mod 64, 0x80 + r mod 64]
      else [0xF0 + r div 262144, 0x80 + r div 4096 mod 64, 0x80 + r div 64 mod 64, 0x80 + r mod 64])"

text \<open>\<open>strings.ToLower\<close>; \<open>ulower\<close> is the Unicode table, of use beyond ASCII only.  A rune the mapping
  leaves alone keeps its bytes, except that an invalid byte becomes the encoding of U+FFFD.\<close>

definition go_lower :: "(rune \<Rightarrow> rune) \<Rightarrow> string \<Rightarrow> string" where
  "go_lower ulower s =
     concat (map (\<lambda>(r, src). if r < 128 then map lower_char src
                             else if ulower r = r \<and> \<not> (r = 0xFFFD \<and> length src = 1) then src
                             else encode_rune (ulower r)) (decode s))"

subsection \<open>Expressions\<close>

datatype regex =
    Eps
  | Chars bool "(rune \<times> rune) list"
  | Seq regex regex
  | Alt regex regex
  | Star regex
  | Opt regex
  | Group nat regex
  | StartText
  | WordBoundary

definition Plus :: "regex \<Rightarrow> regex" where "Plus r = Seq r (Star r)"

fun seqs :: "regex list \<Rightarrow> regex" where
  "seqs [] = Eps"
| "seqs [r] = r"
| "seqs (r # rs) = Seq r (seqs rs)"

definition one :: "char \<Rightarrow> regex" where "one c = Chars False [(of_char c, of_char c)]"
definition lit :: "string \<Rightarrow> regex" where "lit s = seqs (map one s)"
definition chars :: "(char \<times> char) list \<Rightarrow> regex" where "chars rs = Chars False (map (\<lambda>(a, b). (of_char a, of_char b)) rs)"
definition not_chars :: "(char \<times> char) list \<Rightarrow> regex" where "not_chars rs = Chars True (map (\<lambda>(a, b). (of_char a, of_char b)) rs)"

abbreviation digits :: "(char \<times> char) list" where "digits \<equiv> [(CHR ''0'', CHR ''9'')]"
abbreviation words :: "(char \<times> char) list" where
  "words \<equiv> [(CHR ''0'', CHR ''9''), (CHR ''A'', CHR ''Z''), (CHR ''_'', CHR ''_''), (CHR ''a'', CHR ''z'')]"
abbreviation this :: "string \<Rightarrow> (char \<times> char) list" where "this s \<equiv> map (\<lambda>c. (c, c)) s"

text \<open>\<open>x{n,m}\<close>: the optional copies are nested.\<close>

fun up_to :: "nat \<Rightarrow> regex \<Rightarrow> regex" where
  "up_to 0 r = Eps"
| "up_to (Suc n) r = Opt (Seq r (up_to n r))"

definition times :: "nat \<Rightarrow> nat \<Rightarrow> regex \<Rightarrow> regex" where
  "times n m r = Seq (seqs (replicate n r)) (up_to (m - n) r)"

definition at_least :: "nat \<Rightarrow> regex \<Rightarrow> regex" where "at_least n r = Seq (seqs (replicate n r)) (Star r)"

subsection \<open>Matching\<close>

text \<open>The runes that differ from a rune in case only, for the letters below U+0100 and the three
  runes above it that icase into them.\<close>

definition orbit :: "rune \<Rightarrow> rune list" where
  "orbit r =
     (if 65 \<le> r \<and> r \<le> 90 then (r + 32) # (if r = 75 then [0x212A] else if r = 83 then [0x17F] else [])
      else if 97 \<le> r \<and> r \<le> 122 then (r - 32) # (if r = 107 then [0x212A] else if r = 115 then [0x17F] else [])
      else if r = 0x212A then [75, 107] else if r = 0x17F then [83, 115]
      else if 0xC0 \<le> r \<and> r \<le> 0xDE \<and> r \<noteq> 0xD7 then [r + 32]
      else if 0xE0 \<le> r \<and> r \<le> 0xFE \<and> r \<noteq> 0xF7 then [r - 32]
      else if r = 0xFF then [0x178] else if r = 0x178 then [0xFF] else [])"

definition in_ranges :: "(rune \<times> rune) list \<Rightarrow> rune \<Rightarrow> bool" where
  "in_ranges cs r = list_ex (\<lambda>(a, b). a \<le> r \<and> r \<le> b) cs"

definition in_class :: "bool \<Rightarrow> bool \<Rightarrow> (rune \<times> rune) list \<Rightarrow> rune \<Rightarrow> bool" where
  "in_class icase neg cs r = (neg \<noteq> list_ex (in_ranges cs) (r # (if icase then orbit r else [])))"

definition word_rune :: "rune \<Rightarrow> bool" where
  "word_rune r \<longleftrightarrow> 48 \<le> r \<and> r \<le> 57 \<or> 65 \<le> r \<and> r \<le> 90 \<or> r = 95 \<or> 97 \<le> r \<and> r \<le> 122"

text \<open>Where a match stands: the rune prev, the text ahead, and the groups closed so far.\<close>

record position =
  mp_before :: "rune option"
  mp_ahead :: runes
  mp_groups :: "(nat \<times> string) list"

definition word_before :: "position \<Rightarrow> bool" where
  "word_before p = (case mp_before p of None \<Rightarrow> False | Some r \<Rightarrow> word_rune r)"

definition word_ahead :: "position \<Rightarrow> bool" where
  "word_ahead p = (case mp_ahead p of [] \<Rightarrow> False | (r, _) # _ \<Rightarrow> word_rune r)"

definition step_class :: "bool \<Rightarrow> bool \<Rightarrow> (rune \<times> rune) list \<Rightarrow> position \<Rightarrow> position list" where
  "step_class icase neg cs p =
     (case mp_ahead p of
        [] \<Rightarrow> []
      | (r, s) # rest \<Rightarrow> if in_class icase neg cs r then [p\<lparr>mp_before := Some r, mp_ahead := rest\<rparr>] else [])"

text \<open>The greedy repetition: one more round first, the end of the loop last; a round that
  consumes nothing does not loop.\<close>

primrec star :: "(position \<Rightarrow> position list) \<Rightarrow> nat \<Rightarrow> position \<Rightarrow> position list" where
  "star f 0 p = [p]"
| "star f (Suc n) p =
     concat (map (\<lambda>q. if length (mp_ahead q) < length (mp_ahead p) then star f n q else []) (f p)) @ [p]"

definition consumed :: "runes \<Rightarrow> runes \<Rightarrow> string" where
  "consumed start rest = source (take (length start - length rest) start)"

primrec matches :: "bool \<Rightarrow> regex \<Rightarrow> position \<Rightarrow> position list" where
  "matches icase Eps p = [p]"
| "matches icase (Chars neg cs) p = step_class icase neg cs p"
| "matches icase (Seq a b) p = concat (map (matches icase b) (matches icase a p))"
| "matches icase (Alt a b) p = matches icase a p @ matches icase b p"
| "matches icase (Star a) p = star (matches icase a) (length (mp_ahead p)) p"
| "matches icase (Opt a) p = matches icase a p @ [p]"
| "matches icase (Group n a) p =
     map (\<lambda>q. q\<lparr>mp_groups := (n, consumed (mp_ahead p) (mp_ahead q)) # mp_groups q\<rparr>) (matches icase a p)"
| "matches icase StartText p = (if mp_before p = None then [p] else [])"
| "matches icase WordBoundary p = (if word_before p \<noteq> word_ahead p then [p] else [])"

text \<open>The leftmost place with a match, and its most preferred match.\<close>

fun search :: "bool \<Rightarrow> regex \<Rightarrow> rune option \<Rightarrow> runes \<Rightarrow> (runes \<times> position) option" where
  "search icase r prev s =
     (case matches icase r \<lparr>mp_before = prev, mp_ahead = s, mp_groups = []\<rparr> of
        q # _ \<Rightarrow> Some (s, q)
      | [] \<Rightarrow> (case s of [] \<Rightarrow> None | (c, _) # t \<Rightarrow> search icase r (Some c) t))"

declare search.simps [simp del]

text \<open>\<open>FindStringSubmatch\<close>: the matched text and the groups; a group that took no part is empty.\<close>

definition find_submatch :: "bool \<Rightarrow> regex \<Rightarrow> string \<Rightarrow> (string \<times> (nat \<Rightarrow> string)) option" where
  "find_submatch icase r s =
     (case search icase r None (decode s) of
        None \<Rightarrow> None
      | Some (start, q) \<Rightarrow>
          Some (consumed start (mp_ahead q),
                \<lambda>n. case map_of (mp_groups q) n of None \<Rightarrow> [] | Some g \<Rightarrow> g))"

definition match_string :: "bool \<Rightarrow> regex \<Rightarrow> string \<Rightarrow> bool" where
  "match_string icase r s = (find_submatch icase r s \<noteq> None)"

subsection \<open>Decoding\<close>

lemma decode_source [simp]: "source (decode s) = s"
proof (induction s rule: decode.induct)
  case (2 c cs)
  obtain r w where rw: "decode_rune (map of_char (take 4 (c # cs))) = (r, w)" by (metis surj_pair)
  have "source (decode (drop (w - 1) cs)) = drop (w - 1) cs"
    using 2 rw by (metis)
  then show ?case using rw by (simp add: source_def)
qed (simp add: source_def)

definition ascii :: "string \<Rightarrow> bool" where "ascii s \<longleftrightarrow> (\<forall>c\<in>set s. of_char c < (128 :: nat))"

definition plain :: "string \<Rightarrow> runes" where "plain s = map (\<lambda>c. (of_char c, [c])) s"

lemma decode_ascii: "ascii s \<Longrightarrow> decode (s @ t) = plain s @ decode t"
  by (induction s) (auto simp: ascii_def plain_def decode_rune_def)

lemma source_plain [simp]: "source (plain s) = s"
  by (induction s) (auto simp: plain_def source_def)

lemma source_append [simp]: "source (a @ b) = source a @ source b"
  by (simp add: source_def)

subsection \<open>What the search finds\<close>

text \<open>The meaning of an expression without a search order: the positions a match may end at.\<close>

inductive accepts :: "bool \<Rightarrow> regex \<Rightarrow> position \<Rightarrow> position \<Rightarrow> bool" for icase where
  a_Eps: "accepts icase Eps p p"
| a_Chars: "mp_ahead p = (r, s) # rest \<Longrightarrow> in_class icase neg cs r
    \<Longrightarrow> accepts icase (Chars neg cs) p (p\<lparr>mp_before := Some r, mp_ahead := rest\<rparr>)"
| a_Seq: "accepts icase a p q \<Longrightarrow> accepts icase b q u \<Longrightarrow> accepts icase (Seq a b) p u"
| a_Left: "accepts icase a p q \<Longrightarrow> accepts icase (Alt a b) p q"
| a_Right: "accepts icase b p q \<Longrightarrow> accepts icase (Alt a b) p q"
| a_Stop: "accepts icase (Star a) p p"
| a_Loop: "accepts icase a p q \<Longrightarrow> length (mp_ahead q) < length (mp_ahead p) \<Longrightarrow> accepts icase (Star a) q u
    \<Longrightarrow> accepts icase (Star a) p u"
| a_Some: "accepts icase a p q \<Longrightarrow> accepts icase (Opt a) p q"
| a_None: "accepts icase (Opt a) p p"
| a_Group: "accepts icase a p q
    \<Longrightarrow> accepts icase (Group n a) p (q\<lparr>mp_groups := (n, consumed (mp_ahead p) (mp_ahead q)) # mp_groups q\<rparr>)"
| a_Start: "mp_before p = None \<Longrightarrow> accepts icase StartText p p"
| a_Boundary: "word_before p \<noteq> word_ahead p \<Longrightarrow> accepts icase WordBoundary p p"

inductive_cases acc_Eps: "accepts icase Eps p q"
inductive_cases acc_Chars: "accepts icase (Chars neg cs) p q"
inductive_cases acc_Seq: "accepts icase (Seq a b) p q"
inductive_cases acc_Alt: "accepts icase (Alt a b) p q"
inductive_cases acc_Star: "accepts icase (Star a) p q"
inductive_cases acc_Opt: "accepts icase (Opt a) p q"
inductive_cases acc_Group: "accepts icase (Group n a) p q"
inductive_cases acc_Start: "accepts icase StartText p q"
inductive_cases acc_Boundary: "accepts icase WordBoundary p q"

lemmas acc_elims = acc_Eps acc_Chars acc_Seq acc_Alt acc_Opt acc_Group acc_Start acc_Boundary

lemma star_sound:
  assumes "\<And>p q. q \<in> set (f p) \<longleftrightarrow> accepts icase a p q"
  shows "q \<in> set (star f n p) \<Longrightarrow> accepts icase (Star a) p q"
proof (induction n arbitrary: p)
  case (Suc n)
  then show ?case using assms by (fastforce intro: a_Stop a_Loop split: if_splits)
qed (simp add: a_Stop)

lemma star_complete:
  assumes f: "\<And>p q. q \<in> set (f p) \<longleftrightarrow> accepts icase a p q"
  shows "accepts icase (Star a) p q \<Longrightarrow> length (mp_ahead p) \<le> n \<Longrightarrow> q \<in> set (star f n p)"
proof (induction n arbitrary: p)
  case 0
  then show ?case by (auto elim: acc_Star)
next
  case (Suc n)
  from Suc.prems(1) show ?case
  proof (rule acc_Star)
    assume "q = p"
    then show ?thesis by simp
  next
    fix m
    assume m: "accepts icase a p m" "length (mp_ahead m) < length (mp_ahead p)" "accepts icase (Star a) m q"
    then have "q \<in> set (star f n m)" using Suc by simp
    moreover have "m \<in> set (f p)" using m f by simp
    ultimately have "\<exists>x\<in>set (f p). length (mp_ahead x) < length (mp_ahead p) \<and> q \<in> set (star f n x)"
      using m by blast
    then show ?thesis by auto
  qed
qed

lemma matches_accepts: "q \<in> set (matches icase r p) \<longleftrightarrow> accepts icase r p q"
proof (induction r arbitrary: p q)
  case (Chars neg cs)
  then show ?case
    by (cases "mp_ahead p") (auto simp: step_class_def elim!: acc_elims intro: a_Chars split: if_splits)
next
  case (Star a)
  then show ?case using star_sound star_complete by (metis matches.simps(5) order_refl)
next
  case (Seq a b)
  then show ?case by (auto elim!: acc_elims intro: a_Seq)
next
  case (Alt a b)
  then show ?case by (auto elim!: acc_elims intro: accepts.intros)
next
  case (Opt a)
  then show ?case by (auto elim!: acc_elims intro: accepts.intros)
next
  case (Group n a)
  then show ?case by (auto elim!: acc_elims intro: a_Group)
qed (auto elim!: acc_elims intro: accepts.intros)

text \<open>A match consumes a piece of the text; every group it closes is a piece of the text.\<close>

lemma sub_left: "sublist g (source a) \<Longrightarrow> sublist g (source (a @ b))"
  by (auto simp: sublist_def source_def) (metis append.assoc)

lemma sub_right: "sublist g (source b) \<Longrightarrow> sublist g (source (a @ b))"
  by (auto simp: sublist_def source_def) (metis append.assoc)

definition pieces :: "(nat \<times> string) list \<Rightarrow> runes \<Rightarrow> (nat \<times> string) list \<Rightarrow> bool" where
  "pieces old used new \<longleftrightarrow> (\<forall>g\<in>set new. g \<in> set old \<or> sublist (snd g) (source used))"

lemma pieces_trans: "pieces a u b \<Longrightarrow> pieces b v c \<Longrightarrow> pieces a (u @ v) c"
  unfolding pieces_def using sub_left sub_right by blast

lemma accepts_consumes:
  "accepts icase r p q \<Longrightarrow> \<exists>used. mp_ahead p = used @ mp_ahead q \<and> pieces (mp_groups p) used (mp_groups q)"
proof (induction rule: accepts.induct)
  case (a_Chars p r s rest neg cs)
  then show ?case by (intro exI[of _ "[(r, s)]"]) (simp add: pieces_def)
next
  case (a_Seq a p q b u)
  then obtain x y where "mp_ahead p = x @ mp_ahead q" "pieces (mp_groups p) x (mp_groups q)"
    "mp_ahead q = y @ mp_ahead u" "pieces (mp_groups q) y (mp_groups u)" by blast
  then show ?case by (intro exI[of _ "x @ y"]) (auto intro: pieces_trans)
next
  case (a_Loop a p q u)
  then obtain x y where "mp_ahead p = x @ mp_ahead q" "pieces (mp_groups p) x (mp_groups q)"
    "mp_ahead q = y @ mp_ahead u" "pieces (mp_groups q) y (mp_groups u)" by blast
  then show ?case by (intro exI[of _ "x @ y"]) (auto intro: pieces_trans)
next
  case (a_Group a p q n)
  then obtain x where x: "mp_ahead p = x @ mp_ahead q" "pieces (mp_groups p) x (mp_groups q)" by blast
  then show ?case by (intro exI[of _ x]) (simp add: pieces_def consumed_def)
qed (auto simp: pieces_def)

text \<open>The search is the leftmost one: nothing matches at an earlier place, and the position found
  is one the expression accepts.\<close>

definition start_at :: "rune option \<Rightarrow> runes \<Rightarrow> position" where
  "start_at prev s = \<lparr>mp_before = prev, mp_ahead = s, mp_groups = []\<rparr>"

definition last_rune :: "rune option \<Rightarrow> runes \<Rightarrow> rune option" where
  "last_rune prev skipped = (if skipped = [] then prev else Some (fst (last skipped)))"

lemma search_Some:
  "search icase r prev s = Some (st, q) \<Longrightarrow> \<exists>skipped. s = skipped @ st
     \<and> accepts icase r (start_at (last_rune prev skipped) st) q
     \<and> (\<forall>k<length skipped. \<forall>u. \<not> accepts icase r (start_at (last_rune prev (take k s)) (drop k s)) u)"
proof (induction s arbitrary: prev)
  case Nil
  then show ?case
    by (subst (asm) search.simps) (auto split: list.splits simp: start_at_def last_rune_def simp flip: matches_accepts)
next
  case (Cons c s)
  show ?case
  proof (cases "matches icase r (start_at prev (c # s))")
    case Nil
    then have "search icase r (Some (fst c)) s = Some (st, q)"
      using Cons.prems by (subst (asm) search.simps) (simp add: start_at_def split: prod.splits)
    then obtain skipped where sk: "s = skipped @ st" "accepts icase r (start_at (last_rune (Some (fst c)) skipped) st) q"
      "\<forall>k<length skipped. \<forall>u. \<not> accepts icase r (start_at (last_rune (Some (fst c)) (take k s)) (drop k s)) u"
      using Cons.IH by blast
    have l: "last_rune prev (c # xs) = last_rune (Some (fst c)) xs" for xs by (simp add: last_rune_def)
    have "\<not> accepts icase r (start_at (last_rune prev (take k (c # s))) (drop k (c # s))) u" if "k < Suc (length skipped)" for k u
    proof (cases k)
      case 0
      then show ?thesis using Nil matches_accepts[of u icase r "start_at prev (c # s)"] by (simp add: last_rune_def)
    next
      case (Suc j)
      then show ?thesis using sk(3) that l by simp
    qed
    then show ?thesis using sk l by (intro exI[of _ "c # skipped"]) simp
  next
    case (Cons a list)
    then have "st = c # s" "q = a" using Cons.prems by (subst (asm) search.simps, simp add: start_at_def)+
    then show ?thesis using Cons matches_accepts[of a icase r "start_at prev (c # s)"]
      by (intro exI[of _ "[]"]) (simp add: last_rune_def)
  qed
qed

lemma search_None:
  "search icase r prev s = None \<Longrightarrow> k \<le> length s \<Longrightarrow> \<not> accepts icase r (start_at (last_rune prev (take k s)) (drop k s)) u"
proof (induction s arbitrary: prev k)
  case Nil
  then show ?case
    by (subst (asm) search.simps) (auto split: list.splits simp: start_at_def last_rune_def simp flip: matches_accepts)
next
  case (Cons c s)
  have n: "matches icase r (start_at prev (c # s)) = []" "search icase r (Some (fst c)) s = None"
    using Cons.prems by (subst (asm) search.simps, simp add: start_at_def split: list.splits prod.splits)+
  show ?case
  proof (cases k)
    case 0
    then show ?thesis using n(1) matches_accepts[of u icase r "start_at prev (c # s)"] by (simp add: last_rune_def)
  next
    case (Suc j)
    have l: "last_rune prev (c # xs) = last_rune (Some (fst c)) xs" for xs by (simp add: last_rune_def)
    show ?thesis using Cons.IH[OF n(2), of j] Cons.prems Suc l by simp
  qed
qed

text \<open>What \<open>FindStringSubmatch\<close> returns is a piece of the text at the leftmost place where the
  expression matches, and the groups are pieces of it; without a result it matches nowhere.\<close>

definition accepted_at :: "bool \<Rightarrow> regex \<Rightarrow> runes \<Rightarrow> nat \<Rightarrow> position \<Rightarrow> bool" where
  "accepted_at icase r s k q \<longleftrightarrow> accepts icase r (start_at (last_rune None (take k s)) (drop k s)) q"

lemma find_submatch_Some:
  assumes "find_submatch icase r s = Some (m, groups)"
  obtains k q where "k \<le> length (decode s)" "accepted_at icase r (decode s) k q"
    "\<And>j u. j < k \<Longrightarrow> \<not> accepted_at icase r (decode s) j u"
    "s = source (take k (decode s)) @ m @ source (mp_ahead q)" "\<And>n. sublist (groups n) m"
proof -
  obtain st q where sq: "search icase r None (decode s) = Some (st, q)" "m = consumed st (mp_ahead q)"
    "groups = (\<lambda>n. case map_of (mp_groups q) n of None \<Rightarrow> [] | Some g \<Rightarrow> g)"
    using assms by (auto simp: find_submatch_def split: option.splits prod.splits)
  then obtain sk where sk: "decode s = sk @ st" "accepts icase r (start_at (last_rune None sk) st) q"
    "\<forall>k<length sk. \<forall>u. \<not> accepts icase r (start_at (last_rune None (take k (decode s))) (drop k (decode s))) u"
    using search_Some by blast
  obtain used where u: "st = used @ mp_ahead q" "pieces [] used (mp_groups q)"
    using accepts_consumes[OF sk(2)] by (auto simp: start_at_def)
  have m: "m = source used" using sq(2) u(1) by (simp add: consumed_def)
  have "source (decode s) = source sk @ m @ source (mp_ahead q)" using sk(1) u(1) m by simp
  then have e: "s = source (take (length sk) (decode s)) @ m @ source (mp_ahead q)"
    unfolding decode_source using sk(1) by simp
  have g: "sublist (groups n) m" for n
    using u(2) m by (force simp: sq(3) pieces_def dest: map_of_SomeD split: option.splits)
  show thesis
    by (rule that[of "length sk" q]) (use sk e g in \<open>auto simp: accepted_at_def\<close>)
qed

lemma find_submatch_piece:
  assumes "find_submatch icase r s = Some (m, groups)"
  shows "sublist m s \<and> (\<forall>n. sublist (groups n) m)"
proof (rule find_submatch_Some[OF assms])
  fix k q
  assume "s = source (take k (decode s)) @ m @ source (mp_ahead q)" "\<And>n. sublist (groups n) m"
  then show ?thesis by (metis sublist_appendI)
qed

lemma find_submatch_None:
  "find_submatch icase r s = None \<Longrightarrow> k \<le> length (decode s) \<Longrightarrow> \<not> accepted_at icase r (decode s) k q"
  using search_None[of icase r None "decode s" k q]
  by (auto simp: find_submatch_def accepted_at_def split: option.splits)

subsection \<open>The first match of an expression\<close>

definition first :: "bool \<Rightarrow> regex \<Rightarrow> position \<Rightarrow> position option" where
  "first icase r p = (case matches icase r p of [] \<Rightarrow> None | q # _ \<Rightarrow> Some q)"

lemma first_Some: "first icase r p = Some q \<longleftrightarrow> (\<exists>qs. matches icase r p = q # qs)"
  by (auto simp: first_def split: list.splits)

lemma first_Seq: "first icase a p = Some m \<Longrightarrow> first icase b m = Some q \<Longrightarrow> first icase (Seq a b) p = Some q"
  by (auto simp: first_Some)

lemma first_Group:
  "first icase a p = Some q \<Longrightarrow>
   first icase (Group n a) p = Some (q\<lparr>mp_groups := (n, consumed (mp_ahead p) (mp_ahead q)) # mp_groups q\<rparr>)"
  by (auto simp: first_Some)

lemma search_first: "first icase r (start_at prev s) = Some q \<Longrightarrow> search icase r prev s = Some (s, q)"
  by (subst search.simps) (auto simp: first_Some start_at_def)

definition move :: "position \<Rightarrow> string \<Rightarrow> runes \<Rightarrow> position" where
  "move p s rest = p\<lparr>mp_before := (if s = [] then mp_before p else Some (of_char (last s))), mp_ahead := rest\<rparr>"

lemma move_groups [simp]: "mp_groups (move p s rest) = mp_groups p" by (simp add: move_def)
lemma move_ahead [simp]: "mp_ahead (move p s rest) = rest" by (simp add: move_def)

lemma move_move [simp]: "move (move p s x) t y = move p (s @ t) y"
  by (auto simp: move_def)

lemma first_Chars:
  assumes "mp_ahead p = plain [c] @ rest" and "in_class icase neg cs (of_char c)"
  shows "first icase (Chars neg cs) p = Some (move p [c] rest)"
  using assms by (auto simp: first_Some step_class_def plain_def move_def)

lemma plain_Cons: "plain (c # s) = plain [c] @ plain s" by (simp add: plain_def)

lemma in_class_one: "in_class icase False [(of_char c, of_char c)] (of_char c)"
  by (simp add: in_class_def in_ranges_def)

lemma first_lit: "mp_ahead p = plain s @ rest \<Longrightarrow> first icase (lit s) p = Some (move p s rest)"
proof (induction s arbitrary: p)
  case Nil
  then show ?case by (simp add: lit_def first_def move_def plain_def)
next
  case (Cons c s)
  have c: "first icase (one c) p = Some (move p [c] (plain s @ rest))"
    unfolding one_def using Cons.prems by (intro first_Chars) (auto simp: plain_Cons[of c s] in_class_one simp del: plain_Cons)
  show ?case
  proof (cases s)
    case Nil
    then show ?thesis using c by (simp add: lit_def plain_def)
  next
    case (Cons d t)
    have "first icase (lit s) (move p [c] (plain s @ rest)) = Some (move p (c # s) rest)"
      using Cons.IH[of "move p [c] (plain s @ rest)"] by simp
    then show ?thesis using first_Seq[OF c] Cons by (simp add: lit_def)
  qed
qed

text \<open>A greedy class takes every rune of the class and stops before the first that is not.\<close>

definition stops :: "bool \<Rightarrow> bool \<Rightarrow> (rune \<times> rune) list \<Rightarrow> runes \<Rightarrow> bool" where
  "stops icase neg cs rest \<longleftrightarrow> (case rest of [] \<Rightarrow> True | (r, _) # _ \<Rightarrow> \<not> in_class icase neg cs r)"

lemma star_class:
  assumes "\<forall>c\<in>set s. in_class icase neg cs (of_char c)" and "stops icase neg cs rest"
  shows "mp_ahead p = plain s @ rest \<Longrightarrow> length s \<le> n \<Longrightarrow> \<exists>qs. star (step_class icase neg cs) n p = move p s rest # qs"
  using assms(1)
proof (induction s arbitrary: p n)
  case Nil
  have "step_class icase neg cs p = []"
    using Nil assms(2) by (auto simp: step_class_def stops_def plain_def split: list.splits)
  then show ?case using Nil by (cases n) (auto simp: move_def plain_def)
next
  case (Cons c s)
  obtain m where n: "n = Suc m" using Cons.prems by (cases n) auto
  have st: "step_class icase neg cs p = [move p [c] (plain s @ rest)]"
    using Cons.prems by (auto simp: step_class_def plain_def move_def)
  obtain qs where "star (step_class icase neg cs) m (move p [c] (plain s @ rest)) = move p (c # s) rest # qs"
    using Cons.IH[of "move p [c] (plain s @ rest)" m] Cons.prems n by auto
  then show ?case using Cons.prems by (simp add: n st plain_def)
qed

lemma first_Plus:
  assumes "mp_ahead p = plain s @ rest" and "s \<noteq> []"
    and "\<forall>c\<in>set s. in_class icase neg cs (of_char c)" and "stops icase neg cs rest"
  shows "first icase (Plus (Chars neg cs)) p = Some (move p s rest)"
proof -
  obtain c t where s: "s = c # t" using assms(2) by (cases s) auto
  have a: "first icase (Chars neg cs) p = Some (move p [c] (plain t @ rest))"
    using assms s by (intro first_Chars) (auto simp: plain_def)
  have eta: "matches icase (Chars neg cs) = step_class icase neg cs" by (rule ext) simp
  have "first icase (Star (Chars neg cs)) (move p [c] (plain t @ rest)) = Some (move p s rest)"
    using star_class[of t icase neg cs rest "move p [c] (plain t @ rest)" "length (plain t @ rest)"] assms s
    by (auto simp: first_Some plain_def eta simp del: matches.simps(2))
  then show ?thesis unfolding Plus_def using a by (rule first_Seq[rotated])
qed

end
