(* ===== verification/ServiceProbes.thy ===== *)
theory ServiceProbes
  imports OtProbe Regex
begin

unbundle bit_operations_syntax

text \<open>
  \<open>internal/service/engine.go\<close>: what an open port is taken for.  The active probes are
  functions of the peer's reply (\<open>None\<close> when writing or reading fails), the readers of
  banners and HTTP headers of the text received.  Go iterates the table of operating
  systems in an arbitrary order, which is an argument.  \<open>cert_registry.go\<close> and the
  verdicts of \<open>http_posture.go\<close> follow.
\<close>

record ServiceInfo =
  svc_Name :: string
  svc_Version :: string
  svc_Banner :: string
  svc_OS :: string
  svc_Findings :: "string list"

definition service :: "string \<Rightarrow> string \<Rightarrow> string \<Rightarrow> string list \<Rightarrow> ServiceInfo" where
  "service name version banner findings =
     \<lparr>svc_Name = name, svc_Version = version, svc_Banner = banner, svc_OS = [], svc_Findings = findings\<rparr>"

subsection \<open>Reading banners\<close>

definition osRegexps :: "(string \<times> string list) list" where
  "osRegexps =
     [(''ubuntu'', [''ubuntu'', ''ubuntudeb'']), (''debian'', [''debian'', ''deb'']), (''alpine'', [''alpine'']),
      (''centos'', [''centos'']), (''amazon'', [''amazon linux'', ''amzn'']), (''windows'', [''windows'', ''winnt'']),
      (''freebsd'', [''freebsd''])]"

definition os_matches :: "string \<Rightarrow> string \<Rightarrow> bool" where
  "os_matches banner os =
     (case map_of osRegexps os of None \<Rightarrow> False | Some ws \<Rightarrow> list_ex (contains_str (to_lower banner)) ws)"

definition extractOSFromBanner :: "string list \<Rightarrow> string \<Rightarrow> string" where
  "extractOSFromBanner order banner =
     (case filter (os_matches banner) order of [] \<Rightarrow> ''unknown'' | os # rest \<Rightarrow> os)"

definition os_order :: "string list \<Rightarrow> bool" where
  "os_order order \<longleftrightarrow> distinct order \<and> set order = fst ` set osRegexps"

definition parseServerHeaderValue :: "string list \<Rightarrow> string \<Rightarrow> string \<times> string \<times> string" where
  "parseServerHeaderValue order value =
     (let os = extractOSFromBanner order value in
      case split_fields value of
        [] \<Rightarrow> ([], [], os)
      | p # ps \<Rightarrow>
          (case split_on (CHR ''/'') p of
             a # b # parts \<Rightarrow> (to_lower a, b, os)
           | _ \<Rightarrow> ([], [], os)))"

definition http_line_end :: string where "http_line_end = [CHR 0x0D, CHR 0x0A]"

text \<open>\<open>strings.Split\<close> on the line end; every cut shortens the text.\<close>

function http_lines :: "string \<Rightarrow> string list" where
  "http_lines s =
     (case cut_str http_line_end s of
        (a, b, found) \<Rightarrow> if found \<and> length b < length s then a # http_lines b else [s])"
  by pat_completeness auto
termination by (relation "measure length") auto

declare http_lines.simps [simp del]

text \<open>The position found in the lower-cased response cuts the response itself: \<open>None\<close> is the
  slice-bounds panic, \<open>Some None\<close> that the page is no such error page.\<close>

definition error_page ::
  "(rune \<Rightarrow> rune) \<Rightarrow> string list \<Rightarrow> string \<Rightarrow> string \<Rightarrow> string \<Rightarrow> string \<Rightarrow> string \<Rightarrow> (string \<times> string \<times> string \<times> string) option option" where
  "error_page ulower order tag mark stop software resp =
     (case index_str (go_lower ulower resp) (tag @ mark) of
        None \<Rightarrow> Some None
      | Some i \<Rightarrow>
          (case slice resp (i + length tag) (length resp) of
             None \<Rightarrow> None
           | Some signature \<Rightarrow>
               Some (case index_str signature stop of
                  None \<Rightarrow> None
                | Some j \<Rightarrow>
                    (let banner = take j signature in
                     case split_on (CHR ''/'') banner of
                       a # b # parts \<Rightarrow> Some (banner, software, trim_space b, extractOSFromBanner order banner)
                     | _ \<Rightarrow> None))))"

definition extractServerHeader :: "(rune \<Rightarrow> rune) \<Rightarrow> string list \<Rightarrow> string \<Rightarrow> (string \<times> string \<times> string \<times> string) option" where
  "extractServerHeader ulower order resp =
     (case filter (\<lambda>line. has_prefix (go_lower ulower line) ''server:'') (http_lines resp) of
        line # rest \<Rightarrow> (let banner = trim_space (drop 7 line) in Some (banner, parseServerHeaderValue order banner))
      | [] \<Rightarrow>
          (case error_page ulower order ''<address>'' ''apache/'' '' '' ''apache'' resp of
             None \<Rightarrow> None
           | Some (Some r) \<Rightarrow> Some r
           | Some None \<Rightarrow>
               (case error_page ulower order ''<center>'' ''nginx/'' ''<'' ''nginx'' resp of
                  None \<Rightarrow> None
                | Some (Some r) \<Rightarrow> Some r
                | Some None \<Rightarrow> Some ([], [], [], ''unknown''))))"

definition parseSSHVersion :: "string \<Rightarrow> string" where
  "parseSSHVersion banner =
     (case index_str banner ''OpenSSH_'' of
        None \<Rightarrow> []
      | Some i \<Rightarrow> takeWhile (\<lambda>c. c \<noteq> CHR '' '') (drop (i + 8) banner))"

definition default_ports :: "(int \<times> string) list" where
  "default_ports =
    [(623, ''ipmi''), (1883, ''mqtt''), (5683, ''coap''), (8883, ''mqtt-tls''), (21, ''ftp''),
     (22, ''ssh''), (23, ''telnet''), (25, ''smtp''), (53, ''domain''), (80, ''http''),
     (110, ''pop3''), (139, ''netbios-ssn''), (143, ''imap''), (443, ''https''), (445, ''microsoft-ds''),
     (3306, ''mysql''), (3389, ''ms-wbt-server''), (5432, ''postgresql''), (6379, ''redis''), (8080, ''http-proxy''),
     (5900, ''vnc''), (11211, ''memcached''), (27017, ''mongodb''), (102, ''s7comm''), (502, ''modbus''),
     (789, ''crimson''), (1089, ''foundation-fieldbus''), (1091, ''foundation-fieldbus''), (1911, ''niagara-fox''), (4911, ''niagara-fox''),
     (1962, ''pcworx''), (2222, ''ethernet-ip''), (2404, ''iec-104''), (2455, ''codesys''), (4840, ''opcua''),
     (9600, ''omron-fins''), (20000, ''dnp3''), (20547, ''proconos''), (34962, ''profinet''), (34964, ''profinet''),
     (44818, ''ethernet-ip''), (47808, ''bacnet'')]"

definition resolveDefaultPortName :: "int \<Rightarrow> string" where
  "resolveDefaultPortName port = (case map_of default_ports port of None \<Rightarrow> ''unknown'' | Some n \<Rightarrow> n)"

definition parseMySQLHandshake :: "bytes \<Rightarrow> string option" where
  "parseMySQLHandshake b =
     (if length b < 6 \<or> b ! 3 \<noteq> 0x00 \<or> b ! 4 \<noteq> 0x0A then None
      else
        (let rest = drop 5 b; version = takeWhile (\<lambda>x. x \<noteq> 0) rest in
         if version = rest \<or> version = [] then None else Some (text_of version)))"

definition firstLine :: "string \<Rightarrow> string" where
  "firstLine s = takeWhile (\<lambda>c. c \<noteq> CHR 0x0D \<and> c \<noteq> CHR 0x0A) s"

subsection \<open>Active probes\<close>

text \<open>The buffer after a read: the bytes received and zeros behind them.\<close>

definition buffer :: "nat \<Rightarrow> bytes \<Rightarrow> bytes" where
  "buffer bufLen r = r @ replicate (bufLen - length r) 0"

definition le16_at :: "bytes \<Rightarrow> nat \<Rightarrow> u16" where "le16_at b i = get16 [b ! (i + 1), b ! i]"
definition le32_at :: "bytes \<Rightarrow> nat \<Rightarrow> u32" where "le32_at b i = get32 [b ! (i + 3), b ! (i + 2), b ! (i + 1), b ! i]"

definition mqttConnect :: bytes where
  "mqttConnect = [0x10, 0x12, 0x00, 0x04] @ bytes_of ''MQTT'' @ [0x04, 0x02, 0x00, 0x3C, 0x00, 0x06] @ bytes_of ''tcpcat''"

definition probeMQTT :: "bytes option \<Rightarrow> ServiceInfo option" where
  "probeMQTT reply =
     (case read_reply 8 reply of
        None \<Rightarrow> None
      | Some r \<Rightarrow>
          (let buf = buffer 8 r in
           if length r < 2 \<or> buf ! 0 \<noteq> 0x20 then None
           else Some (service ''mqtt'' [] ''MQTT (CONNACK)''
                  (if 4 \<le> length r \<and> buf ! 3 = 0x00 then [''MQTT broker accepts anonymous connections''] else []))))"

definition redis_version :: "string \<Rightarrow> string" where
  "redis_version resp =
     (case index_str resp ''redis_version:'' of
        None \<Rightarrow> []
      | Some i \<Rightarrow> (let rest = drop (i + 14) resp; v = firstLine rest in if v = rest then [] else v))"

definition probeRedis :: "bytes option \<Rightarrow> ServiceInfo option" where
  "probeRedis reply =
     (case read_reply 4096 reply of
        None \<Rightarrow> None
      | Some r \<Rightarrow>
          (let resp = text_of r in
           if r = [] \<or> (\<not> has_prefix resp ''$'' \<and> \<not> has_prefix resp ''-'') then None
           else Some (service ''redis'' (redis_version resp) (sanitizeBanner (trim_space (firstLine resp))) [])))"

definition probeMemcached :: "bytes option \<Rightarrow> ServiceInfo option" where
  "probeMemcached reply =
     (case read_reply 256 reply of
        None \<Rightarrow> None
      | Some r \<Rightarrow>
          (let resp = trim_space (text_of r) in
           if r = [] \<or> \<not> has_prefix resp ''VERSION '' then None
           else Some (service ''memcached'' (trim_prefix resp ''VERSION '') (sanitizeBanner resp) [])))"

definition postgresRequest :: bytes where "postgresRequest = [0x00, 0x00, 0x00, 0x08, 0x04, 0xD2, 0x16, 0x2F]"

definition probePostgres :: "bytes option \<Rightarrow> ServiceInfo option" where
  "probePostgres reply =
     (case read_reply 1 reply of
        None \<Rightarrow> None
      | Some [] \<Rightarrow> None
      | Some (b # bs) \<Rightarrow>
          if b = of_char (CHR ''S'') then Some (service ''postgresql'' [] ''PostgreSQL, SSL supported'' [])
          else if b = of_char (CHR ''N'') then
            Some (service ''postgresql'' [] ''PostgreSQL, SSL not offered''
              [''PostgreSQL does not offer TLS -- authentication and all data travel in plaintext''])
          else None)"

definition smb2DialectNames :: "u16 \<Rightarrow> string option" where
  "smb2DialectNames d =
     map_of [(0x0202, ''SMB 2.0.2''), (0x0210, ''SMB 2.1''), (0x0300, ''SMB 3.0''), (0x0302, ''SMB 3.0.2''), (0x0311, ''SMB 3.1.1'')] d"

text \<open>The NetBIOS header: a zero byte and the length in three bytes.\<close>

definition netbios_packet :: "bytes \<Rightarrow> bytes" where
  "netbios_packet msg = (let n = length msg in [0x00, of_nat (n div 65536), of_nat (n div 256), of_nat n] @ msg)"

definition buildSMB2NegotiateRequest :: bytes where
  "buildSMB2NegotiateRequest =
     (let body = [36, 0] @ [2, 0] @ [0, 0] @ [0, 0] @ [0, 0, 0, 0] @ replicate 16 0 @ replicate 8 0 @ [0x02, 0x02] @ [0x10, 0x02];
          header = (0xFE # bytes_of ''SMB'') @ [64, 0] @ [0, 0] @ [0, 0, 0, 0] @ [0, 0] @ [1, 0] @ [0, 0, 0, 0] @ [0, 0, 0, 0]
            @ replicate 8 0 @ [0, 0, 0, 0] @ [0, 0, 0, 0] @ replicate 8 0 @ replicate 16 0
      in netbios_packet (header @ body))"

definition buildSMB1NegotiateRequest :: bytes where
  "buildSMB1NegotiateRequest =
     (let dialectBuf = 0x02 # bytes_of ''NT LM 0.12'' @ [0x00]; n = length dialectBuf;
          body = [0] @ [of_nat n, of_nat (n div 256)] @ dialectBuf;
          header = (0xFF # bytes_of ''SMB'') @ [0x72] @ [0, 0, 0, 0] @ [0x00] @ [0x00, 0x00] @ [0, 0] @ replicate 8 0
            @ [0, 0] @ [0, 0] @ [0, 0] @ [0, 0] @ [0, 0]
      in netbios_packet (header @ body))"

text \<open>The separate connection that offers SMB 1; \<open>None\<close> when any of its steps fails.\<close>

definition smbv1Enabled :: "bytes option \<Rightarrow> bool" where
  "smbv1Enabled reply =
     (case read_reply 128 reply of
        None \<Rightarrow> False
      | Some r \<Rightarrow>
          (let buf = buffer 128 r in
           4 + 32 + 1 \<le> length r \<and> take 4 (drop 4 buf) = 0xFF # bytes_of ''SMB''
           \<and> le32_at buf 9 = 0 \<and> buf ! (4 + 32) > 0))"

definition smb_signing :: "u16 \<Rightarrow> string" where
  "smb_signing securityMode =
     (if securityMode AND 0x02 \<noteq> 0 then ''SMB signing is required''
      else if securityMode AND 0x01 \<noteq> 0
        then ''SMB signing is enabled but not required (a downgrade/relay attack can still disable it)''
      else ''SMB signing is not enabled -- sessions are vulnerable to relay/tampering'')"

definition probeSMB :: "bytes option \<Rightarrow> bytes option \<Rightarrow> ServiceInfo option" where
  "probeSMB reply reply1 =
     (case read_reply 512 reply of
        None \<Rightarrow> None
      | Some r \<Rightarrow>
          (let buf = buffer 512 r in
           if length r < 4 + 64 + 6 \<or> take 4 (drop 4 buf) \<noteq> 0xFE # bytes_of ''SMB'' then None
           else
             (case smb2DialectNames (le16_at buf (4 + 64 + 4)) of
                None \<Rightarrow> None
              | Some dialectName \<Rightarrow>
                  Some (service ''microsoft-ds'' [] (sanitizeBanner dialectName)
                    ([''SMB dialect negotiated: '' @ dialectName, smb_signing (le16_at buf (4 + 64 + 2))]
                     @ (if smbv1Enabled reply1 then [''SMBv1 (insecure, deprecated since 2014) is enabled''] else []))))))"

definition rdpProtocolNames :: "u32 \<Rightarrow> string option" where
  "rdpProtocolNames p =
     map_of [(0, ''Standard RDP Security''), (1, ''TLS''), (2, ''CredSSP (NLA)''),
             (8, ''CredSSP with Early User Auth (NLA extended)'')] p"

definition rdpRequest :: bytes where
  "rdpRequest = [0x03, 0x00, 0x00, 0x13, 0x0E, 0xE0, 0x00, 0x00, 0x00, 0x00, 0x00, 0x01, 0x00, 0x08, 0x00, 0x03, 0x00, 0x00, 0x00]"

definition probeRDP :: "bytes option \<Rightarrow> ServiceInfo option" where
  "probeRDP reply =
     (case read_reply 256 reply of
        None \<Rightarrow> None
      | Some r \<Rightarrow>
          (let buf = buffer 256 r in
           if length r < 4 \<or> buf ! 0 \<noteq> 0x03 \<or> buf ! 1 \<noteq> 0x00 then None
           else Some (service ''ms-wbt-server''
                  (if 4 + 7 + 8 \<le> length r
                   then (case rdpProtocolNames (le32_at buf (4 + 7 + 4)) of None \<Rightarrow> [] | Some n \<Rightarrow> n) else [])
                  ''RDP (X.224 Connection Confirm)'' [])))"

definition activeProbe :: "int \<Rightarrow> bytes option \<Rightarrow> bytes option \<Rightarrow> ServiceInfo option" where
  "activeProbe port reply reply1 =
     (if port = 6379 then probeRedis reply
      else if port = 11211 then probeMemcached reply
      else if port = 5432 then probePostgres reply
      else if port = 445 then probeSMB reply reply1
      else if port = 3389 then probeRDP reply
      else if port = 1883 then probeMQTT reply
      else None)"

subsection \<open>Certificates seen on several hosts\<close>

record CertObservation =
  co_Host :: string
  co_Port :: int
  co_JARM :: string

type_synonym cert_registry = "string \<rightharpoonup> CertObservation list"

definition RecordCertObservation :: "string \<Rightarrow> string \<Rightarrow> int \<Rightarrow> string \<Rightarrow> cert_registry \<Rightarrow> cert_registry" where
  "RecordCertObservation fingerprint host port jarm reg =
     (if fingerprint = [] then reg
      else reg(fingerprint \<mapsto> (case reg fingerprint of None \<Rightarrow> [] | Some os \<Rightarrow> os)
             @ [\<lparr>co_Host = host, co_Port = port, co_JARM = jarm\<rparr>]))"

definition ResetCertRegistry :: cert_registry where "ResetCertRegistry = Map.empty"

text \<open>\<open>order\<close> is the order in which Go iterates the registry.\<close>

definition FindReusedCertificates :: "string list \<Rightarrow> cert_registry \<Rightarrow> (string \<times> CertObservation list) list" where
  "FindReusedCertificates order reg =
     List.map_filter (\<lambda>fp. case reg fp of
         None \<Rightarrow> None
       | Some os \<Rightarrow> if length (dedup (map co_Host os)) > 1 then Some (fp, os) else None) order"

subsection \<open>The verdicts of the HTTP audit\<close>

record HTTPPostureInfo =
  hp_MissingHeaders :: "string list"
  hp_ExposedPaths :: "string list"
  hp_Warnings :: "string list"
  hp_Server :: string
  hp_Software :: string
  hp_Version :: string
  hp_OS :: string

definition securityHeaderChecks :: "string list" where
  "securityHeaderChecks =
     [''Content-Security-Policy'', ''X-Frame-Options'', ''X-Content-Type-Options'', ''Referrer-Policy'']"

definition sensitivePaths :: "(string \<times> (string \<Rightarrow> bool) \<times> string) list" where
  "sensitivePaths =
     [(''/.git/HEAD'', (\<lambda>body. contains_str body ''ref:''), ''Git repository exposed (.git/HEAD readable)''),
      (''/.git/config'', (\<lambda>body. contains_str body ''[core]''), ''Git repository exposed (.git/config readable)''),
      (''/.env'', (\<lambda>body. \<not> contains_str (to_lower body) ''<html'' \<and> \<not> contains_str (to_lower body) ''<!doctype''
          \<and> contains_str body ''=''), ''.env file exposed'')]"

definition sensitivePathBodyLimit :: nat where "sensitivePathBodyLimit = 4096"

text \<open>\<open>root\<close> are the headers of the front page, \<open>get\<close> the status and body of a path;
  \<open>None\<close> when the request failed.\<close>

definition exposed :: "(string \<Rightarrow> (int \<times> string) option) \<Rightarrow> (string \<times> string) list" where
  "exposed get =
     List.map_filter (\<lambda>(path, signature, label).
         case get path of
           None \<Rightarrow> None
         | Some (status, body) \<Rightarrow>
             if status = 200 \<and> signature (take sensitivePathBodyLimit body) then Some (path, label) else None)
       sensitivePaths"

definition probeHTTPPosture ::
  "string list \<Rightarrow> bool \<Rightarrow> (string \<Rightarrow> string) option \<Rightarrow> (string \<Rightarrow> (int \<times> string) option) \<Rightarrow> HTTPPostureInfo option" where
  "probeHTTPPosture order useTLS root get =
     (case root of
        None \<Rightarrow> None
      | Some header \<Rightarrow>
          (let server = header ''Server'';
               (software, version, os) = (if server = [] then ([], [], []) else parseServerHeaderValue order server);
               missing = (if useTLS \<and> header ''Strict-Transport-Security'' = [] then [''Strict-Transport-Security''] else [])
                 @ filter (\<lambda>h. header h = []) securityHeaderChecks;
               ex = exposed get
           in Some \<lparr>hp_MissingHeaders = missing, hp_ExposedPaths = map fst ex,
                    hp_Warnings = map (\<lambda>h. ''missing security header: '' @ h) missing @ map snd ex,
                    hp_Server = server, hp_Software = software, hp_Version = version, hp_OS = os\<rparr>))"

subsection \<open>The order of the table of systems matters\<close>

lemma extract_in_order:
  assumes "os_order order"
  shows "extractOSFromBanner order banner = ''unknown'' \<or> os_matches banner (extractOSFromBanner order banner)"
  by (cases "filter (os_matches banner) order") (auto simp: extractOSFromBanner_def dest: filter_eq_ConsD)

lemma os_matches_known: "os_matches banner os \<Longrightarrow> os \<in> fst ` set osRegexps \<and> os \<noteq> ''unknown''"
proof -
  assume "os_matches banner os"
  then obtain ws where "map_of osRegexps os = Some ws" by (auto simp: os_matches_def split: option.splits)
  then have "(os, ws) \<in> set osRegexps" by (rule map_of_SomeD)
  moreover have "''unknown'' \<notin> fst ` set osRegexps" by (simp add: osRegexps_def)
  ultimately show ?thesis by force
qed

lemma os_order_from: "os \<in> fst ` set osRegexps \<Longrightarrow> \<exists>rest. os_order (os # rest)"
proof -
  assume os: "os \<in> fst ` set osRegexps"
  have "distinct (map fst osRegexps)" by (simp add: osRegexps_def)
  then have "os_order (os # remove1 os (map fst osRegexps))"
    using os by (auto simp: os_order_def set_remove1_eq)
  then show ?thesis by blast
qed

lemma extract_first: "os_matches banner os \<Longrightarrow> extractOSFromBanner (os # rest) banner = os"
  by (simp add: extractOSFromBanner_def)

text \<open>The operating system read from a banner does not depend on the order in which Go
  iterates its table exactly when at most one entry of the table matches the banner.\<close>

theorem banner_os_is_order_dependent:
  "(\<forall>o1 o2. os_order o1 \<and> os_order o2 \<longrightarrow> extractOSFromBanner o1 banner = extractOSFromBanner o2 banner)
   \<longleftrightarrow> (\<forall>a c. os_matches banner a \<and> os_matches banner c \<longrightarrow> a = c)"
proof (intro iffI allI impI)
  fix a c
  assume same: "\<forall>o1 o2. os_order o1 \<and> os_order o2 \<longrightarrow> extractOSFromBanner o1 banner = extractOSFromBanner o2 banner"
    and m: "os_matches banner a \<and> os_matches banner c"
  obtain r1 r2 where o: "os_order (a # r1)" "os_order (c # r2)" using os_order_from os_matches_known m by metis
  then have "extractOSFromBanner (a # r1) banner = extractOSFromBanner (c # r2) banner" using same by blast
  then show "a = c" using extract_first [of banner a r1] extract_first [of banner c r2] m by simp
next
  fix o1 o2
  assume one: "\<forall>a c. os_matches banner a \<and> os_matches banner c \<longrightarrow> a = c" and o: "os_order o1 \<and> os_order o2"
  have found: "extractOSFromBanner order banner = os" if "os_order order" "os_matches banner os" for order os
  proof -
    have "os \<in> set (filter (os_matches banner) order)" using that os_matches_known by (auto simp: os_order_def)
    then obtain x xs where "filter (os_matches banner) order = x # xs" by (cases "filter (os_matches banner) order") auto
    moreover from this have "os_matches banner x" by (auto dest: filter_eq_ConsD)
    ultimately show ?thesis using one that(2) by (simp add: extractOSFromBanner_def)
  qed
  show "extractOSFromBanner o1 banner = extractOSFromBanner o2 banner"
  proof (cases "\<exists>os. os_matches banner os")
    case True
    then show ?thesis using found o by metis
  next
    case False
    then show ?thesis by (simp add: extractOSFromBanner_def)
  qed
qed

theorem banner_os_is_order_dependent_witness:
  "\<exists>o1 o2. os_order o1 \<and> os_order o2
     \<and> extractOSFromBanner o1 ''Ubuntu, debug build'' \<noteq> extractOSFromBanner o2 ''Ubuntu, debug build''"
proof -
  have "os_matches ''Ubuntu, debug build'' ''ubuntu''" "os_matches ''Ubuntu, debug build'' ''debian''" by code_simp+
  moreover have "''ubuntu'' \<noteq> ''debian''" by simp
  ultimately show ?thesis using banner_os_is_order_dependent [of "''Ubuntu, debug build''"] by blast
qed

subsection \<open>Reused certificates\<close>

definition observations :: "(string \<times> CertObservation) list \<Rightarrow> string \<Rightarrow> CertObservation list" where
  "observations seen fp = map snd (filter (\<lambda>x. fst x = fp) seen)"

definition registry_of :: "(string \<times> CertObservation) list \<Rightarrow> cert_registry" where
  "registry_of seen =
     fold (\<lambda>(fp, ob) reg. RecordCertObservation fp (co_Host ob) (co_Port ob) (co_JARM ob) reg) seen Map.empty"

lemma registry_snoc: "registry_of (seen @ [(fp, ob)]) = RecordCertObservation fp (co_Host ob) (co_Port ob) (co_JARM ob) (registry_of seen)"
  by (simp add: registry_of_def)

lemma registry_at:
  "registry_of seen fp = (if fp = [] \<or> observations seen fp = [] then None else Some (observations seen fp))"
proof (induction seen rule: rev_induct)
  case (snoc x seen)
  obtain fp' ob where x: "x = (fp', ob)" by (cases x)
  have "\<lparr>co_Host = co_Host ob, co_Port = co_Port ob, co_JARM = co_JARM ob\<rparr> = ob" by simp
  then show ?case using snoc unfolding x registry_snoc
    by (auto simp: RecordCertObservation_def observations_def)
qed (simp add: registry_of_def observations_def)

lemma two_distinct: "1 < length (dedup xs) \<longleftrightarrow> (\<exists>a \<in> set xs. \<exists>b \<in> set xs. a \<noteq> b)"
proof -
  have "length (dedup xs) = card (set xs)" by (metis distinct_card distinct_dedup set_dedup)
  then show ?thesis using card_le_Suc0_iff_eq [of "set xs"] by (auto simp: not_le[symmetric])
qed

text \<open>After any sequence of observations the reused certificates are exactly the non-empty
  fingerprints two different hosts served, each once and with all its observations in the
  order they were made.\<close>

theorem reused_certificates_are_found:
  assumes "distinct order" and "set order = dom (registry_of seen)"
  shows "(fp, os) \<in> set (FindReusedCertificates order (registry_of seen)) \<longleftrightarrow>
      fp \<noteq> [] \<and> os = observations seen fp
      \<and> (\<exists>a b. (fp, a) \<in> set seen \<and> (fp, b) \<in> set seen \<and> co_Host a \<noteq> co_Host b)"
    and "distinct (map fst (FindReusedCertificates order (registry_of seen)))"
proof -
  have hosts: "1 < length (dedup (map co_Host (observations seen fp))) \<longleftrightarrow>
      (\<exists>a b. (fp, a) \<in> set seen \<and> (fp, b) \<in> set seen \<and> co_Host a \<noteq> co_Host b)" for fp
    unfolding two_distinct by (force simp: observations_def)
  have mem: "fp \<in> set order \<longleftrightarrow> fp \<noteq> [] \<and> observations seen fp \<noteq> []" for fp
    using assms(2) by (auto simp: dom_def registry_at)
  have some: "(fp, a) \<in> set seen \<Longrightarrow> observations seen fp \<noteq> []" for fp a
    by (force simp: observations_def filter_empty_conv)
  show "(fp, os) \<in> set (FindReusedCertificates order (registry_of seen)) \<longleftrightarrow>
      fp \<noteq> [] \<and> os = observations seen fp
      \<and> (\<exists>a b. (fp, a) \<in> set seen \<and> (fp, b) \<in> set seen \<and> co_Host a \<noteq> co_Host b)"
    unfolding hosts [symmetric]
  proof
    assume "(fp, os) \<in> set (FindReusedCertificates order (registry_of seen))"
    then show "fp \<noteq> [] \<and> os = observations seen fp \<and> 1 < length (dedup (map co_Host (observations seen fp)))"
      by (auto simp: FindReusedCertificates_def map_filter_def registry_at split: if_splits)
  next
    assume a: "fp \<noteq> [] \<and> os = observations seen fp \<and> 1 < length (dedup (map co_Host (observations seen fp)))"
    then have ne: "observations seen fp \<noteq> []" by (auto simp: dedup_def)
    then have "registry_of seen fp = Some os" "fp \<in> set order" using a mem by (simp_all add: registry_at)
    then show "(fp, os) \<in> set (FindReusedCertificates order (registry_of seen))"
      using a by (force simp: FindReusedCertificates_def map_filter_def)
  qed
  have "map fst (FindReusedCertificates order reg) = filter (\<lambda>fp. case reg fp of None \<Rightarrow> False
      | Some os \<Rightarrow> length (dedup (map co_Host os)) > 1) order" for reg
    by (induction order) (auto simp: FindReusedCertificates_def List.map_filter_simps split: option.splits)
  then show "distinct (map fst (FindReusedCertificates order (registry_of seen)))" using assms(1) by simp
qed

subsection \<open>A refused RDP negotiation is read as an agreed one\<close>

text \<open>The reply's type byte is not looked at: a negotiation failure (type 3) with the code 2,
  ``SSL not allowed by server'', is reported as an agreement on CredSSP.\<close>

theorem rdp_failure_read_as_success:
  "\<exists>info. probeRDP (Some [0x03, 0x00, 0x00, 0x13, 0x0E, 0xD0, 0x00, 0x00, 0x12, 0x34, 0x00, 0x03, 0x00, 0x08, 0x00, 0x02, 0x00, 0x00, 0x00])
     = Some info \<and> svc_Version info = ''CredSSP (NLA)''"
  by (simp add: probeRDP_def read_reply_def buffer_def Let_def le32_at_def get32_def rdpProtocolNames_def service_def)

subsection \<open>A page that crashes the header reader\<close>

text \<open>Forty raw bytes before the address line of an error page move its position in the
  lower-cased text past the end of the response.\<close>

definition raw_page :: string where "raw_page = replicate 40 (CHR 0xFF) @ ''<address>apache/2''"

theorem server_header_panics:
  assumes "ulower 0xFFFD = 0xFFFD"
  shows "extractServerHeader ulower order raw_page = None"
proof -
  have d: "decode (replicate n (CHR 0xFF) @ ''<address>apache/2'') = replicate n (0xFFFD, [CHR 0xFF]) @ plain ''<address>apache/2''" for n
  proof (induction n)
    case 0
    show ?case by (code_simp)
  qed (simp add: decode_rune_def bad_rune_def)
  let ?low = "concat (replicate 40 [CHR 0xEF, CHR 0xBF, CHR 0xBD]) @ ''<address>apache/2''"
  have "go_lower ulower raw_page = concat (replicate 40 (encode_rune 0xFFFD)) @ map lower_char ''<address>apache/2''"
    unfolding go_lower_def raw_page_def d using assms by (simp add: plain_def)
  moreover have "encode_rune 0xFFFD = [CHR 0xEF, CHR 0xBF, CHR 0xBD]" by (simp add: encode_rune_def char_of_def bit_0)
  moreover have "map lower_char ''<address>apache/2'' = ''<address>apache/2''" by code_simp
  ultimately have low: "go_lower ulower raw_page = ?low" by simp
  have "index_str ?low (''<address>'' @ ''apache/'') = Some 120" by code_simp
  moreover have "slice raw_page (120 + length ''<address>'') (length raw_page) = None" by code_simp
  ultimately have "error_page ulower order ''<address>'' ''apache/'' '' '' ''apache'' raw_page = None"
    unfolding error_page_def low by simp
  moreover have "http_lines raw_page = [raw_page]" by code_simp
  moreover have "\<not> has_prefix ?low ''server:''" by code_simp
  ultimately show ?thesis unfolding extractServerHeader_def by (simp add: low)
qed

theorem server_header_panics_witness: "extractServerHeader id [''debian''] raw_page = None"
  by (rule server_header_panics) simp

end
