(* ===== verification/Signatures.thy ===== *)
theory Signatures
  imports Regex
begin

text \<open>
  \<open>internal/service/signatures.go\<close>: the table of banner signatures, tried in order.  Each is
  its expression, written with the constructors of the theory Regex, and whether it ignores case.
\<close>

record bannerSignature =
  sg_Name :: string
  sg_IgnoreCase :: bool
  sg_Pattern :: regex
  sg_Binary :: bool

definition exact_case :: "string \<Rightarrow> regex list \<Rightarrow> bannerSignature" where
  "exact_case name p = \<lparr>sg_Name = name, sg_IgnoreCase = False, sg_Pattern = seqs p, sg_Binary = False\<rparr>"

definition any_case :: "string \<Rightarrow> regex list \<Rightarrow> bannerSignature" where
  "any_case name p = \<lparr>sg_Name = name, sg_IgnoreCase = True, sg_Pattern = seqs p, sg_Binary = False\<rparr>"

definition binary_sig :: "string \<Rightarrow> regex list \<Rightarrow> bannerSignature" where
  "binary_sig name p = \<lparr>sg_Name = name, sg_IgnoreCase = True, sg_Pattern = seqs p, sg_Binary = True\<rparr>"

definition dotted :: regex where "dotted = Plus (chars (digits @ this ''.''))"
definition word_dots :: regex where "word_dots = Plus (chars (words @ this ''.''))"
definition non_digits :: regex where "non_digits = Star (not_chars digits)"
definition spaces :: regex where
  "spaces = Star (chars (this [CHR 0x09, CHR 0x0A, CHR 0x0C, CHR 0x0D, CHR '' '']))"

definition quote :: regex where "quote = one (CHR 0x22)"

definition bannerSignatures :: "bannerSignature list" where
  "bannerSignatures =
    [exact_case ''openssh'' [lit ''SSH-'', dotted, lit ''-OpenSSH'', chars (this ''_-''), Group 1 word_dots],
     exact_case ''dropbear'' [lit ''SSH-'', dotted, lit ''-dropbear'', Opt (chars (this ''_-'')), Opt (Group 1 word_dots)],
     exact_case ''libssh'' [lit ''SSH-'', dotted, lit ''-libssh'', chars (this ''_-''), Group 1 word_dots],
     any_case ''vsftpd'' [lit ''(vsFTPd '', Group 1 dotted, lit '')''],
     any_case ''proftpd'' [lit ''ProFTPD '', Group 1 (Seq dotted (Star (chars (words @ this ''.''))))],
     any_case ''pure-ftpd'' [lit ''Pure-FTPd''],
     any_case ''filezilla-ftp'' [lit ''FileZilla Server'', non_digits, Opt (Group 1 dotted)],
     any_case ''microsoft-ftpd'' [lit ''Microsoft FTP Service''],
     any_case ''postfix'' [WordBoundary, lit ''Postfix'', WordBoundary],
     any_case ''exim'' [WordBoundary, lit ''Exim '', Group 1 dotted],
     any_case ''sendmail'' [lit ''Sendmail'', non_digits, Group 1 (Seq dotted (Star (chars (words @ this ''./''))))],
     any_case ''microsoft-esmtp'' [lit ''Microsoft ESMTP MAIL Service'', non_digits, Opt (Group 1 dotted)],
     any_case ''dovecot'' [WordBoundary, lit ''Dovecot'', WordBoundary],
     any_case ''courier'' [lit ''Courier''],
     any_case ''nginx'' [lit ''nginx/'', Group 1 dotted],
     any_case ''apache'' [lit ''Apache/'', Group 1 dotted],
     any_case ''lighttpd'' [lit ''lighttpd/'', Group 1 dotted],
     any_case ''iis'' [lit ''Microsoft-IIS/'', Group 1 dotted],
     any_case ''caddy'' [WordBoundary, lit ''Caddy'', WordBoundary],
     any_case ''mongodb'' [lit ''MongoDB''],
     any_case ''elasticsearch'' [quote, lit ''version'', quote, spaces, lit '':'', spaces, lit ''{'', spaces,
        quote, lit ''number'', quote, spaces, lit '':'', spaces, quote, Group 1 dotted, quote],
     any_case ''rabbitmq'' [lit ''RabbitMQ''],
     binary_sig ''mariadb'' [Group 1 dotted, lit ''-MariaDB'', Star (chars (words @ this ''.:+~-''))],
     binary_sig ''telnet'' [StartText, Chars False [(0xFF, 0xFF)], Chars False [(0xFB, 0xFE)]]]"

text \<open>Name, version, matched text and whether the protocol is binary.\<close>

definition matchBannerSignature :: "string \<Rightarrow> (string \<times> string \<times> string \<times> bool) option" where
  "matchBannerSignature banner =
     (case List.map_filter (\<lambda>sg. map_option (\<lambda>(m, groups). (sg_Name sg, groups 1, m, sg_Binary sg))
                               (find_submatch (sg_IgnoreCase sg) (sg_Pattern sg) banner)) bannerSignatures of
        [] \<Rightarrow> None
      | r # _ \<Rightarrow> Some r)"

subsection \<open>What a match means\<close>

definition sig_matches :: "bannerSignature \<Rightarrow> string \<Rightarrow> bool" where
  "sig_matches sg banner \<longleftrightarrow> (\<exists>k q. k \<le> length (decode banner) \<and> accepted_at (sg_IgnoreCase sg) (sg_Pattern sg) (decode banner) k q)"

lemma find_matches: "(\<exists>r. find_submatch (sg_IgnoreCase sg) (sg_Pattern sg) banner = Some r) \<longleftrightarrow> sig_matches sg banner"
proof
  assume "\<exists>r. find_submatch (sg_IgnoreCase sg) (sg_Pattern sg) banner = Some r"
  then obtain m g where "find_submatch (sg_IgnoreCase sg) (sg_Pattern sg) banner = Some (m, g)" by force
  then show "sig_matches sg banner" by (rule find_submatch_Some) (auto simp: sig_matches_def)
next
  assume "sig_matches sg banner"
  then show "\<exists>r. find_submatch (sg_IgnoreCase sg) (sg_Pattern sg) banner = Some r"
    using find_submatch_None by (force simp: sig_matches_def)
qed

lemma map_filter_Cons_split:
  "List.map_filter f xs = y # ys \<Longrightarrow> \<exists>pre x post. xs = pre @ x # post \<and> f x = Some y \<and> (\<forall>z\<in>set pre. f z = None)"
proof (induction xs)
  case (Cons x xs)
  show ?case
  proof (cases "f x")
    case None
    then have "List.map_filter f xs = y # ys" using Cons.prems by (simp add: List.map_filter_def)
    then obtain pre z post where "xs = pre @ z # post" "f z = Some y" "\<forall>z\<in>set pre. f z = None" using Cons.IH by blast
    then show ?thesis using None by (intro exI[of _ "x # pre"]) auto
  next
    case (Some w)
    then show ?thesis using Cons.prems by (intro exI[of _ "[]"]) (auto simp: List.map_filter_def)
  qed
qed (simp add: List.map_filter_def)

text \<open>C39: the product a banner is given is the first of the table whose expression matches it in
  the declarative sense, the reported text is a piece of the banner and the version a piece of that.\<close>

theorem signature_is_the_first_match:
  assumes "matchBannerSignature banner = Some (name, version, matched, binary)"
  shows "\<exists>pre sg post. bannerSignatures = pre @ sg # post \<and> name = sg_Name sg \<and> binary = sg_Binary sg
    \<and> sig_matches sg banner \<and> (\<forall>s\<in>set pre. \<not> sig_matches s banner)
    \<and> sublist matched banner \<and> sublist version matched"
proof -
  define f where "f = (\<lambda>sg :: bannerSignature. map_option (\<lambda>(m, groups). (sg_Name sg, groups 1, m, sg_Binary sg))
               (find_submatch (sg_IgnoreCase sg) (sg_Pattern sg) banner))"
  obtain rs where "List.map_filter f bannerSignatures = (name, version, matched, binary) # rs"
    using assms by (auto simp: matchBannerSignature_def f_def split: list.splits)
  then obtain pre sg post where t: "bannerSignatures = pre @ sg # post" "f sg = Some (name, version, matched, binary)"
    "\<forall>z\<in>set pre. f z = None"
    by (blast dest: map_filter_Cons_split)
  obtain groups where g: "find_submatch (sg_IgnoreCase sg) (sg_Pattern sg) banner = Some (matched, groups)"
    "name = sg_Name sg" "version = groups 1" "binary = sg_Binary sg" using t(2) by (auto simp: f_def)
  have "sublist matched banner" "sublist version matched" using find_submatch_piece[OF g(1)] g(3) by auto
  moreover have "\<not> sig_matches z banner" if "z \<in> set pre" for z
  proof -
    have "find_submatch (sg_IgnoreCase z) (sg_Pattern z) banner = None" using t(3) that by (simp add: f_def)
    then show ?thesis using find_matches[of z banner] by simp
  qed
  moreover have "sig_matches sg banner" using g(1) find_matches by blast
  ultimately show ?thesis using t(1) g by blast
qed

subsection \<open>Versions out of SSH banners\<close>

definition in_chars :: "(char \<times> char) list \<Rightarrow> char \<Rightarrow> bool" where
  "in_chars cs c = in_class False False (map (\<lambda>(a, b). (of_char a, of_char b)) cs) (of_char c)"

lemma in_chars_ascii: "in_chars (words @ this ''.'') c \<Longrightarrow> of_char c < (128 :: nat)"
  "in_chars (digits @ this ''.'') c \<Longrightarrow> of_char c < (128 :: nat)"
  by (auto simp: in_chars_def in_class_def in_ranges_def)

definition ends_word :: "string \<Rightarrow> bool" where
  "ends_word rest \<longleftrightarrow> (case rest of [] \<Rightarrow> True | c # _ \<Rightarrow> of_char c < (128 :: nat) \<and> \<not> in_chars (words @ this ''.'') c)"

lemma ends_word_stops: "ends_word rest \<Longrightarrow> stops False False (map (\<lambda>(a, b). (of_char a, of_char b)) (words @ this ''.'')) (decode rest)"
proof (cases rest)
  case (Cons c t)
  assume "ends_word rest"
  then have "of_char c < (128 :: nat)" "\<not> in_chars (words @ this ''.'') c" using Cons by (auto simp: ends_word_def)
  then show ?thesis using Cons decode_ascii[of "[c]" t] by (simp add: ascii_def plain_def stops_def in_chars_def del: map_append)
qed (simp add: stops_def)

text \<open>An OpenSSH banner of any protocol version is reported as \<open>openssh\<close> with exactly the
  software version it carries, whatever follows it.\<close>

lemma openssh_version_is_read:
  assumes proto: "proto \<noteq> []" "\<forall>c\<in>set proto. in_chars (digits @ this ''.'') c"
    and version: "version \<noteq> []" "\<forall>c\<in>set version. in_chars (words @ this ''.'') c"
    and rest: "ends_word rest"
  shows "matchBannerSignature (''SSH-'' @ proto @ ''-OpenSSH_'' @ version @ rest)
    = Some (''openssh'', version, ''SSH-'' @ proto @ ''-OpenSSH_'' @ version, False)"
proof -
  define banner where "banner = ''SSH-'' @ proto @ ''-OpenSSH_'' @ version @ rest"
  define p0 where "p0 = start_at None (decode banner)"
  have asc: "ascii ''SSH-''" "ascii proto" "ascii ''-OpenSSH''" "ascii ''_''" "ascii version"
    using proto version in_chars_ascii by (auto simp: ascii_def)
  have "banner = ''SSH-'' @ proto @ ''-OpenSSH'' @ ''_'' @ version @ rest" by (simp add: banner_def)
  then have d: "decode banner = plain ''SSH-'' @ plain proto @ plain ''-OpenSSH'' @ plain ''_'' @ plain version @ decode rest"
    by (simp only: decode_ascii[OF asc(1)] decode_ascii[OF asc(2)] decode_ascii[OF asc(3)] decode_ascii[OF asc(4)] decode_ascii[OF asc(5)])
  have p0: "mp_ahead p0 = decode banner" "mp_groups p0 = []" by (simp_all add: p0_def start_at_def)
  define r4 where "r4 = plain version @ decode rest"
  define r3 where "r3 = plain ''_'' @ r4"
  define r2 where "r2 = plain ''-OpenSSH'' @ r3"
  define r1 where "r1 = plain proto @ r2"
  have d1: "decode banner = plain ''SSH-'' @ r1" by (simp only: d r1_def r2_def r3_def r4_def)
  have s1: "first False (lit ''SSH-'') p0 = Some (move p0 ''SSH-'' r1)"
    by (rule first_lit) (simp only: p0 d1)
  have stop2: "stops False False (map (\<lambda>(a, b). (of_char a, of_char b)) (digits @ this ''.'')) r2"
    by (simp add: r2_def stops_def plain_def in_class_def in_ranges_def)
  have s2: "first False dotted (move p0 ''SSH-'' r1) = Some (move p0 (''SSH-'' @ proto) r2)"
    unfolding dotted_def chars_def move_move[symmetric, where p = p0 and s = "''SSH-''" and x = r1 and t = proto and y = r2]
    by (rule first_Plus) (use proto stop2 in \<open>auto simp: in_chars_def r1_def\<close>)
  have s3: "first False (lit ''-OpenSSH'') (move p0 (''SSH-'' @ proto) r2) = Some (move p0 (''SSH-'' @ proto @ ''-OpenSSH'') r3)"
    using first_lit[of "move p0 (''SSH-'' @ proto) r2" "''-OpenSSH''" r3 False] by (simp add: r2_def)
  have s4: "first False (chars (this ''_-'')) (move p0 (''SSH-'' @ proto @ ''-OpenSSH'') r3)
      = Some (move p0 (''SSH-'' @ proto @ ''-OpenSSH_'') r4)"
    using first_Chars[of "move p0 (''SSH-'' @ proto @ ''-OpenSSH'') r3" "CHR ''_''" r4 False False]
    by (simp add: chars_def in_class_def in_ranges_def r3_def)
  define q where "q = move p0 (''SSH-'' @ proto @ ''-OpenSSH_'' @ version) (decode rest)"
  have s5: "first False word_dots (move p0 (''SSH-'' @ proto @ ''-OpenSSH_'') r4) = Some q"
    using first_Plus[of "move p0 (''SSH-'' @ proto @ ''-OpenSSH_'') r4" version "decode rest" False False
        "map (\<lambda>(a, b). (of_char a, of_char b)) (words @ this ''.'')"] version ends_word_stops[OF rest]
    unfolding word_dots_def chars_def in_chars_def q_def by (simp add: r4_def)
  have g: "first False (Group 1 word_dots) (move p0 (''SSH-'' @ proto @ ''-OpenSSH_'') r4)
      = Some (q\<lparr>mp_groups := [(1, version)]\<rparr>)"
    using first_Group[OF s5, of 1] by (simp add: consumed_def p0 q_def r4_def)
  let ?sg = "exact_case ''openssh'' [lit ''SSH-'', dotted, lit ''-OpenSSH'', chars (this ''_-''), Group 1 word_dots]"
  have "first False (sg_Pattern ?sg) p0 = Some (q\<lparr>mp_groups := [(1, version)]\<rparr>)"
    unfolding exact_case_def bannerSignature.simps seqs.simps
    by (rule first_Seq[OF s1 first_Seq[OF s2 first_Seq[OF s3 first_Seq[OF s4 g]]]])
  then have "search False (sg_Pattern ?sg) None (decode banner) = Some (decode banner, q\<lparr>mp_groups := [(1, version)]\<rparr>)"
    unfolding p0_def by (rule search_first)
  moreover have "consumed (decode banner) (mp_ahead q) = ''SSH-'' @ proto @ ''-OpenSSH_'' @ version"
    unfolding d consumed_def q_def by simp
  ultimately have "find_submatch (sg_IgnoreCase ?sg) (sg_Pattern ?sg) banner
      = Some (''SSH-'' @ proto @ ''-OpenSSH_'' @ version, \<lambda>n. case map_of [(1, version)] n of None \<Rightarrow> [] | Some g \<Rightarrow> g)"
    by (simp add: find_submatch_def exact_case_def)
  then show ?thesis unfolding banner_def[symmetric]
    by (simp add: matchBannerSignature_def bannerSignatures_def List.map_filter_simps exact_case_def)
qed

theorem signature_is_the_first_match_witness:
  "\<exists>pre sg post. bannerSignatures = pre @ sg # post \<and> ''openssh'' = sg_Name sg \<and> False = sg_Binary sg
    \<and> sig_matches sg ''SSH-2.0-OpenSSH_9.6p1 Ubuntu'' \<and> (\<forall>s\<in>set pre. \<not> sig_matches s ''SSH-2.0-OpenSSH_9.6p1 Ubuntu'')
    \<and> sublist ''SSH-2.0-OpenSSH_9.6p1'' ''SSH-2.0-OpenSSH_9.6p1 Ubuntu'' \<and> sublist ''9.6p1'' ''SSH-2.0-OpenSSH_9.6p1''"
proof (rule signature_is_the_first_match)
  show "matchBannerSignature ''SSH-2.0-OpenSSH_9.6p1 Ubuntu'' = Some (''openssh'', ''9.6p1'', ''SSH-2.0-OpenSSH_9.6p1'', False)"
    using openssh_version_is_read[of "''2.0''" "''9.6p1''" "'' Ubuntu''"]
    by (simp add: in_chars_def ends_word_def in_class_def in_ranges_def)
qed

subsection \<open>Raw telnet negotiation is not recognised\<close>

text \<open>The byte 0xFF is never valid UTF-8, so the expression sees U+FFFD where it asks for U+00FF.\<close>

theorem telnet_negotiation_is_missed:
  "\<not> sig_matches (binary_sig ''telnet'' [StartText, Chars False [(0xFF, 0xFF)], Chars False [(0xFB, 0xFE)]]) (CHR 0xFF # bs)"
proof -
  have d: "decode (CHR 0xFF # bs) = (0xFFFD, [CHR 0xFF]) # decode bs"
    by (simp add: decode_rune_def bad_rune_def)
  show ?thesis
    unfolding sig_matches_def d binary_sig_def accepted_at_def
    by (auto elim!: acc_elims simp: start_at_def last_rune_def in_class_def in_ranges_def orbit_def split: if_splits)
qed

end
