(* ===== verification/Tls.thy ===== *)
theory Tls
  imports Endian Hex
begin

text \<open>
  \<open>internal/service/tls.go\<close>: what the dedicated TLS handshake reports.  The handshake itself is
  done by \<open>crypto/tls\<close>: its connection state, the names it gives to cipher suites and curves, its
  list of insecure suites and the verification of a host name are arguments.
\<close>

definition VersionTLS10 :: u16 where "VersionTLS10 = 0x0301"
definition VersionTLS11 :: u16 where "VersionTLS11 = 0x0302"
definition VersionTLS12 :: u16 where "VersionTLS12 = 0x0303"
definition VersionTLS13 :: u16 where "VersionTLS13 = 0x0304"

definition X25519MLKEM768 :: u16 where "X25519MLKEM768 = 4588"
definition SecP256r1MLKEM768 :: u16 where "SecP256r1MLKEM768 = 4587"
definition SecP384r1MLKEM1024 :: u16 where "SecP384r1MLKEM1024 = 4589"

record certificate =
  ce_Subject :: string
  ce_Issuer :: string
  ce_SubjectCN :: string
  ce_IssuerCN :: string
  ce_NotAfter :: string
  ce_TimeLeft :: int
  ce_Raw :: string
  ce_DNSNames :: "string list"
  ce_IPAddresses :: "string list"
  ce_Verifies :: "string \<Rightarrow> bool"

record connection_state =
  cs_Version :: u16
  cs_CipherSuite :: u16
  cs_CurveID :: u16
  cs_PeerCertificates :: "certificate list"

record tls_library =
  tl_CipherSuiteName :: "u16 \<Rightarrow> string"
  tl_CurveName :: "u16 \<Rightarrow> string"
  tl_Insecure :: "u16 \<Rightarrow> bool"
  tl_Sha256 :: "string \<Rightarrow> bytes"

record TLSInfo =
  ti_Version :: string
  ti_CipherSuite :: string
  ti_PQCGroup :: string
  ti_PQCReady :: bool
  ti_CertSubject :: string
  ti_CertIssuer :: string
  ti_CertExpiresAt :: string
  ti_CertDaysLeft :: int
  ti_CertCritical :: bool
  ti_CertSANs :: "string list"
  ti_CertFingerprint :: string
  ti_SelfSigned :: bool
  ti_Weak :: bool
  ti_SupportedVersions :: "string list"
  ti_Warnings :: "string list"

definition certExpiryWarnDays :: int where "certExpiryWarnDays = 14"
definition certExpiryCriticalHours :: int where "certExpiryCriticalHours = 48"

text \<open>Durations in nanoseconds; the division of hours is done exactly.\<close>

definition hour :: int where "hour = 3600000000000"

definition tlsVersionName :: "u16 \<Rightarrow> string" where
  "tlsVersionName v =
     (if v = VersionTLS10 then ''TLS 1.0'' else if v = VersionTLS11 then ''TLS 1.1''
      else if v = VersionTLS12 then ''TLS 1.2'' else if v = VersionTLS13 then ''TLS 1.3''
      else ''0x'' @ hex_encode (put16 v))"

definition isWeakTLSVersion :: "u16 \<Rightarrow> bool" where "isWeakTLSVersion v \<longleftrightarrow> v < VersionTLS12"

definition isWeakCipherSuite :: "tls_library \<Rightarrow> u16 \<Rightarrow> bool" where "isWeakCipherSuite lib c = tl_Insecure lib c"

definition isPQCGroup :: "u16 \<Rightarrow> bool" where
  "isPQCGroup g \<longleftrightarrow> g = X25519MLKEM768 \<or> g = SecP256r1MLKEM768 \<or> g = SecP384r1MLKEM1024"

definition warn :: "string list \<Rightarrow> TLSInfo \<Rightarrow> TLSInfo" where
  "warn ws info = info\<lparr>ti_Warnings := ti_Warnings info @ ws\<rparr>"

definition version_findings :: "tls_library \<Rightarrow> connection_state \<Rightarrow> TLSInfo \<Rightarrow> TLSInfo" where
  "version_findings lib st info =
     (let i1 = (if isWeakTLSVersion (cs_Version st)
                then warn [ti_Version info @ '' is deprecated/insecure''] (info\<lparr>ti_Weak := True\<rparr>) else info)
      in if isWeakCipherSuite lib (cs_CipherSuite st)
         then warn [''weak cipher suite: '' @ ti_CipherSuite info] (i1\<lparr>ti_Weak := True\<rparr>) else i1)"

definition pqc_findings :: "tls_library \<Rightarrow> connection_state \<Rightarrow> TLSInfo \<Rightarrow> TLSInfo" where
  "pqc_findings lib st info =
     (if cs_CurveID st = 0 then info
      else
        (let group = tl_CurveName lib (cs_CurveID st); ready = isPQCGroup (cs_CurveID st);
             i1 = info\<lparr>ti_PQCGroup := group, ti_PQCReady := ready\<rparr>
         in if cs_Version st = VersionTLS13 \<and> \<not> ready
            then warn [''no post-quantum key exchange negotiated ('' @ group @ '' only)''] i1 else i1))"

text \<open>The verb \<open>%.0f\<close> rounds half to even.\<close>

definition round_hours :: "int \<Rightarrow> int" where
  "round_hours t =
     (let q = t div hour; r = t mod hour in
      if 2 * r < hour then q else if 2 * r > hour then q + 1 else if even q then q else q + 1)"

definition expiry_findings :: "int \<Rightarrow> TLSInfo \<Rightarrow> TLSInfo" where
  "expiry_findings timeLeft info =
     (let days = go_div timeLeft (24 * hour); i1 = info\<lparr>ti_CertDaysLeft := days\<rparr> in
      if timeLeft < 0 then warn [''CRITICAL: certificate has expired''] (i1\<lparr>ti_CertCritical := True\<rparr>)
      else if timeLeft < certExpiryCriticalHours * hour
        then warn [''CRITICAL: certificate expires in ~'' @ itoa (round_hours timeLeft) @ ''h''] (i1\<lparr>ti_CertCritical := True\<rparr>)
      else if days < certExpiryWarnDays then warn [''certificate expires in '' @ itoa days @ '' day(s)''] i1
      else i1)"

definition name_findings :: "string \<Rightarrow> string \<Rightarrow> certificate \<Rightarrow> TLSInfo \<Rightarrow> TLSInfo" where
  "name_findings ip hostname cert info =
     (let verifyAgainst = (if hostname = [] then ip else hostname);
          sansDesc = (if ti_CertSANs info \<noteq> [] then join_str '', '' (ti_CertSANs info) else ''none'')
      in if ce_Verifies cert verifyAgainst then info
         else if hostname = []
           then warn [''INFO: certificate has no SAN for '' @ verifyAgainst @ '' (SANs: '' @ sansDesc @ '') -- expected when scanning by IP''] info
         else warn [''certificate does not match '' @ verifyAgainst @ '' (SANs: '' @ sansDesc @ '')''] info)"

definition certificate_findings :: "tls_library \<Rightarrow> string \<Rightarrow> string \<Rightarrow> certificate list \<Rightarrow> TLSInfo \<Rightarrow> TLSInfo" where
  "certificate_findings lib ip hostname certs info =
     (case certs of
        [] \<Rightarrow> info
      | cert # rest \<Rightarrow>
          (let i1 = info\<lparr>ti_CertSubject := ce_SubjectCN cert, ti_CertIssuer := ce_IssuerCN cert,
                         ti_CertExpiresAt := ce_NotAfter cert, ti_CertFingerprint := hex_encode (tl_Sha256 lib (ce_Raw cert))\<rparr>;
               i2 = expiry_findings (ce_TimeLeft cert) i1;
               i3 = (if rest = [] \<and> ce_Issuer cert = ce_Subject cert
                     then warn [''self-signed certificate''] (i2\<lparr>ti_SelfSigned := True\<rparr>) else i2);
               i4 = i3\<lparr>ti_CertSANs := ti_CertSANs i3 @ ce_DNSNames cert @ ce_IPAddresses cert\<rparr>
           in name_findings ip hostname cert i4))"

definition new_info :: "tls_library \<Rightarrow> connection_state \<Rightarrow> TLSInfo" where
  "new_info lib st =
     \<lparr>ti_Version = tlsVersionName (cs_Version st), ti_CipherSuite = tl_CipherSuiteName lib (cs_CipherSuite st),
      ti_PQCGroup = [], ti_PQCReady = False, ti_CertSubject = [], ti_CertIssuer = [], ti_CertExpiresAt = [],
      ti_CertDaysLeft = 0, ti_CertCritical = False, ti_CertSANs = [], ti_CertFingerprint = [], ti_SelfSigned = False,
      ti_Weak = False, ti_SupportedVersions = [], ti_Warnings = []\<rparr>"

text \<open>\<open>dial\<close> is the handshake with any version from TLS 1.0 on.\<close>

definition probeTLS :: "tls_library \<Rightarrow> string \<Rightarrow> string \<Rightarrow> connection_state option \<Rightarrow> TLSInfo option" where
  "probeTLS lib ip hostname dial =
     (case dial of
        None \<Rightarrow> None
      | Some st \<Rightarrow>
          Some (certificate_findings lib ip hostname (cs_PeerCertificates st)
                 (pqc_findings lib st (version_findings lib st (new_info lib st)))))"

definition probeSupportedVersionTargets :: "u16 list" where
  "probeSupportedVersionTargets = [VersionTLS10, VersionTLS11, VersionTLS12, VersionTLS13]"

definition probeSupportedTLSVersions :: "(u16 \<Rightarrow> bool) \<Rightarrow> string list" where
  "probeSupportedTLSVersions accepts = map tlsVersionName (filter accepts probeSupportedVersionTargets)"

definition with_versions :: "(u16 \<Rightarrow> bool) \<Rightarrow> TLSInfo \<Rightarrow> TLSInfo" where
  "with_versions accepts info =
     (let vs = probeSupportedTLSVersions accepts; legacy = filter (\<lambda>v. v = ''TLS 1.0'' \<or> v = ''TLS 1.1'') vs
      in warn (map (\<lambda>v. ''also accepts a downgrade to '' @ v @ '' (legacy protocol still enabled)'') legacy)
           (info\<lparr>ti_SupportedVersions := vs, ti_Weak := ti_Weak info \<or> legacy \<noteq> []\<rparr>))"

subsection \<open>What the report says\<close>

lemma warn_fields [simp]:
  "ti_Weak (warn ws i) = ti_Weak i" "ti_Warnings (warn ws i) = ti_Warnings i @ ws"
  "ti_CertCritical (warn ws i) = ti_CertCritical i" "ti_SelfSigned (warn ws i) = ti_SelfSigned i"
  "ti_Version (warn ws i) = ti_Version i" "ti_CipherSuite (warn ws i) = ti_CipherSuite i"
  "ti_CertSANs (warn ws i) = ti_CertSANs i" "ti_PQCReady (warn ws i) = ti_PQCReady i"
  "ti_CertDaysLeft (warn ws i) = ti_CertDaysLeft i"
  by (simp_all add: warn_def)

definition legacy_accepted :: "(u16 \<Rightarrow> bool) \<Rightarrow> bool" where
  "legacy_accepted accepts \<longleftrightarrow> accepts VersionTLS10 \<or> accepts VersionTLS11"

lemma legacy_names: "filter (\<lambda>v. v = ''TLS 1.0'' \<or> v = ''TLS 1.1'') (probeSupportedTLSVersions accepts) \<noteq> [] \<longleftrightarrow> legacy_accepted accepts"
  by (simp add: probeSupportedTLSVersions_def probeSupportedVersionTargets_def legacy_accepted_def tlsVersionName_def
      VersionTLS10_def VersionTLS11_def VersionTLS12_def VersionTLS13_def)

lemma certificate_keeps: "ti_Weak (certificate_findings lib ip hostname certs info) = ti_Weak info"
  "ti_PQCReady (certificate_findings lib ip hostname certs info) = ti_PQCReady info"
  by (auto simp: certificate_findings_def Let_def name_findings_def expiry_findings_def split: list.splits)

lemma pqc_keeps: "ti_Weak (pqc_findings lib st info) = ti_Weak info"
  "ti_CertCritical (pqc_findings lib st info) = ti_CertCritical info" "ti_SelfSigned (pqc_findings lib st info) = ti_SelfSigned info"
  by (auto simp: pqc_findings_def Let_def)

lemma version_keeps: "ti_CertCritical (version_findings lib st info) = ti_CertCritical info"
  "ti_SelfSigned (version_findings lib st info) = ti_SelfSigned info"
  "ti_PQCReady (version_findings lib st info) = ti_PQCReady info"
  by (auto simp: version_findings_def Let_def)

lemma expiry_critical: "ti_CertCritical (expiry_findings t info) \<longleftrightarrow> ti_CertCritical info \<or> t < certExpiryCriticalHours * hour"
  by (auto simp: expiry_findings_def Let_def certExpiryCriticalHours_def hour_def)

lemma certificate_critical:
  "ti_CertCritical (certificate_findings lib ip hostname certs info) \<longleftrightarrow>
     ti_CertCritical info \<or> (\<exists>cert rest. certs = cert # rest \<and> ce_TimeLeft cert < certExpiryCriticalHours * hour)"
  by (auto simp: certificate_findings_def Let_def name_findings_def expiry_critical split: list.splits)

lemma certificate_self_signed:
  "ti_SelfSigned (certificate_findings lib ip hostname certs info) \<longleftrightarrow>
     ti_SelfSigned info \<or> (\<exists>cert. certs = [cert] \<and> ce_Issuer cert = ce_Subject cert)"
  by (auto simp: certificate_findings_def Let_def name_findings_def expiry_findings_def split: list.splits)

text \<open>The verdicts of the TLS audit: weak exactly for a version below 1.2, an insecure suite or a
  legacy version the server still accepts; critical exactly below 48 hours of validity;
  self-signed exactly for a lone certificate issued by its own subject.\<close>

theorem tls_verdicts:
  assumes "probeTLS lib ip hostname (Some st) = Some info"
  shows "(ti_Weak (with_versions accepts info) \<longleftrightarrow>
            cs_Version st < VersionTLS12 \<or> tl_Insecure lib (cs_CipherSuite st) \<or> legacy_accepted accepts)
    \<and> (ti_CertCritical (with_versions accepts info) \<longleftrightarrow>
         (\<exists>cert rest. cs_PeerCertificates st = cert # rest \<and> ce_TimeLeft cert < 48 * hour))
    \<and> (ti_SelfSigned (with_versions accepts info) \<longleftrightarrow>
         (\<exists>cert. cs_PeerCertificates st = [cert] \<and> ce_Issuer cert = ce_Subject cert))
    \<and> (ti_PQCReady (with_versions accepts info) \<longleftrightarrow> cs_CurveID st \<noteq> 0 \<and> isPQCGroup (cs_CurveID st))"
proof -
  have i: "info = certificate_findings lib ip hostname (cs_PeerCertificates st)
      (pqc_findings lib st (version_findings lib st (new_info lib st)))" using assms by (simp add: probeTLS_def)
  have weak: "ti_Weak (version_findings lib st (new_info lib st)) \<longleftrightarrow> cs_Version st < VersionTLS12 \<or> tl_Insecure lib (cs_CipherSuite st)"
    by (auto simp: version_findings_def Let_def new_info_def isWeakTLSVersion_def isWeakCipherSuite_def)
  have pq: "ti_PQCReady (pqc_findings lib st (version_findings lib st (new_info lib st)))
      \<longleftrightarrow> cs_CurveID st \<noteq> 0 \<and> isPQCGroup (cs_CurveID st)"
    by (auto simp: pqc_findings_def Let_def version_keeps new_info_def)
  show ?thesis
    using legacy_names[of accepts] weak pq
    by (simp add: with_versions_def Let_def i certificate_keeps pqc_keeps version_keeps certificate_critical certificate_self_signed
        certExpiryCriticalHours_def new_info_def)
qed

end
