(* ===== verification/Jarm.thy ===== *)
theory Jarm
  imports "HOL-Library.Multiset" Endian Hex
begin

text \<open>
  \<open>internal/service/jarm.go\<close> and \<open>jarm_db.go\<close>: the ten ClientHellos of the JARM
  fingerprint, the reader of the ServerHellos, and the fuzzy hash.  The random draws and
  SHA-256 are arguments; a read out of bounds would be \<open>None\<close>.
\<close>

subsection \<open>Tables\<close>

definition cipherListAll :: "bytes list" where
  "cipherListAll =
     [[0x00, 0x16], [0x00, 0x33], [0x00, 0x67], [0xc0, 0x9e], [0xc0, 0xa2], [0x00, 0x9e], [0x00, 0x39], [0x00, 0x6b],
      [0xc0, 0x9f], [0xc0, 0xa3], [0x00, 0x9f], [0x00, 0x45], [0x00, 0xbe], [0x00, 0x88], [0x00, 0xc4], [0x00, 0x9a],
      [0xc0, 0x08], [0xc0, 0x09], [0xc0, 0x23], [0xc0, 0xac], [0xc0, 0xae], [0xc0, 0x2b], [0xc0, 0x0a], [0xc0, 0x24],
      [0xc0, 0xad], [0xc0, 0xaf], [0xc0, 0x2c], [0xc0, 0x72], [0xc0, 0x73], [0xcc, 0xa9], [0x13, 0x02], [0x13, 0x01],
      [0xcc, 0x14], [0xc0, 0x07], [0xc0, 0x12], [0xc0, 0x13], [0xc0, 0x27], [0xc0, 0x2f], [0xc0, 0x14], [0xc0, 0x28],
      [0xc0, 0x30], [0xc0, 0x60], [0xc0, 0x61], [0xc0, 0x76], [0xc0, 0x77], [0xcc, 0xa8], [0x13, 0x05], [0x13, 0x04],
      [0x13, 0x03], [0xcc, 0x13], [0xc0, 0x11], [0x00, 0x0a], [0x00, 0x2f], [0x00, 0x3c], [0xc0, 0x9c], [0xc0, 0xa0],
      [0x00, 0x9c], [0x00, 0x35], [0x00, 0x3d], [0xc0, 0x9d], [0xc0, 0xa1], [0x00, 0x9d], [0x00, 0x41], [0x00, 0xba],
      [0x00, 0x84], [0x00, 0xc0], [0x00, 0x07], [0x00, 0x04], [0x00, 0x05]]"

definition cipherListNo13 :: "bytes list" where
  "cipherListNo13 =
     [[0x00, 0x16], [0x00, 0x33], [0x00, 0x67], [0xc0, 0x9e], [0xc0, 0xa2], [0x00, 0x9e], [0x00, 0x39], [0x00, 0x6b],
      [0xc0, 0x9f], [0xc0, 0xa3], [0x00, 0x9f], [0x00, 0x45], [0x00, 0xbe], [0x00, 0x88], [0x00, 0xc4], [0x00, 0x9a],
      [0xc0, 0x08], [0xc0, 0x09], [0xc0, 0x23], [0xc0, 0xac], [0xc0, 0xae], [0xc0, 0x2b], [0xc0, 0x0a], [0xc0, 0x24],
      [0xc0, 0xad], [0xc0, 0xaf], [0xc0, 0x2c], [0xc0, 0x72], [0xc0, 0x73], [0xcc, 0xa9], [0xcc, 0x14], [0xc0, 0x07],
      [0xc0, 0x12], [0xc0, 0x13], [0xc0, 0x27], [0xc0, 0x2f], [0xc0, 0x14], [0xc0, 0x28], [0xc0, 0x30], [0xc0, 0x60],
      [0xc0, 0x61], [0xc0, 0x76], [0xc0, 0x77], [0xcc, 0xa8], [0xcc, 0x13], [0xc0, 0x11], [0x00, 0x0a], [0x00, 0x2f],
      [0x00, 0x3c], [0xc0, 0x9c], [0xc0, 0xa0], [0x00, 0x9c], [0x00, 0x35], [0x00, 0x3d], [0xc0, 0x9d], [0xc0, 0xa1],
      [0x00, 0x9d], [0x00, 0x41], [0x00, 0xba], [0x00, 0x84], [0x00, 0xc0], [0x00, 0x07], [0x00, 0x04], [0x00, 0x05]]"

definition alpnRare :: "bytes list" where
  "alpnRare =
     [[0x08, 0x68, 0x74, 0x74, 0x70, 0x2f, 0x30, 0x2e, 0x39], [0x08, 0x68, 0x74, 0x74, 0x70, 0x2f, 0x31, 0x2e, 0x30],
      [0x06, 0x73, 0x70, 0x64, 0x79, 0x2f, 0x31], [0x06, 0x73, 0x70, 0x64, 0x79, 0x2f, 0x32],
      [0x06, 0x73, 0x70, 0x64, 0x79, 0x2f, 0x33], [0x03, 0x68, 0x32, 0x63], [0x02, 0x68, 0x71]]"

definition alpnAll :: "bytes list" where
  "alpnAll =
     [[0x08, 0x68, 0x74, 0x74, 0x70, 0x2f, 0x30, 0x2e, 0x39], [0x08, 0x68, 0x74, 0x74, 0x70, 0x2f, 0x31, 0x2e, 0x30],
      [0x08, 0x68, 0x74, 0x74, 0x70, 0x2f, 0x31, 0x2e, 0x31], [0x06, 0x73, 0x70, 0x64, 0x79, 0x2f, 0x31],
      [0x06, 0x73, 0x70, 0x64, 0x79, 0x2f, 0x32], [0x06, 0x73, 0x70, 0x64, 0x79, 0x2f, 0x33], [0x02, 0x68, 0x32],
      [0x03, 0x68, 0x32, 0x63], [0x02, 0x68, 0x71]]"

definition greaseValues :: "bytes list" where
  "greaseValues =
     [[0x0a, 0x0a], [0x1a, 0x1a], [0x2a, 0x2a], [0x3a, 0x3a], [0x4a, 0x4a], [0x5a, 0x5a], [0x6a, 0x6a], [0x7a, 0x7a],
      [0x8a, 0x8a], [0x9a, 0x9a], [0xaa, 0xaa], [0xba, 0xba], [0xca, 0xca], [0xda, 0xda], [0xea, 0xea], [0xfa, 0xfa]]"

definition cipherCanonicalOrder :: "bytes list" where
  "cipherCanonicalOrder =
     [[0x00, 0x04], [0x00, 0x05], [0x00, 0x07], [0x00, 0x0a], [0x00, 0x16], [0x00, 0x2f], [0x00, 0x33], [0x00, 0x35],
      [0x00, 0x39], [0x00, 0x3c], [0x00, 0x3d], [0x00, 0x41], [0x00, 0x45], [0x00, 0x67], [0x00, 0x6b], [0x00, 0x84],
      [0x00, 0x88], [0x00, 0x9a], [0x00, 0x9c], [0x00, 0x9d], [0x00, 0x9e], [0x00, 0x9f], [0x00, 0xba], [0x00, 0xbe],
      [0x00, 0xc0], [0x00, 0xc4], [0xc0, 0x07], [0xc0, 0x08], [0xc0, 0x09], [0xc0, 0x0a], [0xc0, 0x11], [0xc0, 0x12],
      [0xc0, 0x13], [0xc0, 0x14], [0xc0, 0x23], [0xc0, 0x24], [0xc0, 0x27], [0xc0, 0x28], [0xc0, 0x2b], [0xc0, 0x2c],
      [0xc0, 0x2f], [0xc0, 0x30], [0xc0, 0x60], [0xc0, 0x61], [0xc0, 0x72], [0xc0, 0x73], [0xc0, 0x76], [0xc0, 0x77],
      [0xc0, 0x9c], [0xc0, 0x9d], [0xc0, 0x9e], [0xc0, 0x9f], [0xc0, 0xa0], [0xc0, 0xa1], [0xc0, 0xa2], [0xc0, 0xa3],
      [0xc0, 0xac], [0xc0, 0xad], [0xc0, 0xae], [0xc0, 0xaf], [0xcc, 0x13], [0xcc, 0x14], [0xcc, 0xa8], [0xcc, 0xa9],
      [0x13, 0x01], [0x13, 0x02], [0x13, 0x03], [0x13, 0x04], [0x13, 0x05]]"

subsection \<open>ClientHello\<close>

datatype tls_version = TLS13 | TLS12 | TLS11 | TLS1
datatype cipher_list = ALL_CIPHERS | NO13
datatype mung_mode = FORWARD | REVERSE | TOP_HALF | BOTTOM_HALF | MIDDLE_OUT
datatype alpn_mode = APLN | RARE_APLN
datatype support_mode = SUPPORT12 | NO_SUPPORT | SUPPORT13

record jarmProfile =
  jp_version :: tls_version
  jp_cipherList :: cipher_list
  jp_cipherOrder :: mung_mode
  jp_grease :: bool
  jp_alpnMode :: alpn_mode
  jp_supportMode :: support_mode
  jp_extOrder :: mung_mode

definition profile where
  "profile v cl co g a s e =
     \<lparr>jp_version = v, jp_cipherList = cl, jp_cipherOrder = co, jp_grease = g, jp_alpnMode = a, jp_supportMode = s, jp_extOrder = e\<rparr>"

definition jarmProfiles :: "jarmProfile list" where
  "jarmProfiles =
     [profile TLS12 ALL_CIPHERS FORWARD False APLN SUPPORT12 REVERSE,
      profile TLS12 ALL_CIPHERS REVERSE False APLN SUPPORT12 FORWARD,
      profile TLS12 ALL_CIPHERS TOP_HALF False APLN NO_SUPPORT FORWARD,
      profile TLS12 ALL_CIPHERS BOTTOM_HALF False RARE_APLN NO_SUPPORT FORWARD,
      profile TLS12 ALL_CIPHERS MIDDLE_OUT True RARE_APLN NO_SUPPORT REVERSE,
      profile TLS11 ALL_CIPHERS FORWARD False APLN NO_SUPPORT FORWARD,
      profile TLS13 ALL_CIPHERS FORWARD False APLN SUPPORT13 REVERSE,
      profile TLS13 ALL_CIPHERS REVERSE False APLN SUPPORT13 FORWARD,
      profile TLS13 NO13 FORWARD False APLN SUPPORT13 FORWARD,
      profile TLS13 ALL_CIPHERS MIDDLE_OUT True APLN SUPPORT13 REVERSE]"

text \<open>The random draws of one probe: the random and the session identifier, the key share, and
  the four choices among the GREASE values (ciphers, extension, key share, versions).\<close>

record draws =
  dr_random :: bytes
  dr_session :: bytes
  dr_share :: bytes
  dr_grease :: "nat \<times> nat \<times> nat \<times> nat"

definition draws_ok :: "draws \<Rightarrow> bool" where
  "draws_ok d \<longleftrightarrow> length (dr_random d) = 32 \<and> length (dr_session d) = 32 \<and> length (dr_share d) = 32
     \<and> (case dr_grease d of (a, b, c, e) \<Rightarrow> a < length greaseValues \<and> b < length greaseValues
          \<and> c < length greaseValues \<and> e < length greaseValues)"

definition chooseGrease :: "nat \<Rightarrow> bytes" where "chooseGrease i = greaseValues ! i"

definition uint16be :: "nat \<Rightarrow> bytes" where "uint16be n = put16 (of_nat n)"

text \<open>The reorderings; the halves of a list of odd length leave its middle to \<open>TOP_HALF\<close>.\<close>

definition bottom_half :: "'a list \<Rightarrow> 'a list" where
  "bottom_half xs = (let n = length xs in if n mod 2 = 1 then drop (n div 2 + 1) xs else drop (n div 2) xs)"

definition middle_out :: "'a list \<Rightarrow> 'a list" where
  "middle_out xs =
     (let n = length xs; m = n div 2 in
      if n mod 2 = 1 then xs ! m # concat (map (\<lambda>i. [xs ! (m + i), xs ! (m - i)]) [1..<Suc m])
      else concat (map (\<lambda>i. [xs ! (m - 1 + i), xs ! (m - i)]) [1..<Suc m]))"

definition cipherMung :: "'a list \<Rightarrow> mung_mode \<Rightarrow> 'a list" where
  "cipherMung xs mode =
     (case mode of
        FORWARD \<Rightarrow> []
      | REVERSE \<Rightarrow> rev xs
      | BOTTOM_HALF \<Rightarrow> bottom_half xs
      | TOP_HALF \<Rightarrow> (if length xs mod 2 = 1 then [xs ! (length xs div 2)] else []) @ bottom_half (rev xs)
      | MIDDLE_OUT \<Rightarrow> middle_out xs)"

definition mung :: "'a list \<Rightarrow> mung_mode \<Rightarrow> 'a list" where
  "mung xs mode = (if mode \<noteq> FORWARD then cipherMung xs mode else xs)"

definition getCiphers :: "jarmProfile \<Rightarrow> draws \<Rightarrow> bytes" where
  "getCiphers p d =
     (let xs = mung (if jp_cipherList p = ALL_CIPHERS then cipherListAll else cipherListNo13) (jp_cipherOrder p)
      in concat ((if jp_grease p then [chooseGrease (fst (dr_grease d))] else []) @ xs))"

definition extensionServerName :: "string \<Rightarrow> bytes" where
  "extensionServerName host =
     (let n = length host in [0x00, 0x00] @ uint16be (n + 5) @ uint16be (n + 3) @ [0x00] @ uint16be n @ bytes_of host)"

definition appLayerProtoNegotiation :: "jarmProfile \<Rightarrow> bytes" where
  "appLayerProtoNegotiation p =
     (let body = concat (mung (if jp_alpnMode p = RARE_APLN then alpnRare else alpnAll) (jp_extOrder p))
      in [0x00, 0x10] @ uint16be (length body + 2) @ uint16be (length body) @ body)"

definition keyShare :: "bool \<Rightarrow> draws \<Rightarrow> bytes" where
  "keyShare grease d =
     (let share = (if grease then chooseGrease (fst (snd (snd (dr_grease d)))) @ [0x00, 0x01, 0x00] else [])
                  @ [0x00, 0x1d] @ [0x00, 0x20] @ dr_share d
      in [0x00, 0x33] @ uint16be (length share + 2) @ uint16be (length share) @ share)"

definition supportedVersions :: "jarmProfile \<Rightarrow> bool \<Rightarrow> draws \<Rightarrow> bytes" where
  "supportedVersions p grease d =
     (let versions = mung (if jp_supportMode p = SUPPORT12 then [[0x03, 0x01], [0x03, 0x02], [0x03, 0x03]]
                           else [[0x03, 0x01], [0x03, 0x02], [0x03, 0x03], [0x03, 0x04]]) (jp_extOrder p);
          body = (if grease then chooseGrease (snd (snd (snd (dr_grease d)))) else []) @ concat versions
      in [0x00, 0x2b] @ uint16be (length body + 1) @ [of_nat (length body)] @ body)"

definition getExtensions :: "string \<Rightarrow> jarmProfile \<Rightarrow> draws \<Rightarrow> bytes" where
  "getExtensions host p d =
     (let grease = jp_grease p;
          body =
            (if grease then chooseGrease (fst (snd (dr_grease d))) @ [0x00, 0x00] else [])
            @ extensionServerName host
            @ [0x00, 0x17, 0x00, 0x00]
            @ [0x00, 0x01, 0x00, 0x01, 0x01]
            @ [0xff, 0x01, 0x00, 0x01, 0x00]
            @ [0x00, 0x0a, 0x00, 0x0a, 0x00, 0x08, 0x00, 0x1d, 0x00, 0x17, 0x00, 0x18, 0x00, 0x19]
            @ [0x00, 0x0b, 0x00, 0x02, 0x01, 0x00]
            @ [0x00, 0x23, 0x00, 0x00]
            @ appLayerProtoNegotiation p
            @ [0x00, 0x0d, 0x00, 0x14, 0x00, 0x12, 0x04, 0x03, 0x08, 0x04, 0x04, 0x01, 0x05, 0x03, 0x08, 0x05, 0x05, 0x01, 0x08,
               0x06, 0x06, 0x01, 0x02, 0x01]
            @ keyShare grease d
            @ [0x00, 0x2d, 0x00, 0x02, 0x01, 0x01]
            @ (if jp_version p = TLS13 \<or> jp_supportMode p = SUPPORT12 then supportedVersions p grease d else [])
      in uint16be (length body) @ body)"

definition record_version :: "tls_version \<Rightarrow> bytes" where
  "record_version v = (case v of TLS13 \<Rightarrow> [0x03, 0x01] | TLS11 \<Rightarrow> [0x03, 0x02] | TLS12 \<Rightarrow> [0x03, 0x03] | TLS1 \<Rightarrow> [0x03, 0x01])"

definition hello_version :: "tls_version \<Rightarrow> bytes" where
  "hello_version v = (case v of TLS13 \<Rightarrow> [0x03, 0x03] | TLS11 \<Rightarrow> [0x03, 0x02] | TLS12 \<Rightarrow> [0x03, 0x03] | TLS1 \<Rightarrow> [0x03, 0x01])"

definition buildProbe :: "string \<Rightarrow> jarmProfile \<Rightarrow> draws \<Rightarrow> bytes" where
  "buildProbe host p d =
     (let ciphers = getCiphers p d;
          clientHello = hello_version (jp_version p) @ dr_random d @ [of_nat (length (dr_session d))] @ dr_session d
            @ uint16be (length ciphers) @ ciphers @ [0x01] @ [0x00] @ getExtensions host p d;
          handshakeBody = [0x01] @ [0x00] @ uint16be (length clientHello) @ clientHello
      in [0x16] @ record_version (jp_version p) @ uint16be (length handshakeBody) @ handshakeBody)"

subsection \<open>ServerHello\<close>

definition findALPNExtension :: "(bytes \<times> bytes) list \<Rightarrow> string" where
  "findALPNExtension exts =
     (case filter (\<lambda>(t, v). t = [0x00, 0x10]) exts of
        [] \<Rightarrow> []
      | (t, v) # rest \<Rightarrow> if length v \<ge> 3 then text_of (drop 3 v) else [])"

text \<open>\<open>Some None\<close> is the early return of a truncated list of extensions.\<close>

function ext_loop :: "bytes \<Rightarrow> nat \<Rightarrow> nat \<Rightarrow> (bytes \<times> bytes) list \<Rightarrow> (bytes \<times> bytes) list option option" where
  "ext_loop data pos1 maximum acc =
     (if pos1 \<ge> maximum then Some (Some acc)
      else if pos1 + 4 > length data then Some None
      else
        (case (slice data pos1 (pos1 + 2), get_at data (pos1 + 2), get_at data (pos1 + 3)) of
           (Some t, Some hi, Some lo) \<Rightarrow>
             (let n = unat hi * 256 + unat lo in
              if n = 0 then ext_loop data (pos1 + 4) maximum (acc @ [(t, [])])
              else if pos1 + 4 + n > length data then Some None
              else
                (case slice data (pos1 + 4) (pos1 + 4 + n) of
                   None \<Rightarrow> None
                 | Some v \<Rightarrow> ext_loop data (pos1 + n + 4) maximum (acc @ [(t, v)])))
         | _ \<Rightarrow> None))"
  by pat_completeness auto
termination by (relation "measure (\<lambda>(data, pos1, maximum, acc). length data - pos1)") auto

declare ext_loop.simps [simp del]

definition extractExtensionInfo :: "bytes \<Rightarrow> nat \<Rightarrow> nat \<Rightarrow> string option" where
  "extractExtensionInfo data counter serverHelloLength =
     (if counter + 53 > length data then Some ''|''
      else
        (case (get_at data (counter + 47), get_at data (counter + 48), slice data (counter + 50) (counter + 53)) of
           (Some hi, Some lo, Some mark) \<Rightarrow>
             if hi = 11 then Some ''|''
             else if mark = [0x0e, 0xac, 0x0b] \<or> (length data \<ge> 85 \<and> slice data 82 85 = Some [0x0f, 0xf0, 0x0b]) then Some ''|''
             else if counter + 42 \<ge> serverHelloLength then Some ''|''
             else if counter + 49 > length data then Some ''|''
             else
               (let pos1 = 49 + counter; maximum = (unat hi * 256 + unat lo) + (pos1 - 1) in
                case ext_loop data pos1 maximum [] of
                  None \<Rightarrow> None
                | Some None \<Rightarrow> Some ''|''
                | Some (Some exts) \<Rightarrow> Some (findALPNExtension exts @ ''|'' @ join_str ''-'' (map (hex_encode \<circ> fst) exts)))
         | _ \<Rightarrow> None))"

definition readServerHello :: "bytes \<Rightarrow> string option" where
  "readServerHello data =
     (if data = [] then Some ''|||''
      else if get_at data 0 = Some 21 then Some ''|||''
      else if length data \<le> 5 \<or> get_at data 0 \<noteq> Some 22 \<or> get_at data 5 \<noteq> Some 2 then Some ''|||''
      else if length data < 46 then Some ''|||''
      else
        (case (get_at data 3, get_at data 4, get_at data 43) of
           (Some hi, Some lo, Some sid) \<Rightarrow>
             (let serverHelloLength = unat hi * 256 + unat lo; counter = unat sid in
              if counter + 46 > length data then Some ''|||''
              else
                (case (slice data (counter + 44) (counter + 46), slice data 9 11, extractExtensionInfo data counter serverHelloLength) of
                   (Some cipher, Some version, Some info) \<Rightarrow>
                     Some (hex_encode cipher @ ''|'' @ hex_encode version @ ''|'' @ info)
                 | _ \<Rightarrow> None))
         | _ \<Rightarrow> None))"

subsection \<open>The fuzzy hash\<close>

fun hex_nat :: "nat \<Rightarrow> string" where
  "hex_nat n = (if n < 16 then [nibble_char (of_nat n)] else hex_nat (n div 16) @ [nibble_char (of_nat (n mod 16))])"

declare hex_nat.simps [simp del]

definition cipher_index :: "string \<Rightarrow> nat" where
  "cipher_index cipher = length (takeWhile (\<lambda>b. cipher \<noteq> hex_encode b) cipherCanonicalOrder) + 1"

definition cipherByte :: "string \<Rightarrow> string" where
  "cipherByte cipher =
     (if cipher = [] then ''00''
      else (let h = hex_nat (cipher_index cipher) in if length h < 2 then ''0'' @ h else h))"

text \<open>\<open>version[3] - '0'\<close> is a byte, so it wraps below the digits.\<close>

definition versionByte :: "string \<Rightarrow> string" where
  "versionByte version =
     (if length version < 4 then ''0''
      else
        (let idx = unat (of_char (version ! 3) - 48 :: byte) in
         if idx \<ge> 6 then ''0'' else [''abcdef'' ! idx]))"

text \<open>\<open>strings.SplitN\<close> into four fields, padded with empty ones.\<close>

fun split_n :: "nat \<Rightarrow> string \<Rightarrow> string list" where
  "split_n 0 s = []"
| "split_n (Suc 0) s = [s]"
| "split_n (Suc (Suc n)) s =
     (case cut_char (CHR ''|'') s of (a, b, found) \<Rightarrow> if found then a # split_n (Suc n) b else [s])"

definition four_fields :: "string \<Rightarrow> string \<times> string \<times> string \<times> string" where
  "four_fields r = (let c = split_n 4 r @ replicate (4 - length (split_n 4 r)) [] in (c ! 0, c ! 1, c ! 2, c ! 3))"

definition jarmZeroHash :: string where "jarmZeroHash = replicate 62 (CHR ''0'')"

definition jarmHash :: "(string \<Rightarrow> bytes) \<Rightarrow> string list \<Rightarrow> string" where
  "jarmHash sha256 results =
     (if join_str '','' results = ''|||,|||,|||,|||,|||,|||,|||,|||,|||,|||'' then jarmZeroHash
      else
        concat (map (\<lambda>r. case four_fields r of (c, v, a, e) \<Rightarrow> cipherByte c @ versionByte v) results)
        @ take 32 (hex_encode (sha256 (concat (map (\<lambda>r. case four_fields r of (c, v, a, e) \<Rightarrow> a @ e) results)))))"

definition knownJARMHashes :: "(string \<times> string) list" where
  "knownJARMHashes =
     [(''2ad2ad0002ad2ad00042d42d00000069d641f34fe76acdc05c40262f8815e5'',
       ''Salesforce (salesforce.com, force.com)''),
      (''27d40d40d29d40d1dc42d43d00041d4689ee210389f4f6b4b5b1b93f92252d'',
       ''Google (google.com, youtube.com, gmail.com)''),
      (''27d27d27d29d27d1dc41d43d00041d741011a7be03d7498e0df05581db08a9'',
       ''Meta (facebook.com, instagram.com)''),
      (''29d29d20d29d29d21c41d43d00041d741011a7be03d7498e0df05581db08a9'',
       ''Meta (oculus.com)''),
      (''22b22b09b22b22b22b22b22b22b22b352842cd5d6b0278445702035e06875c'',
       ''Trickbot malware C2''),
      (''1dd40d40d00040d1dc1dd40d1dd40d3df2d6a0c2caaa0dc59908f0d3602943'',
       ''AsyncRAT malware C2''),
      (''07d14d16d21d21d00042d43d000000aa99ce74e2c6d013c745aa52b5cc042d'',
       ''Metasploit (default handler)''),
      (''07d14d16d21d21d07c42d41d00041d24a458a375eef0c576d23a7bab9a9fb1'',
       ''Cobalt Strike (default profile)''),
      (''29d21b20d29d29d21c41d21b21b41d494e0df9532e75299f15ba73156cee38'',
       ''Merlin C2''),
      (''3fd3fd0003fd3fd00043d43d00043d3bef2bf79cd6719851e8198c1e8f9a14'',
       ''Go net/http default TLS server (crypto/tls defaults, undifferentiated -- consistent with, but not proof of, a Go-based backend)'')]"

definition lookupJARM :: "string \<Rightarrow> string" where
  "lookupJARM hash = (case map_of knownJARMHashes hash of None \<Rightarrow> [] | Some l \<Rightarrow> l)"

text \<open>The ten probes; \<open>send\<close> gives the first read of each connection, \<open>None\<close> when it failed.
  The outer \<open>None\<close> would be a panic of the reader.\<close>

definition probe_result :: "bytes option \<Rightarrow> string option" where
  "probe_result reply = (case reply of None \<Rightarrow> Some ''|||'' | Some data \<Rightarrow> if data = [] then Some ''|||'' else readServerHello (take 1484 data))"

definition ProbeJARM ::
  "(string \<Rightarrow> bytes) \<Rightarrow> string \<Rightarrow> string \<Rightarrow> draws list \<Rightarrow> (bytes \<Rightarrow> bytes option) \<Rightarrow> (string \<times> string) option" where
  "ProbeJARM sha256 ip hostname ds send =
     (let sniHost = (if hostname = [] then ip else hostname);
          results = map (\<lambda>(p, d). probe_result (send (buildProbe sniHost p d))) (zip jarmProfiles ds)
      in if None \<in> set results then None
         else (let hash = jarmHash sha256 (map the results) in Some (hash, lookupJARM hash)))"

subsection \<open>The reader never reads out of bounds\<close>

lemma ext_loop_safe: "ext_loop data pos1 maximum acc \<noteq> None"
proof (induction data pos1 maximum acc rule: ext_loop.induct)
  case (1 data pos1 maximum acc)
  show ?case
  proof (cases "pos1 \<ge> maximum \<or> pos1 + 4 > length data")
    case True
    then show ?thesis by (subst ext_loop.simps) auto
  next
    case False
    then have r: "slice data pos1 (pos1 + 2) = Some (take 2 (drop pos1 data))"
      "get_at data (pos1 + 2) = Some (data ! (pos1 + 2))" "get_at data (pos1 + 3) = Some (data ! (pos1 + 3))"
      by (auto simp: slice_def get_at_def)
    let ?n = "unat (data ! (pos1 + 2)) * 256 + unat (data ! (pos1 + 3))"
    have b: "\<not> pos1 \<ge> maximum" "\<not> pos1 + 4 > length data" using False by auto
    have z: "?n = 0 \<Longrightarrow> ext_loop data (pos1 + 4) maximum (acc @ [(take 2 (drop pos1 data), [])]) \<noteq> None"
      using 1(1)[OF b] r by simp
    have s: "\<not> pos1 + 4 + ?n > length data \<Longrightarrow>
        slice data (pos1 + 4) (pos1 + 4 + ?n) = Some (take ?n (drop (pos1 + 4) data))"
      by (simp add: slice_def)
    have "?n \<noteq> 0 \<Longrightarrow> \<not> pos1 + 4 + ?n > length data \<Longrightarrow>
        ext_loop data (pos1 + ?n + 4) maximum (acc @ [(take 2 (drop pos1 data), take ?n (drop (pos1 + 4) data))]) \<noteq> None"
      using 1(2)[OF b _ _ _ _ _ refl] r s by (simp add: Let_def)
    then show ?thesis using z s by (subst ext_loop.simps) (simp only: b r if_False option.case prod.case Let_def split: if_split; simp)
  qed
qed

lemma extractExtensionInfo_safe: "extractExtensionInfo data counter n \<noteq> None"
  unfolding extractExtensionInfo_def Let_def
  by (auto simp: get_at_def slice_def split: option.splits dest: ext_loop_safe[THEN notE])

lemma readServerHello_safe: "readServerHello data \<noteq> None"
  unfolding readServerHello_def Let_def
  by (auto simp: get_at_def slice_def split: option.splits dest: extractExtensionInfo_safe[THEN notE])

subsection \<open>The shape of the hash\<close>

definition is_hex :: "string \<Rightarrow> bool" where "is_hex s \<longleftrightarrow> set s \<subseteq> set ''0123456789abcdef''"

lemma is_hex_append [simp]: "is_hex (a @ b) \<longleftrightarrow> is_hex a \<and> is_hex b"
  by (auto simp: is_hex_def)

lemma nibble_char_hex: "d < 16 \<Longrightarrow> nibble_char d \<in> set ''0123456789abcdef''"
proof -
  assume "d < 16"
  then have "unat d \<in> {0..<16}" by (simp add: word_less_nat_alt)
  then have "unat d \<in> {0, 1, 2, 3, 4, 5, 6, 7, 8, 9, 10, 11, 12, 13, 14, 15}"
    by (simp only: atLeastLessThan_iff insert_iff empty_iff) presburger
  moreover have "d = of_nat (unat d)" by simp
  ultimately show ?thesis by (elim insertE emptyE; simp only:; code_simp)
qed

lemma byte_nibbles: "(b :: byte) div 16 < 16" "b mod 16 < 16"
proof -
  have "unat b < 16 * 16" using unsigned_less [of b, where ?'a = nat] by simp
  then have "unat b div 16 < 16" by (rule less_mult_imp_div_less)
  then show "b div 16 < 16" "b mod 16 < 16" by (simp_all add: word_less_nat_alt unat_div unat_mod)
qed

lemma hex_encode_hex: "is_hex (hex_encode bs)"
  by (induction bs) (use nibble_char_hex byte_nibbles in \<open>auto simp: is_hex_def\<close>)

lemma hex_encode_length: "length (hex_encode bs) = 2 * length bs"
  by (induction bs) auto

lemma hex_nat_two: "n < 256 \<Longrightarrow> length (hex_nat n) \<le> 2 \<and> is_hex (hex_nat n)"
proof -
  assume n: "n < 256"
  have d: "m < 16 \<Longrightarrow> hex_nat m = [nibble_char (of_nat m)] \<and> nibble_char (of_nat m) \<in> set ''0123456789abcdef''" for m
  proof -
    assume m: "m < 16"
    then have "(of_nat m :: byte) < 16" by (simp add: word_less_nat_alt unat_of_nat)
    from nibble_char_hex[OF this] show ?thesis using m by (simp only: hex_nat.simps[of m] if_True simp_thms)
  qed
  have "n mod 16 < 16" by simp
  moreover have "n div 16 < 16" using n by (auto intro: less_mult_imp_div_less)
  ultimately show ?thesis using d[of "n div 16"] d[of "n mod 16"] d[of n]
    by (cases "n < 16") (auto simp: hex_nat.simps[of n] is_hex_def)
qed

lemma hex_nat_nonempty: "hex_nat n \<noteq> []"
  by (subst hex_nat.simps) simp

lemma cipherByte_shape: "length (cipherByte c) = 2 \<and> is_hex (cipherByte c)"
proof -
  have "length cipherCanonicalOrder = 69" by (simp add: cipherCanonicalOrder_def)
  then have "cipher_index c < 256"
    using length_takeWhile_le[of "\<lambda>b. c \<noteq> hex_encode b" cipherCanonicalOrder] by (simp add: cipher_index_def)
  then have h: "length (hex_nat (cipher_index c)) \<le> 2" "is_hex (hex_nat (cipher_index c))" using hex_nat_two by blast+
  have "length (hex_nat (cipher_index c)) > 0" using hex_nat_nonempty by simp
  then have "length (hex_nat (cipher_index c)) = 1 \<or> length (hex_nat (cipher_index c)) = 2" using h by linarith
  then show ?thesis using h by (auto simp: cipherByte_def Let_def is_hex_def)
qed

lemma versionByte_shape: "length (versionByte v) = 1 \<and> is_hex (versionByte v)"
proof -
  have "i < 6 \<Longrightarrow> ''abcdef'' ! i \<in> set ''0123456789abcdef''" for i
    by (auto simp: less_Suc_eq numeral_eq_Suc)
  then show ?thesis by (auto simp: versionByte_def Let_def is_hex_def not_le)
qed

lemma fuzzy_shape:
  "length (concat (map (\<lambda>r. case four_fields r of (c, v, a, e) \<Rightarrow> cipherByte c @ versionByte v) rs)) = 3 * length rs
   \<and> is_hex (concat (map (\<lambda>r. case four_fields r of (c, v, a, e) \<Rightarrow> cipherByte c @ versionByte v) rs))"
  by (induction rs) (use cipherByte_shape versionByte_shape in \<open>auto split: prod.splits simp: is_hex_def[of "[]"]\<close>)

lemma is_hex_take: "is_hex s \<Longrightarrow> is_hex (take n s)"
  using set_take_subset[of n s] by (auto simp: is_hex_def)

lemma jarmHash_shape:
  assumes "length rs = 10" and "\<And>s. length (sha256 s) = 32"
  shows "length (jarmHash sha256 rs) = 62 \<and> is_hex (jarmHash sha256 rs)"
  using fuzzy_shape[of rs] hex_encode_length hex_encode_hex assms
  by (auto simp: jarmHash_def jarmZeroHash_def is_hex_take is_hex_def[of "replicate 62 CHR ''0''"])

lemma ProbeJARM_total: "ProbeJARM sha256 ip hostname ds send \<noteq> None"
proof -
  have ok: "probe_result r \<noteq> None" for r
    using readServerHello_safe by (auto simp: probe_result_def split: option.splits)
  have "None \<notin> set (map (\<lambda>(p, d). probe_result (send (buildProbe h p d))) (zip jarmProfiles ds))" for h
    by (auto simp: image_iff split_def elim!: ok[THEN notE, OF sym])
  then show ?thesis by (simp add: ProbeJARM_def Let_def)
qed

text \<open>C33: whatever the ten connections return, no read of a reply is out of bounds, and the
  fingerprint is 62 lower-case hexadecimal characters.\<close>

theorem jarm_is_62_hex_digits:
  assumes "\<And>s. length (sha256 s) = 32" and "length ds = 10"
  shows "\<exists>hash label. ProbeJARM sha256 ip hostname ds send = Some (hash, label) \<and> length hash = 62 \<and> is_hex hash"
proof -
  let ?rs = "map (\<lambda>(p, d). probe_result (send (buildProbe (if hostname = [] then ip else hostname) p d))) (zip jarmProfiles ds)"
  have ok: "probe_result r \<noteq> None" for r
    using readServerHello_safe by (auto simp: probe_result_def split: option.splits)
  have "None \<notin> set ?rs" by (auto simp: image_iff split_def elim!: ok[THEN notE, OF sym])
  moreover have "length (map the ?rs) = 10" using assms(2) by (simp add: jarmProfiles_def)
  ultimately show ?thesis
    using jarmHash_shape[OF _ assms(1), of "map the ?rs"] by (auto simp: ProbeJARM_def Let_def)
qed

theorem jarm_is_62_hex_digits_witness:
  "\<exists>hash label. ProbeJARM (\<lambda>_. replicate 32 7) ''10.0.0.1'' [] (replicate 10 \<lparr>dr_random = [], dr_session = [], dr_share = [], dr_grease = (0, 0, 0, 0)\<rparr>)
      (\<lambda>_. Some [22, 3, 3]) = Some (hash, label) \<and> length hash = 62 \<and> is_hex hash"
  by (rule jarm_is_62_hex_digits) simp_all

subsection \<open>The reorderings\<close>

lemma mset_pairs: "mset (concat (map (\<lambda>i. [f i, g i]) ks)) = mset (map f ks) + mset (map g ks)"
  by (induction ks) auto

lemma map_up: "map (\<lambda>i. xs ! (k + i)) [1..<Suc m] = take m (drop (Suc k) xs)" if "k + m < length xs"
  using that by (intro nth_equalityI) (auto simp del: upt_Suc)

lemma map_down: "map (\<lambda>i. xs ! (m - i)) [1..<Suc m] = rev (take m xs)" if "m \<le> length xs"
  using that by (intro nth_equalityI) (auto simp: rev_nth simp del: upt_Suc)

lemma mset_halves: "m \<le> length xs \<Longrightarrow> mset (take m xs) + mset (drop m xs) = mset xs"
  by (metis append_take_drop_id mset_append)

lemma mset_middle: "m < length xs \<Longrightarrow> add_mset (xs ! m) (mset (take m xs) + mset (drop (Suc m) xs)) = mset xs"
  by (metis id_take_nth_drop mset.simps(2) mset_append union_mset_add_mset_right)

lemma mset_middle_out: "mset (middle_out xs) = mset xs"
proof (cases "length xs mod 2 = 1")
  case True
  let ?m = "length xs div 2"
  have n: "length xs = 2 * ?m + 1" using True by presburger
  have u: "map (\<lambda>i. xs ! (?m + i)) [1..<Suc ?m] = drop (Suc ?m) xs"
    using map_up[of ?m ?m xs] n by (simp del: upt_Suc)
  have d: "map (\<lambda>i. xs ! (?m - i)) [1..<Suc ?m] = rev (take ?m xs)"
    by (rule map_down) simp
  have l: "?m < length xs" using n by linarith
  have "mset (middle_out xs) = add_mset (xs ! ?m) (mset (drop (Suc ?m) xs) + mset (rev (take ?m xs)))"
    unfolding middle_out_def Let_def if_P[OF True] by (simp only: mset.simps mset_pairs u d)
  then show ?thesis using mset_middle[OF l] by (simp add: add.commute)
next
  case False
  let ?m = "length xs div 2"
  have n: "length xs = 2 * ?m" using False by presburger
  have d: "map (\<lambda>i. xs ! (?m - i)) [1..<Suc ?m] = rev (take ?m xs)"
    by (rule map_down) simp
  have u: "map (\<lambda>i. xs ! (?m - 1 + i)) [1..<Suc ?m] = drop ?m xs"
  proof (cases "?m = 0")
    case True
    then show ?thesis using n by simp
  next
    case False
    then show ?thesis using map_up[of "?m - 1" ?m xs] n by (simp del: upt_Suc)
  qed
  have "mset (middle_out xs) = mset (drop ?m xs) + mset (rev (take ?m xs))"
    unfolding middle_out_def Let_def if_not_P[OF False] by (simp only: mset_pairs u d)
  then show ?thesis using mset_halves[of ?m xs] by (simp add: add.commute)
qed

lemma bottom_half_rev: "bottom_half (rev xs) = rev (take (length xs div 2) xs)"
proof (cases "length xs mod 2 = 1")
  case True
  then have "length xs - (length xs div 2 + 1) = length xs div 2" by presburger
  then show ?thesis using True by (simp add: bottom_half_def Let_def drop_rev)
next
  case False
  then have "length xs - length xs div 2 = length xs div 2" by presburger
  then show ?thesis using False by (simp add: bottom_half_def Let_def drop_rev)
qed

lemma mset_two_halves: "mset (mung xs TOP_HALF) + mset (mung xs BOTTOM_HALF) = mset xs"
proof (cases "length xs mod 2 = 1")
  case True
  then have l: "length xs div 2 < length xs" by (cases xs) auto
  then show ?thesis using True mset_middle[OF l] by (simp add: mung_def cipherMung_def bottom_half_rev) (simp add: bottom_half_def)
next
  case False
  then show ?thesis using mset_halves[of "length xs div 2" xs]
    by (simp add: mung_def cipherMung_def bottom_half_rev) (simp add: bottom_half_def)
qed

text \<open>Reordering a list for a probe never drops or repeats an entry: \<open>REVERSE\<close> and
  \<open>MIDDLE_OUT\<close> are permutations of it, and what \<open>TOP_HALF\<close> and \<open>BOTTOM_HALF\<close> send is
  together exactly the list.\<close>

theorem mung_reorders:
  "mset (mung xs FORWARD) = mset xs \<and> mset (mung xs REVERSE) = mset xs \<and> mset (mung xs MIDDLE_OUT) = mset xs
   \<and> mset (mung xs TOP_HALF) + mset (mung xs BOTTOM_HALF) = mset xs"
  using mset_two_halves[of xs] mset_middle_out[of xs] by (simp add: mung_def cipherMung_def)

subsection \<open>Framing of the ClientHello\<close>

lemma mung_sub: "mset (mung xs mode) \<subseteq># mset xs"
  using mset_middle_out[of xs]
  by (cases mode) (use mset_two_halves[of xs] in \<open>auto simp: mung_def cipherMung_def dest: sym intro: mset_subset_eq_add_left mset_subset_eq_add_right\<close>)

lemma mung_concat_length: "length (concat (mung xs mode)) \<le> sum_list (map length xs)"
proof -
  obtain r where "mset xs = mset (mung xs mode) + r" using mung_sub by (metis subset_mset.le_iff_add)
  then have "sum_mset (image_mset length (mset (mung xs mode))) \<le> sum_mset (image_mset length (mset xs))" by simp
  then show ?thesis by (simp add: length_concat sum_mset_sum_list flip: mset_map)
qed

lemma uint16be_length [simp]: "length (uint16be n) = 2"
  by (simp add: uint16be_def put16_def)

lemma chooseGrease_length: "i < length greaseValues \<Longrightarrow> length (chooseGrease i) = 2"
proof -
  assume "i < length greaseValues"
  then have "greaseValues ! i \<in> set greaseValues" by (rule nth_mem)
  moreover have "\<forall>b\<in>set greaseValues. length b = 2" by (simp add: greaseValues_def)
  ultimately show ?thesis by (simp add: chooseGrease_def)
qed

lemma getCiphers_length: "draws_ok d \<Longrightarrow> length (getCiphers p d) \<le> 140"
proof -
  assume "draws_ok d"
  then have g: "length (chooseGrease (fst (dr_grease d))) = 2"
    by (auto simp: draws_ok_def split: prod.splits intro: chooseGrease_length)
  have h: "length (concat (mung cipherListAll m)) \<le> 138" "length (concat (mung cipherListNo13 m)) \<le> 138" for m
    using mung_concat_length[of cipherListAll m] mung_concat_length[of cipherListNo13 m]
    by (simp_all add: cipherListAll_def cipherListNo13_def del: length_concat)
  show ?thesis using g h(1)[of "jp_cipherOrder p"] h(2)[of "jp_cipherOrder p"]
    by (cases "jp_cipherList p"; cases "jp_grease p") (simp_all add: getCiphers_def Let_def del: length_concat)
qed

lemma greases: "draws_ok d \<Longrightarrow> length (chooseGrease (fst (snd (dr_grease d)))) = 2
    \<and> length (chooseGrease (fst (snd (snd (dr_grease d))))) = 2 \<and> length (chooseGrease (snd (snd (snd (dr_grease d))))) = 2"
  by (auto simp: draws_ok_def split: prod.splits intro: chooseGrease_length)

lemma alpn_length: "length (appLayerProtoNegotiation p) \<le> 64"
proof -
  have "length (concat (mung alpnRare m)) \<le> 58" "length (concat (mung alpnAll m)) \<le> 58" for m
    using mung_concat_length[of alpnRare m] mung_concat_length[of alpnAll m]
    by (simp_all add: alpnRare_def alpnAll_def del: length_concat)
  then show ?thesis by (simp add: appLayerProtoNegotiation_def Let_def del: length_concat)
qed

lemma versions_length: "draws_ok d \<Longrightarrow> length (supportedVersions p g d) \<le> 15"
proof -
  assume d: "draws_ok d"
  have h: "length (concat (mung [[0x03 :: byte, 0x01], [0x03, 0x02], [0x03, 0x03]] m)) \<le> 8"
    "length (concat (mung [[0x03 :: byte, 0x01], [0x03, 0x02], [0x03, 0x03], [0x03, 0x04]] m)) \<le> 8" for m
    using mung_concat_length[of "[[0x03 :: byte, 0x01], [0x03, 0x02], [0x03, 0x03]]" m]
      mung_concat_length[of "[[0x03 :: byte, 0x01], [0x03, 0x02], [0x03, 0x03], [0x03, 0x04]]" m]
    by (simp_all del: length_concat)
  show ?thesis using greases[OF d] h(1)[of "jp_extOrder p"] h(2)[of "jp_extOrder p"]
    by (cases "jp_supportMode p"; cases g) (simp_all add: supportedVersions_def Let_def del: length_concat)
qed

lemma keyShare_length: "draws_ok d \<Longrightarrow> length (keyShare g d) \<le> 47"
  using greases[of d] by (auto simp: keyShare_def Let_def draws_ok_def)

lemma getExtensions_length: "draws_ok d \<Longrightarrow> length (getExtensions host p d) \<le> 230 + length host"
  using alpn_length[of p] versions_length[of d p "jp_grease p"] keyShare_length[of d "jp_grease p"] greases[of d]
  by (cases "jp_grease p") (auto simp: getExtensions_def Let_def extensionServerName_def bytes_of_def)

lemma get16_uint16be: "n < 65536 \<Longrightarrow> unat (get16 (uint16be n @ rest)) = n"
  using get16_put16[of "of_nat n :: u16"]
  by (simp add: uint16be_def unat_of_nat get16_def put16_def nth_append)

text \<open>C34: the length fields of every ClientHello agree with its bytes: the record says what
  follows its five-byte header, the handshake what follows its own four.\<close>

theorem client_hello_is_framed:
  assumes "draws_ok d" and "length host \<le> 60000"
  shows "unat (get16 (drop 3 (buildProbe host p d))) = length (buildProbe host p d) - 5
    \<and> unat (get16 (drop 7 (buildProbe host p d))) = length (buildProbe host p d) - 9
    \<and> length (buildProbe host p d) \<le> 500 + length host"
proof -
  define ch where "ch = hello_version (jp_version p) @ dr_random d @ [of_nat (length (dr_session d))] @ dr_session d
            @ uint16be (length (getCiphers p d)) @ getCiphers p d @ [0x01] @ [0x00] @ getExtensions host p d"
  obtain a b where v: "record_version (jp_version p) = [a, b]" by (cases "jp_version p") (auto simp: record_version_def)
  obtain a' b' where h: "hello_version (jp_version p) = [a', b']" by (cases "jp_version p") (auto simp: hello_version_def)
  have l: "length ch \<le> 450 + length host"
    using getCiphers_length[OF assms(1), of p] getExtensions_length[OF assms(1), of host p] assms(1)
    unfolding ch_def h by (simp add: draws_ok_def)
  have e: "buildProbe host p d = [0x16, a, b] @ uint16be (length ch + 4) @ [0x01, 0x00] @ uint16be (length ch) @ ch"
    unfolding buildProbe_def Let_def v ch_def[symmetric] by (simp add: numeral_eq_Suc)
  have r: "drop 3 (buildProbe host p d) = uint16be (length ch + 4) @ [0x01, 0x00] @ uint16be (length ch) @ ch"
    "drop 7 (buildProbe host p d) = uint16be (length ch) @ ch"
    unfolding e by simp_all
  show ?thesis unfolding r using l assms(2) get16_uint16be[of "length ch + 4"] get16_uint16be[of "length ch"]
    by (simp add: e)
qed

theorem client_hello_is_framed_witness:
  "unat (get16 (drop 3 (buildProbe ''a.test'' (jarmProfiles ! 0) \<lparr>dr_random = replicate 32 1, dr_session = replicate 32 2,
       dr_share = replicate 32 3, dr_grease = (0, 1, 2, 3)\<rparr>)))
     = length (buildProbe ''a.test'' (jarmProfiles ! 0) \<lparr>dr_random = replicate 32 1, dr_session = replicate 32 2,
       dr_share = replicate 32 3, dr_grease = (0, 1, 2, 3)\<rparr>) - 5"
  by (rule client_hello_is_framed[THEN conjunct1]) (simp_all add: draws_ok_def greaseValues_def)

subsection \<open>Reading a ServerHello back\<close>

definition put_ext :: "bytes \<times> bytes \<Rightarrow> bytes" where
  "put_ext e = fst e @ uint16be (length (snd e)) @ snd e"

definition put_exts :: "(bytes \<times> bytes) list \<Rightarrow> bytes" where
  "put_exts es = concat (map put_ext es)"

text \<open>A ServerHello as RFC 5246 lays it out, in one record.\<close>

definition server_hello :: "bytes \<Rightarrow> bytes \<Rightarrow> bytes \<Rightarrow> bytes \<Rightarrow> (bytes \<times> bytes) list \<Rightarrow> bytes" where
  "server_hello version rnd sid cipher es =
     [22, 3, 3] @ uint16be (44 + length sid + length (put_exts es)) @ [2, 0] @ uint16be (40 + length sid + length (put_exts es))
     @ version @ rnd @ [of_nat (length sid)] @ sid @ cipher @ [0] @ uint16be (length (put_exts es)) @ put_exts es"

definition ext_ok :: "bytes \<times> bytes \<Rightarrow> bool" where
  "ext_ok e \<longleftrightarrow> length (fst e) = 2 \<and> length (snd e) < 65536"

lemma unat_uint16be: "n < 65536 \<Longrightarrow> unat (uint16be n ! 0) * 256 + unat (uint16be n ! 1) = n"
proof -
  assume n: "n < 65536"
  have "unat (uint16be n ! 0) = n div 256 mod 256" "unat (uint16be n ! 1) = n mod 256"
    using n by (simp_all add: uint16be_def put16_def unsigned_ucast_eq unsigned_drop_bit_eq unat_of_nat drop_bit_eq_div take_bit_eq_mod unat_div)
  moreover have "n div 256 < 256" using n by (simp add: less_mult_imp_div_less)
  ultimately show ?thesis by simp
qed

lemma ext_loop_reads:
  assumes "\<forall>e\<in>set es. ext_ok e"
  shows "ext_loop (pre @ put_exts es) (length pre) (length pre + length (put_exts es) - 1) acc = Some (Some (acc @ es))"
  using assms
proof (induction es arbitrary: pre acc)
  case Nil
  then show ?case by (subst ext_loop.simps) (simp add: put_exts_def)
next
  case (Cons e es)
  obtain t v where e: "e = (t, v)" by (cases e)
  have ok: "length t = 2" "length v < 65536" using Cons.prems by (auto simp: ext_ok_def e)
  let ?d = "pre @ put_exts (e # es)"
  have d: "?d = pre @ t @ uint16be (length v) @ v @ put_exts es" by (simp add: put_exts_def put_ext_def e)
  let ?max = "length pre + length (put_exts (e # es)) - 1"
  have l: "length (put_exts (e # es)) = 4 + length v + length (put_exts es)"
    using ok by (simp add: put_exts_def put_ext_def e)
  have r: "slice ?d (length pre) (length pre + 2) = Some t"
    "get_at ?d (length pre + 2) = Some (uint16be (length v) ! 0)" "get_at ?d (length pre + 3) = Some (uint16be (length v) ! 1)"
    "slice ?d (length pre + 4) (length pre + 4 + length v) = Some v"
    unfolding d using ok by (auto simp: slice_def get_at_def nth_append)
  have n: "unat (uint16be (length v) ! 0) * 256 + unat (uint16be (length v) ! 1) = length v"
    using ok(2) by (rule unat_uint16be)
  let ?pre = "pre @ t @ uint16be (length v) @ v"
  have ih: "ext_loop ?d (length pre + length v + 4) ?max (acc @ [(t, v)]) = Some (Some (acc @ e # es))"
  proof -
    have a: "?pre @ put_exts es = ?d" "length ?pre = length pre + length v + 4"
      "length pre + length v + 4 + length (put_exts es) - 1 = ?max"
      using d ok l by simp_all
    have "\<forall>e\<in>set es. ext_ok e" using Cons.prems by simp
    from Cons.IH[OF this, of ?pre "acc @ [(t, v)]"] show ?thesis by (simp only: a) (simp add: e)
  qed
  have c: "\<not> length pre \<ge> ?max" "\<not> length pre + 4 > length ?d" "\<not> length pre + 4 + length v > length ?d"
    using l by simp_all
  have step: "ext_loop ?d (length pre) ?max acc =
     (if length v = 0 then ext_loop ?d (length pre + 4) ?max (acc @ [(t, [])])
      else ext_loop ?d (length pre + length v + 4) ?max (acc @ [(t, v)]))"
    by (subst ext_loop.simps) (simp only: c r n if_False option.case prod.case Let_def)
  show ?case unfolding step using ih by (cases v) simp_all
qed

lemma slice_mid: "slice (a @ b @ c) (length a) (length a + length b) = Some b"
  by (simp add: slice_def)

lemma get_at_mid: "get_at (a @ y # c) (length a) = Some y"
  by (simp add: get_at_def)

text \<open>The two server builds the reader leaves out by a mark in the reply, and the one it
  recognises by the high byte of the extensions' length.\<close>

definition unmarked :: "bytes \<Rightarrow> nat \<Rightarrow> bool" where
  "unmarked data n \<longleftrightarrow> get_at data (n + 47) \<noteq> Some 11 \<and> slice data (n + 50) (n + 53) \<noteq> Some [0x0e, 0xac, 0x0b]
     \<and> slice data 82 85 \<noteq> Some [0x0f, 0xf0, 0x0b]"

lemma put_exts_length: "es \<noteq> [] \<Longrightarrow> \<forall>e\<in>set es. ext_ok e \<Longrightarrow> 4 \<le> length (put_exts es)"
  by (cases es) (auto simp: put_exts_def put_ext_def ext_ok_def)

text \<open>C35: a ServerHello laid out as the protocol says is read back: the cipher suite and the
  version, the ALPN value and the extension types, in the order the server sent them.\<close>

theorem server_hello_is_read_back:
  assumes shape: "length version = 2" "length rnd = 32" "length cipher = 2" "length sid \<le> 32"
    and exts: "es \<noteq> []" "\<forall>e\<in>set es. ext_ok e" "length (put_exts es) < 60000"
    and unmarked: "unmarked (server_hello version rnd sid cipher es) (length sid)"
  shows "readServerHello (server_hello version rnd sid cipher es) =
     Some (hex_encode cipher @ ''|'' @ hex_encode version @ ''|'' @ findALPNExtension es @ ''|''
           @ join_str ''-'' (map (hex_encode \<circ> fst) es))"
proof -
  let ?d = "server_hello version rnd sid cipher es" and ?n = "length sid" and ?x = "length (put_exts es)"
  obtain v0 v1 where v: "version = [v0, v1]" using shape(1) by (auto simp: length_Suc_conv numeral_eq_Suc)
  obtain c0 c1 where c: "cipher = [c0, c1]" using shape(3) by (auto simp: length_Suc_conv numeral_eq_Suc)
  have x: "4 \<le> ?x" using put_exts_length exts by blast
  let ?pre = "[22, 3, 3] @ uint16be (44 + ?n + ?x) @ [2, 0] @ uint16be (40 + ?n + ?x)
     @ version @ rnd @ [of_nat ?n] @ sid @ cipher @ [0] @ uint16be ?x"
  have d: "?d = ?pre @ put_exts es" by (simp add: server_hello_def)
  have pre: "length ?pre = ?n + 49" using shape by simp
  have len: "length ?d = ?n + 49 + ?x" unfolding d using pre by simp
  have sidb: "unat (of_nat ?n :: byte) = ?n" using shape(4) by (simp add: unat_of_nat)
  let ?h = "[22, 3, 3] @ uint16be (44 + ?n + ?x) @ [2, 0] @ uint16be (40 + ?n + ?x)"
  have h: "?d = ?h @ version @ (rnd @ [of_nat ?n] @ sid @ cipher @ [0] @ uint16be ?x @ put_exts es)"
    "?d = (?h @ version @ rnd) @ of_nat ?n # (sid @ cipher @ [0] @ uint16be ?x @ put_exts es)"
    "?d = (?h @ version @ rnd @ [of_nat ?n] @ sid) @ cipher @ ([0] @ uint16be ?x @ put_exts es)"
    "?d = (?h @ version @ rnd @ [of_nat ?n] @ sid @ cipher @ [0]) @ uint16be ?x @ put_exts es"
    by (simp_all add: server_hello_def)
  have r: "get_at ?d 0 = Some 22" "get_at ?d 5 = Some 2"
    "get_at ?d 3 = Some (uint16be (44 + ?n + ?x) ! 0)" "get_at ?d 4 = Some (uint16be (44 + ?n + ?x) ! 1)"
    by (simp_all add: server_hello_def get_at_def uint16be_def put16_def)
  have sl: "slice ?d 9 11 = Some version"
    using slice_mid[of ?h version "rnd @ [of_nat ?n] @ sid @ cipher @ [0] @ uint16be ?x @ put_exts es"] shape unfolding h(1)[symmetric] by simp
  have sd: "get_at ?d 43 = Some (of_nat ?n)"
    using get_at_mid[of "?h @ version @ rnd" "of_nat ?n" "sid @ cipher @ [0] @ uint16be ?x @ put_exts es"] shape unfolding h(2)[symmetric] by simp
  have ci: "slice ?d (?n + 44) (?n + 46) = Some cipher"
    using slice_mid[of "?h @ version @ rnd @ [of_nat ?n] @ sid" cipher "[0] @ uint16be ?x @ put_exts es"] shape
    unfolding h(3)[symmetric] by (simp add: add.commute)
  obtain x0 x1 where xx: "uint16be ?x = [x0, x1]" by (simp add: uint16be_def put16_def)
  have xl: "get_at ?d (?n + 47) = Some (uint16be ?x ! 0)" "get_at ?d (?n + 48) = Some (uint16be ?x ! 1)"
    unfolding h(4) using shape by (auto simp: get_at_def nth_append xx add.commute)
  have n1: "unat (uint16be (44 + ?n + ?x) ! 0) * 256 + unat (uint16be (44 + ?n + ?x) ! 1) = 44 + ?n + ?x"
    using shape(4) exts(3) by (intro unat_uint16be) linarith
  have n2: "unat (uint16be ?x ! 0) * 256 + unat (uint16be ?x ! 1) = ?x"
    using exts(3) by (intro unat_uint16be) linarith
  have mark: "slice ?d (?n + 50) (?n + 53) = Some (take 3 (drop (?n + 50) ?d))"
    using len x by (simp add: slice_def)
  have um: "uint16be ?x ! 0 \<noteq> 11" "take 3 (drop (?n + 50) ?d) \<noteq> [0x0e, 0xac, 0x0b]" "slice ?d 82 85 \<noteq> Some [0x0f, 0xf0, 0x0b]"
    using unmarked xl mark by (auto simp: unmarked_def)
  have loop: "ext_loop ?d (49 + ?n) (?x + (49 + ?n - 1)) [] = Some (Some es)"
    using ext_loop_reads[OF exts(2), of ?pre "[]"] x unfolding d pre by (simp add: ac_simps)
  have info: "extractExtensionInfo ?d ?n (44 + ?n + ?x) =
      Some (findALPNExtension es @ ''|'' @ join_str ''-'' (map (hex_encode \<circ> fst) es))"
    unfolding extractExtensionInfo_def xl mark using len x um n2 loop by simp
  show ?thesis
    unfolding readServerHello_def Let_def sd r option.case prod.case sidb n1 info ci sl
    using len x by auto
qed

theorem server_hello_is_read_back_witness:
  "readServerHello (server_hello [3, 3] (replicate 32 9) [] [0xc0, 0x2f] [([0, 16], [0, 3, 2, 0x68, 0x32]), ([0xff, 1], [0])]) =
     Some (''c02f'' @ ''|'' @ ''0303'' @ ''|'' @ ''h2'' @ ''|'' @ ''0010-ff01'')"
proof -
  have h: "hex_encode [0xc0, 0x2f] = ''c02f''" "hex_encode [3, 3] = ''0303''" by code_simp+
  have e: "findALPNExtension [([0, 16], [0, 3, 2, 0x68, 0x32]), ([0xff, 1], [0])] = ''h2''"
    "join_str ''-'' (map (hex_encode \<circ> fst) [([0, 16], [0, 3, 2, 0x68, 0x32 :: byte]), ([0xff, 1], [0])]) = ''0010-ff01''" by code_simp+
  have u: "unmarked (server_hello [3, 3] (replicate 32 9) [] [0xc0, 0x2f] [([0, 16], [0, 3, 2, 0x68, 0x32]), ([0xff, 1], [0])]) 0"
    by code_simp
  show ?thesis unfolding h[symmetric] e[symmetric]
    by (rule server_hello_is_read_back) (simp_all add: u ext_ok_def put_exts_def put_ext_def)
qed

end
