(* ===== verification/Detect.thy ===== *)
theory Detect
  imports SshPosture ServiceProbes Signatures Tls Jarm
begin

text \<open>
  \<open>DetectService\<close> of \<open>internal/service/engine.go\<close>: the order of the probes of one open port, what
  each of them adds to the result, and the two panics the peer can cause.
\<close>

definition knownTLSPorts :: "int list" where
  "knownTLSPorts = [443, 8443, 9443, 4443, 10443, 465, 993, 995, 563, 636, 989, 990, 992, 994, 853, 5061, 4911]"

text \<open>The complete result: \<open>ServiceInfo\<close> with the parts the dedicated audits fill.\<close>

record detection = ServiceInfo +
  ds_TLS :: "TLSInfo option"
  ds_JARM :: "(string \<times> string) option"
  ds_HTTPPosture :: "HTTPPostureInfo option"
  ds_SSHPosture :: "SSHPostureInfo option"

definition bare :: "ServiceInfo \<Rightarrow> detection" where
  "bare s = ServiceInfo.extend s \<lparr>ds_TLS = None, ds_JARM = None, ds_HTTPPosture = None, ds_SSHPosture = None\<rparr>"

text \<open>What the libraries and the random source supply.\<close>

record library =
  lb_tls :: tls_library
  lb_ulower :: "rune \<Rightarrow> rune"
  lb_os_order :: "string list"
  lb_draws :: "draws list"

text \<open>What the peer answers: to the industrial probe, to the handshakes, to the ClientHellos, to the
  HTTP audit, the greeting of the connection that is kept open, the rest of the SSH exchange, the
  ALPN protocol of the handshake on that connection (\<open>None\<close> when it fails), the first read after
  the GET request, and the replies to the active probes.\<close>

record peer =
  pe_ot :: "(bytes \<Rightarrow> bytes option) option"
  pe_dial :: "connection_state option"
  pe_accepts :: "u16 \<Rightarrow> bool"
  pe_hello :: "bytes \<Rightarrow> bytes option"
  pe_front :: "(string \<Rightarrow> string) option"
  pe_path :: "string \<Rightarrow> (int \<times> string) option"
  pe_connects :: bool
  pe_greeting :: bytes
  pe_ssh_written :: bool
  pe_ssh_wire :: bytes
  pe_deadline :: bool
  pe_alpn :: "string option"
  pe_response :: "bytes option"
  pe_active :: "bytes option"
  pe_active1 :: "bytes option"

datatype stage = Panics | Returns detection | Continues detection

definition isWebPort :: "int \<Rightarrow> bool" where
  "isWebPort port \<longleftrightarrow> port = 80 \<or> port = 443 \<or> port = 8080 \<or> port = 8443 \<or> port = 8000 \<or> port = 8888"

definition tls_of :: "library \<Rightarrow> bool \<Rightarrow> string \<Rightarrow> int \<Rightarrow> string \<Rightarrow> peer \<Rightarrow> TLSInfo option" where
  "tls_of lib jarmEnabled ip port hostname p =
     (if port \<in> set knownTLSPorts \<or> jarmEnabled
      then map_option (with_versions (pe_accepts p)) (probeTLS (lb_tls lib) ip hostname (pe_dial p)) else None)"

definition isTLSPort :: "int \<Rightarrow> TLSInfo option \<Rightarrow> bool" where
  "isTLSPort port tls \<longleftrightarrow> port \<in> set knownTLSPorts \<or> tls \<noteq> None"

definition jarm_of :: "library \<Rightarrow> bool \<Rightarrow> string \<Rightarrow> int \<Rightarrow> string \<Rightarrow> peer \<Rightarrow> (string \<times> string) option option" where
  "jarm_of lib jarmEnabled ip port hostname p =
     (if isTLSPort port (tls_of lib jarmEnabled ip port hostname p) \<and> jarmEnabled
      then map_option Some (ProbeJARM (tl_Sha256 (lb_tls lib)) ip hostname (lb_draws lib) (pe_hello p)) else Some None)"

definition record_certificate ::
  "string \<Rightarrow> int \<Rightarrow> TLSInfo option \<Rightarrow> (string \<times> string) option \<Rightarrow> cert_registry \<Rightarrow> cert_registry" where
  "record_certificate ip port tls jarm reg =
     (case tls of
        None \<Rightarrow> reg
      | Some t \<Rightarrow>
          if ti_CertFingerprint t = [] then reg
          else RecordCertObservation (ti_CertFingerprint t) ip port (case jarm of None \<Rightarrow> [] | Some (h, l) \<Rightarrow> h) reg)"

text \<open>The identification line and what was read after it.\<close>

definition ident_line :: "string \<Rightarrow> bytes \<Rightarrow> string \<times> bytes" where
  "ident_line rawBanner buf =
     (if 0x0A \<in> set buf
      then (let n = length (takeWhile (\<lambda>b. b \<noteq> 0x0A) buf) in
            (trim_right_by (\<lambda>c. c = CHR 0x0D \<or> c = CHR 0x0A) (text_of (take (n + 1) buf)), drop (n + 1) buf))
      else (rawBanner, []))"

definition generic_banner :: "library \<Rightarrow> string \<Rightarrow> bytes \<Rightarrow> detection \<Rightarrow> stage" where
  "generic_banner lib rawBanner buf d =
     (if has_prefix rawBanner ''SSH-'' then
        Returns (if contains_str rawBanner ''OpenSSH''
                 then d\<lparr>svc_OS := extractOSFromBanner (lb_os_order lib) rawBanner, svc_Name := ''openssh'',
                        svc_Version := parseSSHVersion rawBanner\<rparr>
                 else d\<lparr>svc_Name := ''ssh''\<rparr>)
      else if has_prefix rawBanner ''220'' then
        Returns (d\<lparr>svc_Name := if contains_str (go_lower (lb_ulower lib) rawBanner) ''ftp'' then ''ftp'' else ''smtp''\<rparr>)
      else if has_prefix rawBanner ''+OK'' then Returns (d\<lparr>svc_Name := ''pop3''\<rparr>)
      else if has_prefix rawBanner ''* OK'' \<or> has_prefix rawBanner ''* PREAUTH'' then Returns (d\<lparr>svc_Name := ''imap''\<rparr>)
      else if has_prefix rawBanner ''RFB '' then
        Returns (d\<lparr>svc_Name := ''vnc'', svc_Version := trim_space (trim_prefix rawBanner ''RFB '')\<rparr>)
      else
        (case parseMySQLHandshake buf of
           Some version \<Rightarrow> Returns (d\<lparr>svc_Name := ''mysql'', svc_Version := version, svc_Banner := sanitizeBanner version\<rparr>)
         | None \<Rightarrow> Continues d))"

definition greeting_stage :: "library \<Rightarrow> peer \<Rightarrow> detection \<Rightarrow> stage" where
  "greeting_stage lib p d =
     (let buf = take 512 (pe_greeting p) in
      if buf = [] then Continues d
      else
        (let rawBanner = trim_space (text_of buf); (ident, leftover) = ident_line rawBanner buf;
             d1 = d\<lparr>svc_Banner := sanitizeBanner rawBanner\<rparr>;
             ssh = (if has_prefix rawBanner ''SSH-''
                    then sshPostureFromConn (pe_ssh_written p) ident leftover (pe_ssh_wire p) else Some (ds_SSHPosture d))
         in case ssh of
              None \<Rightarrow> Panics
            | Some posture \<Rightarrow>
                (let d2 = d1\<lparr>ds_SSHPosture := posture\<rparr> in
                 case matchBannerSignature rawBanner of
                   Some (name, version, matched, binary) \<Rightarrow>
                     Returns (d2\<lparr>svc_Name := name, svc_Version := version, svc_OS := extractOSFromBanner (lb_os_order lib) rawBanner,
                                 svc_Banner := if binary then sanitizeBanner matched else svc_Banner d2\<rparr>)
                 | None \<Rightarrow> generic_banner lib rawBanner buf d2)))"

text \<open>The web ports: the request in plain text or over the handshake, then what the HTTP audit read,
  then the name of the handshake alone.\<close>

definition posture_name :: "HTTPPostureInfo option \<Rightarrow> detection \<Rightarrow> detection option" where
  "posture_name posture d =
     (case posture of
        None \<Rightarrow> None
      | Some h \<Rightarrow>
          if svc_Name d \<noteq> ''unknown'' then None
          else if hp_Software h \<noteq> [] then
            Some (d\<lparr>svc_Name := hp_Software h, svc_Version := hp_Version h, svc_OS := hp_OS h, svc_Banner := hp_Server h\<rparr>)
          else if hp_Server h \<noteq> [] then Some (d\<lparr>svc_Name := ''http'', svc_Banner := hp_Server h\<rparr>)
          else None)"

definition alpn_name :: "string \<Rightarrow> string" where
  "alpn_name alpn = (if alpn = ''h2'' then ''ssl/h2'' else if alpn = ''http/1.1'' then ''ssl/http'' else ''ssl/unknown'')"

definition http_reply :: "library \<Rightarrow> peer \<Rightarrow> detection \<Rightarrow> detection option option" where
  "http_reply lib p d =
     (case pe_response p of
        None \<Rightarrow> Some None
      | Some r \<Rightarrow>
          (let resp = text_of (take 512 r) in
           if r = [] \<or> \<not> has_prefix resp ''HTTP/'' then Some None
           else
             (case extractServerHeader (lb_ulower lib) (lb_os_order lib) resp of
                None \<Rightarrow> None
              | Some (banner, software, version, os) \<Rightarrow>
                  (let d1 = d\<lparr>svc_Banner := banner, svc_OS := os\<rparr> in
                   Some (Some (if software \<noteq> [] then d1\<lparr>svc_Name := software, svc_Version := version\<rparr>
                               else d1\<lparr>svc_Name := ''http''\<rparr>))))))"

definition web_stage :: "library \<Rightarrow> int \<Rightarrow> HTTPPostureInfo option \<Rightarrow> peer \<Rightarrow> detection \<Rightarrow> stage" where
  "web_stage lib port posture p d0 =
     (if \<not> isWebPort port then Continues d0
      else
        (let d = d0\<lparr>ds_HTTPPosture := posture\<rparr>; isTLS = (port = 443 \<or> port = 8443) in
         if isTLS \<and> \<not> pe_deadline p then Returns (d\<lparr>svc_Name := resolveDefaultPortName port\<rparr>)
         else
           (let shaken = (isTLS \<and> pe_alpn p \<noteq> None) in
            case (if shaken \<or> \<not> isTLS then http_reply lib p d else Some None) of
              None \<Rightarrow> Panics
            | Some (Some r) \<Rightarrow> Returns r
            | Some None \<Rightarrow>
                (case posture_name posture d of
                   Some r \<Rightarrow> Returns r
                 | None \<Rightarrow>
                     if shaken \<and> svc_Name d = ''unknown''
                     then Returns (d\<lparr>svc_Name := alpn_name (case pe_alpn p of None \<Rightarrow> [] | Some a \<Rightarrow> a)\<rparr>)
                     else Continues d))))"

definition last_stage :: "int \<Rightarrow> peer \<Rightarrow> detection \<Rightarrow> detection" where
  "last_stage port p d =
     (if svc_Name d \<noteq> ''unknown'' then d
      else
        (case activeProbe port (pe_active p) (pe_active1 p) of
           Some probed \<Rightarrow> bare probed
         | None \<Rightarrow> d\<lparr>svc_Name := resolveDefaultPortName port\<rparr>))"

definition open_stage :: "library \<Rightarrow> int \<Rightarrow> HTTPPostureInfo option \<Rightarrow> peer \<Rightarrow> detection \<Rightarrow> detection option" where
  "open_stage lib port posture p d =
     (case greeting_stage lib p d of
        Panics \<Rightarrow> None
      | Returns r \<Rightarrow> Some r
      | Continues d1 \<Rightarrow>
          (case web_stage lib port posture p d1 of
             Panics \<Rightarrow> None
           | Returns r \<Rightarrow> Some r
           | Continues d2 \<Rightarrow> Some (last_stage port p d2)))"

definition unknown_service :: ServiceInfo where "unknown_service = service ''unknown'' [] [] []"

definition ot_result :: "bool \<Rightarrow> int \<Rightarrow> peer \<Rightarrow> identity option option" where
  "ot_result otProbe port p = (if otProbe then probeOTService port (pe_ot p) else Some None)"

text \<open>The result, \<open>None\<close> for a panic, and the registry of certificates.\<close>

definition DetectService ::
  "library \<Rightarrow> string \<Rightarrow> int \<Rightarrow> string \<Rightarrow> bool \<Rightarrow> bool \<Rightarrow> peer \<Rightarrow> cert_registry \<Rightarrow> detection option \<times> cert_registry" where
  "DetectService lib ip port hostname jarmEnabled otProbe p reg =
     (case ot_result otProbe port p of
        None \<Rightarrow> (None, reg)
      | Some (Some (name, version, banner)) \<Rightarrow> (Some (bare (service name version banner [])), reg)
      | Some None \<Rightarrow>
          (let tls = tls_of lib jarmEnabled ip port hostname p in
           case jarm_of lib jarmEnabled ip port hostname p of
             None \<Rightarrow> (None, reg)
           | Some jarm \<Rightarrow>
               (let info = (bare unknown_service)\<lparr>ds_TLS := tls, ds_JARM := jarm\<rparr>;
                    reg1 = record_certificate ip port tls jarm reg;
                    posture = (if isWebPort port
                               then probeHTTPPosture (lb_os_order lib) (isTLSPort port tls) (pe_front p) (pe_path p) else None)
                in (if pe_connects p then open_stage lib port posture p info else Some info, reg1))))"

subsection \<open>What a stage keeps\<close>

definition same_audits :: "detection \<Rightarrow> detection \<Rightarrow> bool" where
  "same_audits a b \<longleftrightarrow> ds_TLS a = ds_TLS b \<and> ds_JARM a = ds_JARM b"

named_theorems audits

lemma same_refl [audits, simp]: "same_audits a a" by (simp add: same_audits_def)

lemma same_updates [audits, simp]:
  "same_audits (a\<lparr>svc_Name := n\<rparr>) b = same_audits a b" "same_audits (a\<lparr>svc_Version := n\<rparr>) b = same_audits a b"
  "same_audits (a\<lparr>svc_Banner := n\<rparr>) b = same_audits a b" "same_audits (a\<lparr>svc_OS := n\<rparr>) b = same_audits a b"
  "same_audits (a\<lparr>ds_HTTPPosture := h\<rparr>) b = same_audits a b" "same_audits (a\<lparr>ds_SSHPosture := s\<rparr>) b = same_audits a b"
  by (simp_all add: same_audits_def)

primrec stage_keeps :: "detection \<Rightarrow> stage \<Rightarrow> bool" where
  "stage_keeps d Panics = True"
| "stage_keeps d (Returns r) = same_audits r d"
| "stage_keeps d (Continues r) = same_audits r d"

lemma generic_keeps: "same_audits d e \<Longrightarrow> stage_keeps e (generic_banner lib raw buf d)"
  by (simp add: generic_banner_def split: option.split)

lemma greeting_keeps: "stage_keeps d (greeting_stage lib p d)"
  by (simp add: greeting_stage_def Let_def generic_keeps split: option.split prod.split)

lemma posture_keeps: "posture_name h d = Some r \<Longrightarrow> same_audits r d"
  by (auto simp: posture_name_def split: option.splits if_splits)

lemma reply_keeps: "http_reply lib p d = Some (Some r) \<Longrightarrow> same_audits r d"
  by (auto simp: http_reply_def Let_def split: option.splits if_splits prod.splits)

lemma same_trans: "same_audits a b \<Longrightarrow> same_audits b c \<Longrightarrow> same_audits a c" by (simp add: same_audits_def)

lemma web_keeps: "stage_keeps d (web_stage lib port posture p d)"
  using posture_keeps[of posture "d\<lparr>ds_HTTPPosture := posture\<rparr>"] reply_keeps[of lib p "d\<lparr>ds_HTTPPosture := posture\<rparr>"]
  by (auto simp: web_stage_def Let_def same_audits_def split: option.splits)

lemma open_keeps:
  assumes "open_stage lib port posture p d = Some r" and "activeProbe port (pe_active p) (pe_active1 p) = None"
  shows "same_audits r d"
proof -
  have last: "same_audits (last_stage port p e) e" for e
    using assms(2) by (simp add: last_stage_def)
  show ?thesis
    using assms(1) greeting_keeps[of d lib p] web_keeps[of _ lib port posture p] last
    by (auto simp: open_stage_def split: stage.splits) (metis same_trans stage_keeps.simps(2,3))+
qed

text \<open>C38: unless an industrial or an active probe named the service, the result carries exactly
  the TLS and JARM findings of the port, whatever the later stages found.\<close>

theorem detection_keeps_tls:
  assumes "DetectService lib ip port hostname jarmEnabled otProbe p reg = (Some d, reg1)"
    and "ot_result otProbe port p = Some None"
    and "activeProbe port (pe_active p) (pe_active1 p) = None"
  shows "ds_TLS d = tls_of lib jarmEnabled ip port hostname p
    \<and> jarm_of lib jarmEnabled ip port hostname p = Some (ds_JARM d)
    \<and> reg1 = record_certificate ip port (ds_TLS d) (ds_JARM d) reg"
proof -
  note ot = assms(2)
  obtain jarm where j: "jarm_of lib jarmEnabled ip port hostname p = Some jarm"
    using assms(1) by (auto simp: DetectService_def ot Let_def split: option.splits)
  let ?tls = "tls_of lib jarmEnabled ip port hostname p"
  let ?info = "(bare unknown_service)\<lparr>ds_TLS := ?tls, ds_JARM := jarm\<rparr>"
  have r: "reg1 = record_certificate ip port ?tls jarm reg" using assms(1) by (simp add: DetectService_def ot Let_def j)
  have "same_audits d ?info"
    using assms(1) open_keeps[OF _ assms(3)] by (auto simp: DetectService_def ot Let_def j split: if_splits)
  then show ?thesis using r j by (simp add: same_audits_def)
qed

subsection \<open>What makes the detection panic\<close>

lemma ssh_total: "sshPostureFromConn w ident leftover wire \<noteq> None"
  using readSSHPacket_total[of "leftover @ wire"] parseKexInit_total
  by (auto simp: sshPostureFromConn_def Let_def get_at_def split: option.splits)

definition continues :: "stage \<Rightarrow> bool" where "continues s \<longleftrightarrow> (\<exists>d. s = Continues d)"

lemma generic_shape: "continues (generic_banner lib raw buf d) = continues (generic_banner lib raw buf e)"
  "generic_banner lib raw buf d \<noteq> Panics"
  by (auto simp: generic_banner_def continues_def split: option.splits)

lemma greeting_shape: "continues (greeting_stage lib p d) = continues (greeting_stage lib p e)"
  "greeting_stage lib p d \<noteq> Panics"
proof -
  show "greeting_stage lib p d \<noteq> Panics"
    using generic_shape(2) by (auto simp: greeting_stage_def Let_def split: option.splits prod.splits dest: ssh_total[THEN notE])
  show "continues (greeting_stage lib p d) = continues (greeting_stage lib p e)"
  proof (cases "take 512 (pe_greeting p) = []")
    case False
    obtain ident leftover where il: "ident_line (trim_space (text_of (take 512 (pe_greeting p)))) (take 512 (pe_greeting p)) = (ident, leftover)"
      by force
    obtain sp where sp: "sshPostureFromConn (pe_ssh_written p) ident leftover (pe_ssh_wire p) = Some sp"
      using ssh_total by blast
    show ?thesis
      using False generic_shape(1)
      by (auto simp: greeting_stage_def Let_def il sp continues_def split: option.split prod.split)
  qed (auto simp: greeting_stage_def continues_def)
qed

definition header_panics :: "library \<Rightarrow> peer \<Rightarrow> bool" where
  "header_panics lib p \<longleftrightarrow>
     (\<exists>r. pe_response p = Some r \<and> r \<noteq> [] \<and> has_prefix (text_of (take 512 r)) ''HTTP/''
        \<and> extractServerHeader (lb_ulower lib) (lb_os_order lib) (text_of (take 512 r)) = None)"

lemma reply_panics: "http_reply lib p d = None \<longleftrightarrow> header_panics lib p"
  by (auto simp: http_reply_def header_panics_def Let_def split: option.splits prod.splits)

definition asks_for_page :: "int \<Rightarrow> peer \<Rightarrow> bool" where
  "asks_for_page port p \<longleftrightarrow> isWebPort port \<and> (port = 443 \<or> port = 8443 \<longrightarrow> pe_deadline p \<and> pe_alpn p \<noteq> None)"

lemma web_panics: "web_stage lib port posture p d = Panics \<longleftrightarrow> asks_for_page port p \<and> header_panics lib p"
proof -
  let ?d = "d\<lparr>ds_HTTPPosture := posture\<rparr>"
  have n: "http_reply lib p ?d = None \<longleftrightarrow> header_panics lib p" by (rule reply_panics)
  show ?thesis
  proof (cases "header_panics lib p")
    case True
    then have "http_reply lib p ?d = None" using n by simp
    then show ?thesis using True
      by (cases "posture_name posture ?d"; cases "pe_alpn p") (auto simp: web_stage_def Let_def asks_for_page_def)
  next
    case False
    then obtain x where "http_reply lib p ?d = Some x" using n by auto
    then show ?thesis using False by (simp add: web_stage_def Let_def split: option.split)
  qed
qed

lemma open_panics:
  "open_stage lib port posture p d = None \<longleftrightarrow>
     continues (greeting_stage lib p d) \<and> asks_for_page port p \<and> header_panics lib p"
  using greeting_shape(2)[of lib p d] web_panics[of lib port posture p]
  by (auto simp: open_stage_def continues_def split: stage.splits)

lemma detection_panics:
  "fst (DetectService lib ip port hostname jarmEnabled otProbe p reg) = None \<longleftrightarrow>
    ot_result otProbe port p = None
    \<or> (ot_result otProbe port p = Some None \<and> pe_connects p
        \<and> continues (greeting_stage lib p (bare unknown_service)) \<and> asks_for_page port p \<and> header_panics lib p)"
proof -
  have "ProbeJARM s a h ds send \<noteq> None" for s a h ds send by (rule ProbeJARM_total)
  then obtain jarm where j: "jarm_of lib jarmEnabled ip port hostname p = Some jarm"
    by (cases "jarm_of lib jarmEnabled ip port hostname p") (auto simp: jarm_of_def split: if_splits dest: ProbeJARM_total[THEN notE])
  have c: "continues (greeting_stage lib p d) = continues (greeting_stage lib p (bare unknown_service))" for d
    by (rule greeting_shape(1))
  show ?thesis
    by (cases "ot_result otProbe port p")
      (auto simp: DetectService_def Let_def j open_panics c[of "bare unknown_service\<lparr>ds_TLS := x, ds_JARM := y\<rparr>" for x y] split: option.splits prod.splits)
qed


subsection \<open>Examples\<close>

definition sample_library :: library where
  "sample_library =
     \<lparr>lb_tls = \<lparr>tl_CipherSuiteName = (\<lambda>_. ''AES''), tl_CurveName = (\<lambda>_. ''X25519''), tl_Insecure = (\<lambda>_. False),
                tl_Sha256 = (\<lambda>_. replicate 32 7)\<rparr>,
      lb_ulower = id, lb_os_order = [''debian''], lb_draws = []\<rparr>"

definition sample_peer :: peer where
  "sample_peer =
     \<lparr>pe_ot = None, pe_dial = Some \<lparr>cs_Version = VersionTLS13, cs_CipherSuite = 0x1301, cs_CurveID = 29, cs_PeerCertificates = []\<rparr>,
      pe_accepts = (\<lambda>v. v = VersionTLS13), pe_hello = (\<lambda>_. None), pe_front = None, pe_path = (\<lambda>_. None), pe_connects = True,
      pe_greeting = [], pe_ssh_written = False, pe_ssh_wire = [], pe_deadline = True, pe_alpn = None,
      pe_response = None, pe_active = None, pe_active1 = None\<rparr>"

theorem detection_keeps_tls_witness:
  "\<exists>d reg1. DetectService sample_library ''10.0.0.1'' 993 [] False True sample_peer Map.empty = (Some d, reg1)
    \<and> ds_TLS d = tls_of sample_library False ''10.0.0.1'' 993 [] sample_peer
    \<and> jarm_of sample_library False ''10.0.0.1'' 993 [] sample_peer = Some (ds_JARM d)
    \<and> reg1 = record_certificate ''10.0.0.1'' 993 (ds_TLS d) (ds_JARM d) Map.empty"
proof -
  have o: "ot_result True 993 sample_peer = Some None"
    by (simp add: ot_result_def probeOTService_def otIdentifiers_def)
  have a: "activeProbe 993 (pe_active sample_peer) (pe_active1 sample_peer) = None" by (simp add: activeProbe_def)
  obtain r reg1 where "DetectService sample_library ''10.0.0.1'' 993 [] False True sample_peer Map.empty = (r, reg1)" by force
  moreover have "r \<noteq> None"
    using detection_panics[of sample_library "''10.0.0.1''" 993 "[]" False True sample_peer Map.empty] o calculation
    by (auto simp: asks_for_page_def isWebPort_def)
  ultimately obtain d where d: "DetectService sample_library ''10.0.0.1'' 993 [] False True sample_peer Map.empty = (Some d, reg1)" by auto
  show ?thesis using detection_keeps_tls[OF d _ a] o d by blast
qed

text \<open>A port that completes a TLS handshake and then answers the plain-text probe of its number, as
  a port multiplexer does, is reported without the TLS findings made before.\<close>

definition multiplexed :: peer where
  "multiplexed = sample_peer\<lparr>pe_active := Some (bytes_of ''-ERR unknown'')\<rparr>"

theorem active_probe_drops_tls:
  "tls_of sample_library True ''10.0.0.1'' 6379 [] multiplexed \<noteq> None
   \<and> map_option ds_TLS (fst (DetectService sample_library ''10.0.0.1'' 6379 [] True False multiplexed Map.empty)) = Some None"
proof -
  have t: "tls_of sample_library True ''10.0.0.1'' 6379 [] multiplexed \<noteq> None"
    by (simp add: tls_of_def probeTLS_def multiplexed_def sample_peer_def)
  obtain info where i: "probeRedis (Some (bytes_of ''-ERR unknown'')) = Some info"
    by (simp add: probeRedis_def read_reply_def Let_def has_prefix_def)
  obtain jarm where j: "jarm_of sample_library True ''10.0.0.1'' 6379 [] multiplexed = Some jarm"
    by (cases "jarm_of sample_library True ''10.0.0.1'' 6379 [] multiplexed")
      (auto simp: jarm_of_def split: if_splits dest: ProbeJARM_total[THEN notE])
  have o: "open_stage sample_library 6379 None multiplexed ((bare unknown_service)\<lparr>ds_TLS := x, ds_JARM := jarm\<rparr>) = Some (bare info)" for x
    using i by (simp add: open_stage_def greeting_stage_def web_stage_def isWebPort_def last_stage_def activeProbe_def
        multiplexed_def sample_peer_def bare_def unknown_service_def service_def detection.defs ServiceInfo.defs)
  have c: "pe_connects multiplexed" by (simp add: multiplexed_def sample_peer_def)
  have "fst (DetectService sample_library ''10.0.0.1'' 6379 [] True False multiplexed Map.empty) = Some (bare info)"
    using o c by (simp add: DetectService_def ot_result_def Let_def j isWebPort_def)
  then show ?thesis using t by (simp add: bare_def detection.defs ServiceInfo.defs)
qed

end
