(* ===== verification/Output.thy ===== *)
theory Output
  imports Detect Dualstack Vulns
begin

text \<open>
  \<open>internal/output\<close>: the grouping of the results by address and the contents of the report files:
  grepable, normal, the leet variant, the XML ports and the SARIF log.  Encoding of the XML and JSON
  values and writing the file are the standard library's; the text of a duration and of a score with
  one decimal are arguments.
\<close>

subsection \<open>Results\<close>

text \<open>The result with the parts that only reports read.\<close>

record full_result = TargetResult +
  fr_TLS :: "TLSInfo option"
  fr_JARM :: "(string \<times> string) option"
  fr_HTTPPosture :: "HTTPPostureInfo option"
  fr_DualStack :: "DualStackInfo option"

record 'r hostResults =
  hr_IP :: string
  hr_Results :: "'r list"

definition result_ip :: "string \<Rightarrow> 'a TargetResult_scheme \<Rightarrow> string" where
  "result_ip target r = (if res_IP r = [] then target else res_IP r)"

text \<open>The map from an address to its index in the list of hosts.\<close>

definition group_step ::
  "string \<Rightarrow> 'a TargetResult_scheme \<Rightarrow> 'a TargetResult_scheme hostResults list \<times> (string \<rightharpoonup> nat)
    \<Rightarrow> 'a TargetResult_scheme hostResults list \<times> (string \<rightharpoonup> nat)" where
  "group_step target r st =
     (case st of (hosts, indexByIP) \<Rightarrow>
        (let ip = result_ip target r;
             (hosts1, idx, index1) =
               (case indexByIP ip of
                  Some i \<Rightarrow> (hosts, i, indexByIP)
                | None \<Rightarrow> (hosts @ [\<lparr>hr_IP = ip, hr_Results = []\<rparr>], length hosts, indexByIP(ip \<mapsto> length hosts)))
         in (hosts1[idx := (hosts1 ! idx)\<lparr>hr_Results := hr_Results (hosts1 ! idx) @ [r]\<rparr>], index1)))"

definition groupByIP :: "string \<Rightarrow> 'a TargetResult_scheme list \<Rightarrow> 'a TargetResult_scheme hostResults list" where
  "groupByIP target results = fst (fold (group_step target) results ([], Map.empty))"

subsection \<open>Text reports\<close>

abbreviation newline :: string where "newline \<equiv> [CHR 0x0A]"
abbreviation tab :: string where "tab \<equiv> [CHR 0x09]"

definition service_or_unknown :: "'a TargetResult_scheme \<Rightarrow> string" where
  "service_or_unknown r = (if res_Service r = [] then ''unknown'' else res_Service r)"

definition grepable_port :: "'a TargetResult_scheme \<Rightarrow> string" where
  "grepable_port r = itoa (res_Port r) @ ''/'' @ to_lower (res_State r) @ ''/tcp//'' @ service_or_unknown r @ ''///''"

definition ExportGrepable :: "string \<Rightarrow> 'a TargetResult_scheme list \<Rightarrow> string \<Rightarrow> string" where
  "ExportGrepable target results duration =
     (let hosts = groupByIP target results in
      ''# tcpcat 5.0 scan report for '' @ target @ newline
      @ concat (map (\<lambda>h. ''Host: '' @ hr_IP h @ '' ()'' @ tab @ ''Ports: '' @ join_str '', '' (map grepable_port (hr_Results h))
                        @ tab @ ''Status: Up'' @ newline) hosts)
      @ ''# tcpcat done -- '' @ itoa (int (length hosts)) @ '' IP '' @ (if length hosts = 1 then ''address'' else ''addresses'')
      @ '' scanned in '' @ duration @ newline)"

text \<open>The verb \<open>%-10s\<close>; the text is ASCII.\<close>

definition pad_right :: "nat \<Rightarrow> string \<Rightarrow> string" where "pad_right n s = s @ replicate (n - length s) (CHR '' '')"

definition normal_line :: "string \<Rightarrow> string \<Rightarrow> string \<Rightarrow> string \<Rightarrow> string" where
  "normal_line a b c d = pad_right 10 a @ '' '' @ pad_right 10 b @ '' '' @ pad_right 15 c @ '' '' @ d @ newline"

definition ExportNormal :: "string \<Rightarrow> 'a TargetResult_scheme list \<Rightarrow> string \<Rightarrow> string" where
  "ExportNormal target results duration =
     ''# tcpcat 5.0 scan report for '' @ target @ newline @ ''# Scan completed in '' @ duration @ newline
     @ concat (map (\<lambda>h. newline @ ''Host: '' @ hr_IP h @ newline @ normal_line ''PORT'' ''STATE'' ''SERVICE'' ''BANNER''
                       @ replicate 51 (CHR ''-'') @ newline
                       @ concat (map (\<lambda>r. normal_line (itoa (res_Port r) @ ''/tcp'') (res_State r) (service_or_unknown r) (res_Banner r))
                                  (hr_Results h)))
               (groupByIP target results))"

definition leet_char :: "char \<Rightarrow> char" where
  "leet_char c =
     (case map_of [(CHR ''a'', CHR ''4''), (CHR ''A'', CHR ''4''), (CHR ''e'', CHR ''3''), (CHR ''E'', CHR ''3''),
                   (CHR ''i'', CHR ''1''), (CHR ''I'', CHR ''1''), (CHR ''o'', CHR ''0''), (CHR ''O'', CHR ''0''),
                   (CHR ''s'', CHR ''5''), (CHR ''S'', CHR ''5''), (CHR ''t'', CHR ''7''), (CHR ''T'', CHR ''7'')] c of
        None \<Rightarrow> c | Some d \<Rightarrow> d)"

definition toLeet :: "string \<Rightarrow> string" where "toLeet s = map leet_char s"

definition ExportScriptKiddie :: "string \<Rightarrow> 'a TargetResult_scheme list \<Rightarrow> string \<Rightarrow> string" where
  "ExportScriptKiddie target results duration =
     toLeet (''tcpcat scan report for '' @ target @ newline @ ''Completed in '' @ duration @ newline
       @ concat (map (\<lambda>h. newline @ ''Host '' @ hr_IP h @ newline
            @ concat (map (\<lambda>r. ''Port '' @ itoa (res_Port r) @ ''/tcp is '' @ res_State r @ '' ('' @ res_Service r @ '')'' @ newline) (hr_Results h)))
          (groupByIP target results)))"

subsection \<open>XML\<close>

record XMLState = xs_State :: string  xs_Reason :: string
record XMLService = xv_Name :: string  xv_Banner :: string  xv_Version :: string  xv_OSType :: string
record XMLTLS =
  xt_Version :: string  xt_CipherSuite :: string  xt_PQCGroup :: string  xt_PQCReady :: bool  xt_CertSubject :: string
  xt_CertIssuer :: string  xt_CertExpiresAt :: string  xt_SelfSigned :: bool  xt_Weak :: bool  xt_Warnings :: "string list"
record XMLHTTPPosture = xh_MissingHeaders :: "string list"  xh_ExposedPaths :: "string list"
record XMLVulnerability = xu_ID :: string  xu_CVSS :: rat  xu_Severity :: string  xu_Title :: string
record XMLPort =
  xp_PortID :: int
  xp_Protocol :: string
  xp_State :: XMLState
  xp_Service :: "XMLService option"
  xp_TLS :: "XMLTLS option"
  xp_JARM :: string
  xp_HTTPPosture :: "XMLHTTPPosture option"
  xp_Vulnerabilities :: "XMLVulnerability list option"

definition buildXMLPort :: "full_result \<Rightarrow> XMLPort" where
  "buildXMLPort r =
     \<lparr>xp_PortID = res_Port r, xp_Protocol = ''tcp'',
      xp_State = \<lparr>xs_State = to_lower (res_State r), xs_Reason = res_Reason r\<rparr>,
      xp_Service = (if res_Service r \<noteq> [] \<or> res_Banner r \<noteq> [] \<or> res_Version r \<noteq> [] \<or> res_OS r \<noteq> []
                    then Some \<lparr>xv_Name = res_Service r, xv_Banner = res_Banner r, xv_Version = res_Version r, xv_OSType = res_OS r\<rparr>
                    else None),
      xp_TLS = map_option (\<lambda>t. \<lparr>xt_Version = ti_Version t, xt_CipherSuite = ti_CipherSuite t, xt_PQCGroup = ti_PQCGroup t,
                 xt_PQCReady = ti_PQCReady t, xt_CertSubject = ti_CertSubject t, xt_CertIssuer = ti_CertIssuer t,
                 xt_CertExpiresAt = ti_CertExpiresAt t, xt_SelfSigned = ti_SelfSigned t, xt_Weak = ti_Weak t,
                 xt_Warnings = ti_Warnings t\<rparr>) (fr_TLS r),
      xp_JARM = (case fr_JARM r of None \<Rightarrow> [] | Some (h, l) \<Rightarrow> h),
      xp_HTTPPosture = map_option (\<lambda>h. \<lparr>xh_MissingHeaders = hp_MissingHeaders h, xh_ExposedPaths = hp_ExposedPaths h\<rparr>) (fr_HTTPPosture r),
      xp_Vulnerabilities = (if res_Vulnerabilities r = [] then None
         else Some (map (\<lambda>v. \<lparr>xu_ID = vuln_ID v, xu_CVSS = vuln_CVSS v, xu_Severity = vuln_Severity v, xu_Title = vuln_Title v\<rparr>)
                        (res_Vulnerabilities r)))\<rparr>"

definition xml_hosts :: "string \<Rightarrow> full_result list \<Rightarrow> (string \<times> XMLPort list) list" where
  "xml_hosts target results = map (\<lambda>h. (hr_IP h, map buildXMLPort (hr_Results h))) (groupByIP target results)"

subsection \<open>SARIF\<close>

record sarifResult =
  sr_RuleID :: string
  sr_Level :: string
  sr_Message :: string
  sr_URI :: string

definition location_uri :: "full_result \<Rightarrow> string" where
  "location_uri r = ''tcp://'' @ join_host_port (res_IP r) (itoa (res_Port r))"

type_synonym sarif_entry = "(string \<times> string) \<times> sarifResult"

definition dual_stack_entries :: "full_result \<Rightarrow> sarif_entry list" where
  "dual_stack_entries r =
     (case fr_DualStack r of
        None \<Rightarrow> []
      | Some ds \<Rightarrow>
          if ds_Gap ds \<noteq> IPv6Only then []
          else [((''DUAL-STACK-IPV6-ONLY'', ''Port reachable over IPv6 but not over IPv4 (IPv4-only firewall rules)''),
                 \<lparr>sr_RuleID = ''DUAL-STACK-IPV6-ONLY'', sr_Level = (if ds_Sensitive ds then ''error'' else ''warning''),
                  sr_Message = ''Port '' @ itoa (res_Port r) @ '' of '' @ ds_Name ds @ '' is open on '' @ res_IP r
                    @ '' but not on its IPv4 address '' @ ds_Counterpart ds,
                  sr_URI = location_uri r\<rparr>)])"

definition sarif_port :: "full_result \<Rightarrow> sarif_entry" where
  "sarif_port r =
     ((''OPEN-PORT-'' @ itoa (res_Port r), ''Open TCP port '' @ itoa (res_Port r)),
      \<lparr>sr_RuleID = ''OPEN-PORT-'' @ itoa (res_Port r), sr_Level = ''warning'',
       sr_Message = ''Open TCP port '' @ itoa (res_Port r) @ '' on '' @ res_IP r, sr_URI = location_uri r\<rparr>)"

definition vulnerability_entry :: "(rat \<Rightarrow> string) \<Rightarrow> full_result \<Rightarrow> Vulnerability \<Rightarrow> sarif_entry" where
  "vulnerability_entry score r v =
     ((vuln_ID v, vuln_Title v),
      \<lparr>sr_RuleID = vuln_ID v, sr_Level = (if vuln_CVSS v \<ge> 7 then ''error'' else ''warning''),
       sr_Message = vuln_Title v @ '' (CVSS '' @ score (vuln_CVSS v) @ '') on '' @ res_IP r @ '':'' @ itoa (res_Port r),
       sr_URI = location_uri r\<rparr>)"

definition result_entries :: "(rat \<Rightarrow> string) \<Rightarrow> full_result \<Rightarrow> sarif_entry list" where
  "result_entries score r =
     (if res_State r \<noteq> StateOpen then []
      else dual_stack_entries r
        @ (if res_Vulnerabilities r = [] then [sarif_port r] else map (vulnerability_entry score r) (res_Vulnerabilities r)))"

text \<open>The results in order and the rules as a map; the order of the rules in the file is the order
  in which Go iterates that map.\<close>

definition ExportSARIF :: "(rat \<Rightarrow> string) \<Rightarrow> full_result list \<Rightarrow> sarifResult list \<times> (string \<rightharpoonup> string)" where
  "ExportSARIF score results =
     (let es = concat (map (result_entries score) results) in
      (map snd es, fold (\<lambda>(k, d) m. m(k \<mapsto> d)) (map fst es) Map.empty))"

subsection \<open>The HTML report\<close>

record htmlVuln =
  hv_ID :: string  hv_CVSS :: string  hv_Severity :: string  hv_KEV :: bool  hv_EPSS :: string  hv_Title :: string
  hv_NotApplicable :: bool

record htmlPort = ht_Port :: string  ht_Service :: string  ht_Version :: string  ht_OS :: string  ht_LatencyMs :: string
  ht_Vulns :: "htmlVuln list"

record htmlHost = hh_IP :: string  hh_OpenPorts :: nat  hh_Ports :: "htmlPort list"

record htmlSevCount = hc_Severity :: string  hc_Class :: string  hc_Count :: nat

record htmlReport =
  hm_HostCount :: nat
  hm_OpenCount :: nat
  hm_CVECount :: nat
  hm_SevCounts :: "htmlSevCount list"
  hm_Hosts :: "htmlHost list"

definition html_rank :: "string \<Rightarrow> nat" where
  "html_rank s =
     (let l = to_lower s in
      if l = ''critical'' then 0 else if l = ''high'' then 1 else if l = ''medium'' then 2 else if l = ''low'' then 3 else 4)"

text \<open>\<open>score\<close> writes a number with one decimal.\<close>

definition html_vuln :: "(rat \<Rightarrow> string) \<Rightarrow> Vulnerability \<Rightarrow> htmlVuln" where
  "html_vuln score v =
     \<lparr>hv_ID = vuln_ID v, hv_CVSS = score (vuln_CVSS v),
      hv_Severity = (if vuln_Severity v = [] then SeverityForCVSS (vuln_CVSS v) else vuln_Severity v),
      hv_KEV = vuln_KnownExploited v, hv_EPSS = (if vuln_EPSS v > 0 then score (vuln_EPSS v * 100) @ ''%'' else []),
      hv_Title = vuln_Title v, hv_NotApplicable = (vuln_Applicability v \<noteq> [])\<rparr>"

definition html_port :: "(rat \<Rightarrow> string) \<Rightarrow> (int \<Rightarrow> string) \<Rightarrow> 'a TargetResult_scheme \<Rightarrow> htmlPort" where
  "html_port score ms r =
     \<lparr>ht_Port = itoa (res_Port r) @ ''/tcp'', ht_Service = service_or_unknown r, ht_Version = res_Version r, ht_OS = res_OS r,
      ht_LatencyMs = ms (res_Latency r) @ '' ms'', ht_Vulns = map (html_vuln score) (res_Vulnerabilities r)\<rparr>"

definition open_results :: "'a TargetResult_scheme list \<Rightarrow> 'a TargetResult_scheme list" where
  "open_results rs = filter (\<lambda>r. res_State r = StateOpen) rs"

definition html_host :: "(rat \<Rightarrow> string) \<Rightarrow> (int \<Rightarrow> string) \<Rightarrow> 'a TargetResult_scheme hostResults \<Rightarrow> htmlHost" where
  "html_host score ms h =
     (let os = open_results (hr_Results h) in
      \<lparr>hh_IP = hr_IP h, hh_OpenPorts = length os, hh_Ports = map (html_port score ms) os\<rparr>)"

definition severity_counts :: "htmlVuln list \<Rightarrow> (string \<rightharpoonup> nat)" where
  "severity_counts vs =
     fold (\<lambda>v m. let s = to_lower (hv_Severity v) in m(s \<mapsto> (case m s of None \<Rightarrow> 1 | Some n \<Rightarrow> n + 1)))
       (filter (\<lambda>v. \<not> hv_NotApplicable v) vs) Map.empty"

text \<open>\<open>order\<close> is the order in which Go iterates the map of counts.\<close>

definition buildHTMLReport ::
  "(rat \<Rightarrow> string) \<Rightarrow> (int \<Rightarrow> string) \<Rightarrow> string list \<Rightarrow> string \<Rightarrow> 'a TargetResult_scheme list \<Rightarrow> htmlReport" where
  "buildHTMLReport score ms order target results =
     (let hosts = map (html_host score ms) (groupByIP target results);
          vs = concat (map ht_Vulns (concat (map hh_Ports hosts)));
          counts = severity_counts vs
      in \<lparr>hm_HostCount = length (filter (\<lambda>h. hh_OpenPorts h > 0) hosts),
          hm_OpenCount = sum_list (map hh_OpenPorts hosts),
          hm_CVECount = length vs,
          hm_SevCounts = sort_by (\<lambda>a b. html_rank (hc_Severity a) < html_rank (hc_Severity b))
            (map (\<lambda>s. \<lparr>hc_Severity = s, hc_Class = ''sev-'' @ s, hc_Count = the (counts s)\<rparr>) (filter (\<lambda>s. counts s \<noteq> None) order)),
          hm_Hosts = filter (\<lambda>h. hh_OpenPorts h > 0) hosts\<rparr>)"

subsection \<open>The grouping keeps everything\<close>

definition group_spec :: "string \<Rightarrow> 'a TargetResult_scheme list \<Rightarrow> 'a TargetResult_scheme hostResults list" where
  "group_spec target rs =
     map (\<lambda>ip. \<lparr>hr_IP = ip, hr_Results = filter (\<lambda>r. result_ip target r = ip) rs\<rparr>) (dedup (map (result_ip target) rs))"

definition index_ok :: "'a hostResults list \<Rightarrow> (string \<rightharpoonup> nat) \<Rightarrow> bool" where
  "index_ok hosts index \<longleftrightarrow> (\<forall>ip i. index ip = Some i \<longleftrightarrow> i < length hosts \<and> hr_IP (hosts ! i) = ip)"

lemma index_ok_ips: "map hr_IP hs = map hr_IP hs' \<Longrightarrow> index_ok hs index = index_ok hs' index"
proof -
  assume e: "map hr_IP hs = map hr_IP hs'"
  then have l: "length hs = length hs'" by (rule map_eq_imp_length_eq)
  moreover have "i < length hs \<Longrightarrow> hr_IP (hs ! i) = hr_IP (hs' ! i)" for i using e l by (metis nth_map)
  ultimately show ?thesis by (auto simp: index_ok_def)
qed

lemma group_spec_ips: "map hr_IP (group_spec target rs) = dedup (map (result_ip target) rs)"
  by (simp add: group_spec_def comp_def)

lemma group_fold: "\<exists>index. fold (group_step target) rs ([], Map.empty) = (group_spec target rs, index) \<and> index_ok (group_spec target rs) index"
proof (induction rs rule: rev_induct)
  case Nil
  show ?case by (simp add: group_spec_def dedup_def index_ok_def)
next
  case (snoc r rs)
  let ?ip = "result_ip target r" and ?hs = "group_spec target rs"
  let ?ips = "dedup (map (result_ip target) rs)"
  obtain index where ih: "fold (group_step target) rs ([], Map.empty) = (?hs, index)" "index_ok ?hs index" using snoc by blast
  have len: "length ?hs = length ?ips" by (simp add: group_spec_def)
  have nth: "i < length ?ips \<Longrightarrow> ?hs ! i = \<lparr>hr_IP = ?ips ! i, hr_Results = filter (\<lambda>r. result_ip target r = ?ips ! i) rs\<rparr>" for i
    by (simp add: group_spec_def)
  show ?case
  proof (cases "?ip \<in> set (map (result_ip target) rs)")
    case True
    then obtain i where i: "i < length ?ips" "?ips ! i = ?ip" by (metis set_dedup in_set_conv_nth)
    then have ix: "index ?ip = Some i" using ih(2) nth len by (simp add: index_ok_def)
    have st: "fold (group_step target) (rs @ [r]) ([], Map.empty)
        = (?hs[i := (?hs ! i)\<lparr>hr_Results := hr_Results (?hs ! i) @ [r]\<rparr>], index)"
      by (simp add: ih(1) group_step_def ix Let_def)
    have d: "dedup (map (result_ip target) (rs @ [r])) = ?ips" using True by (simp add: dedup_snoc)
    have dist: "distinct ?ips" by simp
    have "?hs[i := (?hs ! i)\<lparr>hr_Results := hr_Results (?hs ! i) @ [r]\<rparr>] = group_spec target (rs @ [r])"
    proof (rule nth_equalityI)
      show "length (?hs[i := (?hs ! i)\<lparr>hr_Results := hr_Results (?hs ! i) @ [r]\<rparr>]) = length (group_spec target (rs @ [r]))"
        unfolding group_spec_def d by simp
    next
      fix j
      assume "j < length (?hs[i := (?hs ! i)\<lparr>hr_Results := hr_Results (?hs ! i) @ [r]\<rparr>])"
      then have j: "j < length ?ips" using len by simp
      have e: "group_spec target (rs @ [r]) ! j = \<lparr>hr_IP = ?ips ! j, hr_Results = filter (\<lambda>r. result_ip target r = ?ips ! j) (rs @ [r])\<rparr>"
        unfolding group_spec_def d using j by simp
      show "?hs[i := (?hs ! i)\<lparr>hr_Results := hr_Results (?hs ! i) @ [r]\<rparr>] ! j = group_spec target (rs @ [r]) ! j"
        unfolding e using j i len nth[OF j] nth_eq_iff_index_eq[OF dist i(1) j]
        by (cases "j = i") (auto simp: nth_list_update)
    qed
    moreover have "index_ok (group_spec target (rs @ [r])) index"
      using ih(2) index_ok_ips[of "group_spec target (rs @ [r])" ?hs index] by (simp only: group_spec_ips d)
    ultimately show ?thesis using st by auto
  next
    case False
    have ix: "index ?ip = None"
    proof (cases "index ?ip")
      case (Some i)
      then have "i < length ?ips" "?ips ! i = ?ip" using ih(2) nth len by (auto simp: index_ok_def)
      then have "?ip \<in> set ?ips" by (metis nth_mem)
      then show ?thesis using False by simp
    qed
    have d: "dedup (map (result_ip target) (rs @ [r])) = ?ips @ [?ip]" using False by (simp add: dedup_snoc)
    have empty: "filter (\<lambda>x. result_ip target x = ?ip) rs = []" using False by (auto simp: filter_empty_conv image_iff)
    have st: "fold (group_step target) (rs @ [r]) ([], Map.empty)
        = (?hs @ [\<lparr>hr_IP = ?ip, hr_Results = [r]\<rparr>], index(?ip \<mapsto> length ?hs))"
      by (simp add: ih(1) group_step_def ix Let_def)
    have old: "map (\<lambda>ip. \<lparr>hr_IP = ip, hr_Results = filter (\<lambda>x. result_ip target x = ip) (rs @ [r])\<rparr>) ?ips = ?hs"
      unfolding group_spec_def using False by (auto simp: image_iff)
    have g: "group_spec target (rs @ [r]) = ?hs @ [\<lparr>hr_IP = ?ip, hr_Results = [r]\<rparr>]"
      unfolding group_spec_def[of target "rs @ [r]"] d unfolding map_append old by (simp add: empty)
    have "index_ok (?hs @ [\<lparr>hr_IP = ?ip, hr_Results = [r]\<rparr>]) (index(?ip \<mapsto> length ?hs))"
    proof -
      have fresh: "i < length ?hs \<Longrightarrow> hr_IP (?hs ! i) \<noteq> ?ip" for i
        using ih(2) ix by (metis index_ok_def option.distinct(1))
      have old_ix: "index a = Some i \<longleftrightarrow> i < length ?hs \<and> hr_IP (?hs ! i) = a" for a i
        using ih(2) by (simp add: index_ok_def)
      show ?thesis using fresh by (auto simp: index_ok_def old_ix nth_append less_Suc_eq)
    qed
    then show ?thesis using st g by auto
  qed
qed

lemma mset_by_key:
  "distinct ips \<Longrightarrow> mset (concat (map (\<lambda>ip. filter (\<lambda>r. f r = ip) rs) ips)) = mset (filter (\<lambda>r. f r \<in> set ips) rs)"
proof (induction ips)
  case (Cons ip ips)
  then have ih: "mset (concat (map (\<lambda>ip. filter (\<lambda>r. f r = ip) rs) ips)) = mset (filter (\<lambda>r. f r \<in> set ips) rs)" by simp
  have "ip \<notin> set ips" using Cons.prems by simp
  then have "mset (filter (\<lambda>r. f r = ip) xs) + mset (filter (\<lambda>r. f r \<in> set ips) xs) = mset (filter (\<lambda>r. f r \<in> set (ip # ips)) xs)" for xs
    by (induction xs) auto
  then show ?case using ih by simp
qed simp

lemma groups_mset: "mset (concat (map hr_Results (groupByIP target results))) = mset results"
proof -
  have g: "groupByIP target results = group_spec target results"
    using group_fold[of target results] by (auto simp: groupByIP_def)
  have "mset (concat (map hr_Results (group_spec target results)))
      = mset (filter (\<lambda>r. result_ip target r \<in> set (dedup (map (result_ip target) results))) results)"
    using mset_by_key[of "dedup (map (result_ip target) results)" "result_ip target" results]
    by (simp add: group_spec_def comp_def)
  then show ?thesis unfolding g by (simp add: filter_id_conv[THEN iffD2])
qed

text \<open>C40: the reports list every address once, in the order of its first result, with exactly its
  results in the order of the scan; a result without an address counts for the target.\<close>

theorem reports_group_by_address:
  "groupByIP target results = group_spec target results
   \<and> distinct (map hr_IP (groupByIP target results))
   \<and> mset (concat (map hr_Results (groupByIP target results))) = mset results"
proof -
  have "groupByIP target results = group_spec target results"
    using group_fold[of target results] by (auto simp: groupByIP_def)
  then show ?thesis using groups_mset[of target results] by (simp add: group_spec_ips)
qed

subsection \<open>The SARIF log\<close>

lemma fold_rules: "fold (\<lambda>(k, d) m. m(k \<mapsto> d)) kds m k = (case map_of (rev kds) k of None \<Rightarrow> m k | Some d \<Rightarrow> Some d)"
  by (induction kds arbitrary: m) (auto simp: map_add_def split: option.splits)

lemma rules_dom: "dom (fold (\<lambda>(k, d) m. m(k \<mapsto> d)) kds Map.empty) = fst ` set kds"
proof -
  have "fold (\<lambda>(k, d) m. m(k \<mapsto> d)) kds Map.empty = map_of (rev kds)"
    by (rule ext) (simp add: fold_rules split: option.split)
  then show ?thesis by (simp add: dom_map_of_conv_image_fst)
qed

lemma entry_rule: "e \<in> set (result_entries score r) \<Longrightarrow> fst (fst e) = sr_RuleID (snd e)"
  by (auto simp: result_entries_def dual_stack_entries_def sarif_port_def vulnerability_entry_def split: if_splits option.splits)

definition expected_results :: "full_result \<Rightarrow> nat" where
  "expected_results r =
     (if res_State r \<noteq> StateOpen then 0
      else (case fr_DualStack r of None \<Rightarrow> 0 | Some ds \<Rightarrow> if ds_Gap ds = IPv6Only then 1 else 0)
        + max 1 (length (res_Vulnerabilities r)))"

lemma entries_length: "length (result_entries score r) = expected_results r"
  by (cases "res_Vulnerabilities r")
    (auto simp: result_entries_def dual_stack_entries_def expected_results_def split: option.split)

text \<open>The SARIF log declares exactly the rules its results name, and reports every open port: a
  result for each of its vulnerabilities, or one for the port without any, and one more for a port
  open over IPv6 only; no closed port is in it.\<close>

theorem sarif_rules_and_results:
  "dom (snd (ExportSARIF score results)) = sr_RuleID ` set (fst (ExportSARIF score results))
   \<and> length (fst (ExportSARIF score results)) = sum_list (map expected_results results)
   \<and> (fst (ExportSARIF score results) = [] \<longleftrightarrow> filter (\<lambda>r. res_State r = StateOpen) results = [])"
proof -
  let ?es = "concat (map (result_entries score) results)"
  have r: "fst ` fst ` set ?es = sr_RuleID ` snd ` set ?es"
    using entry_rule by (force simp: image_iff)
  have l: "length ?es = sum_list (map expected_results results)"
    by (simp add: length_concat entries_length comp_def)
  have z: "expected_results x = 0 \<longleftrightarrow> res_State x \<noteq> StateOpen" for x
    by (simp add: expected_results_def)
  have e: "?es = [] \<longleftrightarrow> filter (\<lambda>r. res_State r = StateOpen) results = []"
    using z entries_length[of score] by (auto simp: filter_empty_conv) (metis length_0_conv)+
  show ?thesis
    using r l e by (simp add: ExportSARIF_def Let_def rules_dom)
qed

subsection \<open>The totals of the HTML report\<close>

lemma sum_length_mset: "mset xs = mset ys \<Longrightarrow> sum_list (map f xs) = (sum_list (map f ys) :: nat)"
  by (metis mset_map sum_mset_sum_list)

text \<open>The totals count every open port and every vulnerability of one, whatever the address.\<close>

theorem html_totals:
  "hm_OpenCount (buildHTMLReport score ms order target results) = length (open_results results)
   \<and> hm_CVECount (buildHTMLReport score ms order target results) = sum_list (map (length \<circ> res_Vulnerabilities) (open_results results))"
proof -
  let ?gs = "groupByIP target results"
  have o: "open_results (concat (map hr_Results ?gs)) = concat (map (open_results \<circ> hr_Results) ?gs)"
    by (simp add: open_results_def filter_concat comp_def)
  have m: "mset (open_results (concat (map hr_Results ?gs))) = mset (open_results results)"
    unfolding open_results_def mset_filter groups_mset ..
  have "sum_list (map hh_OpenPorts (map (html_host score ms) ?gs)) = length (open_results (concat (map hr_Results ?gs)))"
    unfolding o by (simp add: length_concat comp_def html_host_def Let_def)
  also have "\<dots> = length (open_results results)" using m by (rule mset_eq_length)
  finally have c1: "sum_list (map hh_OpenPorts (map (html_host score ms) ?gs)) = length (open_results results)" .
  have "concat (map hh_Ports (map (html_host score ms) ?gs)) = map (html_port score ms) (open_results (concat (map hr_Results ?gs)))"
    unfolding o by (simp add: map_concat comp_def html_host_def Let_def)
  then have "length (concat (map ht_Vulns (concat (map hh_Ports (map (html_host score ms) ?gs)))))
      = sum_list (map (length \<circ> res_Vulnerabilities) (open_results (concat (map hr_Results ?gs))))"
    by (simp only: length_concat map_map) (simp add: comp_def html_port_def)
  also have "\<dots> = sum_list (map (length \<circ> res_Vulnerabilities) (open_results results))"
    using m by (rule sum_length_mset)
  finally show ?thesis using c1 by (simp add: buildHTMLReport_def Let_def)
qed

end
