(* ===== verification/Spec2Isabelle.thy ===== *)
theory Spec2Isabelle
  imports Permute Ports Targets RandomGen Config RateControl Pacer OTGuard Results Checkpoint OsDetect Frames
    Waiters UdpProbes Fragment Dispatch Engine Vulns Drift Remediate Policy Dualstack Evidence Baseline Output
begin

text \<open>
  Verification development for tcpcat, a TCP/UDP scanner written in Go.
\<close>

end
